(* ===== verification/Prelude.thy ===== *)
theory Prelude
  imports Main "HOL-Library.AList" "HOL-Library.Word"
begin

text \<open>
  Shared ground of the development: the collections of hints the component theories
  extend, generic facts on lists and options, and the JavaScript property store.

  A JavaScript object used as a dictionary (\<open>{}\<close>, \<open>Object.create(null)\<close>) and a
  JavaScript \<open>Map\<close> both keep their entries in insertion order and overwrite in place.
  Both are modelled by an association list: reading is \<^const>\<open>map_of\<close>, writing is
  \<^const>\<open>AList.update\<close> (in place when the key is there, appended otherwise), deleting is
  \<^const>\<open>AList.delete\<close>, \<open>Object.keys\<close> is \<open>map fst\<close>. (The engine's rule that
  integer-like keys come first is not modelled: no key of the code modelled here is one.)
  The contract that the clients of such a store rely on is the locale \<open>prop_store\<close>.
\<close>

named_theorems js_eval \<open>equations that evaluate the JavaScript library functions\<close>
named_theorems frame \<open>fields an operation leaves alone\<close>
named_theorems wf_intros \<open>introduction rules of the well-formedness invariants\<close>

subsection \<open>Errors as values\<close>

datatype js_error = RangeError | TypeError | SyntaxErr | GenericError string

abbreviation (input) ok :: "'a \<Rightarrow> js_error + 'a" where
  "ok \<equiv> Inr"

abbreviation (input) throw :: "js_error \<Rightarrow> js_error + 'a" where
  "throw \<equiv> Inl"

definition try_then :: "js_error + 'a \<Rightarrow> ('a \<Rightarrow> js_error + 'b) \<Rightarrow> js_error + 'b" where
  "try_then r f = (case r of Inl e \<Rightarrow> Inl e | Inr x \<Rightarrow> f x)"

lemma try_then_simps [simp]:
  "try_then (Inl e) f = Inl e"
  "try_then (Inr x) f = f x"
  by (simp_all add: try_then_def)

lemma try_then_eq_Inr: "try_then r f = Inr y \<longleftrightarrow> (\<exists>x. r = Inr x \<and> f x = Inr y)"
  by (cases r) auto

subsection \<open>Property stores\<close>

type_synonym 'v obj = "(string \<times> 'v) list"

abbreviation (input) obj_get :: "('k \<times> 'v) list \<Rightarrow> 'k \<Rightarrow> 'v option" where
  "obj_get m k \<equiv> map_of m k"

abbreviation (input) obj_set :: "'k \<Rightarrow> 'v \<Rightarrow> ('k \<times> 'v) list \<Rightarrow> ('k \<times> 'v) list" where
  "obj_set k v m \<equiv> AList.update k v m"

abbreviation (input) obj_del :: "'k \<Rightarrow> ('k \<times> 'v) list \<Rightarrow> ('k \<times> 'v) list" where
  "obj_del k m \<equiv> AList.delete k m"

abbreviation (input) obj_keys :: "('k \<times> 'v) list \<Rightarrow> 'k list" where
  "obj_keys m \<equiv> map fst m"

definition has_own :: "('k \<times> 'v) list \<Rightarrow> 'k \<Rightarrow> bool" where
  "has_own m k = (map_of m k \<noteq> None)"

text \<open>\<open>Object.assign(target, source)\<close> and \<open>new Map(entries)\<close>.\<close>

definition obj_assign :: "('k \<times> 'v) list \<Rightarrow> ('k \<times> 'v) list \<Rightarrow> ('k \<times> 'v) list" where
  "obj_assign target source = fold (\<lambda>(k, v) m. AList.update k v m) source target"

definition new_map :: "('k \<times> 'v) list \<Rightarrow> ('k \<times> 'v) list" where
  "new_map entries = obj_assign [] entries"

lemma has_own_iff: "has_own m k \<longleftrightarrow> k \<in> set (obj_keys m)"
  by (simp add: has_own_def map_of_eq_None_iff)

lemma map_of_obj_set: "map_of (AList.update k v m) = (map_of m)(k \<mapsto> v)"
  by (simp add: update_conv')

lemma map_of_obj_set_same [simp]: "map_of (AList.update k v m) k = Some v"
  by (simp add: map_of_obj_set)

lemma map_of_obj_set_other [simp]: "k' \<noteq> k \<Longrightarrow> map_of (AList.update k v m) k' = map_of m k'"
  by (simp add: map_of_obj_set)

lemma map_of_obj_del: "map_of (AList.delete k m) = (map_of m)(k := None)"
  by (simp add: delete_conv')

lemma map_of_obj_del_simps [simp]:
  "map_of (AList.delete k m) k = None"
  "k' \<noteq> k \<Longrightarrow> map_of (AList.delete k m) k' = map_of m k'"
  by (simp_all add: map_of_obj_del)

lemma has_own_set [simp]: "has_own (AList.update k v m) k' \<longleftrightarrow> k = k' \<or> has_own m k'"
  by (auto simp: has_own_def map_of_obj_set)

lemma has_own_del [simp]: "has_own (AList.delete k m) k' \<longleftrightarrow> k \<noteq> k' \<and> has_own m k'"
  by (auto simp: has_own_def map_of_obj_del)

lemma has_own_Nil [simp]: "\<not> has_own [] k"
  by (simp add: has_own_def)

lemma obj_assign_Nil [simp]: "obj_assign t [] = t"
  by (simp add: obj_assign_def)

lemma obj_assign_Cons [simp]: "obj_assign t ((k, v) # s) = obj_assign (AList.update k v t) s"
  by (simp add: obj_assign_def)

lemma obj_assign_append: "obj_assign t (a @ b) = obj_assign (obj_assign t a) b"
  by (simp add: obj_assign_def)

lemma map_of_obj_assign: "map_of (obj_assign t s) = map_of t ++ map_of (rev s)"
proof (induction s arbitrary: t)
  case Nil
  then show ?case by simp
next
  case (Cons p s)
  then show ?case by (cases p) (auto simp: map_of_obj_set map_add_def fun_eq_iff split: option.splits)
qed

lemma set_update_cases: "x \<in> set (AList.update k v al) \<Longrightarrow> x = (k, v) \<or> x \<in> set al"
  by (induction al) (auto split: if_splits)

lemma distinct_obj_set: "distinct (obj_keys m) \<Longrightarrow> distinct (obj_keys (AList.update k v m))"
  by (rule distinct_update)

lemma distinct_obj_del: "distinct (obj_keys m) \<Longrightarrow> distinct (obj_keys (AList.delete k m))"
  by (rule distinct_delete)

lemma distinct_obj_assign: "distinct (obj_keys t) \<Longrightarrow> distinct (obj_keys (obj_assign t s))"
proof (induction s arbitrary: t)
  case Nil
  then show ?case by simp
next
  case (Cons p s)
  then show ?case by (cases p) (simp add: distinct_update)
qed

lemma distinct_new_map [simp]: "distinct (obj_keys (new_map es))"
  by (simp add: new_map_def distinct_obj_assign)

lemma obj_set_new: "k \<notin> set (obj_keys m) \<Longrightarrow> AList.update k v m = m @ [(k, v)]"
  by (induction m) auto

lemma new_map_distinct: "distinct (obj_keys es) \<Longrightarrow> new_map es = es"
proof -
  have "distinct (obj_keys (t @ es)) \<Longrightarrow> obj_assign t es = t @ es" for t
  proof (induction es arbitrary: t)
    case Nil
    then show ?case by simp
  next
    case (Cons p es)
    obtain k v where p: "p = (k, v)" by (cases p)
    with Cons.prems have "k \<notin> set (obj_keys t)" by auto
    then have "AList.update k v t = t @ [(k, v)]" by (rule obj_set_new)
    with Cons.IH [of "t @ [(k, v)]"] Cons.prems p show ?case by simp
  qed
  from this [of "[]"] show "distinct (obj_keys es) \<Longrightarrow> new_map es = es"
    by (simp add: new_map_def)
qed

text \<open>
  The interface a client of a dictionary relies on. \<open>keep\<close> is the invariant of the
  representation (no key twice), which every operation keeps.
\<close>

locale prop_store =
  fixes empty :: "'s"
    and get :: "'s \<Rightarrow> 'k \<Rightarrow> 'v option"
    and put :: "'k \<Rightarrow> 'v \<Rightarrow> 's \<Rightarrow> 's"
    and del :: "'k \<Rightarrow> 's \<Rightarrow> 's"
    and keep :: "'s \<Rightarrow> bool"
  assumes get_empty: "get empty k = None"
    and get_put_same: "get (put k v s) k = Some v"
    and get_put_other: "k' \<noteq> k \<Longrightarrow> get (put k v s) k' = get s k'"
    and get_del_same: "get (del k s) k = None"
    and get_del_other: "k' \<noteq> k \<Longrightarrow> get (del k s) k' = get s k'"
    and keep_empty: "keep empty"
    and keep_put: "keep s \<Longrightarrow> keep (put k v s)"
    and keep_del: "keep s \<Longrightarrow> keep (del k s)"
begin

lemma get_put: "get (put k v s) k' = (if k' = k then Some v else get s k')"
  by (simp add: get_put_same get_put_other)

lemma get_del: "get (del k s) k' = (if k' = k then None else get s k')"
  by (simp add: get_del_same get_del_other)

text \<open>Moving an entry to the end (delete, then write) changes only that entry.\<close>

lemma get_move: "get (put k v (del k s)) k' = (if k' = k then Some v else get s k')"
  by (simp add: get_put get_del)

lemma keep_move: "keep s \<Longrightarrow> keep (put k v (del k s))"
  by (intro keep_put keep_del)

text \<open>Look up, create when missing: a second lookup finds what the first one left.\<close>

lemma get_or_create:
  assumes "s' = (case get s k of Some _ \<Rightarrow> s | None \<Rightarrow> put k v s)"
  shows "get s' k \<noteq> None"
    and "k' \<noteq> k \<Longrightarrow> get s' k' = get s k'"
    and "get s k = Some w \<Longrightarrow> s' = s"
    and "keep s \<Longrightarrow> keep s'"
  using assms by (auto simp: get_put keep_put split: option.splits)

end

interpretation obj: prop_store "[]" map_of AList.update AList.delete "\<lambda>m. distinct (map fst m)"
  by unfold_locales (auto simp: distinct_update distinct_delete)

subsection \<open>Lists\<close>

lemma fold_preserves:
  assumes "P s" and "\<And>x s. x \<in> set xs \<Longrightarrow> P s \<Longrightarrow> P (f x s)"
  shows "P (fold f xs s)"
  using assms by (induction xs arbitrary: s) auto

lemma take_while_all: "\<forall>x \<in> set xs. P x \<Longrightarrow> takeWhile P xs = xs"
  by (induction xs) auto

lemma take_while_append_neq:
  "\<forall>x \<in> set xs. P x \<Longrightarrow> \<not> P y \<Longrightarrow> takeWhile P (xs @ y # ys) = xs"
  by (induction xs) auto

lemma drop_while_append_neq:
  "\<forall>x \<in> set xs. P x \<Longrightarrow> \<not> P y \<Longrightarrow> dropWhile P (xs @ y # ys) = y # ys"
  by (induction xs) auto

end
