(* ===== verification/JsStrings.thy ===== *)
theory JsStrings
  imports Prelude "HOL-Library.Sublist"
begin

text \<open>
  The part of the JavaScript \<open>String\<close> library the code uses, over \<^typ>\<open>string\<close>. A
  character stands for one UTF-16 code unit below 256 (Latin-1), so \<^const>\<open>length\<close> is
  \<open>.length\<close> and a list position is an index. Numbers are written and read in the radixes
  2 to 36 of \<open>toString(radix)\<close> and \<open>parseInt\<close>.
\<close>

subsection \<open>Searching, slicing, splitting\<close>

definition is_ws :: "char \<Rightarrow> bool" where
  "is_ws c \<longleftrightarrow> of_char c \<in> {9, 10, 11, 12, 13, 32, 160 :: nat}"

definition trim_start :: "string \<Rightarrow> string" where
  "trim_start s = dropWhile is_ws s"

definition trim_end :: "string \<Rightarrow> string" where
  "trim_end s = rev (dropWhile is_ws (rev s))"

definition trim :: "string \<Rightarrow> string" where
  "trim s = trim_end (trim_start s)"

fun index_of :: "char \<Rightarrow> string \<Rightarrow> nat option" where
  "index_of c [] = None"
| "index_of c (x # xs) = (if x = c then Some 0 else map_option Suc (index_of c xs))"

text \<open>\<open>s.indexOf(c, start)\<close>\<close>

definition index_from :: "char \<Rightarrow> string \<Rightarrow> nat \<Rightarrow> nat option" where
  "index_from c s start = map_option ((+) start) (index_of c (drop start s))"

text \<open>\<open>s.slice(a, b)\<close> for non-negative bounds\<close>

definition slice :: "string \<Rightarrow> nat \<Rightarrow> nat \<Rightarrow> string" where
  "slice s a b = take (b - a) (drop a s)"

definition starts_with :: "string \<Rightarrow> string \<Rightarrow> bool" where
  "starts_with p s \<longleftrightarrow> take (length p) s = p"

definition ends_with :: "string \<Rightarrow> string \<Rightarrow> bool" where
  "ends_with p s \<longleftrightarrow> starts_with (rev p) (rev s)"

fun split_on :: "char \<Rightarrow> string \<Rightarrow> string list" where
  "split_on c [] = [[]]"
| "split_on c (x # xs) =
     (if x = c then [] # split_on c xs
      else (x # hd (split_on c xs)) # tl (split_on c xs))"

fun join :: "string \<Rightarrow> string list \<Rightarrow> string" where
  "join sep [] = []"
| "join sep [x] = x"
| "join sep (x # y # ys) = x @ sep @ join sep (y # ys)"

definition pad_start :: "nat \<Rightarrow> char \<Rightarrow> string \<Rightarrow> string" where
  "pad_start n c s = replicate (n - length s) c @ s"

definition pad_end :: "nat \<Rightarrow> char \<Rightarrow> string \<Rightarrow> string" where
  "pad_end n c s = s @ replicate (n - length s) c"

text \<open>\<open>toLowerCase\<close> on Latin-1\<close>

definition lower_char :: "char \<Rightarrow> char" where
  "lower_char c = (let n = (of_char c :: nat) in
     if (65 \<le> n \<and> n \<le> 90) \<or> (192 \<le> n \<and> n \<le> 222 \<and> n \<noteq> 215) then char_of (n + 32) else c)"

definition to_lower :: "string \<Rightarrow> string" where
  "to_lower s = map lower_char s"

lemma split_on_nonempty [simp]: "split_on c s \<noteq> []"
  by (cases s) auto

lemma split_on_no_sep: "c \<notin> set s \<Longrightarrow> split_on c s = [s]"
  by (induction s) auto

lemma split_on_append: "c \<notin> set s \<Longrightarrow> split_on c (s @ c # t) = s # split_on c t"
  by (induction s) auto

lemma split_on_join:
  "xs \<noteq> [] \<Longrightarrow> \<forall>x \<in> set xs. c \<notin> set x \<Longrightarrow> split_on c (join [c] xs) = xs"
proof (induction "[c]" xs rule: join.induct)
  case 1
  then show ?case by simp
next
  case (2 x)
  then show ?case by (simp add: split_on_no_sep)
next
  case (3 x y ys)
  then show ?case by (simp add: split_on_append)
qed

lemma join_split_on: "join [c] (split_on c s) = s"
proof (induction s)
  case Nil
  then show ?case by simp
next
  case (Cons x xs)
  obtain p ps where sp: "split_on c xs = p # ps"
    by (cases "split_on c xs") auto
  with Cons show ?case by (cases ps) auto
qed

lemma split_on_pieces: "x \<in> set (split_on c s) \<Longrightarrow> c \<notin> set x"
proof (induction s arbitrary: x)
  case Nil
  then show ?case by simp
next
  case (Cons a s)
  obtain p ps where sp: "split_on c s = p # ps"
    by (cases "split_on c s") auto
  have "c \<notin> set q" if "q \<in> insert p (set ps)" for q
    using Cons.IH [of q] sp that by auto
  with Cons.prems sp show ?case by (auto split: if_splits)
qed

lemma split_on_subset: "x \<in> set (split_on c s) \<Longrightarrow> set x \<subseteq> set s"
proof (induction s arbitrary: x)
  case Nil
  then show ?case by simp
next
  case (Cons a s)
  obtain p ps where sp: "split_on c s = p # ps"
    by (cases "split_on c s") auto
  have "set q \<subseteq> set s" if "q \<in> insert p (set ps)" for q
    using Cons.IH [of q] sp that by auto
  with Cons.prems sp show ?case by (auto split: if_splits; blast)
qed

lemma index_of_Some_split:
  "index_of c s = Some i \<Longrightarrow> i < length s \<and> s ! i = c \<and> c \<notin> set (take i s)"
proof (induction s arbitrary: i)
  case Nil
  then show ?case by simp
next
  case (Cons x xs)
  then show ?case by (cases i) (auto split: if_splits)
qed

lemma index_of_None: "index_of c s = None \<longleftrightarrow> c \<notin> set s"
  by (induction s) auto

lemma index_of_append: "c \<notin> set s \<Longrightarrow> index_of c (s @ c # t) = Some (length s)"
  by (induction s) auto

lemma index_of_no: "c \<notin> set s \<Longrightarrow> index_of c s = None"
  by (simp add: index_of_None)

lemma starts_with_append [simp]: "starts_with p (p @ s)"
  by (simp add: starts_with_def)

lemma starts_with_iff: "starts_with p s \<longleftrightarrow> (\<exists>t. s = p @ t)"
  unfolding starts_with_def by (metis append_eq_conv_conj)

lemma trim_id: "s = [] \<or> (\<not> is_ws (hd s) \<and> \<not> is_ws (last s)) \<Longrightarrow> trim s = s"
proof -
  assume a: "s = [] \<or> (\<not> is_ws (hd s) \<and> \<not> is_ws (last s))"
  have st: "trim_start s = s"
    using a by (cases s) (auto simp: trim_start_def)
  have "dropWhile is_ws (rev s) = rev s"
  proof (cases s rule: rev_cases)
    case Nil
    then show ?thesis by simp
  next
    case (snoc ys y)
    with a show ?thesis by simp
  qed
  with st show ?thesis by (simp add: trim_def trim_end_def)
qed

lemma trim_no_ws: "\<forall>c \<in> set s. \<not> is_ws c \<Longrightarrow> trim s = s"
  by (rule trim_id) auto

lemma trim_end_no_ws: "\<forall>c \<in> set s. \<not> is_ws c \<Longrightarrow> trim_end s = s"
proof -
  assume "\<forall>c \<in> set s. \<not> is_ws c"
  then have "dropWhile is_ws (rev s) = rev s"
    by (cases "rev s") (auto simp: rev_eq_Cons_iff)
  then show ?thesis by (simp add: trim_end_def)
qed

lemma set_trim_start: "set (trim_start s) \<subseteq> set s"
  by (auto simp: trim_start_def dest: set_dropWhileD)

lemma set_trim_end: "set (trim_end s) \<subseteq> set s"
  by (auto simp: trim_end_def dest: set_dropWhileD)

lemma set_trim: "set (trim s) \<subseteq> set s"
  using set_trim_start set_trim_end by (fastforce simp: trim_def)

lemma length_pad_start: "length (pad_start n c s) = max n (length s)"
  by (simp add: pad_start_def)

lemma pad_start_id: "n \<le> length s \<Longrightarrow> pad_start n c s = s"
  by (simp add: pad_start_def)

subsection \<open>Digits\<close>

definition digit_val :: "char \<Rightarrow> nat option" where
  "digit_val c = (let n = (of_char c :: nat) in
     if 48 \<le> n \<and> n \<le> 57 then Some (n - 48)
     else if 97 \<le> n \<and> n \<le> 122 then Some (n - 87)
     else if 65 \<le> n \<and> n \<le> 90 then Some (n - 55)
     else None)"

definition digit_char :: "nat \<Rightarrow> char" where
  "digit_char d = char_of (if d < 10 then d + 48 else d + 87)"

definition digit_in :: "nat \<Rightarrow> char \<Rightarrow> bool" where
  "digit_in r c = (case digit_val c of Some d \<Rightarrow> d < r | None \<Rightarrow> False)"

definition digits_val :: "nat \<Rightarrow> string \<Rightarrow> nat" where
  "digits_val r s = foldl (\<lambda>a c. a * r + the (digit_val c)) 0 s"

lemma digit_val_char: "d < 36 \<Longrightarrow> digit_val (digit_char d) = Some d"
  by (auto simp: digit_val_def digit_char_def Let_def of_char_of)

lemma digit_in_char: "d < r \<Longrightarrow> r \<le> 36 \<Longrightarrow> digit_in r (digit_char d)"
  by (simp add: digit_in_def digit_val_char)

text \<open>\<open>n.toString(radix)\<close> for a natural number\<close>

function show_radix :: "nat \<Rightarrow> nat \<Rightarrow> string" where
  "show_radix r n =
     (if r < 2 \<or> n < r then [digit_char n]
      else show_radix r (n div r) @ [digit_char (n mod r)])"
  by pat_completeness auto
termination
  by (relation "measure snd") auto

declare show_radix.simps [simp del]

abbreviation show_nat :: "nat \<Rightarrow> string" where
  "show_nat n \<equiv> show_radix 10 n"

definition show_int :: "int \<Rightarrow> string" where
  "show_int i = (if i < 0 then ''-'' @ show_nat (nat (- i)) else show_nat (nat i))"

lemma show_radix_digits:
  "2 \<le> r \<Longrightarrow> r \<le> 36 \<Longrightarrow> \<forall>c \<in> set (show_radix r n). digit_in r c"
proof (induction r n rule: show_radix.induct)
  case (1 r n)
  then show ?case
    by (cases "n < r") (auto simp: show_radix.simps [of r n] digit_in_char)
qed

lemma show_radix_nonempty [simp]: "show_radix r n \<noteq> []"
  by (subst show_radix.simps) simp

lemma digits_val_snoc: "digits_val r (s @ [c]) = digits_val r s * r + the (digit_val c)"
  by (simp add: digits_val_def)

lemma digits_val_show: "2 \<le> r \<Longrightarrow> r \<le> 36 \<Longrightarrow> digits_val r (show_radix r n) = n"
proof (induction r n rule: show_radix.induct)
  case (1 r n)
  show ?case
  proof (cases "n < r")
    case True
    with 1 show ?thesis
      by (simp add: show_radix.simps [of r n] digits_val_def digit_val_char)
  next
    case False
    with 1 have IH: "digits_val r (show_radix r (n div r)) = n div r" by simp
    have "n mod r < 36"
      using "1.prems" mod_less_divisor [of r n] by linarith
    then show ?thesis
      using False 1 IH by (simp add: show_radix.simps [of r n] digits_val_snoc digit_val_char)
  qed
qed

text \<open>\<open>Number.parseInt(s, radix)\<close>: \<open>None\<close> is \<open>NaN\<close>. (Rounding of values past
  \<open>2 ^ 53\<close> is not modelled.)\<close>

definition parse_sign :: "string \<Rightarrow> bool \<times> string" where
  "parse_sign t = (case t of
      [] \<Rightarrow> (False, t)
    | c # u \<Rightarrow> if c = CHR ''-'' then (True, u) else if c = CHR ''+'' then (False, u) else (False, t))"

definition strip_0x :: "nat \<Rightarrow> string \<Rightarrow> string" where
  "strip_0x r u = (if r = 16 \<and> (starts_with ''0x'' u \<or> starts_with ''0X'' u) then drop 2 u else u)"

definition parse_int :: "nat \<Rightarrow> string \<Rightarrow> int option" where
  "parse_int r s =
     (let (neg, u) = parse_sign (trim_start s);
          ds = takeWhile (digit_in r) (strip_0x r u)
      in if ds = [] then None
         else Some (if neg then - int (digits_val r ds) else int (digits_val r ds)))"

lemma digit_in_not_ws: "digit_in r c \<Longrightarrow> \<not> is_ws c"
  by (auto simp: digit_in_def digit_val_def is_ws_def Let_def split: if_splits)

lemma digit_in_not_special: "digit_in r c \<Longrightarrow> c \<noteq> CHR ''-'' \<and> c \<noteq> CHR ''+''"
  by (auto simp: digit_in_def digit_val_def)

lemma digit_in_10: "digit_in 10 c \<longleftrightarrow> 48 \<le> (of_char c :: nat) \<and> (of_char c :: nat) \<le> 57"
  by (auto simp: digit_in_def digit_val_def Let_def)

lemma parse_int_digits:
  assumes "s \<noteq> []" "\<forall>c \<in> set s. digit_in r c" "r \<noteq> 16"
  shows "parse_int r s = Some (int (digits_val r s))"
proof -
  obtain c t where s: "s = c # t" using assms(1) by (cases s) auto
  have "\<not> is_ws c" "c \<noteq> CHR ''-''" "c \<noteq> CHR ''+''"
    using assms(2) s digit_in_not_ws digit_in_not_special by auto
  then have "parse_sign (trim_start s) = (False, s)"
    by (simp add: s trim_start_def parse_sign_def)
  then show ?thesis
    using assms by (simp add: parse_int_def strip_0x_def Let_def take_while_all)
qed

lemma parse_int_show_nat: "parse_int 10 (show_nat n) = Some (int n)"
  using parse_int_digits [of "show_nat n" 10] show_radix_digits [of 10 n]
  by (simp add: digits_val_show)

lemma parse_int_show_int: "parse_int 10 (show_int i) = Some i"
proof (cases "i < 0")
  case True
  have "\<forall>c \<in> set (show_nat (nat (- i))). digit_in 10 c"
    by (rule show_radix_digits) auto
  moreover have "\<not> is_ws CHR ''-''" by (simp add: is_ws_def)
  ultimately show ?thesis
    using True
    by (simp add: show_int_def parse_int_def trim_start_def parse_sign_def strip_0x_def
        digits_val_show Let_def take_while_all)
next
  case False
  then show ?thesis by (simp add: show_int_def parse_int_show_nat)
qed

end
