(* ===== verification/JsNumbers.thy ===== *)
theory JsNumbers
  imports Complex_Main Prelude
begin

unbundle bit_operations_syntax

text \<open>
  JavaScript numbers. A finite double is a rational; \<open>NaN\<close> and the infinities are their
  own constructors (the sign of zero is not distinguished, and the rounding of a quotient that
  is no double is not modelled). The bit operators work on 32-bit values: \<open>to_int32\<close> and
  \<open>to_uint32\<close> are ECMAScript's ToInt32 and ToUint32, and writing a number into a
  \<open>Uint8Array\<close> keeps its lowest eight bits, \<open>byte_of\<close>. Multi-byte integers are
  written big-endian; \<open>be_bytes\<close> and \<open>be_val\<close> are the reference for that.
\<close>

subsection \<open>Doubles\<close>

datatype jsnum = NaN | PInf | NInf | Fin rat

definition is_int_num :: "jsnum \<Rightarrow> bool" where
  "is_int_num x = (case x of Fin r \<Rightarrow> of_int \<lfloor>r\<rfloor> = r | _ \<Rightarrow> False)"

definition int_num :: "int \<Rightarrow> jsnum" where
  "int_num i = Fin (of_int i)"

definition num_truthy :: "jsnum \<Rightarrow> bool" where
  "num_truthy x = (case x of Fin r \<Rightarrow> r \<noteq> 0 | NaN \<Rightarrow> False | _ \<Rightarrow> True)"

text \<open>\<open>x < 0\<close>, \<open>x === 0\<close>, \<open>Math.trunc\<close>\<close>

definition num_neg :: "jsnum \<Rightarrow> bool" where
  "num_neg x = (case x of Fin r \<Rightarrow> r < 0 | NInf \<Rightarrow> True | _ \<Rightarrow> False)"

definition num_trunc :: "jsnum \<Rightarrow> jsnum" where
  "num_trunc x = (case x of
      Fin r \<Rightarrow> int_num (if 0 \<le> r then \<lfloor>r\<rfloor> else \<lceil>r\<rceil>)
    | _ \<Rightarrow> x)"

text \<open>\<open>Math.min(Math.max(x, 0), 1)\<close>\<close>

definition num_clamp01 :: "jsnum \<Rightarrow> jsnum" where
  "num_clamp01 x = (case x of
      NaN \<Rightarrow> NaN
    | PInf \<Rightarrow> Fin 1
    | NInf \<Rightarrow> Fin 0
    | Fin r \<Rightarrow> Fin (min (max r 0) 1))"

text \<open>\<open>Math.round\<close>: half way rounds up.\<close>

definition math_round :: "rat \<Rightarrow> int" where
  "math_round r = \<lfloor>r + 1 / 2\<rfloor>"

lemma is_int_num_simps [simp]:
  "is_int_num (int_num i)" "\<not> is_int_num NaN" "\<not> is_int_num PInf" "\<not> is_int_num NInf"
  by (simp_all add: is_int_num_def int_num_def)

lemma is_int_numE:
  assumes "is_int_num x"
  obtains i where "x = int_num i"
  using assms by (auto simp: is_int_num_def int_num_def split: jsnum.splits)

lemma int_num_inject [simp]: "int_num i = int_num j \<longleftrightarrow> i = j"
  by (simp add: int_num_def)

lemma num_clamp01_range: "num_clamp01 x = Fin r \<Longrightarrow> 0 \<le> r \<and> r \<le> 1"
  by (auto simp: num_clamp01_def split: jsnum.splits)

lemma num_clamp01_NaN: "num_clamp01 x = NaN \<longleftrightarrow> x = NaN"
  by (auto simp: num_clamp01_def split: jsnum.splits)

lemma num_clamp01_Fin: "x \<noteq> NaN \<Longrightarrow> \<exists>r. num_clamp01 x = Fin r"
  by (auto simp: num_clamp01_def split: jsnum.splits)

subsection \<open>32-bit operators\<close>

type_synonym byte = "8 word"

definition to_int32 :: "int \<Rightarrow> int" where
  "to_int32 v = signed_take_bit 31 v"

definition to_uint32 :: "int \<Rightarrow> int" where
  "to_uint32 v = take_bit 32 v"

definition shr :: "int \<Rightarrow> nat \<Rightarrow> int" where
  "shr v k = drop_bit k (to_int32 v)"

definition ushr :: "int \<Rightarrow> nat \<Rightarrow> int" where
  "ushr v k = drop_bit k (to_uint32 v)"

definition shl :: "int \<Rightarrow> nat \<Rightarrow> int" where
  "shl v k = to_int32 (push_bit k (to_int32 v))"

definition bit_not32 :: "int \<Rightarrow> int" where
  "bit_not32 v = - to_int32 v - 1"

definition byte_of :: "int \<Rightarrow> byte" where
  "byte_of v = word_of_int v"

lemma uint_byte_of: "uint (byte_of v) = v mod 256"
  by (simp add: byte_of_def uint_word_of_int take_bit_eq_mod)

lemma byte_of_cong: "a mod 256 = b mod 256 \<Longrightarrow> byte_of a = byte_of b"
  by (rule word_uint_eqI) (simp add: uint_byte_of)

lemma byte_of_uint [simp]: "byte_of (uint b) = b"
  by (simp add: byte_of_def)

lemma byte_of_shr:
  assumes "k \<le> 24"
  shows "byte_of (shr v k) = byte_of (v div 2 ^ k)"
proof (rule bit_word_eqI)
  fix n assume "n < LENGTH(8)"
  then have n: "n < 8" by simp
  with assms have "31 \<le> k + n \<longleftrightarrow> k + n = 31" by arith
  with n show "bit (byte_of (shr v k)) n \<longleftrightarrow> bit (byte_of (v div 2 ^ k)) n"
    by (auto simp: byte_of_def shr_def to_int32_def bit_word_of_int_iff bit_drop_bit_eq
        bit_signed_take_bit_iff min_def simp flip: drop_bit_eq_div)
qed

lemma byte_of_ushr:
  assumes "k \<le> 24"
  shows "byte_of (ushr v k) = byte_of (v div 2 ^ k)"
proof (rule bit_word_eqI)
  fix n assume "n < LENGTH(8)"
  then have n: "n < 8" by simp
  then show "bit (byte_of (ushr v k)) n \<longleftrightarrow> bit (byte_of (v div 2 ^ k)) n"
    using assms
    by (auto simp: byte_of_def ushr_def to_uint32_def bit_word_of_int_iff bit_drop_bit_eq
        bit_take_bit_iff simp flip: drop_bit_eq_div)
qed

lemma to_uint32_mod: "to_uint32 v = v mod 4294967296"
  by (simp add: to_uint32_def take_bit_eq_mod)

lemma to_uint32_id: "0 \<le> v \<Longrightarrow> v < 4294967296 \<Longrightarrow> to_uint32 v = v"
  by (simp add: to_uint32_mod)

lemma to_int32_id: "- 2147483648 \<le> v \<Longrightarrow> v < 2147483648 \<Longrightarrow> to_int32 v = v"
  unfolding to_int32_def by (rule signed_take_bit_int_eq_self) simp_all

lemma to_int32_mod: "to_int32 v mod 4294967296 = v mod 4294967296"
proof -
  have "take_bit 32 (signed_take_bit 31 v) = take_bit 32 v"
  proof (rule bit_eqI)
    fix n :: nat
    have "n < 32 \<Longrightarrow> 31 \<le> n \<longleftrightarrow> n = 31" by arith
    then show "bit (take_bit 32 (signed_take_bit 31 v)) n \<longleftrightarrow> bit (take_bit 32 v) n"
      by (auto simp: bit_take_bit_iff bit_signed_take_bit_iff min_def)
  qed
  then show ?thesis by (simp add: to_int32_def take_bit_eq_mod)
qed

subsection \<open>Big-endian integers\<close>

fun be_bytes :: "nat \<Rightarrow> int \<Rightarrow> byte list" where
  "be_bytes 0 v = []"
| "be_bytes (Suc n) v = be_bytes n (v div 256) @ [byte_of v]"

definition be_val :: "byte list \<Rightarrow> int" where
  "be_val bs = foldl (\<lambda>a b. a * 256 + uint b) 0 bs"

lemma length_be_bytes [simp]: "length (be_bytes n v) = n"
  by (induction n arbitrary: v) auto

lemma be_val_Nil [simp]: "be_val [] = 0"
  by (simp add: be_val_def)

lemma be_val_snoc: "be_val (bs @ [b]) = be_val bs * 256 + uint b"
  by (simp add: be_val_def)

lemma be_val_bound: "0 \<le> be_val bs \<and> be_val bs < 256 ^ length bs"
proof (induction bs rule: rev_induct)
  case Nil
  then show ?case by simp
next
  case (snoc b bs)
  have b: "0 \<le> uint b" "uint b < 256"
    using uint_bounded [of b] by auto
  have "be_val bs * 256 + uint b < 256 ^ length bs * 256"
    using snoc b by (smt (verit))
  then show ?case using snoc b by (simp add: be_val_snoc algebra_simps)
qed

lemma be_val_append: "be_val (a @ b) = be_val a * 256 ^ length b + be_val b"
proof (induction b rule: rev_induct)
  case Nil
  then show ?case by simp
next
  case (snoc x b)
  have "be_val (a @ b @ [x]) = be_val ((a @ b) @ [x])" by simp
  also have "\<dots> = be_val (a @ b) * 256 + uint x" by (rule be_val_snoc)
  finally show ?case using snoc be_val_snoc [of b x] by (simp add: algebra_simps)
qed

lemma be_val_be_bytes: "be_val (be_bytes n v) = v mod 256 ^ n"
proof (induction n arbitrary: v)
  case 0
  then show ?case by simp
next
  case (Suc n)
  have "v mod 256 ^ Suc n = 256 * (v div 256 mod 256 ^ n) + v mod 256"
    by (simp add: mod_mult2_eq [symmetric] mult.commute zmod_zmult2_eq)
  with Suc show ?case by (simp add: be_val_snoc uint_byte_of)
qed

lemma be_bytes_be_val: "be_bytes (length bs) (be_val bs) = bs"
proof (induction bs rule: rev_induct)
  case Nil
  then show ?case by simp
next
  case (snoc b bs)
  have b: "0 \<le> uint b" "uint b < 256"
    using uint_bounded [of b] by auto
  have "(be_val bs * 256 + uint b) div 256 = be_val bs"
    using b by simp
  moreover have "byte_of (be_val bs * 256 + uint b) = byte_of (uint b)"
    by (rule byte_of_cong) simp
  ultimately show ?case using snoc by (simp add: be_val_snoc)
qed

lemma be_bytes_cong: "a mod 256 ^ n = b mod 256 ^ n \<Longrightarrow> be_bytes n a = be_bytes n b"
  by (metis be_bytes_be_val be_val_be_bytes length_be_bytes)

lemma be_bytes_shr4:
  "[byte_of (shr v 24), byte_of (shr v 16), byte_of (shr v 8), byte_of v] = be_bytes 4 v"
  by (simp add: byte_of_shr eval_nat_numeral(3) numeral_eq_Suc div_mult2_eq [symmetric] zdiv_zmult2_eq [symmetric])

lemma be_bytes_shr2: "[byte_of (shr v 8), byte_of v] = be_bytes 2 v"
  by (simp add: byte_of_shr numeral_eq_Suc)

end
