(* ===== verification/JsValues.thy ===== *)
theory JsValues
  imports JsStrings JsNumbers
begin

text \<open>
  Dynamically typed JavaScript values, as the tags of a span and the fields of a carrier hold
  them. Objects keep their own enumerable entries in insertion order. Node's \<open>Buffer\<close>,
  \<open>URL\<close> and \<open>Error\<close> instances, which the code tells apart by their class, have
  constructors of their own; functions, symbols and bigints are \<open>JOther\<close> with the result of
  \<open>typeof\<close>.
\<close>

datatype jsval =
    JUndef
  | JNull
  | JBool bool
  | JNum jsnum
  | JStr string
  | JArr "jsval list"
  | JObj "(string \<times> jsval) list"
  | JBuf "byte list"
  | JUrl string
  | JErr jsval jsval jsval "(string \<times> jsval) list" \<comment> \<open>message, name, stack, own properties\<close>
  | JOther string

type_synonym jsobj = "jsval obj"

definition truthy :: "jsval \<Rightarrow> bool" where
  "truthy v = (case v of
      JUndef \<Rightarrow> False
    | JNull \<Rightarrow> False
    | JBool b \<Rightarrow> b
    | JNum n \<Rightarrow> num_truthy n
    | JStr s \<Rightarrow> s \<noteq> []
    | _ \<Rightarrow> True)"

definition js_typeof :: "jsval \<Rightarrow> string" where
  "js_typeof v = (case v of
      JUndef \<Rightarrow> ''undefined''
    | JBool b \<Rightarrow> ''boolean''
    | JNum n \<Rightarrow> ''number''
    | JStr s \<Rightarrow> ''string''
    | JOther t \<Rightarrow> t
    | _ \<Rightarrow> ''object'')"

text \<open>\<open>o[k]\<close>: \<open>undefined\<close> for a missing property\<close>

definition getp :: "jsobj \<Rightarrow> string \<Rightarrow> jsval" where
  "getp o' k = (case map_of o' k of None \<Rightarrow> JUndef | Some v \<Rightarrow> v)"

text \<open>\<open>a || b\<close>, \<open>a ?? b\<close>\<close>

definition js_or :: "jsval \<Rightarrow> jsval \<Rightarrow> jsval" where
  "js_or a b = (if truthy a then a else b)"

definition nullish :: "jsval \<Rightarrow> bool" where
  "nullish v \<longleftrightarrow> v = JUndef \<or> v = JNull"

text \<open>
  \<open>String(v)\<close>. Writing a number that is no integer (or one of more than 21 digits) needs the
  shortest decimal that reads back as the same double, and an object or a symbol is written by
  its own methods: that part of JavaScript is the argument \<open>str\<close>.
\<close>

definition num_to_string :: "(jsval \<Rightarrow> string) \<Rightarrow> jsnum \<Rightarrow> string" where
  "num_to_string str n = (case n of
      NaN \<Rightarrow> ''NaN''
    | PInf \<Rightarrow> ''Infinity''
    | NInf \<Rightarrow> ''-Infinity''
    | Fin r \<Rightarrow> if of_int \<lfloor>r\<rfloor> = r \<and> \<bar>r\<bar> < 10 ^ 21 then show_int \<lfloor>r\<rfloor> else str (JNum n))"

definition bool_to_string :: "bool \<Rightarrow> string" where
  "bool_to_string b = (if b then ''true'' else ''false'')"

definition is_string :: "jsval \<Rightarrow> bool" where
  "is_string v = (case v of JStr s \<Rightarrow> True | _ \<Rightarrow> False)"

lemma truthy_simps [simp]:
  "\<not> truthy JUndef" "\<not> truthy JNull" "truthy (JBool b) = b" "truthy (JStr s) = (s \<noteq> [])"
  "truthy (JNum n) = num_truthy n" "truthy (JArr xs)" "truthy (JObj ps)" "truthy (JBuf bs)"
  "truthy (JUrl u)" "truthy (JErr a c d ps)" "truthy (JOther t)"
  by (simp_all add: truthy_def)

lemma getp_set_same [simp]: "getp (AList.update k v m) k = v"
  by (simp add: getp_def)

lemma getp_set_other [simp]: "k' \<noteq> k \<Longrightarrow> getp (AList.update k v m) k' = getp m k'"
  by (simp add: getp_def)

lemma getp_Nil [simp]: "getp [] k = JUndef"
  by (simp add: getp_def)

lemma getp_set: "getp (AList.update k v m) k' = (if k' = k then v else getp m k')"
  by simp

lemma nullish_simps [simp]:
  "nullish JUndef" "nullish JNull" "\<not> nullish (JBool b)" "\<not> nullish (JNum n)" "\<not> nullish (JStr s)"
  "\<not> nullish (JArr xs)" "\<not> nullish (JObj ps)"
  by (simp_all add: nullish_def)

subsection \<open>Strings to numbers\<close>

text \<open>
  A decimal literal without sign at the start of a string, with what follows it: digits with an
  optional point and an optional exponent.
\<close>

definition parse_exponent :: "string \<Rightarrow> int \<times> string" where
  "parse_exponent r =
     (case r of
        [] \<Rightarrow> (0, r)
      | c # t \<Rightarrow>
          (if c = CHR ''e'' \<or> c = CHR ''E'' then
             (let (neg, u) = parse_sign t;
                  ds = takeWhile (digit_in 10) u
              in if ds = [] then (0, r)
                 else ((if neg then - int (digits_val 10 ds) else int (digits_val 10 ds)),
                       dropWhile (digit_in 10) u))
           else (0, r)))"

definition scale10 :: "rat \<Rightarrow> int \<Rightarrow> rat" where
  "scale10 m e = (if 0 \<le> e then m * 10 ^ nat e else m / 10 ^ nat (- e))"

definition parse_decimal :: "string \<Rightarrow> (rat \<times> string) option" where
  "parse_decimal s =
     (let i = takeWhile (digit_in 10) s;
          r1 = dropWhile (digit_in 10) s;
          (f, r2) = (case r1 of
              [] \<Rightarrow> ([], r1)
            | c # t \<Rightarrow> if c = CHR ''.'' then (takeWhile (digit_in 10) t, dropWhile (digit_in 10) t)
                       else ([], r1))
      in if i = [] \<and> f = [] then None
         else (let (e, r3) = parse_exponent r2
               in Some (scale10 (of_nat (digits_val 10 (i @ f)) / 10 ^ length f) e, r3)))"

definition sign_num :: "bool \<Rightarrow> rat \<Rightarrow> jsnum" where
  "sign_num neg r = Fin (if neg then - r else r)"

text \<open>\<open>Number.parseFloat(s)\<close> and \<open>Number(s)\<close>\<close>

definition parse_float :: "string \<Rightarrow> jsnum" where
  "parse_float s =
     (let (neg, u) = parse_sign (trim_start s)
      in if starts_with ''Infinity'' u then (if neg then NInf else PInf)
         else case parse_decimal u of None \<Rightarrow> NaN | Some (r, _) \<Rightarrow> sign_num neg r)"

definition number_radix :: "string \<Rightarrow> nat" where
  "number_radix t = (case t of
      (c # d # _) \<Rightarrow>
        if c = CHR ''0'' then
          (if d = CHR ''x'' \<or> d = CHR ''X'' then 16
           else if d = CHR ''o'' \<or> d = CHR ''O'' then 8
           else if d = CHR ''b'' \<or> d = CHR ''B'' then 2 else 10)
        else 10
    | _ \<Rightarrow> 10)"

definition string_to_number :: "string \<Rightarrow> jsnum" where
  "string_to_number s =
     (let t = trim s; r = number_radix t
      in if t = [] then Fin 0
         else if r \<noteq> 10 then
           (let ds = drop 2 t
            in if ds \<noteq> [] \<and> list_all (digit_in r) ds then Fin (of_nat (digits_val r ds)) else NaN)
         else (let (neg, u) = parse_sign t
               in if u = ''Infinity'' then (if neg then NInf else PInf)
                  else case parse_decimal u of
                         Some (x, []) \<Rightarrow> sign_num neg x
                       | _ \<Rightarrow> NaN))"

text \<open>
  \<open>Number(v)\<close>. An object is converted by its own methods in JavaScript; here it is \<open>NaN\<close>, as
  it is for every plain object.
\<close>

definition to_number :: "jsval \<Rightarrow> jsnum" where
  "to_number v = (case v of
      JNull \<Rightarrow> Fin 0
    | JBool b \<Rightarrow> Fin (if b then 1 else 0)
    | JNum n \<Rightarrow> n
    | JStr s \<Rightarrow> string_to_number s
    | _ \<Rightarrow> NaN)"

definition js_string :: "(jsval \<Rightarrow> string) \<Rightarrow> jsval \<Rightarrow> string" where
  "js_string str v = (case v of
      JUndef \<Rightarrow> ''undefined''
    | JNull \<Rightarrow> ''null''
    | JBool b \<Rightarrow> bool_to_string b
    | JNum n \<Rightarrow> num_to_string str n
    | JStr s \<Rightarrow> s
    | JUrl s \<Rightarrow> s
    | _ \<Rightarrow> str v)"

lemma to_number_simps [simp]:
  "to_number (JNum n) = n" "to_number JNull = Fin 0" "to_number JUndef = NaN"
  by (simp_all add: to_number_def)

lemma js_string_simps [simp]:
  "js_string str (JStr s) = s" "js_string str (JBool b) = bool_to_string b"
  "js_string str (JNum n) = num_to_string str n"
  by (simp_all add: js_string_def)

end
