(* ===== verification/Carrier.thy ===== *)
theory Carrier
  imports JsValues
begin

text \<open>
  The carrier of propagated headers (\<open>carrier.js\<close>): a JavaScript object whose fields may hold
  anything. Each header has one reader, which accepts a string or picks from a list of them, and
  one writer. \<open>defineField\<close> builds the same operations for every header; here the header name is
  their argument.
\<close>

type_synonym carrier = jsobj

subsection \<open>Header names\<close>

definition b3FlagsHeader :: string where "b3FlagsHeader = ''x-b3-flags''"
definition b3Header :: string where "b3Header = ''b3''"
definition b3SampledHeader :: string where "b3SampledHeader = ''x-b3-sampled''"
definition b3SpanIdHeader :: string where "b3SpanIdHeader = ''x-b3-spanid''"
definition b3TraceIdHeader :: string where "b3TraceIdHeader = ''x-b3-traceid''"
definition b3ParentIdHeader :: string where "b3ParentIdHeader = ''x-b3-parentspanid''"
definition baggageHeader :: string where "baggageHeader = ''baggage''"
definition datadogOriginHeader :: string where "datadogOriginHeader = ''x-datadog-origin''"
definition datadogParentIdHeader :: string where "datadogParentIdHeader = ''x-datadog-parent-id''"
definition datadogSamplingPriorityHeader :: string where
  "datadogSamplingPriorityHeader = ''x-datadog-sampling-priority''"
definition datadogTagsHeader :: string where "datadogTagsHeader = ''x-datadog-tags''"
definition datadogTraceIdHeader :: string where "datadogTraceIdHeader = ''x-datadog-trace-id''"
definition dsmBase64Header :: string where "dsmBase64Header = ''dd-pathway-ctx-base64''"
definition dsmBinaryHeader :: string where "dsmBinaryHeader = ''dd-pathway-ctx''"
definition sqsdHeader :: string where "sqsdHeader = ''x-aws-sqsd-attr-_datadog''"
definition traceparentHeader :: string where "traceparentHeader = ''traceparent''"
definition tracestateHeader :: string where "tracestateHeader = ''tracestate''"
definition legacyBaggagePrefix :: string where "legacyBaggagePrefix = ''ot-baggage-''"

lemmas header_defs =
  b3FlagsHeader_def b3Header_def b3SampledHeader_def b3SpanIdHeader_def b3TraceIdHeader_def
  b3ParentIdHeader_def baggageHeader_def datadogOriginHeader_def datadogParentIdHeader_def
  datadogSamplingPriorityHeader_def datadogTagsHeader_def datadogTraceIdHeader_def
  dsmBase64Header_def dsmBinaryHeader_def sqsdHeader_def traceparentHeader_def tracestateHeader_def

subsection \<open>Readers\<close>

fun readListText_loop :: "string \<Rightarrow> bool \<Rightarrow> jsval list \<Rightarrow> string" where
  "readListText_loop joined first [] = joined"
| "readListText_loop joined first (item # items) =
     (case item of
        JStr s \<Rightarrow> if first then readListText_loop s False items
                  else readListText_loop (joined @ '','' @ s) first items
      | _ \<Rightarrow> readListText_loop joined first items)"

definition readListText :: "jsval \<Rightarrow> string option" where
  "readListText value = (case value of
      JStr s \<Rightarrow> Some s
    | JArr items \<Rightarrow> Some (readListText_loop [] True items)
    | _ \<Rightarrow> None)"

fun first_text :: "jsval list \<Rightarrow> string option" where
  "first_text [] = None"
| "first_text (v # vs) = (case v of JStr s \<Rightarrow> Some s | _ \<Rightarrow> first_text vs)"

text \<open>The loop of \<open>readLastText\<close> runs from the last item down.\<close>

definition readLastText :: "jsval \<Rightarrow> string option" where
  "readLastText value = (case value of
      JStr s \<Rightarrow> Some s
    | JArr items \<Rightarrow> first_text (rev items)
    | _ \<Rightarrow> None)"

definition readUniqueText :: "jsval \<Rightarrow> string option" where
  "readUniqueText value = (case value of
      JStr s \<Rightarrow> Some s
    | JArr [JStr s] \<Rightarrow> Some s
    | _ \<Rightarrow> None)"

definition is_pathway :: "jsval \<Rightarrow> bool" where
  "is_pathway v = (case v of JStr _ \<Rightarrow> True | JBuf _ \<Rightarrow> True | _ \<Rightarrow> False)"

definition readLastPathway :: "jsval \<Rightarrow> jsval" where
  "readLastPathway value =
     (if is_pathway value then value
      else case value of
          JArr items \<Rightarrow> (case List.find is_pathway (rev items) of None \<Rightarrow> JUndef | Some v \<Rightarrow> v)
        | _ \<Rightarrow> JUndef)"

definition readB3Flags :: "carrier \<Rightarrow> string option" where
  "readB3Flags c = readLastText (getp c b3FlagsHeader)"

definition readB3 :: "carrier \<Rightarrow> string option" where
  "readB3 c = readLastText (getp c b3Header)"

definition readB3Sampled :: "carrier \<Rightarrow> string option" where
  "readB3Sampled c = readLastText (getp c b3SampledHeader)"

definition readB3SpanId :: "carrier \<Rightarrow> string option" where
  "readB3SpanId c = readLastText (getp c b3SpanIdHeader)"

definition readB3TraceId :: "carrier \<Rightarrow> string option" where
  "readB3TraceId c = readLastText (getp c b3TraceIdHeader)"

definition readBaggage :: "carrier \<Rightarrow> string option" where
  "readBaggage c = readListText (getp c baggageHeader)"

definition readDatadogOrigin :: "carrier \<Rightarrow> string option" where
  "readDatadogOrigin c = readLastText (getp c datadogOriginHeader)"

definition readDatadogParentId :: "carrier \<Rightarrow> string option" where
  "readDatadogParentId c = readLastText (getp c datadogParentIdHeader)"

definition readDatadogSamplingPriority :: "carrier \<Rightarrow> string option" where
  "readDatadogSamplingPriority c = readLastText (getp c datadogSamplingPriorityHeader)"

definition readDatadogTags :: "carrier \<Rightarrow> string option" where
  "readDatadogTags c = readListText (getp c datadogTagsHeader)"

definition readDatadogTraceId :: "carrier \<Rightarrow> string option" where
  "readDatadogTraceId c = readLastText (getp c datadogTraceIdHeader)"

definition readDsmBase64 :: "carrier \<Rightarrow> jsval" where
  "readDsmBase64 c = readLastPathway (getp c dsmBase64Header)"

definition readDsmBinary :: "carrier \<Rightarrow> jsval" where
  "readDsmBinary c = readLastPathway (getp c dsmBinaryHeader)"

definition readSqsd :: "carrier \<Rightarrow> string option" where
  "readSqsd c = readLastText (getp c sqsdHeader)"

definition readTraceparent :: "carrier \<Rightarrow> string option" where
  "readTraceparent c = readUniqueText (getp c traceparentHeader)"

definition readTracestate :: "carrier \<Rightarrow> string option" where
  "readTracestate c = readListText (getp c tracestateHeader)"

lemmas reader_defs =
  readB3Flags_def readB3_def readB3Sampled_def readB3SpanId_def readB3TraceId_def readBaggage_def
  readDatadogOrigin_def readDatadogParentId_def readDatadogSamplingPriority_def readDatadogTags_def
  readDatadogTraceId_def readSqsd_def readTraceparent_def readTracestate_def

subsection \<open>The operations of a field\<close>

definition field_write :: "string \<Rightarrow> string \<Rightarrow> carrier \<Rightarrow> carrier" where
  "field_write headerName value c = AList.update headerName (JStr value) c"

definition field_has :: "string \<Rightarrow> carrier \<Rightarrow> bool" where
  "field_has headerName c = has_own c headerName"

definition field_delete :: "string \<Rightarrow> carrier \<Rightarrow> carrier" where
  "field_delete headerName c = AList.delete headerName c"

definition field_copy :: "string \<Rightarrow> carrier \<Rightarrow> carrier \<Rightarrow> carrier" where
  "field_copy headerName c target =
     (case map_of c headerName of None \<Rightarrow> target | Some v \<Rightarrow> AList.update headerName v target)"

definition pick :: "carrier \<Rightarrow> string list \<Rightarrow> carrier" where
  "pick c selectedFields = fold (\<lambda>h result. field_copy h c result) selectedFields []"

definition textMapLogFields :: "string list" where
  "textMapLogFields =
     [datadogTraceIdHeader, datadogParentIdHeader, datadogSamplingPriorityHeader, datadogOriginHeader,
      b3TraceIdHeader, b3SpanIdHeader, b3ParentIdHeader, b3SampledHeader, b3FlagsHeader, b3Header,
      traceparentHeader, tracestateHeader]"

definition pickTextMap :: "carrier \<Rightarrow> carrier" where
  "pickTextMap c = pick c textMapLogFields"

definition pickDsm :: "carrier \<Rightarrow> carrier" where
  "pickDsm c = pick c [dsmBinaryHeader, dsmBase64Header]"

text \<open>RFC 7230 \<open>token\<close>\<close>

definition is_token_char :: "char \<Rightarrow> bool" where
  "is_token_char c \<longleftrightarrow> digit_in 36 c \<or> c \<in> set ''!#$%&'' \<or> c = CHR 0x27 \<or> c \<in> set ''*+-.^_|~'' \<or> c = CHR 0x60"

definition is_token :: "string \<Rightarrow> bool" where
  "is_token s \<longleftrightarrow> s \<noteq> [] \<and> list_all is_token_char s"

text \<open>\<open>undefined\<close> carriers are \<open>None\<close>; the result \<open>None\<close> is a rejected name.\<close>

definition writeLegacyBaggage :: "carrier option \<Rightarrow> string \<Rightarrow> string \<Rightarrow> carrier option" where
  "writeLegacyBaggage c k value =
     (let name = legacyBaggagePrefix @ k
      in if \<not> is_token name then None
         else Some (AList.update name (JStr value) (case c of None \<Rightarrow> [] | Some c \<Rightarrow> c)))"

definition readLegacyBaggage :: "carrier \<Rightarrow> (string \<times> string) list \<Rightarrow> (string \<times> string) list" where
  "readLegacyBaggage c target =
     fold (\<lambda>name target.
        if \<not> starts_with legacyBaggagePrefix name then target
        else let k = drop (length legacyBaggagePrefix) name
             in if k = [] then target
                else case readLastText (getp c name) of
                       None \<Rightarrow> target
                     | Some value \<Rightarrow> AList.update k value target)
       (map fst c) target"

subsection \<open>Lemmas\<close>

lemma readText_JStr [simp]:
  "readLastText (JStr s) = Some s" "readListText (JStr s) = Some s" "readUniqueText (JStr s) = Some s"
  by (simp_all add: readLastText_def readListText_def readUniqueText_def)

lemma readText_JUndef [simp]:
  "readLastText JUndef = None" "readListText JUndef = None" "readUniqueText JUndef = None"
  by (simp_all add: readLastText_def readListText_def readUniqueText_def)

lemma getp_field_write [simp]:
  "getp (field_write h v c) h' = (if h' = h then JStr v else getp c h')"
  by (simp add: field_write_def getp_set)

lemma readListText_loop_join:
  "readListText_loop joined False items =
     joined @ concat (map (\<lambda>s. '','' @ s) (List.map_filter (\<lambda>v. case v of JStr s \<Rightarrow> Some s | _ \<Rightarrow> None) items))"
  by (induction items arbitrary: joined) (auto simp: List.map_filter_simps split: jsval.splits)

lemma join_concat: "join '','' (x # xs) = x @ concat (map (\<lambda>s. '','' @ s) xs)"
  by (induction xs arbitrary: x) auto

lemma readListText_loop_start:
  "readListText_loop [] True items =
     join '','' (List.map_filter (\<lambda>v. case v of JStr s \<Rightarrow> Some s | _ \<Rightarrow> None) items)"
proof (induction items)
  case Nil
  then show ?case by (simp add: List.map_filter_simps)
next
  case (Cons v items)
  then show ?case
    by (cases v) (simp_all add: List.map_filter_simps readListText_loop_join join_concat del: join.simps)
qed

text \<open>
  A list-valued header reads as its string items joined by commas, any other item skipped;
  a single-valued one reads as its last string item.
\<close>

theorem readers_of_lists:
  "readListText (JArr items) =
     Some (join '','' (List.map_filter (\<lambda>v. case v of JStr s \<Rightarrow> Some s | _ \<Rightarrow> None) items)) \<and>
   readLastText (JArr items) =
     (let texts = List.map_filter (\<lambda>v. case v of JStr s \<Rightarrow> Some s | _ \<Rightarrow> None) items
      in if texts = [] then None else Some (last texts))"
proof -
  have "first_text vs =
      (let texts = List.map_filter (\<lambda>v. case v of JStr s \<Rightarrow> Some s | _ \<Rightarrow> None) vs
       in if texts = [] then None else Some (hd texts))" for vs
    by (induction vs) (auto simp: List.map_filter_simps Let_def split: jsval.splits)
  moreover have "List.map_filter f (rev xs) = rev (List.map_filter f xs)" for f :: "jsval \<Rightarrow> string option" and xs
    by (simp add: List.map_filter_def rev_filter [symmetric] rev_map)
  ultimately show ?thesis
    by (simp add: readListText_def readListText_loop_start readLastText_def Let_def hd_rev)
qed

end
