(* ===== verification/Baggage.thy ===== *)
theory Baggage
  imports JsValues
begin

text \<open>
  Percent-encoding as \<open>encodeURIComponent\<close> and \<open>decodeURIComponent\<close> do it, and the
  in-process baggage store (\<open>baggage.js\<close>): a frozen object in async local storage, replaced on
  every write. The store is \<open>None\<close> while nothing was entered. A decoded character beyond
  Latin-1 has no code in the model and becomes the substitute character.
\<close>

subsection \<open>Percent-encoding\<close>

definition unreserved :: "char \<Rightarrow> bool" where
  "unreserved c \<longleftrightarrow> digit_in 36 c \<or> c \<in> set ''-_.!~*()'' \<or> c = CHR 0x27"

definition upper_digit :: "nat \<Rightarrow> char" where
  "upper_digit d = char_of (if d < 10 then d + 48 else d + 55)"

definition pct :: "nat \<Rightarrow> string" where
  "pct n = [CHR ''%'', upper_digit (n div 16), upper_digit (n mod 16)]"

definition encode_char :: "char \<Rightarrow> string" where
  "encode_char c = (let n = (of_char c :: nat)
     in if unreserved c then [c]
        else if n < 128 then pct n
        else pct (192 + n div 64) @ pct (128 + n mod 64))"

definition encodeURIComponent :: "string \<Rightarrow> string" where
  "encodeURIComponent s = concat (map encode_char s)"

text \<open>One \<open>%XX\<close> at the start of a string\<close>

definition read_pct :: "string \<Rightarrow> nat option" where
  "read_pct s = (case s of
      p # a # b # _ \<Rightarrow>
        (if p = CHR ''%'' \<and> digit_in 16 a \<and> digit_in 16 b
         then Some (the (digit_val a) * 16 + the (digit_val b)) else None)
    | _ \<Rightarrow> None)"

definition read_cont :: "nat \<Rightarrow> nat \<Rightarrow> string \<Rightarrow> nat option" where
  "read_cont lo hi s = (case read_pct s of
      Some n \<Rightarrow> if lo \<le> n \<and> n \<le> hi then Some (n - 128) else None
    | None \<Rightarrow> None)"

definition substitute :: char where
  "substitute = CHR 0x1A"

text \<open>The character an encoded sequence stands for and its length; \<open>None\<close> is a \<open>URIError\<close>.\<close>

definition decode_seq :: "string \<Rightarrow> (string \<times> nat) option" where
  "decode_seq s = (case read_pct s of
      None \<Rightarrow> None
    | Some n \<Rightarrow>
        (if n < 128 then Some ([char_of n], 3)
         else if 194 \<le> n \<and> n \<le> 223 then
           (case read_cont 128 191 (drop 3 s) of
              None \<Rightarrow> None
            | Some m \<Rightarrow> (let p = (n - 192) * 64 + m
                in Some ([if p < 256 then char_of p else substitute], 6)))
         else if 224 \<le> n \<and> n \<le> 239 then
           (case (read_cont (if n = 224 then 160 else 128) (if n = 237 then 159 else 191) (drop 3 s),
                  read_cont 128 191 (drop 6 s)) of
              (Some _, Some _) \<Rightarrow> Some ([substitute], 9)
            | _ \<Rightarrow> None)
         else if 240 \<le> n \<and> n \<le> 244 then
           (case (read_cont (if n = 240 then 144 else 128) (if n = 244 then 143 else 191) (drop 3 s),
                  read_cont 128 191 (drop 6 s), read_cont 128 191 (drop 9 s)) of
              (Some _, Some _, Some _) \<Rightarrow> Some ([substitute, substitute], 12)
            | _ \<Rightarrow> None)
         else None))"

function decodeURIComponent :: "string \<Rightarrow> string option" where
  "decodeURIComponent [] = Some []"
| "decodeURIComponent (c # s) =
     (if c \<noteq> CHR ''%'' then map_option ((#) c) (decodeURIComponent s)
      else case decode_seq (c # s) of
          None \<Rightarrow> None
        | Some (t, k) \<Rightarrow> map_option ((@) t) (decodeURIComponent (drop (k - 1) s)))"
  by pat_completeness auto
termination by (relation "measure length") auto

text \<open>The fallback of the reader: every \<open>%XX\<close> becomes its byte, and the bytes are read as
  UTF-8, where what is no character of Latin-1 becomes the substitute.\<close>

fun pct_bytes :: "string \<Rightarrow> nat list" where
  "pct_bytes (p # a # b # s) =
     (if p = CHR ''%'' \<and> digit_in 16 a \<and> digit_in 16 b
      then (the (digit_val a) * 16 + the (digit_val b)) # pct_bytes s
      else of_char p # pct_bytes (a # b # s))"
| "pct_bytes [a, b] = [of_char a, of_char b]"
| "pct_bytes [a] = [of_char a]"
| "pct_bytes [] = []"

fun utf8_text :: "nat list \<Rightarrow> string" where
  "utf8_text [] = []"
| "utf8_text (n # ns) =
     (if n < 128 then char_of n # utf8_text ns
      else case ns of
          m # ms \<Rightarrow>
            (if (n = 194 \<or> n = 195) \<and> 128 \<le> m \<and> m \<le> 191
             then char_of ((n - 192) * 64 + (m - 128)) # utf8_text ms
             else substitute # utf8_text ns)
        | [] \<Rightarrow> [substitute])"

definition decode_baggage_value :: "string \<Rightarrow> string" where
  "decode_baggage_value value =
     (if CHR ''%'' \<in> set value then
        (case decodeURIComponent value of Some v \<Rightarrow> v | None \<Rightarrow> utf8_text (pct_bytes value))
      else value)"

lemma upper_digit_val: "d < 16 \<Longrightarrow> digit_val (upper_digit d) = Some d"
  by (auto simp: digit_val_def upper_digit_def Let_def of_char_of)

lemma upper_digit_in: "d < 16 \<Longrightarrow> digit_in 16 (upper_digit d)"
  by (simp add: digit_in_def upper_digit_val)

lemma read_pct_pct: "n < 256 \<Longrightarrow> read_pct (pct n @ s) = Some n"
proof -
  assume "n < 256"
  then have "n div 16 < 16" "n mod 16 < 16" by simp_all
  then show ?thesis by (simp add: read_pct_def pct_def upper_digit_in upper_digit_val)
qed

lemma length_pct [simp]: "length (pct n) = 3"
  by (simp add: pct_def)

lemma drop_pct [simp]: "drop 3 (pct n @ s) = s"
  by (simp add: pct_def)

lemma of_char_less [simp]: "(of_char c :: nat) < 256"
  by (metis nat_of_char_less_256)

lemma not_unreserved_pct: "\<not> unreserved (CHR ''%'')"
  by (simp add: unreserved_def digit_in_def digit_val_def)

lemma decode_encode_char:
  "decodeURIComponent (encode_char c @ s) = map_option ((#) c) (decodeURIComponent s)"
proof (cases "unreserved c")
  case True
  then have "c \<noteq> CHR ''%''" using not_unreserved_pct by auto
  with True show ?thesis by (simp add: encode_char_def)
next
  case False
  have single: "(@) [c] = (#) c" by auto
  define n where "n = (of_char c :: nat)"
  have n: "n < 256" "char_of n = c" by (simp_all add: n_def)
  have dec: "decodeURIComponent (pct k @ t) =
      (case decode_seq (pct k @ t) of None \<Rightarrow> None
       | Some (u, l) \<Rightarrow> map_option ((@) u) (decodeURIComponent (drop (l - 1) (tl (pct k @ t)))))" for k t
    unfolding pct_def append_Cons append_Nil list.sel by simp
  show ?thesis
  proof (cases "n < 128")
    case True
    then have "decode_seq (pct n @ s) = Some ([c], 3)"
      using n by (simp add: decode_seq_def read_pct_pct)
    moreover have "drop 2 (tl (pct n @ s)) = s" by (simp add: pct_def)
    ultimately have "decodeURIComponent (pct n @ s) = map_option ((#) c) (decodeURIComponent s)"
      unfolding dec by (simp add: single)
    with False True show ?thesis by (simp add: encode_char_def n_def)
  next
    case big: False
    define k where "k = 192 + n div 64"
    define m where "m = 128 + n mod 64"
    have k: "k < 256" "194 \<le> k" "k \<le> 223" "m < 256" "128 \<le> m" "m \<le> 191"
      using n big by (auto simp: k_def m_def)
    have "(k - 192) * 64 + (m - 128) = n" by (simp add: k_def m_def)
    then have "decode_seq (pct k @ pct m @ s) = Some ([c], 6)"
      using k n by (simp add: decode_seq_def read_pct_pct read_cont_def)
    moreover have "drop 5 (tl (pct k @ pct m @ s)) = s" by (simp add: pct_def)
    ultimately have "decodeURIComponent (pct k @ pct m @ s) = map_option ((#) c) (decodeURIComponent s)"
      unfolding dec by (simp add: single)
    with False big show ?thesis by (simp add: encode_char_def n_def k_def m_def Let_def)
  qed
qed

lemma decode_encode: "decodeURIComponent (encodeURIComponent s) = Some s"
  by (induction s) (simp_all add: encodeURIComponent_def decode_encode_char)

text \<open>What the encoder writes is safe in a header: no separator, no white space.\<close>

lemma encode_char_safe:
  assumes "x \<in> set (encode_char c)"
  shows "\<not> is_ws x \<and> x \<notin> set '',;=''"
proof -
  have dig: "\<not> is_ws y \<and> y \<notin> set '',;=''" if "digit_in 36 y" for y
    using digit_in_not_ws [OF that] that by (auto simp: digit_in_def digit_val_def)
  have up: "\<not> is_ws y \<and> y \<notin> set '',;=''" if "y \<in> set (pct n)" "n < 256" for y n
  proof -
    have "n div 16 < 16" "n mod 16 < 16" using that(2) by simp_all
    then have "digit_in 36 (upper_digit (n div 16))" "digit_in 36 (upper_digit (n mod 16))"
      by (simp_all add: digit_in_def upper_digit_val)
    then show ?thesis using that(1) dig by (auto simp: pct_def is_ws_def)
  qed
  have "192 + n div 64 < 256 \<and> 128 + n mod 64 < 256" if "n < 256" for n :: nat
  proof -
    have "n div 64 \<le> 255 div 64" using that by (intro div_le_mono) simp
    moreover have "n mod 64 < 64" by simp
    ultimately show ?thesis by linarith
  qed
  then have bd: "192 + (of_char c :: nat) div 64 < 256" "128 + (of_char c :: nat) mod 64 < 256"
    using of_char_less [of c] by blast+
  show ?thesis
  proof (cases "unreserved c")
    case True
    then have "digit_in 36 x \<or> x \<in> set ''-_.!~*()'' \<or> x = CHR 0x27"
      using assms by (simp add: encode_char_def unreserved_def)
    then show ?thesis using dig [of x] by (elim disjE) (auto simp: is_ws_def)
  next
    case False
    then have "x \<in> set (pct (of_char c)) \<or> x \<in> set (pct (192 + of_char c div 64)) \<or>
        x \<in> set (pct (128 + of_char c mod 64))"
      using assms by (auto simp: encode_char_def Let_def split: if_splits)
    then show ?thesis
      using up [of x, OF _ of_char_less [of c]] up [of x, OF _ bd(1)] up [of x, OF _ bd(2)] by blast
  qed
qed

lemma encode_safe:
  "x \<in> set (encodeURIComponent s) \<Longrightarrow> \<not> is_ws x \<and> x \<notin> set '',;=''"
  using encode_char_safe by (auto simp: encodeURIComponent_def)

lemma encode_char_nonempty [simp]: "encode_char c \<noteq> []"
  by (simp add: encode_char_def pct_def Let_def)

lemma encode_eq_Nil [simp]: "encodeURIComponent s = [] \<longleftrightarrow> s = []"
  by (cases s) (auto simp: encodeURIComponent_def)

lemma encode_no_pct:
  assumes "CHR ''%'' \<notin> set (encodeURIComponent s)"
  shows "encodeURIComponent s = s"
  using assms
proof (induction s)
  case Nil
  then show ?case by (simp add: encodeURIComponent_def)
next
  case (Cons c s)
  then have "encode_char c = [c]"
    by (auto simp: encodeURIComponent_def encode_char_def pct_def Let_def split: if_splits)
  with Cons show ?case by (auto simp: encodeURIComponent_def)
qed

lemma decode_baggage_encode: "decode_baggage_value (encodeURIComponent s) = s"
  using encode_no_pct [of s] by (auto simp: decode_baggage_value_def decode_encode)

subsection \<open>The store\<close>

type_synonym baggage = "(string \<times> string) list"

definition setBaggageItem :: "jsval \<Rightarrow> jsval \<Rightarrow> baggage option \<Rightarrow> baggage \<times> baggage option" where
  "setBaggageItem k v store =
     (let current = (case store of None \<Rightarrow> [] | Some s \<Rightarrow> s)
      in case (k, v) of
           (JStr k, JStr v) \<Rightarrow>
             (if k = [] then (current, store)
              else (let newStore = AList.update k v current in (newStore, Some newStore)))
         | _ \<Rightarrow> (current, store))"

definition getBaggageItem :: "string \<Rightarrow> baggage option \<Rightarrow> string option" where
  "getBaggageItem k store = (case store of None \<Rightarrow> None | Some s \<Rightarrow> map_of s k)"

definition getAllBaggageItems :: "baggage option \<Rightarrow> baggage" where
  "getAllBaggageItems store = (case store of None \<Rightarrow> [] | Some s \<Rightarrow> s)"

definition removeBaggageItem :: "jsval \<Rightarrow> baggage option \<Rightarrow> baggage \<times> baggage option" where
  "removeBaggageItem keyToRemove store =
     (let current = (case store of None \<Rightarrow> [] | Some s \<Rightarrow> s)
      in case keyToRemove of
           JStr k \<Rightarrow>
             (if k = [] then (current, store)
              else (let newBaggage = AList.delete k current in (newBaggage, Some newBaggage)))
         | _ \<Rightarrow> (current, store))"

definition removeAllBaggageItems :: "baggage option \<Rightarrow> baggage option" where
  "removeAllBaggageItems store = (case store of None \<Rightarrow> None | Some s \<Rightarrow> Some [])"

definition setAllBaggageItems :: "baggage \<Rightarrow> baggage option \<Rightarrow> baggage option" where
  "setAllBaggageItems items store = Some items"

end
