(* ===== verification/Util.thy ===== *)
theory Util
  imports JsValues
begin

text \<open>
  The shared helpers of \<open>util.js\<close>: flag parsing, glob matching with one backtracking
  point, segment and path scanning without intermediate arrays, and the printing of sampling
  rates. The scanning helpers are proved equal to the simpler functions they replace.
\<close>

subsection \<open>Flags and shapes\<close>

definition isEmpty :: "jsval \<Rightarrow> bool" where
  "isEmpty v = (case v of
      JObj ps \<Rightarrow> ps = []
    | JArr xs \<Rightarrow> xs = []
    | JStr s \<Rightarrow> s = []
    | JBuf bs \<Rightarrow> bs = []
    | JErr m n s ps \<Rightarrow> ps = []
    | _ \<Rightarrow> True)"

definition isTrue :: "string \<Rightarrow> bool" where
  "isTrue str = (let s = to_lower str in s = ''true'' \<or> s = ''1'')"

definition isFalse :: "string \<Rightarrow> bool" where
  "isFalse str = (let s = to_lower str in s = ''false'' \<or> s = ''0'')"

definition isError :: "jsval \<Rightarrow> bool" where
  "isError v = (case v of
      JErr m n s ps \<Rightarrow> True
    | JObj ps \<Rightarrow> truthy (getp ps ''message'')
    | _ \<Rightarrow> False)"

subsection \<open>Glob matching\<close>

text \<open>
  The characters of a subject: a string in lower case, the decimal text of an integer. Anything
  else has no \<open>length\<close> and so no characters (arrays, which have, are not modelled).
\<close>

definition glob_subject :: "jsval \<Rightarrow> string" where
  "glob_subject v = (case v of
      JStr s \<Rightarrow> to_lower s
    | JNum (Fin r) \<Rightarrow> if is_int_num (Fin r) then show_int \<lfloor>r\<rfloor> else []
    | _ \<Rightarrow> [])"

partial_function (option) globMatch_loop ::
  "string \<Rightarrow> string \<Rightarrow> nat \<Rightarrow> nat \<Rightarrow> nat \<Rightarrow> nat \<Rightarrow> bool option" where
  "globMatch_loop pattern subject px sx nextPx nextSx =
     (if px < length pattern \<or> sx < length subject then
        if px < length pattern \<and> pattern ! px = CHR ''?'' \<and> sx < length subject then
          globMatch_loop pattern subject (px + 1) (sx + 1) nextPx nextSx
        else if px < length pattern \<and> pattern ! px = CHR ''*'' then
          globMatch_loop pattern subject (px + 1) sx px (sx + 1)
        else if px < length pattern \<and> pattern ! px \<noteq> CHR ''?'' \<and>
            sx < length subject \<and> subject ! sx = pattern ! px then
          globMatch_loop pattern subject (px + 1) (sx + 1) nextPx nextSx
        else if 0 < nextSx \<and> nextSx \<le> length subject then
          globMatch_loop pattern subject nextPx nextSx nextPx nextSx
        else Some False
      else Some True)"

definition globMatch :: "string \<Rightarrow> jsval \<Rightarrow> bool" where
  "globMatch pattern subject =
     (globMatch_loop (to_lower pattern) (glob_subject subject) 0 0 0 0 = Some True)"

text \<open>The meaning of a pattern, with full backtracking.\<close>

fun glob :: "string \<Rightarrow> string \<Rightarrow> bool" where
  "glob [] s = (s = [])"
| "glob (c # p) [] = (c = CHR ''*'' \<and> glob p [])"
| "glob (c # p) (x # s) =
     (if c = CHR ''*'' then glob p (x # s) \<or> glob (c # p) s
      else (c = CHR ''?'' \<or> c = x) \<and> glob p s)"

lemma glob_star: "glob (CHR ''*'' # p) s \<longleftrightarrow> glob p s \<or> (s \<noteq> [] \<and> glob (CHR ''*'' # p) (tl s))"
  by (cases s) auto

lemma glob_star_drop: "glob (CHR ''*'' # p) (drop i s) \<Longrightarrow> glob (CHR ''*'' # p) s"
proof (induction i arbitrary: s)
  case 0
  then show ?case by simp
next
  case (Suc i)
  then show ?case by (cases s) auto
qed

lemma glob_star_ex: "glob (CHR ''*'' # p) s \<Longrightarrow> \<exists>i \<le> length s. glob p (drop i s)"
proof (induction s)
  case Nil
  then show ?case by simp
next
  case (Cons x s)
  show ?case
  proof (cases "glob p (x # s)")
    case True
    then show ?thesis by (intro exI [of _ 0]) simp
  next
    case False
    with Cons.prems have "glob (CHR ''*'' # p) s" by simp
    with Cons.IH obtain i where "i \<le> length s" "glob p (drop i s)" by auto
    then show ?thesis by (intro exI [of _ "Suc i"]) simp
  qed
qed

lemma glob_segment:
  "CHR ''*'' \<notin> set u \<Longrightarrow> glob (u @ q) s \<Longrightarrow> length u \<le> length s \<and> glob q (drop (length u) s)"
proof (induction u arbitrary: s)
  case Nil
  then show ?case by simp
next
  case (Cons c u)
  then show ?case by (cases s) auto
qed

text \<open>
  The invariant of the loop: after a star at \<open>nextPx\<close>, either the loop has just gone back to
  it, or the pattern since then has no star and has consumed the subject from \<open>nextSx - 1\<close>.
\<close>

definition glob_inv :: "string \<Rightarrow> string \<Rightarrow> nat \<Rightarrow> nat \<Rightarrow> nat \<Rightarrow> nat \<Rightarrow> bool" where
  "glob_inv p s px sx npx nsx \<longleftrightarrow> px \<le> length p \<and> sx \<le> length s \<and>
     (nsx = 0 \<or> npx < length p \<and> p ! npx = CHR ''*'' \<and>
        (px = npx \<and> sx = nsx \<or>
         npx < px \<and> sx + npx + 2 = nsx + px \<and> CHR ''*'' \<notin> set (drop (Suc npx) (take px p))))"

definition glob_meas :: "string \<Rightarrow> string \<Rightarrow> nat \<Rightarrow> nat \<Rightarrow> nat \<Rightarrow> nat" where
  "glob_meas p s px npx nsx =
     (length s + 3 - (if nsx = 0 then 0 else if px = npx then nsx + 1 else nsx)) * (length p + 1)
       + (length p - px)"

definition glob_result :: "string \<Rightarrow> string \<Rightarrow> nat \<Rightarrow> nat \<Rightarrow> nat \<Rightarrow> nat \<Rightarrow> bool" where
  "glob_result p s px sx npx nsx \<longleftrightarrow> glob (drop px p) (drop sx s) \<or>
     (0 < nsx \<and> nsx \<le> length s \<and> glob (drop npx p) (drop nsx s))"

lemma glob_star_greedy:
  assumes inv: "glob_inv p s px sx npx nsx" and star: "px < length p" "p ! px = CHR ''*''"
    and alt: "0 < nsx" "nsx \<le> length s" "glob (drop npx p) (drop nsx s)"
  shows "glob (drop px p) (drop sx s)"
proof -
  have p: "drop px p = CHR ''*'' # drop (Suc px) p"
    using star by (metis Cons_nth_drop_Suc)
  from inv alt(1) consider "px = npx" "sx = nsx"
    | "npx < px" "sx + npx + 2 = nsx + px" "CHR ''*'' \<notin> set (drop (Suc npx) (take px p))"
        "npx < length p" "p ! npx = CHR ''*''"
    by (auto simp: glob_inv_def)
  then show ?thesis
  proof cases
    case 1
    with alt show ?thesis by simp
  next
    case 2
    define u where "u = drop (Suc npx) (take px p)"
    have lu: "length u = px - Suc npx" using star by (simp add: u_def)
    have "drop (Suc npx) p = drop (Suc npx) (take px p @ drop px p)" by simp
    also have "\<dots> = u @ drop px p"
      using 2 star by (subst drop_append) (simp add: u_def)
    finally have "drop npx p = CHR ''*'' # u @ drop px p"
      using 2 Cons_nth_drop_Suc [of npx p] by simp
    with alt(3) obtain i where i: "i \<le> length (drop nsx s)" "glob (u @ drop px p) (drop i (drop nsx s))"
      using glob_star_ex by metis
    then have "glob (drop px p) (drop (length u) (drop i (drop nsx s)))"
      using glob_segment 2(3) u_def by blast
    moreover have "length u + i + nsx = sx + Suc i" using 2 lu by simp
    then have "drop (length u) (drop i (drop nsx s)) = drop (Suc i) (drop sx s)"
      by (simp add: add.commute add.left_commute)
    ultimately show ?thesis
      unfolding p by (metis glob_star_drop)
  qed
qed

lemma glob_meas_retry:
  assumes "glob_inv p s px sx npx nsx" "0 < nsx" "nsx \<le> length s" "px \<noteq> npx"
  shows "glob_meas p s npx npx nsx < glob_meas p s px npx nsx"
proof -
  obtain k where k: "length s + 3 - nsx = Suc k" "length s + 3 - (nsx + 1) = k"
    using assms(3) by (intro that [of "length s + 2 - nsx"]) auto
  have "glob_meas p s npx npx nsx = k * (length p + 1) + (length p - npx)"
    "glob_meas p s px npx nsx = Suc k * (length p + 1) + (length p - px)"
    using assms k by (simp_all add: glob_meas_def)
  then show ?thesis by simp
qed

lemma glob_meas_adv:
  assumes "glob_inv p s px sx npx nsx" "px < length p" "p ! px \<noteq> CHR ''*''"
  shows "glob_meas p s (px + 1) npx nsx < glob_meas p s px npx nsx"
  using assms by (auto simp: glob_meas_def glob_inv_def)

lemma glob_meas_star:
  assumes "glob_inv p s px sx npx nsx" "px < length p" "p ! px = CHR ''*''"
  shows "glob_meas p s (px + 1) px (sx + 1) < glob_meas p s px npx nsx"
proof -
  define k where "k = (if nsx = 0 then 0 else if px = npx then nsx + 1 else nsx)"
  have "k \<le> sx + 1"
    using assms by (auto simp: glob_inv_def k_def)
  then have "(length s + 3 - (sx + 1)) * (length p + 1) \<le> (length s + 3 - k) * (length p + 1)"
    by (intro mult_le_mono1 diff_le_mono2)
  moreover have "glob_meas p s (px + 1) px (sx + 1) =
      (length s + 3 - (sx + 1)) * (length p + 1) + (length p - (px + 1))"
    unfolding glob_meas_def by (simp only: if_False add_is_0 one_neq_zero) simp
  moreover have "glob_meas p s px npx nsx = (length s + 3 - k) * (length p + 1) + (length p - px)"
    by (simp only: glob_meas_def k_def)
  ultimately show ?thesis using assms(2) by linarith
qed

lemma glob_inv_adv:
  assumes "glob_inv p s px sx npx nsx" "px < length p" "sx < length s" "p ! px \<noteq> CHR ''*''"
  shows "glob_inv p s (px + 1) (sx + 1) npx nsx"
  using assms by (auto simp: glob_inv_def take_Suc_conv_app_nth)

lemma glob_inv_star:
  assumes "glob_inv p s px sx npx nsx" "px < length p" "p ! px = CHR ''*''"
  shows "glob_inv p s (px + 1) sx px (sx + 1)"
  using assms by (auto simp: glob_inv_def)

lemma glob_drop_step:
  assumes "px < length p" "sx < length s" "p ! px \<noteq> CHR ''*''"
  shows "glob (drop px p) (drop sx s) \<longleftrightarrow>
    (p ! px = CHR ''?'' \<or> s ! sx = p ! px) \<and> glob (drop (px + 1) p) (drop (sx + 1) s)"
  using assms by (auto simp flip: Cons_nth_drop_Suc)

lemma glob_result_star:
  assumes "glob_inv p s px sx npx nsx" "px < length p" "p ! px = CHR ''*''"
  shows "glob_result p s (px + 1) sx px (sx + 1) = glob_result p s px sx npx nsx"
proof -
  have p: "drop px p = CHR ''*'' # drop (px + 1) p"
    using assms by (metis Cons_nth_drop_Suc Suc_eq_plus1)
  have "glob (drop px p) (drop sx s) \<longleftrightarrow>
      glob (drop (px + 1) p) (drop sx s) \<or> (sx < length s \<and> glob (drop px p) (drop (sx + 1) s))"
    unfolding p by (subst glob_star) (auto simp: tl_drop drop_Suc)
  then have "glob_result p s (px + 1) sx px (sx + 1) = glob (drop px p) (drop sx s)"
    by (auto simp: glob_result_def)
  then show ?thesis
    using glob_star_greedy [OF assms] by (auto simp: glob_result_def)
qed

lemma globMatch_loop_result:
  assumes "glob_inv p s px sx npx nsx"
  shows "globMatch_loop p s px sx npx nsx = Some (glob_result p s px sx npx nsx)"
  using assms
proof (induction "glob_meas p s px npx nsx" arbitrary: px sx npx nsx rule: less_induct)
  case less
  note I = less.prems and IH = less.hyps
  have le: "px \<le> length p" "sx \<le> length s" using I by (auto simp: glob_inv_def)
  consider (done_match) "px = length p" "sx = length s"
    | (star) "px < length p" "p ! px = CHR ''*''"
    | (adv) "px < length p" "sx < length s" "p ! px \<noteq> CHR ''*''" "p ! px = CHR ''?'' \<or> s ! sx = p ! px"
    | (stuck) "px < length p \<or> sx < length s"
        "px < length p \<longrightarrow> p ! px \<noteq> CHR ''*'' \<and> (sx < length s \<longrightarrow> p ! px \<noteq> CHR ''?'' \<and> s ! sx \<noteq> p ! px)"
    using le by (cases "px < length p"; cases "sx < length s") auto
  then show ?case
  proof cases
    case done_match
    then show ?thesis
      by (subst globMatch_loop.simps) (simp add: glob_result_def)
  next
    case star
    have "globMatch_loop p s px sx npx nsx = globMatch_loop p s (px + 1) sx px (sx + 1)"
      using star by (subst globMatch_loop.simps) simp
    then show ?thesis
      using IH [OF glob_meas_star [OF I star] glob_inv_star [OF I star]] glob_result_star [OF I star]
      by simp
  next
    case adv
    have "globMatch_loop p s px sx npx nsx = globMatch_loop p s (px + 1) (sx + 1) npx nsx"
      using adv by (subst globMatch_loop.simps) auto
    then show ?thesis
      using IH [OF glob_meas_adv [OF I adv(1,3)] glob_inv_adv [OF I adv(1,2,3)]]
        glob_drop_step [OF adv(1,2,3)] adv(4)
      by (simp add: glob_result_def)
  next
    case stuck
    have no: "\<not> glob (drop px p) (drop sx s)"
    proof (cases "px < length p")
      case True
      then have p: "drop px p = p ! px # drop (Suc px) p" by (simp add: Cons_nth_drop_Suc)
      show ?thesis
      proof (cases "sx < length s")
        case True
        with stuck \<open>px < length p\<close> show ?thesis using glob_drop_step [of px p sx s] by blast
      next
        case False
        with stuck(2) \<open>px < length p\<close> show ?thesis unfolding p by simp
      qed
    next
      case False
      then show ?thesis using stuck by simp
    qed
    show ?thesis
    proof (cases "0 < nsx \<and> nsx \<le> length s")
      case True
      with I have star: "npx < length p" "p ! npx = CHR ''*''" by (auto simp: glob_inv_def)
      with stuck(2) have ne: "px \<noteq> npx" by auto
      have inv: "glob_inv p s npx nsx npx nsx"
        using I True star by (simp add: glob_inv_def)
      have "globMatch_loop p s px sx npx nsx = globMatch_loop p s npx nsx npx nsx"
        using stuck True by (subst globMatch_loop.simps) auto
      also have "\<dots> = Some (glob_result p s npx nsx npx nsx)"
        using True ne by (intro IH inv glob_meas_retry [OF I]) auto
      finally show ?thesis using no True by (simp add: glob_result_def)
    next
      case False
      have "globMatch_loop p s px sx npx nsx = Some False"
        using stuck False by (subst globMatch_loop.simps) auto
      then show ?thesis using no False by (auto simp: glob_result_def)
    qed
  qed
qed

text \<open>
  C8: The matching loop always ends, and with its one backtracking point it decides exactly
  the language of the pattern (\<open>*\<close> any run of characters, \<open>?\<close> any one), ignoring case.
\<close>

theorem globMatch_correct:
  "globMatch_loop p s 0 0 0 0 = Some (glob p s) \<and>
   globMatch pattern subject = glob (to_lower pattern) (glob_subject subject)"
proof -
  have "globMatch_loop p s 0 0 0 0 = Some (glob p s)" for p s
    by (simp add: globMatch_loop_result glob_inv_def glob_result_def)
  then show ?thesis by (simp add: globMatch_def)
qed

subsection \<open>Scanning without intermediate arrays\<close>

fun find_str :: "string \<Rightarrow> string \<Rightarrow> nat option" where
  "find_str p [] = (if p = [] then Some 0 else None)"
| "find_str p (x # xs) = (if starts_with p (x # xs) then Some 0 else map_option Suc (find_str p xs))"

fun getSegment_loop :: "nat \<Rightarrow> string \<Rightarrow> string \<Rightarrow> nat \<Rightarrow> nat option" where
  "getSegment_loop 0 str sep start = Some start"
| "getSegment_loop (Suc i) str sep start =
     (case find_str sep (drop start str) of
        None \<Rightarrow> None
      | Some k \<Rightarrow> getSegment_loop i str sep (start + k + length sep))"

definition getSegment :: "string \<Rightarrow> string \<Rightarrow> nat \<Rightarrow> string option \<Rightarrow> string option" where
  "getSegment str sep index fallback =
     (case getSegment_loop index str sep 0 of
        None \<Rightarrow> fallback
      | Some start \<Rightarrow>
          (case find_str sep (drop start str) of
             None \<Rightarrow> Some (drop start str)
           | Some k \<Rightarrow> Some (slice str start (start + k))))"

definition stripQueryAndFragment :: "string \<Rightarrow> string" where
  "stripQueryAndFragment target =
     (let cut = index_of (CHR ''?'') target;
          fragment = index_of (CHR ''#'') target;
          cut = (case (cut, fragment) of
                   (None, _) \<Rightarrow> fragment
                 | (Some c, Some f) \<Rightarrow> if f < c then fragment else cut
                 | (Some c, None) \<Rightarrow> cut)
      in case cut of None \<Rightarrow> target | Some c \<Rightarrow> slice target 0 c)"

definition calculateDDBasePath :: "string \<Rightarrow> string" where
  "calculateDDBasePath dirname =
     (let dirSteps = split_on (CHR ''/'') dirname;
          after = takeWhile (\<lambda>d. d \<noteq> ''packages'') (rev dirSteps);
          steps = (if length after < length dirSteps
                   then take (length dirSteps - length after - 1) dirSteps
                   else butlast dirSteps)
      in join ''/'' steps @ ''/'')"

definition normalizePluginEnvName :: "string \<Rightarrow> bool \<Rightarrow> string" where
  "normalizePluginEnvName envPluginName makeLowercase =
     (let n = (if starts_with ''@'' envPluginName then drop 1 envPluginName else envPluginName);
          n = map (\<lambda>c. if digit_in 36 c \<or> c = CHR ''_'' then c else CHR ''_'') n
      in if makeLowercase then to_lower n else n)"

lemma find_str_char: "find_str [c] s = index_of c s"
  by (induction s) (auto simp: starts_with_def)

lemma drop_index_of: "index_of c s = Some k \<Longrightarrow> split_on c s = take k s # split_on c (drop (Suc k) s)"
proof (induction s arbitrary: k)
  case Nil
  then show ?case by simp
next
  case (Cons x xs)
  then show ?case by (cases k) (auto split: if_splits)
qed

lemma getSegment_loop_None:
  "getSegment_loop i s [c] start = None \<longleftrightarrow> length (split_on c (drop start s)) \<le> i"
proof (induction i arbitrary: start)
  case 0
  then show ?case by (simp add: Suc_le_eq)
next
  case (Suc i)
  show ?case
  proof (cases "index_of c (drop start s)")
    case None
    then have "split_on c (drop start s) = [drop start s]"
      by (simp add: index_of_None split_on_no_sep)
    then show ?thesis using None by (simp add: find_str_char)
  next
    case (Some k)
    have "drop (Suc k) (drop start s) = drop (start + k + 1) s" by (simp add: ac_simps)
    then have "length (split_on c (drop start s)) = Suc (length (split_on c (drop (start + k + 1) s)))"
      using drop_index_of [OF Some] by simp
    then show ?thesis
      using Suc.IH [of "start + k + 1"] Some by (simp add: find_str_char)
  qed
qed

lemma getSegment_loop_Some:
  "getSegment_loop i s [c] start = Some st \<Longrightarrow>
     split_on c (drop st s) = drop i (split_on c (drop start s))"
proof (induction i arbitrary: start)
  case 0
  then show ?case by simp
next
  case (Suc i)
  then obtain k where k: "index_of c (drop start s) = Some k"
      "getSegment_loop i s [c] (start + k + 1) = Some st"
    by (auto simp: find_str_char split: option.splits)
  have "drop (Suc k) (drop start s) = drop (start + k + 1) s" by (simp add: ac_simps)
  then have "split_on c (drop start s) = take k (drop start s) # split_on c (drop (start + k + 1) s)"
    using drop_index_of [OF k(1)] by metis
  then show ?case using Suc.IH [OF k(2)] by simp
qed

lemma stripQueryAndFragment_take_while:
  "stripQueryAndFragment s = takeWhile (\<lambda>c. c \<noteq> CHR ''?'' \<and> c \<noteq> CHR ''#'') s"
proof (induction s)
  case Nil
  then show ?case by (simp add: stripQueryAndFragment_def)
next
  case (Cons x s)
  then show ?case
    by (cases "index_of (CHR ''?'') s"; cases "index_of (CHR ''#'') s")
      (auto simp: stripQueryAndFragment_def slice_def split: if_splits)
qed

text \<open>
  With a separator of one character \<open>getSegment\<close> returns what \<open>split(sep)[index]\<close> would,
  and the fallback exactly when there are too few segments; \<open>stripQueryAndFragment\<close> is the
  longest prefix without \<open>?\<close> and \<open>#\<close>.
\<close>

theorem getSegment_split:
  "getSegment s [c] i fb =
     (if i < length (split_on c s) then Some (split_on c s ! i) else fb) \<and>
   stripQueryAndFragment s = takeWhile (\<lambda>c. c \<noteq> CHR ''?'' \<and> c \<noteq> CHR ''#'') s"
proof (intro conjI stripQueryAndFragment_take_while)
  show "getSegment s [c] i fb = (if i < length (split_on c s) then Some (split_on c s ! i) else fb)"
  proof (cases "getSegment_loop i s [c] 0")
    case None
    then show ?thesis using getSegment_loop_None [of i s c 0] by (simp add: getSegment_def)
  next
    case (Some st)
    then have i: "i < length (split_on c s)"
      using getSegment_loop_None [of i s c 0] by simp
    have hd: "split_on c s ! i = hd (split_on c (drop st s))"
      using i getSegment_loop_Some [OF Some] by (simp add: hd_drop_conv_nth)
    show ?thesis
    proof (cases "index_of c (drop st s)")
      case None
      then have "split_on c (drop st s) = [drop st s]"
        by (simp add: index_of_None split_on_no_sep)
      then show ?thesis
        using i hd Some None by (simp add: getSegment_def find_str_char)
    next
      case k: (Some k)
      then show ?thesis
        using i hd Some drop_index_of [OF k]
        by (simp add: getSegment_def find_str_char slice_def)
    qed
  qed
qed

subsection \<open>Printing a sampling rate\<close>

text \<open>\<open>Number(rate).toFixed(6)\<close> of a rate that is not negative\<close>

definition to_fixed6 :: "rat \<Rightarrow> string" where
  "to_fixed6 x = (let n = nat \<lfloor>x * 1000000 + 1 / 2\<rfloor>
     in show_nat (n div 1000000) @ ''.'' @ pad_start 6 (CHR ''0'') (show_nat (n mod 1000000)))"

text \<open>The loop from the last character down, the string given reversed\<close>

fun formatKnuthRate_loop :: "string \<Rightarrow> string" where
  "formatKnuthRate_loop [] = []"
| "formatKnuthRate_loop (c # cs) =
     (if c = CHR ''0'' \<and> cs \<noteq> [] then formatKnuthRate_loop cs
      else if c = CHR ''.'' then cs else c # cs)"

definition formatKnuthRate :: "rat \<Rightarrow> string" where
  "formatKnuthRate rate = rev (formatKnuthRate_loop (rev (to_fixed6 rate)))"

lemma formatKnuthRate_loop_dot:
  assumes "d \<noteq> []"
  shows "formatKnuthRate_loop (f @ CHR ''.'' # d) =
    (case dropWhile (\<lambda>c. c = CHR ''0'') f of [] \<Rightarrow> d
     | c # t \<Rightarrow> if c = CHR ''.'' then t @ CHR ''.'' # d else c # t @ CHR ''.'' # d)"
  using assms by (induction f) (auto split: list.splits)

lemma digits_val_append_zeros: "digits_val r (s @ replicate k (CHR ''0'')) = digits_val r s * r ^ k"
proof (induction k)
  case 0
  then show ?case by simp
next
  case (Suc k)
  have "replicate (Suc k) (CHR ''0'') = replicate k (CHR ''0'') @ [CHR ''0'']"
    by (simp add: replicate_append_same)
  then have "digits_val r (s @ replicate (Suc k) (CHR ''0'')) =
      digits_val r ((s @ replicate k (CHR ''0'')) @ [CHR ''0''])" by simp
  then show ?case using Suc by (simp only: digits_val_snoc) (simp add: digit_val_def)
qed

lemma digits_val_pad: "digits_val r (replicate k (CHR ''0'') @ s) = digits_val r s"
proof (induction s rule: rev_induct)
  case Nil
  then show ?case using digits_val_append_zeros [of r "[]" k] by (simp add: digits_val_def)
next
  case (snoc x s)
  then show ?case by (metis append.assoc digits_val_snoc)
qed

lemma length_show_nat_bound:
  "0 < k \<Longrightarrow> n < 10 ^ k \<Longrightarrow> length (show_nat n) \<le> k"
proof (induction k arbitrary: n)
  case 0
  then show ?case by simp
next
  case (Suc k)
  show ?case
  proof (cases "n < 10")
    case True
    then show ?thesis by (simp add: show_radix.simps [of 10 n])
  next
    case False
    with Suc.prems have "0 < k" by (cases k) auto
    moreover have "n div 10 < 10 ^ k" using Suc.prems by (simp add: div_less_iff_less_mult mult.commute)
    ultimately have "length (show_nat (n div 10)) \<le> k" by (rule Suc.IH)
    then show ?thesis using False by (simp add: show_radix.simps [of 10 n])
  qed
qed

lemma take_while_replicate: "takeWhile (\<lambda>c. c = x) f = replicate (length (takeWhile (\<lambda>c. c = x) f)) x"
  by (induction f) auto

text \<open>
  A rate that is not negative is written as its value rounded to millionths: an integer
  part and, unless they are all zero, at most six decimals of which the last is no zero.
\<close>

theorem formatKnuthRate_value:
  assumes "0 \<le> rate"
  defines "n \<equiv> nat \<lfloor>rate * 1000000 + 1 / 2\<rfloor>"
  shows "\<exists>f. formatKnuthRate rate = show_nat (n div 1000000) @ (if f = [] then [] else CHR ''.'' # f) \<and>
    length f \<le> 6 \<and> (f \<noteq> [] \<longrightarrow> last f \<noteq> CHR ''0'') \<and> (\<forall>c \<in> set f. digit_in 10 c) \<and>
    digits_val 10 f * 10 ^ (6 - length f) = n mod 1000000"
proof -
  define m where "m = n mod 1000000"
  define d where "d = pad_start 6 (CHR ''0'') (show_nat m)"
  define i where "i = show_nat (n div 1000000)"
  define g where "g = dropWhile (\<lambda>c. c = CHR ''0'') (rev d)"
  define k where "k = length (takeWhile (\<lambda>c. c = CHR ''0'') (rev d))"
  have fixed: "to_fixed6 rate = i @ CHR ''.'' # d"
    by (simp add: to_fixed6_def Let_def n_def m_def d_def i_def)
  have len: "length (show_nat m) \<le> 6"
    by (rule length_show_nat_bound) (simp_all add: m_def)
  then have ld: "length d = 6" by (simp add: d_def length_pad_start)
  have dig: "\<forall>c \<in> set d. digit_in 10 c"
    using show_radix_digits [of 10 m] by (auto simp: d_def pad_start_def digit_in_10)
  have "rev d = replicate k (CHR ''0'') @ g"
    using takeWhile_dropWhile_id [of "\<lambda>c. c = CHR ''0''" "rev d"] take_while_replicate
    by (metis g_def k_def)
  then have dg: "d = rev g @ replicate k (CHR ''0'')"
    by (metis rev_append rev_replicate rev_rev_ident)
  have nodot: "CHR ''.'' \<notin> set d" using dig by (auto simp: digit_in_10)
  have "formatKnuthRate rate = i @ (if rev g = [] then [] else CHR ''.'' # rev g)"
  proof (cases g)
    case Nil
    then show ?thesis
      by (simp add: formatKnuthRate_def fixed formatKnuthRate_loop_dot i_def g_def [symmetric])
  next
    case (Cons c t)
    then have "c \<noteq> CHR ''.''" using nodot dg by auto
    with Cons show ?thesis
      by (simp add: formatKnuthRate_def fixed formatKnuthRate_loop_dot i_def g_def [symmetric])
  qed
  moreover have "last (rev g) \<noteq> CHR ''0''" if "rev g \<noteq> []"
    using that hd_dropWhile [of "\<lambda>c. c = CHR ''0''" "rev d"] by (simp add: g_def last_rev)
  moreover have "\<forall>c \<in> set (rev g). digit_in 10 c" using dig dg by auto
  moreover have "length (rev g) + k = 6" using ld dg by (metis length_append length_replicate)
  moreover have "digits_val 10 d = m"
    by (simp add: d_def pad_start_def digits_val_pad digits_val_show)
  ultimately show ?thesis
    unfolding i_def m_def [symmetric] dg
    by (intro exI [of _ "rev g"]) (auto simp: digits_val_append_zeros simp flip: m_def)
qed

theorem formatKnuthRate_value_witness:
  "\<exists>f. formatKnuthRate (1 / 4) = show_nat 0 @ (if f = [] then [] else CHR ''.'' # f) \<and>
    length f \<le> 6 \<and> (f \<noteq> [] \<longrightarrow> last f \<noteq> CHR ''0'') \<and> (\<forall>c \<in> set f. digit_in 10 c) \<and>
    digits_val 10 f * 10 ^ (6 - length f) = 250000"
proof -
  have "\<lfloor>(500001 / 2 :: rat)\<rfloor> = 250000"
    by (simp add: floor_eq_iff)
  then have "nat \<lfloor>(1 / 4 :: rat) * 1000000 + 1 / 2\<rfloor> = 250000" by simp
  then show ?thesis using formatKnuthRate_value [of "1 / 4"] by simp
qed

end
