(* ===== verification/RateLimiter.thy ===== *)
theory RateLimiter
  imports JsNumbers
begin

text \<open>
  The rate limiter of \<open>rate_limiter.js\<close>. The token bucket it wraps is a vendored package
  (\<open>limiter\<close>) whose source is not in the repository: its three entry points are the fields of
  \<open>limiter_api\<close>, an argument of every operation, and \<open>limiter_ok\<close> states the documented
  behaviour the code relies on. \<open>now\<close> is the clock at the call.
\<close>

record 'l limiter_api =
  new_limiter :: "int \<Rightarrow> string \<Rightarrow> 'l"
  curIntervalStart :: "'l \<Rightarrow> int"
  tokensThisInterval :: "'l \<Rightarrow> nat"
  tryRemoveTokens :: "nat \<Rightarrow> int \<Rightarrow> 'l \<Rightarrow> bool \<times> 'l"

text \<open>
  No token is used up at first; a call starts a new interval or not, and counts the tokens it
  hands out against the interval it ends in, never more than the limit.
\<close>

definition limiter_ok :: "'l limiter_api \<Rightarrow> bool" where
  "limiter_ok api \<longleftrightarrow>
     (\<forall>n i. tokensThisInterval api (new_limiter api n i) = 0) \<and>
     (\<forall>k now l b l'. tryRemoveTokens api k now l = (b, l') \<longrightarrow>
        tokensThisInterval api l' =
          (if curIntervalStart api l' = curIntervalStart api l then tokensThisInterval api l else 0) +
          (if b then k else 0))"

record 'l rate_limiter =
  rateLimit :: jsnum
  bucket :: 'l
  tokensRequested :: nat
  prevIntervalTokens :: nat
  prevTokensRequested :: nat

definition new_RateLimiter :: "'l limiter_api \<Rightarrow> jsnum \<Rightarrow> string \<Rightarrow> 'l rate_limiter" where
  "new_RateLimiter api limit interval =
     (let n = num_trunc limit
      in \<lparr>rateLimit = n,
         bucket = new_limiter api (case n of Fin r \<Rightarrow> \<lfloor>r\<rfloor> | _ \<Rightarrow> 0) interval,
         tokensRequested = 0, prevIntervalTokens = 0, prevTokensRequested = 0\<rparr>)"

text \<open>\<open>_isAllowed\<close>\<close>

definition rl_allow :: "'l limiter_api \<Rightarrow> int \<Rightarrow> 'l rate_limiter \<Rightarrow> bool \<times> 'l" where
  "rl_allow api now rl =
     (if num_neg (rateLimit rl) then (True, bucket rl)
      else if rateLimit rl = Fin 0 then (False, bucket rl)
      else tryRemoveTokens api 1 now (bucket rl))"

definition isAllowed :: "'l limiter_api \<Rightarrow> int \<Rightarrow> 'l rate_limiter \<Rightarrow> bool \<times> 'l rate_limiter" where
  "isAllowed api now rl =
     (let intervalStart = curIntervalStart api (bucket rl);
          intervalTokens = tokensThisInterval api (bucket rl);
          (allowed, l) = rl_allow api now rl
      in (allowed,
          if intervalStart = curIntervalStart api l then
            rl\<lparr>bucket := l, tokensRequested := tokensRequested rl + 1\<rparr>
          else
            rl\<lparr>bucket := l, prevIntervalTokens := intervalTokens,
              prevTokensRequested := tokensRequested rl, tokensRequested := 1\<rparr>))"

definition effectiveRate :: "'l limiter_api \<Rightarrow> 'l rate_limiter \<Rightarrow> rat" where
  "effectiveRate api rl =
     (if num_neg (rateLimit rl) then 1
      else if rateLimit rl = Fin 0 then 0
      else if tokensRequested rl = 0 then 1
      else of_nat (prevIntervalTokens rl + tokensThisInterval api (bucket rl)) /
           of_nat (prevTokensRequested rl + tokensRequested rl))"

definition currentWindowRate :: "'l limiter_api \<Rightarrow> 'l rate_limiter \<Rightarrow> rat" where
  "currentWindowRate api rl =
     (if num_neg (rateLimit rl) then 1
      else if rateLimit rl = Fin 0 then 0
      else if tokensRequested rl = 0 then 1
      else of_nat (tokensThisInterval api (bucket rl)) / of_nat (tokensRequested rl))"

subsection \<open>The invariant\<close>

text \<open>Tokens handed out never exceed tokens asked for, in either interval.\<close>

definition rl_inv :: "'l limiter_api \<Rightarrow> 'l rate_limiter \<Rightarrow> bool" where
  "rl_inv api rl \<longleftrightarrow>
     tokensThisInterval api (bucket rl) \<le> tokensRequested rl \<and>
     prevIntervalTokens rl \<le> prevTokensRequested rl"

text \<open>A sequence of requests at the given times, with the answers.\<close>

fun run_requests :: "'l limiter_api \<Rightarrow> int list \<Rightarrow> 'l rate_limiter \<Rightarrow> bool list \<times> 'l rate_limiter" where
  "run_requests api [] rl = ([], rl)"
| "run_requests api (t # ts) rl =
     (let (b, rl') = isAllowed api t rl; (bs, rl'') = run_requests api ts rl' in (b # bs, rl''))"

lemma rl_inv_new: "limiter_ok api \<Longrightarrow> rl_inv api (new_RateLimiter api n i)"
  by (simp add: rl_inv_def new_RateLimiter_def limiter_ok_def Let_def)

lemma isAllowed_limit [simp]: "rateLimit (snd (isAllowed api t rl)) = rateLimit rl"
  by (simp add: isAllowed_def Let_def split: prod.splits)

lemma limiter_okD:
  assumes "limiter_ok api" "tryRemoveTokens api k t l = (b, l')"
  shows "tokensThisInterval api l' =
    (if curIntervalStart api l' = curIntervalStart api l then tokensThisInterval api l else 0) +
    (if b then k else 0)"
  using assms unfolding limiter_ok_def by blast

lemma rl_allow_tokens:
  assumes "limiter_ok api" "rl_allow api t rl = (b, l)"
  shows "tokensThisInterval api l \<le>
    (if curIntervalStart api l = curIntervalStart api (bucket rl)
     then tokensThisInterval api (bucket rl) else 0) + (if b then 1 else 0)"
proof (cases "num_neg (rateLimit rl) \<or> rateLimit rl = Fin 0")
  case True
  then show ?thesis using assms(2) by (auto simp: rl_allow_def split: if_splits)
next
  case False
  then have "tryRemoveTokens api 1 t (bucket rl) = (b, l)"
    using assms(2) by (simp add: rl_allow_def)
  from limiter_okD [OF assms(1) this] show ?thesis by simp
qed

lemma rl_inv_isAllowed:
  assumes ok: "limiter_ok api" and inv: "rl_inv api rl"
  shows "rl_inv api (snd (isAllowed api t rl))"
proof -
  obtain b l where bl: "rl_allow api t rl = (b, l)" by fastforce
  have "tokensThisInterval api l \<le>
      (if curIntervalStart api l = curIntervalStart api (bucket rl)
       then tokensThisInterval api (bucket rl) else 0) + 1"
    using rl_allow_tokens [OF ok bl] by (auto split: if_splits)
  then show ?thesis using inv bl
    by (auto simp: rl_inv_def isAllowed_def Let_def split: if_splits)
qed

lemma rl_inv_run:
  "limiter_ok api \<Longrightarrow> rl_inv api rl \<Longrightarrow> rl_inv api (snd (run_requests api ts rl))"
proof (induction ts arbitrary: rl)
  case Nil
  then show ?case by simp
next
  case (Cons t ts)
  then show ?case
    using rl_inv_isAllowed [of api rl t] by (auto simp: split_beta Let_def)
qed

lemma rate_unit: "a \<le> b \<Longrightarrow> 0 \<le> (of_nat a / of_nat b :: rat) \<and> (of_nat a / of_nat b :: rat) \<le> 1"
  by (cases "b = 0") (auto simp: divide_le_eq_1)

lemma effectiveRate_unit:
  assumes "rl_inv api rl"
  shows "0 \<le> effectiveRate api rl" "effectiveRate api rl \<le> 1"
  using assms rate_unit [of "prevIntervalTokens rl + tokensThisInterval api (bucket rl)"
      "prevTokensRequested rl + tokensRequested rl"]
  by (auto simp: effectiveRate_def rl_inv_def)

text \<open>
  Whatever requests a limiter has answered since it was made, both rates it reports lie in
  the unit interval; a negative limit lets everything pass and the limit 0 nothing.
\<close>

theorem effectiveRate_range:
  assumes "limiter_ok api" "run_requests api ts (new_RateLimiter api n i) = (bs, rl)"
  shows "0 \<le> effectiveRate api rl \<and> effectiveRate api rl \<le> 1 \<and>
    0 \<le> currentWindowRate api rl \<and> currentWindowRate api rl \<le> 1 \<and>
    (num_neg (num_trunc n) \<longrightarrow> set bs \<subseteq> {True}) \<and> (num_trunc n = Fin 0 \<longrightarrow> set bs \<subseteq> {False})"
proof -
  have inv: "rl_inv api rl"
    using assms rl_inv_run [OF assms(1) rl_inv_new [OF assms(1)], of ts n i] by simp
  then have cur: "0 \<le> currentWindowRate api rl \<and> currentWindowRate api rl \<le> 1"
    using rate_unit [of "tokensThisInterval api (bucket rl)" "tokensRequested rl"]
    by (auto simp: currentWindowRate_def rl_inv_def)
  have answers: "(num_neg (rateLimit r) \<longrightarrow> set (fst (run_requests api ts r)) \<subseteq> {True}) \<and>
      (rateLimit r = Fin 0 \<longrightarrow> set (fst (run_requests api ts r)) \<subseteq> {False})" for r
  proof (induction ts arbitrary: r)
    case Nil
    then show ?case by simp
  next
    case (Cons t ts)
    have "num_neg (rateLimit r) \<Longrightarrow> fst (isAllowed api t r)"
      "rateLimit r = Fin 0 \<Longrightarrow> \<not> fst (isAllowed api t r)"
      by (auto simp: isAllowed_def rl_allow_def Let_def num_neg_def)
    with Cons [of "snd (isAllowed api t r)"] show ?case
      by (auto simp: split_beta Let_def)
  qed
  show ?thesis
    using effectiveRate_unit [OF inv] cur answers [of "new_RateLimiter api n i"] assms(2)
    by (auto simp: new_RateLimiter_def Let_def)
qed

text \<open>A bucket of one second windows on which the contract can be checked: the start of the
  current window, the tokens used in it, and the limit.\<close>

definition window_limiter :: "(int \<times> nat \<times> int) limiter_api" where
  "window_limiter =
     \<lparr>new_limiter = (\<lambda>n i. (0, 0, n)),
      curIntervalStart = (\<lambda>(s, k, n). s),
      tokensThisInterval = (\<lambda>(s, k, n). k),
      tryRemoveTokens = (\<lambda>c now (s, k, n).
        let (s, k) = (if s + 1000 \<le> now then (now, 0) else (s, k))
        in if int (k + c) \<le> n then (True, (s, k + c, n)) else (False, (s, k, n)))\<rparr>"

lemma window_limiter_ok: "limiter_ok window_limiter"
  by (auto simp: limiter_ok_def window_limiter_def Let_def split: if_splits)

theorem effectiveRate_range_witness:
  "effectiveRate window_limiter
     (snd (run_requests window_limiter [0, 5, 9, 1500] (new_RateLimiter window_limiter (Fin 2) ''second''))) \<le> 1"
  using effectiveRate_range [OF window_limiter_ok surjective_pairing] by blast

end
