(* ===== verification/Identifier.thy ===== *)
theory Identifier
  imports JsStrings JsNumbers
begin

unbundle bit_operations_syntax

text \<open>
  Trace and span identifiers (\<open>id.js\<close>): big-endian byte buffers of 8 or 16 bytes, read from
  hexadecimal or decimal text and written back. The memo fields of the class
  (\<open>#bigInt\<close>, \<open>#stringHex\<close>, \<open>#stringDecimal\<close>) only cache what the buffer determines and are
  not part of the model. A pair that is no hexadecimal number, which \<open>parseInt\<close> reads as
  \<open>NaN\<close>, is the byte 0, as every \<open>Buffer\<close> conversion of the array makes it (only \<open>equals\<close>, where
  \<open>NaN\<close> differs from itself, could tell). Arithmetic is exact below \<open>2^53\<close>, which
  covers every numeral of at most 64 bits.
\<close>

type_synonym ident = "byte list"

definition UINT_MAX :: int where
  "UINT_MAX = 4294967296"

definition zeroId :: ident where
  "zeroId = replicate 8 0"

subsection \<open>The batch of random bytes\<close>

record id_gen =
  batch :: nat
  data :: "byte list"

text \<open>\<open>rnd\<close> is what \<open>randomFillSync\<close> writes, should this call refill the batch.\<close>

definition pseudoRandom :: "byte list \<Rightarrow> id_gen \<Rightarrow> ident \<times> id_gen" where
  "pseudoRandom rnd g =
     (let d = (if batch g = 0 then rnd else data g);
          b = (batch g + 1) mod 8192;
          offset = b * 8
      in ([d ! offset AND 0x7F, d ! (offset + 1), d ! (offset + 2), d ! (offset + 3),
           d ! (offset + 4), d ! (offset + 5), d ! (offset + 6), d ! (offset + 7)],
          g\<lparr>batch := b, data := d\<rparr>))"

subsection \<open>Reading\<close>

definition hex_pair :: "string \<Rightarrow> byte" where
  "hex_pair s = (case parse_int 16 s of None \<Rightarrow> 0 | Some v \<Rightarrow> byte_of v)"

definition hexBuffer :: "string \<Rightarrow> ident" where
  "hexBuffer value =
     (let size = (length value + 15) div 16 * 16;
          bytes = size div 2;
          v = pad_start size (CHR ''0'') value
      in map (\<lambda>i. hex_pair (slice v (i * 2) (i * 2 + 2))) [0..<bytes])"

definition createBuffer :: "byte list \<Rightarrow> id_gen \<Rightarrow> string \<Rightarrow> ident \<times> id_gen" where
  "createBuffer rnd g value =
     (if value = ''0'' then (zeroId, g)
      else if value = [] then pseudoRandom rnd g
      else (hexBuffer value, g))"

text \<open>\<open>value >>= 8\<close> three times, the low byte stored each time\<close>

definition writeUInt32BE :: "int \<Rightarrow> byte list" where
  "writeUInt32BE value =
     (let v1 = shr value 8; v2 = shr v1 8; v3 = shr v2 8
      in [byte_of v3, byte_of v2, byte_of v1, byte_of value])"

definition readInt32 :: "byte list \<Rightarrow> nat \<Rightarrow> int" where
  "readInt32 buffer offset =
     uint (buffer ! (offset + 0)) * 16777216 +
     shl (uint (buffer ! (offset + 1))) 16 +
     shl (uint (buffer ! (offset + 2))) 8 +
     uint (buffer ! (offset + 3))"

fun fromString_loop :: "nat \<Rightarrow> int \<Rightarrow> int \<Rightarrow> string \<Rightarrow> int \<times> int" where
  "fromString_loop raddix high low [] = (high, low)"
| "fromString_loop raddix high low (c # cs) =
     (case parse_int raddix [c] of
        None \<Rightarrow> (high, low)
      | Some chr \<Rightarrow>
          (if \<not> chr \<ge> 0 then (high, low)
           else let low' = low * int raddix + chr;
                    high' = high * int raddix + low' div UINT_MAX
                in fromString_loop raddix high' (low' mod UINT_MAX) cs))"

definition fromString :: "string \<Rightarrow> nat \<Rightarrow> ident" where
  "fromString str raddix =
     (let sign = starts_with ''-'' str;
          (high, low) = fromString_loop raddix 0 0 (if sign then drop 1 str else str);
          (high, low) =
            (if sign then
               (if low \<noteq> 0 then (bit_not32 high, UINT_MAX - low)
                else (bit_not32 high + 1, low))
             else (high, low))
      in writeUInt32BE high @ writeUInt32BE low)"

subsection \<open>Writing\<close>

function toNumber_loop :: "nat \<Rightarrow> nat \<Rightarrow> nat \<Rightarrow> string \<Rightarrow> string" where
  "toNumber_loop radix high low str =
     (let m = (high mod radix) * 4294967296 + low;
          high' = high div radix;
          low' = m div radix;
          str' = show_radix radix (m mod radix) @ str
      in if radix < 2 \<or> (high' = 0 \<and> low' = 0) then str'
         else toNumber_loop radix high' low' str')"
  by pat_completeness auto

lemma toNumber_step:
  "(high div radix) * 4294967296 + ((high mod radix) * 4294967296 + low) div radix =
     (high * 4294967296 + low) div (radix :: nat)"
proof (cases "radix = 0")
  case True
  then show ?thesis by simp
next
  case False
  have "high * 4294967296 = (high div radix * radix + high mod radix) * 4294967296" by simp
  then have "high * 4294967296 + low =
      (high div radix * 4294967296) * radix + ((high mod radix) * 4294967296 + low)"
    unfolding add_mult_distrib by simp
  then have "(high * 4294967296 + low) div radix =
      ((high div radix * 4294967296) * radix + ((high mod radix) * 4294967296 + low)) div radix"
    by (simp only: )
  also have "\<dots> = high div radix * 4294967296 + ((high mod radix) * 4294967296 + low) div radix"
    using False by (rule div_mult_self3)
  finally show ?thesis by simp
qed

termination toNumber_loop
proof (relation "measure (\<lambda>(radix, high, low, str). high * 4294967296 + low)", goal_cases)
  case 1
  then show ?case by simp
next
  case (2 radix high low str m high' low' str')
  then have r: "2 \<le> radix" and nz: "high' * 4294967296 + low' \<noteq> 0" by auto
  have "high' * 4294967296 + low' = (high * 4294967296 + low) div radix"
    using 2(1-3) toNumber_step by simp
  moreover have "n div radix < n" if "n div radix \<noteq> 0" for n
    using r that by (intro div_less_dividend) (auto intro: Nat.gr0I)
  ultimately show ?case using nz by auto
qed

declare toNumber_loop.simps [simp del]

definition toNumberString :: "ident \<Rightarrow> nat \<Rightarrow> string" where
  "toNumberString buffer radix =
     (let high = readInt32 buffer (length buffer - 8);
          low = readInt32 buffer (length buffer - 4)
      in toNumber_loop (if radix = 0 then 10 else radix) (nat high) (nat low) [])"

definition hex_byte :: "byte \<Rightarrow> string" where
  "hex_byte b = [digit_char (unat b div 16), digit_char (unat b mod 16)]"

definition hex_string :: "byte list \<Rightarrow> string" where
  "hex_string bs = concat (map hex_byte bs)"

definition toString_id :: "ident \<Rightarrow> nat \<Rightarrow> string" where
  "toString_id buffer radix =
     (if radix = 16 then hex_string buffer
      else if radix = 10 then toNumberString buffer 10
      else toNumberString buffer radix)"

text \<open>\<open>readBigUInt64BE(0)\<close>\<close>

definition toBigInt :: "ident \<Rightarrow> int" where
  "toBigInt buffer = be_val (take 8 buffer)"

definition toArray :: "ident \<Rightarrow> byte list" where
  "toArray buffer = (if length buffer = 8 then buffer else drop (length buffer - 8) buffer)"

definition toTraceIdHex :: "ident \<Rightarrow> string option \<Rightarrow> string" where
  "toTraceIdHex buffer traceIdHigh =
     (case traceIdHigh of
        Some h \<Rightarrow> if h \<noteq> [] \<and> length buffer \<le> 8 then h @ toString_id buffer 16
                  else toString_id buffer 16
      | None \<Rightarrow> toString_id buffer 16)"

text \<open>The loop of \<open>equals\<close> walks both buffers from the last byte down.\<close>

fun equals_loop :: "byte list \<Rightarrow> byte list \<Rightarrow> bool" where
  "equals_loop (x # xs) (y # ys) = (if x \<noteq> y then False else equals_loop xs ys)"
| "equals_loop _ _ = True"

definition equals :: "ident \<Rightarrow> ident \<Rightarrow> bool" where
  "equals a b = equals_loop (rev a) (rev b)"

text \<open>\<open>createIdentifier(value, radix)\<close>: a missing value is the empty string\<close>

definition createIdentifier :: "byte list \<Rightarrow> id_gen \<Rightarrow> string option \<Rightarrow> nat \<Rightarrow> ident \<times> id_gen" where
  "createIdentifier rnd g value radix =
     (let v = (case value of None \<Rightarrow> [] | Some s \<Rightarrow> s)
      in if radix = 16 then createBuffer rnd g v else (fromString v radix, g))"

subsection \<open>Correctness\<close>

lemma shl_byte: "k \<le> 16 \<Longrightarrow> shl (uint (b :: byte)) k = uint b * 2 ^ k"
proof -
  assume k: "k \<le> 16"
  have b: "0 \<le> uint b" "uint b < 256"
    using uint_bounded [of b] by auto
  have "uint b * 2 ^ k \<le> 255 * 2 ^ 16"
    using b k by (intro mult_mono power_increasing) auto
  then have "uint b * 2 ^ k < 2147483648" by simp
  moreover have "0 \<le> uint b * 2 ^ k" using b by simp
  ultimately have "to_int32 (uint b * 2 ^ k) = uint b * 2 ^ k" by (intro to_int32_id) linarith+
  moreover have "to_int32 (uint b) = uint b" using b by (intro to_int32_id) linarith+
  ultimately show ?thesis
    by (simp add: shl_def push_bit_eq_mult)
qed

lemma readInt32_be:
  assumes "offset + 4 \<le> length buffer"
  shows "readInt32 buffer offset = be_val (take 4 (drop offset buffer))"
proof -
  have "take 4 (drop offset buffer) =
      [buffer ! offset, buffer ! (offset + 1), buffer ! (offset + 2), buffer ! (offset + 3)]"
    using assms by (intro nth_equalityI) (auto simp: nth_Cons numeral_eq_Suc less_Suc_eq)
  then show ?thesis
    by (simp add: readInt32_def be_val_def shl_byte)
qed

lemma toNumber_loop_show:
  "2 \<le> r \<Longrightarrow> toNumber_loop r h l s = show_radix r (h * 4294967296 + l) @ s"
proof (induction r h l s rule: toNumber_loop.induct)
  case (1 r h l s)
  define n where "n = h * 4294967296 + l"
  define m where "m = (h mod r) * 4294967296 + l"
  have div: "(h div r) * 4294967296 + m div r = n div r"
    unfolding n_def m_def by (rule toNumber_step)
  have mod: "m mod r = n mod r"
    unfolding n_def m_def by (metis mod_add_left_eq mod_mult_left_eq)
  have unfold: "toNumber_loop r h l s =
      (let str = show_radix r (m mod r) @ s in
       if h div r = 0 \<and> m div r = 0 then str else toNumber_loop r (h div r) (m div r) str)"
    using "1.prems" by (subst toNumber_loop.simps) (simp add: m_def Let_def)
  have dig: "show_radix r (n mod r) = [digit_char (n mod r)]"
    using "1.prems" by (simp add: show_radix.simps [of r "n mod r"])
  show ?case
  proof (cases "h div r = 0 \<and> m div r = 0")
    case True
    then have "n div r = 0" using div by simp
    then have "n < r" using "1.prems" by (simp add: div_eq_0_iff)
    then show ?thesis using True unfold mod by (simp add: n_def)
  next
    case False
    then have "n div r \<noteq> 0" using div by auto
    then have "r \<le> n" using "1.prems" by (meson div_less not_less)
    then have "show_radix r n = show_radix r (n div r) @ [digit_char (n mod r)]"
      using "1.prems" by (simp add: show_radix.simps [of r n])
    moreover have "toNumber_loop r (h div r) (m div r) (show_radix r (m mod r) @ s) =
        show_radix r ((h div r) * 4294967296 + m div r) @ show_radix r (m mod r) @ s"
      using "1.IH" [OF refl refl refl refl] False "1.prems" by (auto simp: m_def)
    ultimately show ?thesis
      using False unfold div mod dig by (simp add: n_def Let_def)
  qed
qed

lemma be_val_halves:
  assumes "8 \<le> length b"
  shows "be_val (drop (length b - 8) b) =
    be_val (take 4 (drop (length b - 8) b)) * 4294967296 + be_val (take 4 (drop (length b - 4) b))"
proof -
  have "drop (length b - 8) b = take 4 (drop (length b - 8) b) @ take 4 (drop (length b - 4) b)"
    using assms append_take_drop_id [of 4 "drop (length b - 8) b"] by simp
  moreover have "length (take 4 (drop (length b - 4) b)) = 4" using assms by simp
  moreover have "(256 :: int) ^ 4 = 4294967296" by simp
  ultimately show ?thesis
    by (metis be_val_append)
qed

lemma toNumberString_show:
  assumes "2 \<le> r" "8 \<le> length b"
  shows "toNumberString b r = show_radix r (nat (be_val (drop (length b - 8) b)))"
proof -
  have pos: "0 \<le> be_val x" for x using be_val_bound by blast
  have "nat (be_val (drop (length b - 8) b)) =
      nat (be_val (take 4 (drop (length b - 8) b))) * 4294967296 +
      nat (be_val (take 4 (drop (length b - 4) b)))"
    using pos be_val_halves [OF assms(2)] by (simp add: nat_add_distrib nat_mult_distrib)
  then show ?thesis
    using assms by (simp add: toNumberString_def readInt32_be toNumber_loop_show)
qed

lemma parse_int_char:
  assumes "digit_in r c"
  shows "parse_int r [c] = Some (int (the (digit_val c)))"
proof -
  have "\<not> is_ws c" "c \<noteq> CHR ''-''" "c \<noteq> CHR ''+''"
    using assms digit_in_not_ws digit_in_not_special by auto
  then show ?thesis
    using assms by (simp add: parse_int_def trim_start_def parse_sign_def strip_0x_def
        starts_with_def digits_val_def)
qed

lemma digits_val_Cons:
  "digits_val r (c # s) = the (digit_val c) * r ^ length s + digits_val r s"
proof (induction s rule: rev_induct)
  case Nil
  then show ?case by (simp add: digits_val_def)
next
  case (snoc x s)
  have "digits_val r (c # s @ [x]) = digits_val r ((c # s) @ [x])" by simp
  also have "\<dots> = digits_val r (c # s) * r + the (digit_val x)" by (rule digits_val_snoc)
  finally show ?case using snoc by (simp add: digits_val_snoc algebra_simps)
qed

lemma fromString_loop_digits:
  assumes "\<forall>c \<in> set s. digit_in r c" "0 \<le> h" "0 \<le> l" "l < UINT_MAX"
  shows "fromString_loop r h l s =
    (let v = (h * UINT_MAX + l) * int r ^ length s + int (digits_val r s)
     in (v div UINT_MAX, v mod UINT_MAX))"
  using assms
proof (induction s arbitrary: h l)
  case Nil
  then show ?case by (simp add: digits_val_def UINT_MAX_def)
next
  case (Cons c s)
  define d where "d = int (the (digit_val c))"
  define l' where "l' = l * int r + d"
  define h' where "h' = h * int r + l' div UINT_MAX"
  have pos: "0 \<le> l'" "0 \<le> h'" "0 \<le> d"
    using Cons.prems by (auto simp: l'_def h'_def d_def UINT_MAX_def intro!: add_nonneg_nonneg div_int_pos_iff [THEN iffD2])
  have step: "fromString_loop r h l (c # s) = fromString_loop r h' (l' mod UINT_MAX) s"
    using Cons.prems by (simp add: parse_int_char l'_def h'_def d_def Let_def)
  have "h' * UINT_MAX + l' mod UINT_MAX = h * int r * UINT_MAX + l'"
    unfolding h'_def by (simp add: algebra_simps)
  then have val: "h' * UINT_MAX + l' mod UINT_MAX = (h * UINT_MAX + l) * int r + d"
    by (simp add: l'_def algebra_simps)
  have IH: "fromString_loop r h' (l' mod UINT_MAX) s =
      (let v = (h' * UINT_MAX + l' mod UINT_MAX) * int r ^ length s + int (digits_val r s)
       in (v div UINT_MAX, v mod UINT_MAX))"
    using Cons.prems pos by (intro Cons.IH) (auto simp: UINT_MAX_def)
  have "((h * UINT_MAX + l) * int r + d) * int r ^ length s + int (digits_val r s) =
      (h * UINT_MAX + l) * int r ^ length (c # s) + int (digits_val r (c # s))"
    by (simp add: digits_val_Cons d_def algebra_simps)
  then show ?case by (simp only: step IH val)
qed

lemma writeUInt32BE_be: "writeUInt32BE v = be_bytes 4 v"
proof -
  have drop: "shr (shr v a) 8 = shr v (a + 8)" if "a \<le> 24" for a
  proof -
    have "- 2147483648 \<le> shr v a \<and> shr v a < 2147483648"
    proof -
      have b: "- 2147483648 \<le> to_int32 v" "to_int32 v < 2147483648"
        using signed_take_bit_int_greater_eq_minus_exp [of 31 v] signed_take_bit_int_less_exp [of 31 v]
        by (simp_all add: to_int32_def)
      have "(1 :: int) \<le> 2 ^ a" by simp
      then have "- 2147483648 \<le> to_int32 v div 2 ^ a \<and> to_int32 v div 2 ^ a < 2147483648"
        using b by (smt (verit) div_by_1 pos_imp_zdiv_nonneg_iff zdiv_mono2 zdiv_mono2_neg)
      then show ?thesis by (simp add: shr_def drop_bit_eq_div)
    qed
    then have "to_int32 (shr v a) = shr v a" by (intro to_int32_id) auto
    then show ?thesis by (simp add: shr_def add.commute)
  qed
  have "shr (shr v 8) 8 = shr v 16" "shr (shr v 16) 8 = shr v 24"
    using drop [of 8] drop [of 16] by simp_all
  then show ?thesis
    by (simp add: writeUInt32BE_def Let_def be_bytes_shr4)
qed

lemma be_bytes_split: "be_bytes (m + n) v = be_bytes m (v div 256 ^ n) @ be_bytes n v"
proof (induction n arbitrary: v)
  case 0
  then show ?case by simp
next
  case (Suc n)
  then show ?case by (simp add: zdiv_zmult2_eq [symmetric])
qed

lemma writeUInt32BE_pair:
  assumes "h mod UINT_MAX = v div UINT_MAX mod UINT_MAX" "l mod UINT_MAX = v mod UINT_MAX"
  shows "writeUInt32BE h @ writeUInt32BE l = be_bytes 8 v"
proof -
  have "be_bytes 4 h = be_bytes 4 (v div 4294967296)" "be_bytes 4 l = be_bytes 4 v"
    using assms by (auto intro!: be_bytes_cong simp: UINT_MAX_def)
  then show ?thesis
    using be_bytes_split [of 4 4 v] by (simp add: writeUInt32BE_be)
qed

lemma fromString_digits:
  assumes "\<forall>c \<in> set s. digit_in r c"
  shows "fromString s r = be_bytes 8 (int (digits_val r s))"
proof -
  have "\<not> starts_with ''-'' s"
    using assms digit_in_not_special by (cases s) (auto simp: starts_with_def)
  then show ?thesis
    using assms
    by (simp add: fromString_def fromString_loop_digits UINT_MAX_def Let_def writeUInt32BE_pair)
qed

lemma fromString_minus_digits:
  assumes "\<forall>c \<in> set s. digit_in r c"
  shows "fromString (CHR ''-'' # s) r = be_bytes 8 (- int (digits_val r s))"
proof -
  define v where "v = int (digits_val r s)"
  define h where "h = v div UINT_MAX"
  define l where "l = v mod UINT_MAX"
  have loop: "fromString_loop r 0 0 s = (h, l)"
    using assms by (simp add: fromString_loop_digits UINT_MAX_def Let_def h_def l_def v_def)
  have v: "- v = (- h - 1) * UINT_MAX + (UINT_MAX - l)" "v = h * UINT_MAX + l"
    by (simp_all add: h_def l_def algebra_simps)
  have l: "0 \<le> l" "l < UINT_MAX" by (simp_all add: l_def UINT_MAX_def)
  have not: "bit_not32 h mod UINT_MAX = (- h - 1) mod UINT_MAX"
    unfolding bit_not32_def UINT_MAX_def
    by (intro mod_diff_cong refl) (metis mod_minus_eq to_int32_mod)
  show ?thesis
  proof (cases "l = 0")
    case True
    have "(bit_not32 h + 1) mod UINT_MAX = ((- h - 1) + 1) mod UINT_MAX"
      using not by (rule mod_add_cong) simp
    moreover have "- v div UINT_MAX = - h"
      using v(2) True by (simp add: UINT_MAX_def)
    ultimately have "writeUInt32BE (bit_not32 h + 1) @ writeUInt32BE l = be_bytes 8 (- v)"
      using v(2) True by (intro writeUInt32BE_pair) (auto simp: UINT_MAX_def)
    then show ?thesis
      using loop True by (simp add: fromString_def starts_with_def v_def)
  next
    case False
    then have "0 \<le> UINT_MAX - l" "UINT_MAX - l < UINT_MAX" using l by auto
    then have t: "(UINT_MAX - l) mod UINT_MAX = UINT_MAX - l" "(UINT_MAX - l) div UINT_MAX = 0"
      by (simp_all only: mod_pos_pos_trivial div_pos_pos_trivial)
    have m: "- v div UINT_MAX = - h - 1" "- v mod UINT_MAX = UINT_MAX - l"
      unfolding v(1) using t
      by (simp_all only: mod_mult_self3 div_mult_self3 UINT_MAX_def)
    have "writeUInt32BE (bit_not32 h) @ writeUInt32BE (UINT_MAX - l) = be_bytes 8 (- v)"
      using not m t by (intro writeUInt32BE_pair) (simp_all only:)
    then show ?thesis
      using loop False by (simp add: fromString_def starts_with_def v_def)
  qed
qed

lemma from_to_string:
  assumes "2 \<le> r" "r \<le> 36" "8 \<le> length b"
  shows "fromString (toNumberString b r) r = drop (length b - 8) b"
    and "fromString (CHR ''-'' # toNumberString b r) r =
      be_bytes 8 (- be_val (drop (length b - 8) b))"
proof -
  define n where "n = be_val (drop (length b - 8) b)"
  have n: "0 \<le> n" using be_val_bound n_def by blast
  have len: "length (drop (length b - 8) b) = 8" using assms by simp
  have str: "toNumberString b r = show_radix r (nat n)"
    using assms by (simp add: toNumberString_show n_def)
  have digs: "\<forall>c \<in> set (show_radix r (nat n)). digit_in r c"
    using assms by (intro show_radix_digits)
  show "fromString (toNumberString b r) r = drop (length b - 8) b"
    using be_bytes_be_val [of "drop (length b - 8) b"] assms n len
    by (simp add: str fromString_digits [OF digs] digits_val_show flip: n_def)
  show "fromString (CHR ''-'' # toNumberString b r) r =
      be_bytes 8 (- be_val (drop (length b - 8) b))"
    using assms n by (simp add: str fromString_minus_digits [OF digs] digits_val_show flip: n_def)
qed

text \<open>
  C12: Reading back in the same radix (2 to 36) what \<open>toString(radix)\<close> wrote gives the last
  eight bytes of the identifier, and a leading minus sign gives their two's complement.
\<close>

theorem decimal_roundtrip:
  assumes "2 \<le> r" "r \<le> 36" "8 \<le> length b"
  shows "fromString (toNumberString b r) r = drop (length b - 8) b \<and>
    fromString (CHR ''-'' # toNumberString b r) r = be_bytes 8 (- be_val (drop (length b - 8) b))"
  using from_to_string [OF assms] by simp

theorem decimal_roundtrip_witness:
  "fromString (toNumberString [0, 0, 0, 0, 0, 0, 1, 2] 10) 10 = [0, 0, 0, 0, 0, 0, 1, 2]"
  using decimal_roundtrip [of 10 "[0, 0, 0, 0, 0, 0, 1, 2]"] by simp

subsection \<open>Hexadecimal\<close>

lemma hex_pair_byte: "hex_pair (hex_byte b) = b"
proof -
  have ub: "unat b < 256" using unsigned_less [of b] by simp
  have d: "unat b div 16 < 16" "unat b mod 16 < 16" using ub by simp_all
  define u where "u = digit_char (unat b div 16)"
  define v where "v = digit_char (unat b mod 16)"
  have dig: "digit_in 16 u" "digit_in 16 v" "digit_val u = Some (unat b div 16)"
      "digit_val v = Some (unat b mod 16)"
    using d by (simp_all add: u_def v_def digit_in_char digit_val_char)
  have x: "v \<noteq> CHR ''x''" "v \<noteq> CHR ''X''"
    using dig(2) by (auto simp: digit_in_def digit_val_def)
  have "parse_int 16 [u, v] = Some (int (unat b))"
    using dig x digit_in_not_ws [OF dig(1)] digit_in_not_special [OF dig(1)]
    by (simp add: parse_int_def trim_start_def parse_sign_def strip_0x_def starts_with_def
        digits_val_def)
  then show ?thesis by (simp add: hex_pair_def hex_byte_def u_def v_def flip: uint_nat)
qed

lemma length_hex_string [simp]: "length (hex_string bs) = 2 * length bs"
  by (induction bs) (auto simp: hex_string_def hex_byte_def)

lemma hex_string_slice:
  "i < length bs \<Longrightarrow> slice (hex_string bs) (i * 2) (i * 2 + 2) = hex_byte (bs ! i)"
proof (induction bs arbitrary: i)
  case Nil
  then show ?case by simp
next
  case (Cons b bs)
  then show ?case
    by (cases i) (auto simp: hex_string_def hex_byte_def slice_def)
qed

lemma hexBuffer_hex_string:
  assumes "8 dvd length b" "b \<noteq> []"
  shows "hexBuffer (hex_string b) = b" "hex_string b \<noteq> ''0''" "hex_string b \<noteq> []"
proof -
  obtain k where k: "length b = 8 * k" using assms(1) by (elim dvdE)
  with assms(2) have "0 < k" by (cases k) auto
  then have "1 < length (hex_string b)" by (simp add: k)
  then have ne: "hex_string b \<noteq> ''0''" "hex_string b \<noteq> []"
    by (auto simp del: length_hex_string)
  have size: "(length (hex_string b) + 15) div 16 * 16 = length (hex_string b)"
    by (simp add: k)
  show "hexBuffer (hex_string b) = b"
    unfolding hexBuffer_def size Let_def
    by (rule nth_equalityI)
      (simp_all add: pad_start_id hex_string_slice hex_pair_byte del: add_2_eq_Suc')
  show "hex_string b \<noteq> ''0''" "hex_string b \<noteq> []" by (rule ne)+
qed

text \<open>
  An identifier of 8, 16, ... bytes written as hexadecimal and read back is unchanged,
  and the generator is not consulted.
\<close>

theorem hex_roundtrip:
  assumes "8 dvd length b" "b \<noteq> []"
  shows "createIdentifier rnd g (Some (toString_id b 16)) 16 = (b, g)"
  using hexBuffer_hex_string [OF assms]
  by (simp add: createIdentifier_def createBuffer_def toString_id_def)

theorem hex_roundtrip_witness:
  "createIdentifier [] \<lparr>batch = 3, data = []\<rparr>
     (Some (toString_id [1, 2, 3, 4, 5, 6, 7, 255] 16)) 16 =
   ([1, 2, 3, 4, 5, 6, 7, 255], \<lparr>batch = 3, data = []\<rparr>)"
  by (rule hex_roundtrip) (simp_all add: dvd_def, presburger)

subsection \<open>Comparison and generation\<close>

lemma equals_loop_take:
  "equals_loop xs ys \<longleftrightarrow> take (min (length xs) (length ys)) xs = take (min (length xs) (length ys)) ys"
  by (induction xs ys rule: equals_loop.induct) auto

text \<open>
  \<open>equals\<close> holds exactly when the shorter identifier is the end of the longer one; on
  identifiers of one length it is equality, and in general it is symmetric.
\<close>

theorem equals_suffix:
  "equals a b \<longleftrightarrow> (\<exists>p. a = p @ b) \<or> (\<exists>p. b = p @ a)"
proof -
  have suf: "take (length y) (rev x) = rev y \<longleftrightarrow> (\<exists>p. x = p @ y)" if "length y \<le> length x" for x y :: "byte list"
  proof
    assume "take (length y) (rev x) = rev y"
    then have "rev x = rev y @ drop (length y) (rev x)" by (metis append_take_drop_id)
    then have "x = rev (drop (length y) (rev x)) @ y" by (metis rev_append rev_rev_ident)
    then show "\<exists>p. x = p @ y" by blast
  qed auto
  have "equals a b \<longleftrightarrow> (\<exists>p. a = p @ b)" if "length b \<le> length a"
    using suf [OF that] that by (simp add: equals_def equals_loop_take min_absorb2)
  moreover have "equals a b \<longleftrightarrow> (\<exists>p. b = p @ a)" if "length a \<le> length b"
    using suf [OF that] that by (simp add: equals_def equals_loop_take min_absorb1 eq_commute)
  moreover have "length b \<le> length a" if "a = p @ b" for p using that by simp
  moreover have "length a \<le> length b" if "b = p @ a" for p using that by simp
  ultimately show ?thesis using nat_le_linear [of "length a" "length b"] by metis
qed

text \<open>
  A generated identifier has eight bytes and, read as a big-endian integer, is below
  \<open>2 ^ 63\<close>; the batch index stays in its range, and the random block is refilled only
  at index 0.
\<close>

theorem pseudoRandom_int63:
  assumes "length (data g) = 65536" "length rnd = 65536" "batch g < 8192"
    and "pseudoRandom rnd g = (b, g')"
  shows "length b = 8 \<and> be_val b < 2 ^ 63 \<and> batch g' < 8192 \<and>
    (batch g \<noteq> 0 \<longrightarrow> data g' = data g) \<and> b ! 7 = data g' ! (batch g' * 8 + 7)"
proof -
  have b: "uint (x AND 0x7F :: byte) \<le> 127" for x
  proof -
    have "x AND 0x7F \<le> (0x7F :: byte)" by (rule word_and_le1)
    then show ?thesis by (simp add: word_le_def)
  qed
  have rest: "length b = 8" "batch g' < 8192" "batch g \<noteq> 0 \<longrightarrow> data g' = data g"
    "b ! 7 = data g' ! (batch g' * 8 + 7)"
    using assms(4) by (auto simp: pseudoRandom_def Let_def)
  obtain x t where xt: "b = (x AND 0x7F) # t" "length t = 7"
    using assms(4) by (auto simp: pseudoRandom_def Let_def)
  have "be_val b = be_val [x AND 0x7F] * 256 ^ 7 + be_val t"
    using be_val_append [of "[x AND 0x7F]" t] xt by simp
  moreover have "be_val [x AND 0x7F] = uint (x AND 0x7F)"
    by (simp add: be_val_def)
  moreover have "be_val t < 256 ^ 7" using be_val_bound [of t] xt by simp
  ultimately show ?thesis using b [of x] rest by simp
qed

theorem pseudoRandom_int63_witness:
  "be_val (fst (pseudoRandom (replicate 65536 255)
     \<lparr>batch = 0, data = replicate 65536 0\<rparr>)) < 2 ^ 63"
  using pseudoRandom_int63 [of "\<lparr>batch = 0, data = replicate 65536 0\<rparr>" "replicate 65536 255"]
  by (simp add: prod_eq_iff split: prod.splits)

text \<open>
  \<open>toBigInt\<close> of an identifier of 16 bytes is its upper half, while the decimal text and
  \<open>toArray\<close> are its lower half; the two agree on identifiers of 8 bytes.
\<close>

theorem toBigInt_upper_half:
  assumes "length hi = 8" "length lo = 8"
  shows "toBigInt (hi @ lo) = be_val hi \<and> toArray (hi @ lo) = lo \<and>
    toString_id (hi @ lo) 10 = show_nat (nat (be_val lo)) \<and> toBigInt lo = be_val lo"
  using assms by (simp_all add: toBigInt_def toArray_def toString_id_def toNumberString_show)

theorem toBigInt_upper_half_witness:
  "toBigInt ([0, 0, 0, 0, 0, 0, 0, 9] @ [0, 0, 0, 0, 0, 0, 0, 1]) = be_val [0, 0, 0, 0, 0, 0, 0, 9]"
  by (rule toBigInt_upper_half [THEN conjunct1]) simp_all

end
