(* ===== verification/Sampler.thy ===== *)
theory Sampler
  imports Identifier
begin

text \<open>
  The deterministic sampler of \<open>sampler.js\<close>: Knuth's multiplicative hash of the trace id
  against a threshold. \<open>MAX_TRACE_ID\<close>, \<open>2 ** 64 - 1\<close>, is the double \<open>2 ^ 64\<close>, and a rate
  times a power of two is exact, so the threshold is the exact floor.
\<close>

definition MAX_TRACE_ID :: rat where
  "MAX_TRACE_ID = 18446744073709551616"

definition UINT64_MODULO :: int where
  "UINT64_MODULO = 18446744073709551616"

definition SAMPLING_KNUTH_FACTOR :: int where
  "SAMPLING_KNUTH_FACTOR = 1111111111111111111"

record sampler =
  s_rate :: rat
  s_threshold :: int

text \<open>\<open>BigInt(NaN)\<close> throws a \<open>RangeError\<close>.\<close>

definition new_Sampler :: "jsnum \<Rightarrow> js_error + sampler" where
  "new_Sampler rate =
     (case num_clamp01 rate of
        Fin r \<Rightarrow> ok \<lparr>s_rate = r, s_threshold = \<lfloor>r * MAX_TRACE_ID\<rfloor>\<rparr>
      | _ \<Rightarrow> throw RangeError)"

definition isSampled_id :: "sampler \<Rightarrow> ident \<Rightarrow> bool" where
  "isSampled_id s traceId =
     (if s_rate s = 1 then True
      else if s_rate s = 0 then False
      else (toBigInt traceId * SAMPLING_KNUTH_FACTOR) mod UINT64_MODULO \<le> s_threshold s)"

lemma new_Sampler_rate:
  assumes "new_Sampler x = Inr s"
  shows "0 \<le> s_rate s" "s_rate s \<le> 1" "s_threshold s = \<lfloor>s_rate s * MAX_TRACE_ID\<rfloor>"
  using assms num_clamp01_range by (auto simp: new_Sampler_def split: jsnum.splits)

lemma new_Sampler_fails: "new_Sampler x = Inl e \<longleftrightarrow> x = NaN \<and> e = RangeError"
  using num_clamp01_NaN [of x] num_clamp01_Fin [of x]
  by (auto simp: new_Sampler_def split: jsnum.splits)

lemma threshold_bounds:
  assumes "0 \<le> r" "r < 1"
  shows "0 \<le> \<lfloor>r * MAX_TRACE_ID\<rfloor>" "\<lfloor>r * MAX_TRACE_ID\<rfloor> < UINT64_MODULO"
proof -
  have "r * MAX_TRACE_ID < MAX_TRACE_ID" using assms by (simp add: MAX_TRACE_ID_def)
  then show "\<lfloor>r * MAX_TRACE_ID\<rfloor> < UINT64_MODULO"
    by (simp add: floor_less_iff UINT64_MODULO_def MAX_TRACE_ID_def)
  show "0 \<le> \<lfloor>r * MAX_TRACE_ID\<rfloor>" using assms by (simp add: MAX_TRACE_ID_def)
qed

subsection \<open>The hash is a permutation\<close>


lemma coprime_knuth: "coprime UINT64_MODULO SAMPLING_KNUTH_FACTOR"
proof -
  have "coprime (2 :: int) SAMPLING_KNUTH_FACTOR" by (simp add: SAMPLING_KNUTH_FACTOR_def)
  then have "coprime ((2 :: int) ^ 64) SAMPLING_KNUTH_FACTOR"
    by (simp only: coprime_power_left_iff) simp
  moreover have "UINT64_MODULO = 2 ^ 64" by (simp add: UINT64_MODULO_def)
  ultimately show ?thesis by (simp only:)
qed

lemma knuth_inj:
  assumes "0 \<le> a" "a < UINT64_MODULO" "0 \<le> b" "b < UINT64_MODULO"
    "(a * SAMPLING_KNUTH_FACTOR) mod UINT64_MODULO = (b * SAMPLING_KNUTH_FACTOR) mod UINT64_MODULO"
  shows "a = b"
proof -
  have "UINT64_MODULO dvd (a * SAMPLING_KNUTH_FACTOR - b * SAMPLING_KNUTH_FACTOR)"
    using assms(5) by (simp add: mod_eq_dvd_iff)
  then have "UINT64_MODULO dvd (a - b) * SAMPLING_KNUTH_FACTOR"
    by (simp add: left_diff_distrib)
  then have "UINT64_MODULO dvd (a - b)"
    using coprime_knuth by (simp add: coprime_dvd_mult_left_iff)
  then have "a mod UINT64_MODULO = b mod UINT64_MODULO" by (simp add: mod_eq_dvd_iff)
  then show ?thesis using assms by simp
qed

lemma knuth_bij:
  "bij_betw (\<lambda>v. (v * SAMPLING_KNUTH_FACTOR) mod UINT64_MODULO) {0..<UINT64_MODULO} {0..<UINT64_MODULO}"
proof -
  let ?h = "\<lambda>v. (v * SAMPLING_KNUTH_FACTOR) mod UINT64_MODULO"
  have pos: "0 < UINT64_MODULO" by (simp add: UINT64_MODULO_def)
  have inj: "inj_on ?h {0..<UINT64_MODULO}"
    by (intro inj_onI) (auto intro: knuth_inj)
  have "?h ` {0..<UINT64_MODULO} \<subseteq> {0..<UINT64_MODULO}"
    using pos by auto
  then have "?h ` {0..<UINT64_MODULO} = {0..<UINT64_MODULO}"
    by (intro endo_inj_surj inj) simp
  with inj show ?thesis by (simp add: bij_betw_def)
qed

lemma bij_betw_preimage:
  assumes "bij_betw h A A'" "B \<subseteq> A'"
  shows "bij_betw h {v \<in> A. h v \<in> B} B"
proof -
  have "inj_on h {v \<in> A. h v \<in> B}"
    using assms(1) by (auto simp: bij_betw_def intro: inj_on_subset)
  moreover have "h ` {v \<in> A. h v \<in> B} = B"
    using assms by (auto simp: bij_betw_def)
  ultimately show ?thesis by (simp add: bij_betw_def)
qed



text \<open>
  Sampling is consistent across rates: an id kept at some rate is kept at every higher
  one, and the constructor fails, with a \<open>RangeError\<close>, on \<open>NaN\<close> only.
\<close>

theorem sampler_monotone:
  assumes "new_Sampler x = Inr s" "new_Sampler y = Inr s'" "s_rate s \<le> s_rate s'"
    "isSampled_id s b"
  shows "isSampled_id s' b \<and> (new_Sampler z = Inl e \<longleftrightarrow> z = NaN \<and> e = RangeError)"
proof -
  note r = new_Sampler_rate [OF assms(1)] and r' = new_Sampler_rate [OF assms(2)]
  have "s_rate s \<noteq> 0" using assms(4) by (auto simp: isSampled_id_def)
  moreover have "s_threshold s \<le> s_threshold s'"
    unfolding r r' using assms(3)
    by (intro floor_mono mult_right_mono) (simp_all add: MAX_TRACE_ID_def)
  ultimately have "isSampled_id s' b"
    using assms(3,4) r r' by (auto simp: isSampled_id_def split: if_splits)
  then show ?thesis using new_Sampler_fails by blast
qed

theorem sampler_monotone_witness:
  "isSampled_id \<lparr>s_rate = 1, s_threshold = 18446744073709551616\<rparr> (replicate 8 0)"
  by (rule sampler_monotone [THEN conjunct1, of "Fin (1 / 2)" "\<lparr>s_rate = 1 / 2, s_threshold = 9223372036854775808\<rparr>" "Fin 1"])
    (simp_all add: new_Sampler_def num_clamp01_def MAX_TRACE_ID_def isSampled_id_def
      toBigInt_def be_val_def UINT64_MODULO_def numeral_eq_Suc)

end
