(* ===== verification/TraceState.thy ===== *)
theory TraceState
  imports JsValues Identifier
begin

text \<open>
  The W3C \<open>tracestate\<close> list and the vendor data inside its \<open>dd\<close> member
  (\<open>opentracing/propagation/tracestate.js\<close>). Both are insertion-ordered maps kept in the
  reverse of the wire order, so that an update moves its entry to the front of the header. The
  values of the vendor data are what the code stores there: strings, the priority as a number,
  \<open>undefined\<close>, and an identifier that prints as hexadecimal.
\<close>

definition MAX_LIST_MEMBERS :: nat where
  "MAX_LIST_MEMBERS = 32"

definition has_blank :: "string \<Rightarrow> bool" where
  "has_blank s \<longleftrightarrow> (\<exists>c \<in> set s. of_char c \<in> {32, 9 :: nat})"

definition tab_char :: char where
  "tab_char = CHR 0x09"

text \<open>One segment of \<open>parseEntries\<close>: \<open>None\<close> is a \<open>continue\<close>.\<close>

definition parse_entry :: "char \<Rightarrow> bool \<Rightarrow> string \<Rightarrow> (string \<times> string) option" where
  "parse_entry pairSeparator rejectValueTabs segment =
     (case index_of pairSeparator segment of
        None \<Rightarrow> None
      | Some splitIndex \<Rightarrow>
          (let k = trim (slice segment 0 splitIndex)
           in if k = [] \<or> has_blank k then None
              else let entryValue = trim_end (drop (splitIndex + 1) segment)
                   in if entryValue = [] \<or> rejectValueTabs \<and> tab_char \<in> set entryValue then None
                      else Some (k, entryValue)))"

definition parseEntries :: "string \<Rightarrow> char \<Rightarrow> char \<Rightarrow> bool \<Rightarrow> (string \<times> string) list" where
  "parseEntries value fieldSeparator pairSeparator rejectValueTabs =
     rev (List.map_filter (parse_entry pairSeparator rejectValueTabs)
       (take MAX_LIST_MEMBERS (split_on fieldSeparator value)))"

definition entries_fromString :: "string option \<Rightarrow> char \<Rightarrow> char \<Rightarrow> bool \<Rightarrow> (string \<times> string) list" where
  "entries_fromString value fieldSeparator pairSeparator rejectValueTabs =
     (case value of
        None \<Rightarrow> []
      | Some v \<Rightarrow> if v = [] then []
          else new_map (parseEntries v fieldSeparator pairSeparator rejectValueTabs))"

fun entries_toString_loop :: "char \<Rightarrow> char \<Rightarrow> string \<Rightarrow> (string \<times> string) list \<Rightarrow> string" where
  "entries_toString_loop pairSeparator fieldSeparator result [] = result"
| "entries_toString_loop pairSeparator fieldSeparator result ((k, v) # es) =
     (let result = (if result \<noteq> [] then fieldSeparator # result else result)
      in entries_toString_loop pairSeparator fieldSeparator (k @ [pairSeparator] @ v @ result) es)"

definition entries_toString :: "(string \<times> string) list \<Rightarrow> char \<Rightarrow> char \<Rightarrow> string" where
  "entries_toString m pairSeparator fieldSeparator =
     entries_toString_loop pairSeparator fieldSeparator [] m"

subsection \<open>The vendor data\<close>

datatype ts_value = TsStr string | TsNum int | TsUndef | TsId ident

definition show_ts_value :: "ts_value \<Rightarrow> string" where
  "show_ts_value v = (case v of
      TsStr s \<Rightarrow> s
    | TsNum i \<Rightarrow> show_int i
    | TsUndef \<Rightarrow> ''undefined''
    | TsId b \<Rightarrow> toString_id b 16)"

record ts_data =
  ts_map :: "(string \<times> ts_value) list"
  ts_changed :: bool

text \<open>
  \<open>set\<close>: an equal primitive leaves the data unchanged; an identifier is an object, which a
  string just read never equals.
\<close>

definition is_ts_id :: "ts_value \<Rightarrow> bool" where
  "is_ts_id v = (case v of TsId _ \<Rightarrow> True | _ \<Rightarrow> False)"

definition tsd_set :: "string \<Rightarrow> ts_value \<Rightarrow> ts_data \<Rightarrow> ts_data" where
  "tsd_set k v d =
     (if map_of (ts_map d) k = Some v \<and> \<not> is_ts_id v then d
      else d\<lparr>ts_changed := True, ts_map := AList.update k v (ts_map d)\<rparr>)"

definition tsd_delete :: "string \<Rightarrow> ts_data \<Rightarrow> ts_data" where
  "tsd_delete k d = d\<lparr>ts_changed := True, ts_map := AList.delete k (ts_map d)\<rparr>"

definition tsd_clear :: "ts_data \<Rightarrow> ts_data" where
  "tsd_clear d = d\<lparr>ts_changed := True, ts_map := []\<rparr>"

definition tsd_fromString :: "string option \<Rightarrow> ts_data" where
  "tsd_fromString value =
     \<lparr>ts_map = map (\<lambda>(k, v). (k, TsStr v)) (entries_fromString value (CHR '';'') (CHR '':'') False),
      ts_changed = False\<rparr>"

definition tsd_toString :: "ts_data \<Rightarrow> string" where
  "tsd_toString d =
     entries_toString (map (\<lambda>(k, v). (k, show_ts_value v)) (ts_map d)) (CHR '':'') (CHR '';'')"

subsection \<open>The list\<close>

type_synonym tracestate = "(string \<times> string) list"

definition ts_set :: "string \<Rightarrow> string \<Rightarrow> tracestate \<Rightarrow> tracestate" where
  "ts_set k v m =
     (let m = (if has_own m k then AList.delete k m else m) in AList.update k v m)"

definition ts_delete :: "string \<Rightarrow> tracestate \<Rightarrow> tracestate" where
  "ts_delete k m = AList.delete k m"

definition ts_fromString :: "string option \<Rightarrow> tracestate" where
  "ts_fromString value = entries_fromString value (CHR '','') (CHR ''='') True"

definition ts_toString :: "tracestate \<Rightarrow> string" where
  "ts_toString m = entries_toString m (CHR ''='') (CHR '','')"

text \<open>\<open>forVendor\<close>; \<open>handle\<close> updates the data and may return a result.\<close>

definition forVendor :: "string \<Rightarrow> (ts_data \<Rightarrow> 'r \<times> ts_data) \<Rightarrow> tracestate \<Rightarrow> 'r \<times> tracestate" where
  "forVendor vendor handle m =
     (let (result, state) = handle (tsd_fromString (map_of m vendor))
      in (result,
          if ts_changed state then
            (let value = tsd_toString state
             in if value \<noteq> [] then ts_set vendor value m else ts_delete vendor m)
          else m))"

subsection \<open>Printing and reading back\<close>

definition pair_text :: "char \<Rightarrow> string \<times> string \<Rightarrow> string" where
  "pair_text ps e = fst e @ [ps] @ snd e"

definition good_entry :: "char \<Rightarrow> char \<Rightarrow> bool \<Rightarrow> string \<times> string \<Rightarrow> bool" where
  "good_entry fs ps tabs e \<longleftrightarrow>
     fst e \<noteq> [] \<and> snd e \<noteq> [] \<and> ps \<notin> set (fst e) \<and> fs \<notin> set (fst e) \<and> fs \<notin> set (snd e) \<and>
     (\<forall>c \<in> set (fst e). \<not> is_ws c) \<and> \<not> is_ws (last (snd e)) \<and>
     (tabs \<longrightarrow> tab_char \<notin> set (snd e))"

definition good_entries :: "char \<Rightarrow> char \<Rightarrow> bool \<Rightarrow> (string \<times> string) list \<Rightarrow> bool" where
  "good_entries fs ps tabs m \<longleftrightarrow>
     list_all (good_entry fs ps tabs) m \<and> distinct (map fst m) \<and> length m \<le> MAX_LIST_MEMBERS"

lemma entries_toString_loop_join:
  "entries_toString_loop ps fs r m =
     join [fs] (map (pair_text ps) (rev m) @ (if r = [] then [] else [r]))"
proof (induction m arbitrary: r)
  case Nil
  then show ?case by simp
next
  case (Cons e m)
  have snoc: "join [fs] (xs @ [a, b]) = join [fs] (xs @ [a @ fs # b])" for xs a b
  proof (induction xs)
    case Nil
    then show ?case by simp
  next
    case (Cons x xs)
    then show ?case by (cases xs) auto
  qed
  obtain k v where e: "e = (k, v)" by (cases e)
  show ?case
    using snoc [of "map (pair_text ps) (rev m)" "k @ ps # v" r]
    by (cases "r = []") (simp_all add: e Cons.IH pair_text_def [of ps "(k, v)"] Let_def)
qed

lemma entries_toString_join: "entries_toString m ps fs = join [fs] (map (pair_text ps) (rev m))"
  by (simp add: entries_toString_def entries_toString_loop_join)

lemma has_blank_ws: "has_blank s \<Longrightarrow> \<exists>c \<in> set s. is_ws c"
  by (auto simp: has_blank_def is_ws_def)

lemma trim_end_id: "s \<noteq> [] \<Longrightarrow> \<not> is_ws (last s) \<Longrightarrow> trim_end s = s"
  by (cases s rule: rev_cases) (auto simp: trim_end_def)

lemma parse_entry_text:
  assumes "good_entry fs ps tabs e"
  shows "parse_entry ps tabs (pair_text ps e) = Some e"
proof -
  have idx: "index_of ps (pair_text ps e) = Some (length (fst e))"
    using assms by (simp add: pair_text_def good_entry_def index_of_append)
  have "trim (fst e) = fst e" "\<not> has_blank (fst e)"
    using assms has_blank_ws by (auto simp: good_entry_def trim_no_ws)
  moreover have "trim_end (snd e) = snd e"
    using assms by (simp add: good_entry_def trim_end_id)
  ultimately show ?thesis
    using assms idx by (auto simp: parse_entry_def good_entry_def pair_text_def slice_def Let_def)
qed

lemma pair_text_no_sep:
  "fs \<noteq> ps \<Longrightarrow> good_entry fs ps tabs e \<Longrightarrow> fs \<notin> set (pair_text ps e)"
  by (auto simp: pair_text_def good_entry_def)

lemma map_filter_Some: "(\<And>x. x \<in> set xs \<Longrightarrow> f (g x) = Some x) \<Longrightarrow> List.map_filter f (map g xs) = xs"
  by (induction xs) (auto simp: List.map_filter_simps)

lemma parse_print_entries:
  assumes "fs \<noteq> ps" "good_entries fs ps tabs m"
  shows "entries_fromString (Some (entries_toString m ps fs)) fs ps tabs = m"
proof (cases "m = []")
  case True
  then show ?thesis by (simp add: entries_toString_def entries_fromString_def)
next
  case False
  let ?segs = "map (pair_text ps) (rev m)"
  have good: "good_entry fs ps tabs e" if "e \<in> set m" for e
    using assms(2) that by (simp add: good_entries_def list_all_iff)
  have split: "split_on fs (join [fs] ?segs) = ?segs"
  proof (rule split_on_join)
    show "?segs \<noteq> []" using False by simp
    show "\<forall>x \<in> set ?segs. fs \<notin> set x"
      using pair_text_no_sep [OF assms(1) good] by (simp only: set_map set_rev) blast
  qed
  have "?segs \<noteq> [[]]" "?segs \<noteq> []"
    using False by (auto simp: pair_text_def)
  then have ne: "entries_toString m ps fs \<noteq> []"
    using split by (metis entries_toString_join split_on.simps(1))
  have "List.map_filter (parse_entry ps tabs) ?segs = rev m"
    by (intro map_filter_Some parse_entry_text [OF good]) simp
  moreover have "take MAX_LIST_MEMBERS ?segs = ?segs"
    using assms(2) by (simp add: good_entries_def)
  ultimately have "parseEntries (entries_toString m ps fs) fs ps tabs = m"
    by (simp add: parseEntries_def entries_toString_join split)
  moreover have "distinct (map fst m)" using assms(2) by (simp add: good_entries_def)
  ultimately show ?thesis
    using ne by (simp add: entries_fromString_def new_map_distinct)
qed



lemma ts_set_spec:
  "ts_set k v m = AList.delete k m @ [(k, v)]"
proof -
  have "k \<notin> fst ` set m \<Longrightarrow> AList.delete k m = m" by (simp add: delete_id)
  moreover have "AList.update k v (AList.delete k m) = AList.delete k m @ [(k, v)]"
    by (rule obj_set_new) (simp add: AList.delete_keys)
  ultimately show ?thesis
    by (auto simp: ts_set_def Let_def has_own_iff)
qed

text \<open>
  Whatever the handler does with a vendor's data, \<open>forVendor\<close> leaves every other vendor's
  entry alone and in place; when the data changed, the vendor's own entry goes to the front of
  the printed header, or disappears when nothing is left of it.
\<close>

theorem forVendor_frame:
  assumes "handle (tsd_fromString (map_of m vendor)) = (r, st)"
  shows "fst (forVendor vendor handle m) = r \<and>
    AList.delete vendor (snd (forVendor vendor handle m)) = AList.delete vendor m \<and>
    snd (forVendor vendor handle m) =
      (if ts_changed st
       then AList.delete vendor m @ (if tsd_toString st = [] then [] else [(vendor, tsd_toString st)])
       else m)"
  using assms
  by (auto simp: forVendor_def ts_set_spec ts_delete_def AList.delete_eq Let_def)

theorem forVendor_frame_witness:
  "snd (forVendor ''dd'' (\<lambda>d. ((), tsd_set ''s'' (TsNum 2) d)) [(''dd'', ''s:1''), (''b'', ''x'')]) =
     [(''b'', ''x''), (''dd'', ''s:2'')]"
proof -
  define st where "st = tsd_set ''s'' (TsNum 2) (tsd_fromString (Some ''s:1''))"
  have d: "tsd_fromString (Some ''s:1'') = \<lparr>ts_map = [(''s'', TsStr ''1'')], ts_changed = False\<rparr>"
    using parse_print_entries [of "CHR '';''" "CHR '':''" False "[(''s'', ''1'')]"]
    by (simp add: tsd_fromString_def good_entries_def good_entry_def MAX_LIST_MEMBERS_def is_ws_def
        entries_toString_def)
  have "show_int 2 = ''2''"
    by code_simp
  then have st: "ts_changed st" "tsd_toString st = ''s:2''"
    by (simp_all add: st_def d tsd_set_def tsd_toString_def entries_toString_def show_ts_value_def)
  show ?thesis
    using forVendor_frame [of "\<lambda>d. ((), tsd_set ''s'' (TsNum 2) d)"
        "[(''dd'', ''s:1''), (''b'', ''x'')]" "''dd''" "()" st] st
    by (simp add: st_def)
qed

end
