(* ===== verification/TraceModel.thy ===== *)
theory TraceModel
  imports TraceState
begin

text \<open>
  The data every part of the tracer shares: span contexts (\<open>opentracing/span_context.js\<close>),
  the trace and sampling objects they point to, and the spans. In JavaScript the contexts of one
  local trace share one trace object and one sampling object. The record of a context is
  therefore polymorphic in them: the life of a span works on references into a heap, while
  propagation, which builds and reads one context at a time, holds the two objects in place.
\<close>

subsection \<open>Records\<close>

record sampling =
  priority :: "int option"
  mechanism :: "int option"

record trace =
  started :: "nat list"
  finished :: "nat list"
  t_tags :: jsobj
  t_startTime :: rat
  t_ticks :: rat
  t_origin :: "string option"
  t_rule_psr :: "rat option"
  t_limit_psr :: "rat option"
  t_agent_psr :: "rat option"
  t_record :: "bool option"
  t_isRecording :: "bool option"

text \<open>\<open>startTime\<close> and \<open>ticks\<close> are 0 while unset: the code tests them for truth only.\<close>

definition new_trace :: trace where
  "new_trace =
     \<lparr>started = [], finished = [], t_tags = [], t_startTime = 0, t_ticks = 0, t_origin = None,
      t_rule_psr = None, t_limit_psr = None, t_agent_psr = None, t_record = None,
      t_isRecording = None\<rparr>"

definition new_sampling :: sampling where
  "new_sampling = \<lparr>priority = None, mechanism = None\<rparr>"

text \<open>
  A link of a context that propagation restarted: what it shows of the context it points to.
  The links of a span (\<open>span_ref\<close>) point to contexts of the heap.
\<close>

record span_link =
  lk_traceId :: string
  lk_spanId :: string
  lk_priority :: "int option"
  lk_tracestate :: "tracestate option"
  lk_attributes :: "(string \<times> string) list"

record span_ref =
  l_context :: nat
  l_attributes :: "(string \<times> string) list option"

record span_sampling =
  ss_rate :: rat
  ss_max :: "jsnum option"

record ('t, 's) span_context =
  ctx_traceId :: ident
  ctx_spanId :: "ident option"
  ctx_isRemote :: bool
  ctx_parentId :: "ident option"
  ctx_name :: jsval
  ctx_isFinished :: bool
  ctx_tags :: jsobj
  ctx_sampling :: 's
  ctx_spanSampling :: "span_sampling option"
  ctx_links :: "span_link list"
  ctx_baggage :: "(string \<times> string) list"
  ctx_traceparent :: "string option"
  ctx_tracestate :: "tracestate option"
  ctx_trace :: 't
  ctx_hostname :: jsval

text \<open>\<open>new SpanContext({ traceId, spanId, sampling, trace })\<close>; the other fields are updated.\<close>

definition new_SpanContext :: "ident \<Rightarrow> ident option \<Rightarrow> 's \<Rightarrow> 't \<Rightarrow> ('t, 's) span_context" where
  "new_SpanContext traceId spanId sampling trace =
     \<lparr>ctx_traceId = traceId, ctx_spanId = spanId, ctx_isRemote = True, ctx_parentId = None,
      ctx_name = JUndef, ctx_isFinished = False, ctx_tags = [], ctx_sampling = sampling,
      ctx_spanSampling = None, ctx_links = [], ctx_baggage = [], ctx_traceparent = None,
      ctx_tracestate = None, ctx_trace = trace, ctx_hostname = JUndef\<rparr>"

subsection \<open>Operations of a context\<close>

definition ctx_setTag :: "string \<Rightarrow> jsval \<Rightarrow> ('t, 's) span_context \<Rightarrow> ('t, 's) span_context" where
  "ctx_setTag k v c = c\<lparr>ctx_tags := AList.update k v (ctx_tags c)\<rparr>"

definition ctx_getTag :: "('t, 's) span_context \<Rightarrow> string \<Rightarrow> jsval" where
  "ctx_getTag c k = getp (ctx_tags c) k"

definition ctx_hasTag :: "('t, 's) span_context \<Rightarrow> string \<Rightarrow> bool" where
  "ctx_hasTag c k = has_own (ctx_tags c) k"

definition ctx_deleteTag :: "string \<Rightarrow> ('t, 's) span_context \<Rightarrow> ('t, 's) span_context" where
  "ctx_deleteTag k c = c\<lparr>ctx_tags := AList.delete k (ctx_tags c)\<rparr>"

definition ctx_clearTags :: "('t, 's) span_context \<Rightarrow> ('t, 's) span_context" where
  "ctx_clearTags c = c\<lparr>ctx_tags := []\<rparr>"

definition TRACE_ID_128 :: string where
  "TRACE_ID_128 = ''_dd.p.tid''"

text \<open>The upper half of the trace id, when the trace tags hold one\<close>

definition trace_tid :: "trace \<Rightarrow> string option" where
  "trace_tid t = (case getp (t_tags t) TRACE_ID_128 of JStr s \<Rightarrow> Some s | _ \<Rightarrow> None)"

definition toTraceId :: "trace \<Rightarrow> ('t, 's) span_context \<Rightarrow> bool \<Rightarrow> string" where
  "toTraceId t c get128bitId =
     (if get128bitId then pad_start 32 (CHR ''0'') (toTraceIdHex (ctx_traceId c) (trace_tid t))
      else toString_id (ctx_traceId c) 10)"

definition toSpanId :: "('t, 's) span_context \<Rightarrow> bool \<Rightarrow> string" where
  "toSpanId c get128bitId =
     (let spanId = the (ctx_spanId c)
      in if get128bitId then pad_start 16 (CHR ''0'') (toString_id spanId 16)
         else toString_id spanId 10)"

text \<open>\<open>toTraceparent\<close>, once the priority is there; \<open>undefined >= 1\<close> is false.\<close>

definition toTraceparent :: "trace \<Rightarrow> sampling \<Rightarrow> ('t, 's) span_context \<Rightarrow> string" where
  "toTraceparent t s c =
     (let flags = (case priority s of Some p \<Rightarrow> if 1 \<le> p then ''01'' else ''00'' | None \<Rightarrow> ''00'');
          version = (case ctx_traceparent c of Some v \<Rightarrow> if v \<noteq> [] then v else ''00'' | None \<Rightarrow> ''00'')
      in version @ ''-'' @ toTraceId t c True @ ''-'' @ toSpanId c True @ ''-'' @ flags)"

subsection \<open>Spans and the heap\<close>

record span_event =
  ev_name :: jsval
  ev_attributes :: "jsobj option"
  ev_startTime :: jsval

record span =
  sp_ctx :: nat
  sp_name :: jsval
  sp_integrationName :: string
  sp_startTime :: rat
  sp_duration :: "jsnum option"
  sp_links :: "span_ref list"
  sp_events :: "span_event list"
  sp_service :: string
  sp_marker :: jsval
  sp_meta_struct :: jsval

text \<open>
  \<open>sp_service\<close> is the service of the tracer that made the span; \<open>sp_marker\<close> is the value
  under the symbol \<open>dd.integrationService\<close>, the service name an integration chose.
\<close>

type_synonym ctx = "(nat, nat) span_context"

record heap =
  h_traces :: "nat \<Rightarrow> trace"
  h_samplings :: "nat \<Rightarrow> sampling"
  h_ctxs :: "nat \<Rightarrow> ctx"
  h_spans :: "nat \<Rightarrow> span"
  h_next :: nat

definition upd_trace :: "nat \<Rightarrow> (trace \<Rightarrow> trace) \<Rightarrow> heap \<Rightarrow> heap" where
  "upd_trace t f h = h\<lparr>h_traces := (h_traces h)(t := f (h_traces h t))\<rparr>"

definition upd_sampling :: "nat \<Rightarrow> (sampling \<Rightarrow> sampling) \<Rightarrow> heap \<Rightarrow> heap" where
  "upd_sampling s f h = h\<lparr>h_samplings := (h_samplings h)(s := f (h_samplings h s))\<rparr>"

definition upd_ctx :: "nat \<Rightarrow> (ctx \<Rightarrow> ctx) \<Rightarrow> heap \<Rightarrow> heap" where
  "upd_ctx c f h = h\<lparr>h_ctxs := (h_ctxs h)(c := f (h_ctxs h c))\<rparr>"

definition upd_span :: "nat \<Rightarrow> (span \<Rightarrow> span) \<Rightarrow> heap \<Rightarrow> heap" where
  "upd_span s f h = h\<lparr>h_spans := (h_spans h)(s := f (h_spans h s))\<rparr>"

abbreviation trace_of :: "heap \<Rightarrow> nat \<Rightarrow> trace" where
  "trace_of h c \<equiv> h_traces h (ctx_trace (h_ctxs h c))"

abbreviation sampling_of :: "heap \<Rightarrow> nat \<Rightarrow> sampling" where
  "sampling_of h c \<equiv> h_samplings h (ctx_sampling (h_ctxs h c))"

abbreviation set_trace :: "nat \<Rightarrow> (trace \<Rightarrow> trace) \<Rightarrow> heap \<Rightarrow> heap" where
  "set_trace c f h \<equiv> upd_trace (ctx_trace (h_ctxs h c)) f h"

abbreviation set_sampling :: "nat \<Rightarrow> (sampling \<Rightarrow> sampling) \<Rightarrow> heap \<Rightarrow> heap" where
  "set_sampling c f h \<equiv> upd_sampling (ctx_sampling (h_ctxs h c)) f h"

text \<open>\<open>context._trace.started[0]\<close>\<close>

definition root_span :: "heap \<Rightarrow> nat \<Rightarrow> nat option" where
  "root_span h c = (case started (trace_of h c) of [] \<Rightarrow> None | s # _ \<Rightarrow> Some s)"

lemma upd_trace_sel [simp]:
  "h_traces (upd_trace t f h) = (h_traces h)(t := f (h_traces h t))"
  "h_samplings (upd_trace t f h) = h_samplings h" "h_ctxs (upd_trace t f h) = h_ctxs h"
  "h_spans (upd_trace t f h) = h_spans h" "h_next (upd_trace t f h) = h_next h"
  by (simp_all add: upd_trace_def)

lemma upd_sampling_sel [simp]:
  "h_samplings (upd_sampling t f h) = (h_samplings h)(t := f (h_samplings h t))"
  "h_traces (upd_sampling t f h) = h_traces h" "h_ctxs (upd_sampling t f h) = h_ctxs h"
  "h_spans (upd_sampling t f h) = h_spans h" "h_next (upd_sampling t f h) = h_next h"
  by (simp_all add: upd_sampling_def)

lemma upd_ctx_sel [simp]:
  "h_ctxs (upd_ctx t f h) = (h_ctxs h)(t := f (h_ctxs h t))"
  "h_traces (upd_ctx t f h) = h_traces h" "h_samplings (upd_ctx t f h) = h_samplings h"
  "h_spans (upd_ctx t f h) = h_spans h" "h_next (upd_ctx t f h) = h_next h"
  by (simp_all add: upd_ctx_def)

lemma upd_span_sel [simp]:
  "h_spans (upd_span t f h) = (h_spans h)(t := f (h_spans h t))"
  "h_traces (upd_span t f h) = h_traces h" "h_samplings (upd_span t f h) = h_samplings h"
  "h_ctxs (upd_span t f h) = h_ctxs h" "h_next (upd_span t f h) = h_next h"
  by (simp_all add: upd_span_def)

lemma ctx_tag_simps [simp]:
  "ctx_getTag (ctx_setTag k v c) k' = (if k' = k then v else ctx_getTag c k')"
  "ctx_trace (ctx_setTag k v c) = ctx_trace c" "ctx_sampling (ctx_setTag k v c) = ctx_sampling c"
  "ctx_tags (ctx_setTag k v c) = AList.update k v (ctx_tags c)"
  by (simp_all add: ctx_getTag_def ctx_setTag_def getp_set)

lemma hex_byte_chars: "c \<in> set (hex_byte b) \<Longrightarrow> digit_in 16 c \<and> lower_char c = c"
proof -
  have "unat b < 256" using unsigned_less [of b] by simp
  then have "unat b div 16 < 16" "unat b mod 16 < 16" by simp_all
  moreover have "digit_in 16 (digit_char d) \<and> lower_char (digit_char d) = digit_char d" if "d < 16" for d
    using that digit_in_char [of d 16]
    by (auto simp: lower_char_def digit_char_def Let_def of_char_of)
  moreover assume "c \<in> set (hex_byte b)"
  ultimately show ?thesis by (auto simp: hex_byte_def)
qed

lemma hex_string_chars: "\<forall>c \<in> set (hex_string bs). digit_in 16 c \<and> lower_char c = c"
  using hex_byte_chars by (auto simp: hex_string_def)

text \<open>
  The \<open>traceparent\<close> of a context with identifiers of eight bytes (and, when the trace has
  one, an upper half of 16 hexadecimal digits) has the fixed layout of W3C version 00: 55
  characters with the dashes at 2, 35 and 52.
\<close>

theorem toTraceparent_shape:
  assumes "length (ctx_traceId c) = 8" "ctx_spanId c = Some sid" "length sid = 8"
    "ctx_traceparent c = None" "trace_tid t = None \<or> (\<exists>h. trace_tid t = Some h \<and> length h = 16)"
  shows "\<exists>hi. length hi = 16 \<and> toTraceparent t s c =
    ''00-'' @ hi @ hex_string (ctx_traceId c) @ ''-'' @ hex_string sid @ ''-'' @
    (if (\<exists>p. priority s = Some p \<and> 1 \<le> p) then ''01'' else ''00'')"
proof -
  define hi where "hi = (case trace_tid t of Some h \<Rightarrow> h | None \<Rightarrow> replicate 16 (CHR ''0''))"
  have "toTraceId t c True = hi @ hex_string (ctx_traceId c)"
    using assms(1,5)
    by (auto simp: toTraceId_def toTraceIdHex_def toString_id_def hi_def pad_start_def)
  moreover have "toSpanId c True = hex_string sid"
    using assms(2,3) by (simp add: toSpanId_def toString_id_def pad_start_def)
  moreover have "length hi = 16" using assms(5) by (auto simp: hi_def)
  ultimately show ?thesis
    using assms(4) by (intro exI [of _ hi]) (auto simp: toTraceparent_def split: option.splits)
qed

theorem toTraceparent_shape_witness:
  "\<exists>hi. length hi = 16 \<and>
     toTraceparent new_trace new_sampling (new_SpanContext zeroId (Some zeroId) () ()) =
       ''00-'' @ hi @ hex_string zeroId @ ''-'' @ hex_string zeroId @ ''-'' @ ''00''"
  using toTraceparent_shape [of "new_SpanContext zeroId (Some zeroId) () ()" zeroId new_trace new_sampling]
  by (simp add: new_SpanContext_def new_trace_def new_sampling_def trace_tid_def zeroId_def)

end
