(* ===== verification/SamplingRule.thy ===== *)
theory SamplingRule
  imports Util RateLimiter Sampler TraceModel
begin

text \<open>
  Sampling rules (\<open>sampling_rule.js\<close>): glob and regular-expression matchers on the name, the
  service, the resource and the tags of a span, then a deterministic sampler and an optional
  rate limiter. A regular expression is the function its \<open>test\<close> computes.
\<close>

datatype pattern = PNone | PStr string | PRegExp "jsval \<Rightarrow> bool"

datatype locator = LName | LService | LResource | LTag string

definition nameLocator :: "('t, 's) span_context \<Rightarrow> jsval" where
  "nameLocator c = ctx_name c"

definition serviceLocator :: "string \<Rightarrow> ('t, 's) span_context \<Rightarrow> jsval" where
  "serviceLocator tracer_service c =
     js_or (js_or (ctx_getTag c ''service'') (ctx_getTag c ''service.name'')) (JStr tracer_service)"

definition resourceLocator :: "('t, 's) span_context \<Rightarrow> jsval" where
  "resourceLocator c = js_or (ctx_getTag c ''resource'') (ctx_getTag c ''resource.name'')"

definition locate :: "locator \<Rightarrow> string \<Rightarrow> ('t, 's) span_context \<Rightarrow> jsval" where
  "locate l tracer_service c = (case l of
      LName \<Rightarrow> nameLocator c
    | LService \<Rightarrow> serviceLocator tracer_service c
    | LResource \<Rightarrow> resourceLocator c
    | LTag k \<Rightarrow> ctx_getTag c k)"

datatype matcher = AlwaysMatcher | GlobMatcher string locator | RegExpMatcher "jsval \<Rightarrow> bool" locator

definition matcher_for :: "pattern \<Rightarrow> locator \<Rightarrow> matcher" where
  "matcher_for p l = (case p of
      PRegExp f \<Rightarrow> RegExpMatcher f l
    | PStr s \<Rightarrow> if s \<noteq> ''*'' \<and> s \<noteq> ''**'' \<and> s \<noteq> ''***'' then GlobMatcher s l else AlwaysMatcher
    | PNone \<Rightarrow> AlwaysMatcher)"

definition matcher_match :: "matcher \<Rightarrow> string \<Rightarrow> ('t, 's) span_context \<Rightarrow> bool" where
  "matcher_match m tracer_service c = (case m of
      AlwaysMatcher \<Rightarrow> True
    | GlobMatcher p l \<Rightarrow>
        (let subject = locate l tracer_service c in truthy subject \<and> globMatch p subject)
    | RegExpMatcher f l \<Rightarrow>
        (let subject = locate l tracer_service c in truthy subject \<and> f subject))"

subsection \<open>Rules\<close>

record rule_config =
  rc_name :: pattern
  rc_service :: pattern
  rc_resource :: pattern
  rc_tags :: "(string \<times> pattern) list"
  rc_sampleRate :: jsnum
  rc_provenance :: "string option"
  rc_maxPerSecond :: "jsnum option"

record 'l sampling_rule =
  r_matchers :: "matcher list"
  r_sampler :: sampler
  r_limiter :: "'l rate_limiter option"
  r_provenance :: "string option"

definition pattern_given :: "pattern \<Rightarrow> bool" where
  "pattern_given p = (case p of PNone \<Rightarrow> False | PStr s \<Rightarrow> s \<noteq> [] | PRegExp f \<Rightarrow> True)"

definition is_finite_num :: "jsnum \<Rightarrow> bool" where
  "is_finite_num n = (case n of Fin _ \<Rightarrow> True | _ \<Rightarrow> False)"

definition new_SamplingRule :: "'l limiter_api \<Rightarrow> rule_config \<Rightarrow> js_error + 'l sampling_rule" where
  "new_SamplingRule api cfg =
     (let ms = (if pattern_given (rc_name cfg) then [matcher_for (rc_name cfg) LName] else [])
          @ (if pattern_given (rc_service cfg) then [matcher_for (rc_service cfg) LService] else [])
          @ (if pattern_given (rc_resource cfg) then [matcher_for (rc_resource cfg) LResource] else [])
          @ map (\<lambda>(k, v). matcher_for v (LTag k)) (rc_tags cfg)
      in try_then (new_Sampler (rc_sampleRate cfg)) (\<lambda>sampler.
           ok \<lparr>r_matchers = ms, r_sampler = sampler,
               r_limiter = (case rc_maxPerSecond cfg of
                   Some n \<Rightarrow> if is_finite_num n then Some (new_RateLimiter api n ''second'') else None
                 | None \<Rightarrow> None),
               r_provenance = rc_provenance cfg\<rparr>))"

definition rule_sampleRate :: "'l sampling_rule \<Rightarrow> rat" where
  "rule_sampleRate r = s_rate (r_sampler r)"

definition rule_effectiveRate :: "'l limiter_api \<Rightarrow> 'l sampling_rule \<Rightarrow> rat option" where
  "rule_effectiveRate api r = map_option (effectiveRate api) (r_limiter r)"

definition rule_maxPerSecond :: "'l sampling_rule \<Rightarrow> jsnum option" where
  "rule_maxPerSecond r = map_option rateLimit (r_limiter r)"

fun match_all :: "matcher list \<Rightarrow> string \<Rightarrow> ('t, 's) span_context \<Rightarrow> bool" where
  "match_all [] tracer_service c = True"
| "match_all (m # ms) tracer_service c =
     (if \<not> matcher_match m tracer_service c then False else match_all ms tracer_service c)"

definition rule_match :: "'l sampling_rule \<Rightarrow> string \<Rightarrow> ('t, 's) span_context \<Rightarrow> bool" where
  "rule_match r tracer_service c = match_all (r_matchers r) tracer_service c"

definition rule_sample ::
  "'l limiter_api \<Rightarrow> int \<Rightarrow> 'l sampling_rule \<Rightarrow> ident \<Rightarrow> bool \<times> 'l sampling_rule" where
  "rule_sample api now r traceId =
     (if \<not> isSampled_id (r_sampler r) traceId then (False, r)
      else case r_limiter r of
          Some l \<Rightarrow> (let (b, l') = isAllowed api now l in (b, r\<lparr>r_limiter := Some l'\<rparr>))
        | None \<Rightarrow> (True, r))"

lemma match_all_iff: "match_all ms sv c \<longleftrightarrow> (\<forall>m \<in> set ms. matcher_match m sv c)"
  by (induction ms) auto

text \<open>\<open>findRule\<close> of both samplers: the position of the first rule that matches\<close>

fun findRule_from :: "nat \<Rightarrow> 'l sampling_rule list \<Rightarrow> string \<Rightarrow> ('t, 's) span_context \<Rightarrow> nat option" where
  "findRule_from i [] tracer_service c = None"
| "findRule_from i (r # rs) tracer_service c =
     (if rule_match r tracer_service c then Some i else findRule_from (i + 1) rs tracer_service c)"

lemma findRule_from_Some:
  "findRule_from i rs sv c = Some j \<longleftrightarrow>
     i \<le> j \<and> j < i + length rs \<and> rule_match (rs ! (j - i)) sv c \<and>
     (\<forall>k < j - i. \<not> rule_match (rs ! k) sv c)"
proof (induction rs arbitrary: i)
  case Nil
  then show ?case by simp
next
  case (Cons r rs)
  show ?case
  proof (cases "rule_match r sv c")
    case True
    have "j = i" if "i \<le> j" "\<forall>k < j - i. \<not> rule_match ((r # rs) ! k) sv c"
      using that True by (cases "j - i") auto
    then show ?thesis using True by auto
  next
    case False
    have *: "(\<forall>k < Suc n. \<not> rule_match ((r # rs) ! k) sv c) \<longleftrightarrow> (\<forall>k < n. \<not> rule_match (rs ! k) sv c)" for n
      using False by (auto simp: less_Suc_eq_0_disj)
    show ?thesis
    proof (cases "j \<le> i")
      case True
      then show ?thesis using False Cons.IH [of "i + 1"] by (cases "j = i") auto
    next
      case j: False
      then have "j - i = Suc (j - (i + 1))" by simp
      then show ?thesis using False j * [of "j - (i + 1)"] Cons.IH [of "i + 1"]
        by (simp only: findRule_from.simps if_False nth_Cons_Suc) auto
    qed
  qed
qed

lemma findRule_from_None:
  "findRule_from i rs sv c = None \<longleftrightarrow> (\<forall>r \<in> set rs. \<not> rule_match r sv c)"
  by (induction rs arbitrary: i) auto

text \<open>What one criterion of a configuration asks of the value it looks at\<close>

definition criterion_ok :: "pattern \<Rightarrow> jsval \<Rightarrow> bool" where
  "criterion_ok p v = (case p of
      PNone \<Rightarrow> True
    | PStr s \<Rightarrow> s \<in> {''*'', ''**'', ''***''} \<or> truthy v \<and> glob (to_lower s) (glob_subject v)
    | PRegExp f \<Rightarrow> truthy v \<and> f v)"

lemma matcher_for_ok:
  "matcher_match (matcher_for p l) sv c \<longleftrightarrow> criterion_ok p (locate l sv c)"
proof -
  have "globMatch s v = glob (to_lower s) (glob_subject v)" for s v
    by (simp add: globMatch_def globMatch_loop_result glob_inv_def glob_result_def)
  then show ?thesis
    by (auto simp: matcher_for_def matcher_match_def criterion_ok_def Let_def split: pattern.splits)
qed

text \<open>
  A rule made from a configuration matches a span exactly when every criterion that was
  given does: a wildcard or absent criterion accepts anything, a glob or regular expression only
  a value that is there and fits.
\<close>

theorem rule_matches_criteria:
  assumes "new_SamplingRule api cfg = Inr r"
  shows "rule_match r sv c \<longleftrightarrow>
    (pattern_given (rc_name cfg) \<longrightarrow> criterion_ok (rc_name cfg) (ctx_name c)) \<and>
    (pattern_given (rc_service cfg) \<longrightarrow> criterion_ok (rc_service cfg) (serviceLocator sv c)) \<and>
    (pattern_given (rc_resource cfg) \<longrightarrow> criterion_ok (rc_resource cfg) (resourceLocator c)) \<and>
    (\<forall>(k, p) \<in> set (rc_tags cfg). criterion_ok p (ctx_getTag c k))"
proof -
  have ms: "r_matchers r =
      (if pattern_given (rc_name cfg) then [matcher_for (rc_name cfg) LName] else [])
      @ (if pattern_given (rc_service cfg) then [matcher_for (rc_service cfg) LService] else [])
      @ (if pattern_given (rc_resource cfg) then [matcher_for (rc_resource cfg) LResource] else [])
      @ map (\<lambda>(k, v). matcher_for v (LTag k)) (rc_tags cfg)"
    using assms by (auto simp: new_SamplingRule_def try_then_eq_Inr Let_def)
  show ?thesis
    unfolding rule_match_def match_all_iff ms
    by (simp add: ball_Un matcher_for_ok locate_def nameLocator_def split_beta)
qed

theorem rule_matches_criteria_witness:
  "\<exists>r :: (int \<times> nat \<times> int) sampling_rule. rule_match r ''web''
     ((new_SpanContext zeroId (Some zeroId) () ())\<lparr>ctx_name := JStr ''http.request''\<rparr>)"
proof -
  let ?cfg = "\<lparr>rc_name = PStr ''http.*'', rc_service = PNone, rc_resource = PNone, rc_tags = [],
      rc_sampleRate = Fin 1, rc_provenance = None, rc_maxPerSecond = None\<rparr>"
  obtain r where r: "new_SamplingRule window_limiter ?cfg = Inr r"
    by (simp add: new_SamplingRule_def new_Sampler_def num_clamp01_def Let_def)
  have "criterion_ok (PStr ''http.*'') (JStr ''http.request'')"
    by (simp add: criterion_ok_def glob_subject_def to_lower_def lower_char_def)
  then show ?thesis
    using rule_matches_criteria [OF r, of "''web''"
        "(new_SpanContext zeroId (Some zeroId) () ())\<lparr>ctx_name := JStr ''http.request''\<rparr>"] by (intro exI [of _ r]) (simp add: pattern_given_def)
qed

lemma rule_sample_keeps [frame]:
  "r_matchers (snd (rule_sample api now r tid)) = r_matchers r"
  "r_sampler (snd (rule_sample api now r tid)) = r_sampler r"
  "r_provenance (snd (rule_sample api now r tid)) = r_provenance r"
  by (auto simp: rule_sample_def Let_def split: option.splits prod.splits)

end
