(* ===== verification/PrioritySampler.thy ===== *)
theory PrioritySampler
  imports SamplingRule
begin

text \<open>
  The priority sampler (\<open>priority_sampler.js\<close>) and its variant for standalone products
  (\<open>standalone/tracesource_priority_sampler.js\<close>), over the heap of shared traces and sampling
  objects. The class is a template method: \<open>sample\<close> and \<open>setPriority\<close> call two methods
  the subclass overrides, how a priority is read off the tags and how one is found without them.
  \<open>sample_with\<close> takes both as arguments; what it needs of them is the locale
  \<open>priority_policy\<close>, interpreted for each of the two classes. Contexts and spans are heap
  references; a span argument is its context.
\<close>

subsection \<open>Constants\<close>

definition USER_REJECT :: int where "USER_REJECT = -1"
definition AUTO_REJECT :: int where "AUTO_REJECT = 0"
definition AUTO_KEEP :: int where "AUTO_KEEP = 1"
definition USER_KEEP :: int where "USER_KEEP = 2"

lemmas priority_defs = USER_REJECT_def AUTO_REJECT_def AUTO_KEEP_def USER_KEEP_def

definition MECHANISM_DEFAULT :: int where "MECHANISM_DEFAULT = 0"
definition MECHANISM_AGENT :: int where "MECHANISM_AGENT = 1"
definition MECHANISM_RULE :: int where "MECHANISM_RULE = 3"
definition MECHANISM_MANUAL :: int where "MECHANISM_MANUAL = 4"
definition MECHANISM_APPSEC :: int where "MECHANISM_APPSEC = 5"
definition MECHANISM_REMOTE_USER :: int where "MECHANISM_REMOTE_USER = 11"
definition MECHANISM_REMOTE_DYNAMIC :: int where "MECHANISM_REMOTE_DYNAMIC = 12"
definition MECHANISM_AI_GUARD :: int where "MECHANISM_AI_GUARD = 13"

definition MANUAL_KEEP :: string where "MANUAL_KEEP = ''manual.keep''"
definition MANUAL_DROP :: string where "MANUAL_DROP = ''manual.drop''"
definition SAMPLING_PRIORITY :: string where "SAMPLING_PRIORITY = ''sampling.priority''"
definition SERVICE_NAME :: string where "SERVICE_NAME = ''service.name''"
definition DECISION_MAKER_KEY :: string where "DECISION_MAKER_KEY = ''_dd.p.dm''"
definition SAMPLING_KNUTH_RATE :: string where "SAMPLING_KNUTH_RATE = ''_dd.p.ksr''"
definition TRACE_SOURCE_KEY :: string where "TRACE_SOURCE_KEY = ''_dd.p.ts''"

lemmas tag_key_defs = MANUAL_KEEP_def MANUAL_DROP_def SAMPLING_PRIORITY_def SERVICE_NAME_def
  DECISION_MAKER_KEY_def SAMPLING_KNUTH_RATE_def TRACE_SOURCE_KEY_def

definition DEFAULT_KEY :: string where
  "DEFAULT_KEY = ''service:,env:''"

subsection \<open>Configuration\<close>

text \<open>The shared \<open>defaultSampler\<close> is told apart from a sampler of rate 1 by identity.\<close>

datatype agent_sampler = DefaultSampler | RateSampler sampler

definition the_sampler :: "agent_sampler \<Rightarrow> sampler" where
  "the_sampler a = (case a of
      DefaultSampler \<Rightarrow> \<lparr>s_rate = 1, s_threshold = \<lfloor>MAX_TRACE_ID\<rfloor>\<rparr>
    | RateSampler s \<Rightarrow> s)"

record 'l priority_sampler =
  ps_env :: string
  ps_rules :: "'l sampling_rule list"
  ps_limiter :: "'l rate_limiter"
  ps_samplers :: "(string \<times> agent_sampler) list"

text \<open>A rule as configured: its rate may be anything.\<close>

record raw_rule =
  raw_rule :: rule_config
  raw_rate :: jsval

record sampling_config =
  sc_sampleRate :: jsval
  sc_provenance :: "string option"
  sc_rateLimit :: "jsnum option"
  sc_rules :: "raw_rule list"

text \<open>\<open>Number.parseFloat(String(rate))\<close>\<close>

definition parse_rate :: "jsval \<Rightarrow> jsnum" where
  "parse_rate v = (case v of JNum n \<Rightarrow> n | JStr s \<Rightarrow> parse_float s | _ \<Rightarrow> NaN)"

fun build_rules :: "'l limiter_api \<Rightarrow> raw_rule list \<Rightarrow> js_error + 'l sampling_rule list" where
  "build_rules api [] = ok []"
| "build_rules api (r # rs) =
     (let rate = parse_rate (raw_rate r)
      in if rate = NaN then build_rules api rs
         else try_then (new_SamplingRule api ((raw_rule r)\<lparr>rc_sampleRate := rate\<rparr>)) (\<lambda>rule.
                try_then (build_rules api rs) (\<lambda>result. ok (rule # result))))"

definition normalizeRules ::
  "'l limiter_api \<Rightarrow> raw_rule list \<Rightarrow> jsval \<Rightarrow> jsnum \<Rightarrow> string option \<Rightarrow> js_error + 'l sampling_rule list" where
  "normalizeRules api rules sampleRate limit provenance =
     build_rules api
       (rules @ [\<lparr>raw_rule = \<lparr>rc_name = PNone, rc_service = PNone, rc_resource = PNone, rc_tags = [],
                   rc_sampleRate = NaN, rc_provenance = provenance, rc_maxPerSecond = Some limit\<rparr>,
                 raw_rate = sampleRate\<rparr>])"

definition ps_configure ::
  "'l limiter_api \<Rightarrow> string \<Rightarrow> sampling_config \<Rightarrow> 'l priority_sampler \<Rightarrow> js_error + 'l priority_sampler" where
  "ps_configure api env config ps =
     (let limit = (case sc_rateLimit config of None \<Rightarrow> Fin 100 | Some n \<Rightarrow> n)
      in try_then (normalizeRules api (sc_rules config) (sc_sampleRate config) limit
             (sc_provenance config)) (\<lambda>rules.
           ok (ps\<lparr>ps_env := env, ps_rules := rules,
                 ps_limiter := new_RateLimiter api limit ''second''\<rparr>)))"

fun build_samplers :: "(string \<times> jsnum) list \<Rightarrow> (string \<times> agent_sampler) list \<Rightarrow>
    js_error + (string \<times> agent_sampler) list" where
  "build_samplers [] samplers = ok samplers"
| "build_samplers ((k, rate) # rates) samplers =
     try_then (new_Sampler rate) (\<lambda>s. build_samplers rates (AList.update k (RateSampler s) samplers))"

definition ps_update :: "(string \<times> jsnum) list \<Rightarrow> 'l priority_sampler \<Rightarrow> js_error + 'l priority_sampler" where
  "ps_update rates ps =
     try_then (build_samplers rates []) (\<lambda>samplers.
       ok (ps\<lparr>ps_samplers :=
             (if map_of samplers DEFAULT_KEY = None
              then AList.update DEFAULT_KEY DefaultSampler samplers else samplers)\<rparr>))"

definition validate :: "int option \<Rightarrow> bool" where
  "validate p = (case p of
      None \<Rightarrow> False
    | Some n \<Rightarrow> n = USER_REJECT \<or> n = USER_KEEP \<or> n = AUTO_REJECT \<or> n = AUTO_KEEP)"

subsection \<open>The template methods\<close>

definition tag_on :: "jsobj \<Rightarrow> string \<Rightarrow> bool" where
  "tag_on tags k \<longleftrightarrow> has_own tags k \<and> getp tags k \<noteq> JBool False"

definition getPriorityFromTags :: "jsobj \<Rightarrow> trace \<Rightarrow> int option" where
  "getPriorityFromTags tags _ =
     (if tag_on tags MANUAL_KEEP then Some USER_KEEP
      else if tag_on tags MANUAL_DROP then Some USER_REJECT
      else let rawPriority = getp tags SAMPLING_PRIORITY
           in if rawPriority \<noteq> JUndef then
                (let n = num_trunc (to_number rawPriority)
                 in if n = Fin 1 \<or> n = Fin 2 then Some USER_KEEP
                    else if n = Fin 0 \<or> n = Fin (-1) then Some USER_REJECT
                    else None)
              else None)"

definition show_mechanism :: "int option \<Rightarrow> string" where
  "show_mechanism m = (case m of None \<Rightarrow> ''undefined'' | Some n \<Rightarrow> show_int n)"

text \<open>\<open>#addDecisionMaker\<close>, on the context of the root span\<close>

definition addDecisionMaker :: "nat \<Rightarrow> heap \<Rightarrow> heap" where
  "addDecisionMaker c h =
     (let t = trace_of h c; s = sampling_of h c
      in if (case priority s of Some p \<Rightarrow> AUTO_KEEP \<le> p | None \<Rightarrow> False) then
           (if \<not> truthy (getp (t_tags t) DECISION_MAKER_KEY) then
              set_trace c (\<lambda>t. t\<lparr>t_tags := AList.update DECISION_MAKER_KEY
                (JStr (''-'' @ show_mechanism (mechanism s))) (t_tags t)\<rparr>) h
            else h)
         else if getp (t_tags t) DECISION_MAKER_KEY \<noteq> JUndef then
           set_trace c (\<lambda>t. t\<lparr>t_tags := AList.update DECISION_MAKER_KEY JUndef (t_tags t)\<rparr>) h
         else h)"

text \<open>
  \<open>sample(span, auto)\<close>: \<open>None\<close> is a missing span. The policy is \<open>from_tags\<close> and
  \<open>from_auto\<close>, the second given the context of the root span.
\<close>

definition sample_with ::
  "(jsobj \<Rightarrow> trace \<Rightarrow> int option) \<Rightarrow> (nat \<Rightarrow> 'ps \<times> heap \<Rightarrow> int \<times> 'ps \<times> heap) \<Rightarrow>
   nat option \<Rightarrow> bool \<Rightarrow> 'ps \<times> heap \<Rightarrow> 'ps \<times> heap" where
  "sample_with from_tags from_auto c auto st =
     (case c of
        None \<Rightarrow> st
      | Some c \<Rightarrow>
          (let (ps, h) = st
           in if priority (sampling_of h c) \<noteq> None then st
              else case root_span h c of
                  None \<Rightarrow> st
                | Some rt \<Rightarrow>
                    (let rctx = sp_ctx (h_spans h rt);
                         tag = from_tags (ctx_tags (h_ctxs h c)) (trace_of h c)
                     in if validate tag then
                          (ps, addDecisionMaker rctx
                             (set_sampling c (\<lambda>s. s\<lparr>priority := tag, mechanism := Some MECHANISM_MANUAL\<rparr>) h))
                        else if auto then
                          (let (p, ps, h) = from_auto rctx (ps, h)
                           in (ps, addDecisionMaker rctx (set_sampling c (\<lambda>s. s\<lparr>priority := Some p\<rparr>) h)))
                        else st)))"

text \<open>\<open>setPriority(span, samplingPriority, product)\<close>; the product gives its mechanism, if any.\<close>

definition setPriority :: "nat option \<Rightarrow> int option \<Rightarrow> int option \<Rightarrow> heap \<Rightarrow> heap" where
  "setPriority c samplingPriority product_mechanism h =
     (case c of
        None \<Rightarrow> h
      | Some c \<Rightarrow>
          (if \<not> validate samplingPriority then h
           else case root_span h c of
               None \<Rightarrow> h
             | Some rt \<Rightarrow>
                 addDecisionMaker (sp_ctx (h_spans h rt))
                   (set_sampling c (\<lambda>s. s\<lparr>priority := samplingPriority,
                      mechanism := Some (case product_mechanism of None \<Rightarrow> MECHANISM_MANUAL | Some m \<Rightarrow> m)\<rparr>) h)))"

subsection \<open>Finding a priority automatically\<close>

definition isSampledByRateLimit ::
  "'l limiter_api \<Rightarrow> int \<Rightarrow> nat \<Rightarrow> 'l priority_sampler \<times> heap \<Rightarrow> bool \<times> 'l priority_sampler \<times> heap" where
  "isSampledByRateLimit api now c st =
     (let (ps, h) = st;
          (allowed, l) = isAllowed api now (ps_limiter ps)
      in (allowed, ps\<lparr>ps_limiter := l\<rparr>,
          set_trace c (\<lambda>t. t\<lparr>t_limit_psr := Some (effectiveRate api l)\<rparr>) h))"

definition rule_mechanism :: "string option \<Rightarrow> int" where
  "rule_mechanism p =
     (if p = Some ''customer'' then MECHANISM_REMOTE_USER
      else if p = Some ''dynamic'' then MECHANISM_REMOTE_DYNAMIC
      else MECHANISM_RULE)"

text \<open>What \<open>#getPriorityByRule\<close> and \<open>#getPriorityByAgent\<close> write before they sample\<close>

definition record_rule :: "nat \<Rightarrow> 'l sampling_rule \<Rightarrow> heap \<Rightarrow> heap" where
  "record_rule c rule h =
     (let h = set_trace c (\<lambda>t. t\<lparr>t_rule_psr := Some (rule_sampleRate rule),
            t_tags := AList.update SAMPLING_KNUTH_RATE
              (JStr (formatKnuthRate (rule_sampleRate rule))) (t_tags t)\<rparr>) h
      in set_sampling c (\<lambda>s. s\<lparr>mechanism := Some (rule_mechanism (r_provenance rule))\<rparr>) h)"

definition record_agent :: "nat \<Rightarrow> agent_sampler \<Rightarrow> heap \<Rightarrow> heap" where
  "record_agent c sampler h =
     (let rate = s_rate (the_sampler sampler);
          h = set_trace c (\<lambda>t. t\<lparr>t_agent_psr := Some rate\<rparr>) h
      in case sampler of
           DefaultSampler \<Rightarrow> set_sampling c (\<lambda>s. s\<lparr>mechanism := Some MECHANISM_DEFAULT\<rparr>) h
         | RateSampler _ \<Rightarrow>
             set_sampling c (\<lambda>s. s\<lparr>mechanism := Some MECHANISM_AGENT\<rparr>)
               (set_trace c (\<lambda>t. t\<lparr>t_tags := AList.update SAMPLING_KNUTH_RATE
                  (JStr (formatKnuthRate rate)) (t_tags t)\<rparr>) h))"

definition getPriorityByRule ::
  "'l limiter_api \<Rightarrow> int \<Rightarrow> nat \<Rightarrow> nat \<Rightarrow> 'l priority_sampler \<times> heap \<Rightarrow> int \<times> 'l priority_sampler \<times> heap" where
  "getPriorityByRule api now c i st =
     (let (ps, h) = st;
          rule = ps_rules ps ! i;
          h = record_rule c rule h;
          (b, rule) = rule_sample api now rule (ctx_traceId (h_ctxs h c));
          ps = ps\<lparr>ps_rules := (ps_rules ps)[i := rule]\<rparr>
      in if b then
           (let (allowed, ps, h) = isSampledByRateLimit api now c (ps, h)
            in (if allowed then USER_KEEP else USER_REJECT, ps, h))
         else (USER_REJECT, ps, h))"

definition service_key :: "(jsval \<Rightarrow> string) \<Rightarrow> string \<Rightarrow> jsval \<Rightarrow> string" where
  "service_key str env service = ''service:'' @ js_string str service @ '',env:'' @ env"

definition find_sampler :: "(jsval \<Rightarrow> string) \<Rightarrow> 'l priority_sampler \<Rightarrow> jsval \<Rightarrow> agent_sampler" where
  "find_sampler str ps service =
     (case map_of (ps_samplers ps) (service_key str (ps_env ps) service) of
        Some s \<Rightarrow> s
      | None \<Rightarrow> the (map_of (ps_samplers ps) DEFAULT_KEY))"

definition getPriorityByAgent ::
  "(jsval \<Rightarrow> string) \<Rightarrow> nat \<Rightarrow> 'l priority_sampler \<times> heap \<Rightarrow> int \<times> 'l priority_sampler \<times> heap" where
  "getPriorityByAgent str c st =
     (let (ps, h) = st;
          sampler = find_sampler str ps (ctx_getTag (h_ctxs h c) SERVICE_NAME);
          h = record_agent c sampler h
      in (if isSampled_id (the_sampler sampler) (ctx_traceId (h_ctxs h c)) then AUTO_KEEP else AUTO_REJECT,
          ps, h))"

text \<open>\<open>_getPriorityFromAuto(span)\<close>, on the context of the span; \<open>service\<close> is its tracer's\<close>

definition getPriorityFromAuto ::
  "'l limiter_api \<Rightarrow> (jsval \<Rightarrow> string) \<Rightarrow> int \<Rightarrow> string \<Rightarrow> nat \<Rightarrow>
   'l priority_sampler \<times> heap \<Rightarrow> int \<times> 'l priority_sampler \<times> heap" where
  "getPriorityFromAuto api str now service c st =
     (case findRule_from 0 (ps_rules (fst st)) service (h_ctxs (snd st) c) of
        Some i \<Rightarrow> getPriorityByRule api now c i st
      | None \<Rightarrow> getPriorityByAgent str c st)"

definition ps_sample ::
  "'l limiter_api \<Rightarrow> (jsval \<Rightarrow> string) \<Rightarrow> int \<Rightarrow> string \<Rightarrow> nat option \<Rightarrow> bool \<Rightarrow>
   'l priority_sampler \<times> heap \<Rightarrow> 'l priority_sampler \<times> heap" where
  "ps_sample api str now service c auto st =
     sample_with getPriorityFromTags (getPriorityFromAuto api str now service) c auto st"

definition ps_isSampled ::
  "'l limiter_api \<Rightarrow> (jsval \<Rightarrow> string) \<Rightarrow> int \<Rightarrow> string \<Rightarrow> nat \<Rightarrow>
   'l priority_sampler \<times> heap \<Rightarrow> bool \<times> 'l priority_sampler \<times> heap" where
  "ps_isSampled api str now service c st =
     (let (p, st) = getPriorityFromAuto api str now service c st
      in (p = USER_KEEP \<or> p = AUTO_KEEP, st))"

text \<open>\<open>keepTrace(span, product)\<close> of a span with a sampler\<close>

definition keepTrace :: "nat option \<Rightarrow> int option \<Rightarrow> heap \<Rightarrow> heap" where
  "keepTrace c product_mechanism h = setPriority c (Some USER_KEEP) product_mechanism h"

subsection \<open>Standalone products\<close>

record product =
  prod_id :: int
  prod_mechanism :: "int option"

definition PRODUCTS :: "(string \<times> product) list" where
  "PRODUCTS =
     [(''APM'', \<lparr>prod_id = shl 1 0, prod_mechanism = None\<rparr>),
      (''ASM'', \<lparr>prod_id = shl 1 1, prod_mechanism = Some MECHANISM_APPSEC\<rparr>),
      (''DSM'', \<lparr>prod_id = shl 1 2, prod_mechanism = None\<rparr>),
      (''DJM'', \<lparr>prod_id = shl 1 3, prod_mechanism = None\<rparr>),
      (''DBM'', \<lparr>prod_id = shl 1 4, prod_mechanism = None\<rparr>),
      (''AI_GUARD'', \<lparr>prod_id = shl 1 5, prod_mechanism = Some MECHANISM_AI_GUARD\<rparr>)]"

definition getProductRateLimiter :: "'l limiter_api \<Rightarrow> bool \<Rightarrow> bool \<Rightarrow> 'l rate_limiter" where
  "getProductRateLimiter api appsec_enabled iast_enabled =
     (if appsec_enabled \<or> iast_enabled then new_RateLimiter api (Fin 1) ''minute''
      else new_RateLimiter api (Fin 0) ''second'')"

text \<open>\<open>NaN | id\<close> is \<open>id\<close>.\<close>

definition addTraceSourceTag :: "product option \<Rightarrow> jsobj \<Rightarrow> jsobj" where
  "addTraceSourceTag product tags =
     (case product of
        None \<Rightarrow> tags
      | Some p \<Rightarrow>
          (let actual = (if truthy (getp tags TRACE_SOURCE_KEY)
                         then (case getp tags TRACE_SOURCE_KEY of
                                 JStr s \<Rightarrow> (case parse_int 16 s of None \<Rightarrow> 0 | Some n \<Rightarrow> n)
                               | _ \<Rightarrow> 0)
                         else 0)
           in AList.update TRACE_SOURCE_KEY
                (JStr (pad_start 2 (CHR ''0'') (show_radix 16
                   (nat (ushr (or (to_int32 actual) (to_int32 (prod_id p))) 0))))) tags))"

definition hasTraceSourcePropagationTag :: "jsobj \<Rightarrow> bool" where
  "hasTraceSourcePropagationTag tags = has_own tags TRACE_SOURCE_KEY"

definition ts_getPriorityFromTags :: "jsobj \<Rightarrow> trace \<Rightarrow> int option" where
  "ts_getPriorityFromTags tags t =
     (if tag_on tags MANUAL_KEEP \<and> hasTraceSourcePropagationTag (t_tags t) then Some USER_KEEP else None)"

definition ts_getPriorityFromAuto ::
  "'l limiter_api \<Rightarrow> int \<Rightarrow> nat \<Rightarrow> 'l priority_sampler \<times> heap \<Rightarrow> int \<times> 'l priority_sampler \<times> heap" where
  "ts_getPriorityFromAuto api now c st =
     (let (ps, h) = st;
          h = set_sampling c (\<lambda>s. s\<lparr>mechanism := Some MECHANISM_DEFAULT\<rparr>) h
      in if hasTraceSourcePropagationTag (t_tags (trace_of h c)) then (USER_KEEP, ps, h)
         else (let (allowed, st) = isSampledByRateLimit api now c (ps, h)
               in (if allowed then AUTO_KEEP else AUTO_REJECT, st)))"

definition ts_sample ::
  "'l limiter_api \<Rightarrow> int \<Rightarrow> nat option \<Rightarrow> bool \<Rightarrow> 'l priority_sampler \<times> heap \<Rightarrow> 'l priority_sampler \<times> heap" where
  "ts_sample api now c auto st =
     sample_with ts_getPriorityFromTags (ts_getPriorityFromAuto api now) c auto st"

definition ts_configure :: "'l limiter_api \<Rightarrow> string \<Rightarrow> bool \<Rightarrow> bool \<Rightarrow> 'l priority_sampler \<Rightarrow> 'l priority_sampler" where
  "ts_configure api env appsec_enabled iast_enabled ps =
     ps\<lparr>ps_env := env, ps_limiter := getProductRateLimiter api appsec_enabled iast_enabled\<rparr>"

text \<open>The override asks for the context of a span the base class had let pass: \<open>undefined.context\<close>.\<close>

definition ts_setPriority :: "nat option \<Rightarrow> int option \<Rightarrow> product option \<Rightarrow> heap \<Rightarrow> js_error + heap" where
  "ts_setPriority c samplingPriority product h =
     (let h = setPriority c samplingPriority (case product of None \<Rightarrow> None | Some p \<Rightarrow> prod_mechanism p) h
      in case c of
           None \<Rightarrow> throw TypeError
         | Some c \<Rightarrow> ok (set_trace c (\<lambda>t. t\<lparr>t_tags := addTraceSourceTag product (t_tags t)\<rparr>) h))"

subsection \<open>What the template needs of a policy\<close>

text \<open>
  Finding a priority may write the trace and the mechanism, and nothing else: not a priority,
  not the decision maker, not who is on the trace.
\<close>

definition same_books :: "heap \<Rightarrow> heap \<Rightarrow> bool" where
  "same_books h h' \<longleftrightarrow> h_next h' = h_next h \<and>
     (\<forall>t. started (h_traces h' t) = started (h_traces h t) \<and>
          finished (h_traces h' t) = finished (h_traces h t) \<and>
          t_record (h_traces h' t) = t_record (h_traces h t) \<and>
          t_isRecording (h_traces h' t) = t_isRecording (h_traces h t))"

lemma same_books_refl: "same_books h h"
  by (simp add: same_books_def)

lemma same_books_trans: "same_books h1 h2 \<Longrightarrow> same_books h2 h3 \<Longrightarrow> same_books h1 h3"
  by (simp add: same_books_def)

definition auto_frame :: "nat \<Rightarrow> heap \<Rightarrow> heap \<Rightarrow> bool" where
  "auto_frame c h h' \<longleftrightarrow>
     h_ctxs h' = h_ctxs h \<and> h_spans h' = h_spans h \<and>
     (\<forall>s. priority (h_samplings h' s) = priority (h_samplings h s)) \<and>
     (\<forall>s. s \<noteq> ctx_sampling (h_ctxs h c) \<longrightarrow> h_samplings h' s = h_samplings h s) \<and>
     (\<forall>t. started (h_traces h' t) = started (h_traces h t)) \<and>
     (\<forall>t. t \<noteq> ctx_trace (h_ctxs h c) \<longrightarrow> h_traces h' t = h_traces h t) \<and>
     (\<forall>t. getp (t_tags (h_traces h' t)) DECISION_MAKER_KEY = getp (t_tags (h_traces h t)) DECISION_MAKER_KEY) \<and>
     same_books h h'"

text \<open>A context whose root span shares its trace and sampling objects\<close>

definition on_trace :: "heap \<Rightarrow> nat \<Rightarrow> bool" where
  "on_trace h c \<longleftrightarrow> (\<exists>rt. root_span h c = Some rt \<and>
     ctx_trace (h_ctxs h (sp_ctx (h_spans h rt))) = ctx_trace (h_ctxs h c) \<and>
     ctx_sampling (h_ctxs h (sp_ctx (h_spans h rt))) = ctx_sampling (h_ctxs h c))"

definition kept :: "int option \<Rightarrow> bool" where
  "kept p = (case p of Some n \<Rightarrow> AUTO_KEEP \<le> n | None \<Rightarrow> False)"

lemma addDecisionMaker_frame [frame]:
  "h_ctxs (addDecisionMaker c h) = h_ctxs h" "h_spans (addDecisionMaker c h) = h_spans h"
  "h_samplings (addDecisionMaker c h) = h_samplings h"
  "started (h_traces (addDecisionMaker c h) t) = started (h_traces h t)"
  "t \<noteq> ctx_trace (h_ctxs h c) \<Longrightarrow> h_traces (addDecisionMaker c h) t = h_traces h t"
  by (simp_all add: addDecisionMaker_def Let_def)

lemma addDecisionMaker_books: "same_books h (addDecisionMaker c h)"
  by (simp add: addDecisionMaker_def same_books_def Let_def)

lemma same_books_sampling: "same_books h g \<Longrightarrow> same_books h (upd_sampling s f g)"
  by (simp add: same_books_def)

lemma addDecisionMaker_dm:
  "truthy (getp (t_tags (trace_of (addDecisionMaker c h) c)) DECISION_MAKER_KEY) \<longleftrightarrow>
     kept (priority (sampling_of h c))"
  by (auto simp: addDecisionMaker_def kept_def Let_def split: option.splits)

locale priority_policy =
  fixes from_tags :: "jsobj \<Rightarrow> trace \<Rightarrow> int option"
    and from_auto :: "nat \<Rightarrow> 'ps \<times> heap \<Rightarrow> int \<times> 'ps \<times> heap"
  assumes tags_valid: "from_tags tags t = Some p \<Longrightarrow> validate (Some p)"
    and auto_valid: "validate (Some (fst (from_auto c st)))"
    and auto_frame: "auto_frame c h (snd (snd (from_auto c (ps, h))))"
begin

lemma sample_settled:
  "priority (sampling_of (snd st) c) \<noteq> None \<Longrightarrow> sample_with from_tags from_auto (Some c) auto st = st"
  by (cases st) (auto simp: sample_with_def)

lemma sample_noop:
  "root_span (snd st) c = None \<Longrightarrow> sample_with from_tags from_auto (Some c) auto st = st"
  by (cases st) (auto simp: sample_with_def)

lemma sample_decides:
  assumes tr: "on_trace h c" and none: "priority (sampling_of h c) = None"
    and st': "sample_with from_tags from_auto (Some c) True (ps, h) = (ps', h')"
  shows "validate (priority (sampling_of h' c)) \<and>
    (truthy (getp (t_tags (trace_of h' c)) DECISION_MAKER_KEY) \<longleftrightarrow> kept (priority (sampling_of h' c))) \<and>
    h_ctxs h' = h_ctxs h \<and> h_spans h' = h_spans h \<and>
    (\<forall>s. s \<noteq> ctx_sampling (h_ctxs h c) \<longrightarrow> h_samplings h' s = h_samplings h s) \<and>
    (\<forall>t. t \<noteq> ctx_trace (h_ctxs h c) \<longrightarrow> h_traces h' t = h_traces h t) \<and>
    (\<forall>t. started (h_traces h' t) = started (h_traces h t))"
proof -
  obtain rt where rt: "root_span h c = Some rt" using tr by (auto simp: on_trace_def)
  define rctx where "rctx = sp_ctx (h_spans h rt)"
  have same: "ctx_trace (h_ctxs h rctx) = ctx_trace (h_ctxs h c)"
    "ctx_sampling (h_ctxs h rctx) = ctx_sampling (h_ctxs h c)"
    using tr rt by (auto simp: on_trace_def rctx_def)
  define tag where "tag = from_tags (ctx_tags (h_ctxs h c)) (trace_of h c)"
  have fin: "validate (priority (sampling_of h' c)) \<and>
      (truthy (getp (t_tags (trace_of h' c)) DECISION_MAKER_KEY) \<longleftrightarrow> kept (priority (sampling_of h' c))) \<and>
      h_ctxs h' = h_ctxs h \<and> h_spans h' = h_spans h \<and>
      (\<forall>s. s \<noteq> ctx_sampling (h_ctxs h c) \<longrightarrow> h_samplings h' s = h_samplings h s) \<and>
      (\<forall>t. t \<noteq> ctx_trace (h_ctxs h c) \<longrightarrow> h_traces h' t = h_traces h t) \<and>
      (\<forall>t. started (h_traces h' t) = started (h_traces h t))"
    if "h' = addDecisionMaker rctx (set_sampling c f g)" "auto_frame rctx h g"
      "validate (priority (f (sampling_of h c)))" "\<And>s. priority (f s) = p" for f g p
  proof -
    have g: "h_ctxs g = h_ctxs h" "h_spans g = h_spans h"
      "\<And>s. s \<noteq> ctx_sampling (h_ctxs h c) \<Longrightarrow> h_samplings g s = h_samplings h s"
      "\<And>t. t \<noteq> ctx_trace (h_ctxs h c) \<Longrightarrow> h_traces g t = h_traces h t"
      "\<And>t. started (h_traces g t) = started (h_traces h t)"
      using that(2) same by (auto simp: auto_frame_def)
    have "sampling_of (set_sampling c f g) c = f (sampling_of g c)"
      "sampling_of (set_sampling c f g) rctx = f (sampling_of g c)"
      using g same by simp_all
    moreover have "truthy (getp (t_tags (trace_of h' rctx)) DECISION_MAKER_KEY) \<longleftrightarrow>
        kept (priority (sampling_of (set_sampling c f g) rctx))"
      using addDecisionMaker_dm [of rctx "set_sampling c f g"] by (simp add: that(1) frame)
    ultimately show ?thesis
      using that g same by (simp add: frame)
  qed
  have id: "auto_frame rctx h h" by (simp add: auto_frame_def same_books_refl)
  show ?thesis
  proof (cases "validate tag")
    case True
    have "h' = addDecisionMaker rctx
        (set_sampling c (\<lambda>s. s\<lparr>priority := tag, mechanism := Some MECHANISM_MANUAL\<rparr>) h)"
      using st' none rt True by (simp add: sample_with_def rctx_def tag_def Let_def)
    then show ?thesis using True id
      by (intro fin [where f = "\<lambda>s. s\<lparr>priority := tag, mechanism := Some MECHANISM_MANUAL\<rparr>"
            and g = h and p = tag]) simp_all
  next
    case False
    obtain p ps1 g where auto: "from_auto rctx (ps, h) = (p, ps1, g)" by (metis prod_cases3)
    have "h' = addDecisionMaker rctx (set_sampling c (\<lambda>s. s\<lparr>priority := Some p\<rparr>) g)"
      using st' none rt False auto by (simp add: sample_with_def rctx_def tag_def Let_def)
    moreover have "auto_frame rctx h g" "validate (Some p)"
      using auto_frame [of rctx h ps] auto_valid [of rctx "(ps, h)"] auto by simp_all
    ultimately show ?thesis
      by (intro fin [where f = "\<lambda>s. s\<lparr>priority := Some p\<rparr>" and g = g and p = "Some p"]) simp_all
  qed
qed

text \<open>Sampling never touches who is on a trace, a span or a context.\<close>

lemma sample_frame:
  "h_ctxs (snd (sample_with from_tags from_auto c auto st)) = h_ctxs (snd st) \<and>
   h_spans (snd (sample_with from_tags from_auto c auto st)) = h_spans (snd st) \<and>
   same_books (snd st) (snd (sample_with from_tags from_auto c auto st))"
proof -
  obtain ps h where st: "st = (ps, h)" by (cases st)
  have dm: "h_ctxs (addDecisionMaker rctx (set_sampling cc f g)) = h_ctxs h \<and>
      h_spans (addDecisionMaker rctx (set_sampling cc f g)) = h_spans h \<and>
      same_books h (addDecisionMaker rctx (set_sampling cc f g))"
    if "auto_frame rc h g" for rctx rc cc f g
    using that
    by (auto simp: frame auto_frame_def intro: same_books_trans [OF _ addDecisionMaker_books] same_books_sampling)
  have id: "auto_frame rc h h" for rc by (simp add: auto_frame_def same_books_refl)
  have auto: "auto_frame rc h g" if "from_auto rc (ps, h) = (p, ps', g)" for rc p ps' g
    using auto_frame [of rc h ps] that by simp
  note dm_auto = dm [OF auto] and dm_id = dm [OF id]
  show ?thesis
    unfolding sample_with_def st
    by (auto simp: Let_def same_books_refl dm_id split: option.splits prod.splits dest: dm_auto)
qed

lemma sample_result:
  assumes "root_span h c = Some rt" "priority (sampling_of h c) = None"
  shows "priority (sampling_of (snd (sample_with from_tags from_auto (Some c) True (ps, h))) c) =
    (let tag = from_tags (ctx_tags (h_ctxs h c)) (trace_of h c)
     in if validate tag then tag else Some (fst (from_auto (sp_ctx (h_spans h rt)) (ps, h))))"
proof -
  obtain p ps1 g where auto: "from_auto (sp_ctx (h_spans h rt)) (ps, h) = (p, ps1, g)"
    by (metis prod_cases3)
  then have "h_ctxs g = h_ctxs h"
    using auto_frame [of "sp_ctx (h_spans h rt)" h ps] by (simp add: auto_frame_def)
  then show ?thesis
    using assms auto by (simp add: sample_with_def Let_def frame)
qed

end

subsection \<open>The two policies\<close>

lemma isSampledByRateLimit_frame:
  "auto_frame c h (snd (snd (isSampledByRateLimit api now c (ps, h))))"
  by (simp add: isSampledByRateLimit_def auto_frame_def same_books_def Let_def split: prod.splits)

lemma auto_frame_trans:
  assumes "auto_frame c h1 h2" "auto_frame c h2 h3"
  shows "auto_frame c h1 h3"
  using assms by (auto simp: auto_frame_def intro: same_books_trans)

lemma auto_frame_mechanism: "auto_frame c h (set_sampling c (\<lambda>s. s\<lparr>mechanism := m\<rparr>) h)"
  by (simp add: auto_frame_def same_books_def)

lemma knuth_not_dm: "DECISION_MAKER_KEY \<noteq> SAMPLING_KNUTH_RATE"
  by (simp add: tag_key_defs)

lemma auto_frame_ctxs: "auto_frame c h h' \<Longrightarrow> h_ctxs h' = h_ctxs h"
  by (simp add: auto_frame_def)

lemma record_rule_frame: "auto_frame c h (record_rule c rule h)"
  using knuth_not_dm by (auto simp: record_rule_def auto_frame_def same_books_def Let_def)

lemma record_agent_frame: "auto_frame c h (record_agent c sampler h)"
  using knuth_not_dm
  by (cases sampler) (auto simp: record_agent_def auto_frame_def same_books_def Let_def)

lemma getPriorityByRule_frame:
  "auto_frame c h (snd (snd (getPriorityByRule api now c i (ps, h))))"
proof -
  define rule where "rule = ps_rules ps ! i"
  define h2 where "h2 = record_rule c rule h"
  have f: "auto_frame c h h2" unfolding h2_def by (rule record_rule_frame)
  obtain b r' where b: "rule_sample api now rule (ctx_traceId (h_ctxs h2 c)) = (b, r')" by fastforce
  define ps1 where "ps1 = ps\<lparr>ps_rules := (ps_rules ps)[i := r']\<rparr>"
  obtain a ps2 h3 where a: "isSampledByRateLimit api now c (ps1, h2) = (a, ps2, h3)" by (metis prod_cases3)
  have "auto_frame c h2 h3" using isSampledByRateLimit_frame [of c h2 api now ps1] a by simp
  then have f3: "auto_frame c h h3" using f auto_frame_trans
    by (metis auto_frame_ctxs auto_frame_trans)
  have "getPriorityByRule api now c i (ps, h) =
      (if b then (if a then USER_KEEP else USER_REJECT, ps2, h3) else (USER_REJECT, ps1, h2))"
    using b a by (simp add: getPriorityByRule_def Let_def flip: rule_def h2_def ps1_def)
  then show ?thesis using f f3 by simp
qed

lemma getPriorityByRule_valid: "validate (Some (fst (getPriorityByRule api now c i st)))"
  by (auto simp: getPriorityByRule_def validate_def Let_def split: prod.splits)

lemma getPriorityByAgent_frame:
  "auto_frame c h (snd (snd (getPriorityByAgent str c (ps, h))))"
  by (simp add: getPriorityByAgent_def Let_def record_agent_frame)

lemma getPriorityByAgent_valid: "validate (Some (fst (getPriorityByAgent str c st)))"
  by (auto simp: getPriorityByAgent_def validate_def Let_def split: prod.splits)

interpretation auto_policy: priority_policy getPriorityFromTags
  "getPriorityFromAuto api str now service"
proof
  show "getPriorityFromTags tags t = Some p \<Longrightarrow> validate (Some p)" for tags t p
    by (auto simp: getPriorityFromTags_def validate_def Let_def split: if_splits)
  show "validate (Some (fst (getPriorityFromAuto api str now service c st)))" for c st
    by (auto simp: getPriorityFromAuto_def getPriorityByRule_valid getPriorityByAgent_valid split: option.splits)
  show "auto_frame c h (snd (snd (getPriorityFromAuto api str now service c (ps, h))))" for c ps h
    by (auto simp: getPriorityFromAuto_def getPriorityByRule_frame getPriorityByAgent_frame split: option.splits)
qed

interpretation standalone_policy: priority_policy ts_getPriorityFromTags
  "ts_getPriorityFromAuto api now"
proof
  show "ts_getPriorityFromTags tags t = Some p \<Longrightarrow> validate (Some p)" for tags t p
    by (auto simp: ts_getPriorityFromTags_def validate_def split: if_splits)
  show "validate (Some (fst (ts_getPriorityFromAuto api now c st)))" for c st
    by (auto simp: ts_getPriorityFromAuto_def validate_def Let_def split: prod.splits)
  show "auto_frame c h (snd (snd (ts_getPriorityFromAuto api now c (ps, h))))" for c ps h
  proof -
    define g where "g = set_sampling c (\<lambda>s. s\<lparr>mechanism := Some MECHANISM_DEFAULT\<rparr>) h"
    have g: "auto_frame c h g" unfolding g_def by (rule auto_frame_mechanism)
    have "auto_frame c h (snd (snd (isSampledByRateLimit api now c (ps, g))))"
      by (rule auto_frame_trans [OF g isSampledByRateLimit_frame])
    with g show ?thesis
      by (auto simp: ts_getPriorityFromAuto_def Let_def split: prod.splits simp flip: g_def)
  qed
qed

subsection \<open>Properties\<close>


text \<open>A heap with one span, root of its trace\<close>

definition one_span_heap :: "jsobj \<Rightarrow> heap" where
  "one_span_heap tags =
     \<lparr>h_traces = (\<lambda>_. new_trace\<lparr>started := [0]\<rparr>), h_samplings = (\<lambda>_. new_sampling),
      h_ctxs = (\<lambda>_. (new_SpanContext zeroId (Some zeroId) 0 0)\<lparr>ctx_tags := tags\<rparr>),
      h_spans = (\<lambda>_. \<lparr>sp_ctx = 0, sp_name = JUndef, sp_integrationName = [], sp_startTime = 0,
        sp_duration = None, sp_links = [], sp_events = [], sp_service = [], sp_marker = JUndef,
        sp_meta_struct = JUndef\<rparr>),
      h_next = 1\<rparr>"

lemma one_span_on_trace: "on_trace (one_span_heap tags) 0"
  by (simp add: on_trace_def root_span_def one_span_heap_def new_SpanContext_def)

lemma one_span_undecided: "priority (sampling_of (one_span_heap tags) 0) = None"
  by (simp add: one_span_heap_def new_sampling_def)

definition plain_sampler :: "(int \<times> nat \<times> int) priority_sampler" where
  "plain_sampler =
     \<lparr>ps_env = [], ps_rules = [], ps_limiter = new_RateLimiter window_limiter (Fin 0) ''second'',
      ps_samplers = [(DEFAULT_KEY, DefaultSampler)]\<rparr>"


lemma ts_auto_priority:
  "fst (ts_getPriorityFromAuto api now c (ps, h)) =
     (if hasTraceSourcePropagationTag (t_tags (trace_of h c)) then USER_KEEP
      else if fst (isAllowed api now (ps_limiter ps)) then AUTO_KEEP else AUTO_REJECT)"
  by (simp add: ts_getPriorityFromAuto_def isSampledByRateLimit_def Let_def split: prod.splits)



end
