(* ===== verification/TextMap.thy ===== *)
theory TextMap
  imports Carrier Baggage PrioritySampler
begin

text \<open>
  The propagator of \<open>opentracing/propagation/text_map.js\<close>: writing the context of a span into
  a carrier and reading one back, in the Datadog, W3C and two B3 formats, with the baggage. A
  context is held with its trace and sampling objects in place. Logs, channels and telemetry
  counters are left out. The major version is 6, so \<open>b3\<close> is the single header.

  Four things come from outside: \<open>ensure\<close> takes the pending sampling decision of the context
  (\<open>_ensureSamplingPriority\<close>), \<open>gen\<close> is the identifier \<open>id()\<close> would generate, and
  \<open>json\<close> is \<open>JSON.parse\<close>, \<open>None\<close> when it throws; the field \<open>valueString\<close> of the
  configuration is \<open>toString\<close> of values that are neither strings nor integers. A context without a span id (a bare
  B3 decision) is only ever a parent, never injected.
\<close>

type_synonym ectx = "(trace, sampling) span_context"

record tm_config =
  apmTracingEnabled :: bool
  legacyBaggageEnabled :: bool
  injectStyles :: "string list"
  extractStyles :: "string list"
  baggageMaxItems :: nat
  baggageMaxBytes :: nat
  tagsMaxLength :: nat
  extractFirst :: bool
  behaviorExtract :: string
  baggageTagKeys :: "string list"
  valueString :: "jsval \<Rightarrow> string"

definition DD_PARENT_ID :: string where "DD_PARENT_ID = ''_dd.parent_id''"

subsection \<open>The expressions\<close>

definition in_range :: "nat \<Rightarrow> nat \<Rightarrow> char \<Rightarrow> bool" where
  "in_range a b c \<longleftrightarrow> a \<le> of_char c \<and> of_char c \<le> b"

definition is_hex :: "nat \<Rightarrow> string \<Rightarrow> bool" where
  "is_hex n s \<longleftrightarrow> length s = n \<and> list_all (digit_in 16) s"

definition b3TraceExpr :: "string \<Rightarrow> bool" where
  "b3TraceExpr s \<longleftrightarrow> is_hex 16 s \<or> is_hex 32 s"

definition b3SpanExpr :: "string \<Rightarrow> bool" where
  "b3SpanExpr s \<longleftrightarrow> is_hex 16 s"

definition b3Flag :: "string \<Rightarrow> bool" where
  "b3Flag s \<longleftrightarrow> s \<in> {''0'', ''1'', ''d'', ''D''}"

definition b3HeaderExpr :: "string \<Rightarrow> bool" where
  "b3HeaderExpr s = (case split_on (CHR ''-'') s of
      [f] \<Rightarrow> b3Flag f
    | [t, p] \<Rightarrow> b3TraceExpr t \<and> b3SpanExpr p
    | [t, p, f] \<Rightarrow> b3TraceExpr t \<and> b3SpanExpr p \<and> b3Flag f
    | [t, p, f, q] \<Rightarrow> b3TraceExpr t \<and> b3SpanExpr p \<and> b3Flag f \<and> b3SpanExpr q
    | _ \<Rightarrow> False)"

definition tagKeyExpr :: "string \<Rightarrow> bool" where
  "tagKeyExpr s \<longleftrightarrow> starts_with ''_dd.p.'' s \<and> drop 6 s \<noteq> [] \<and>
     list_all (\<lambda>c. in_range 33 43 c \<or> in_range 45 126 c) (drop 6 s)"

definition tagValueExpr :: "string \<Rightarrow> bool" where
  "tagValueExpr s \<longleftrightarrow> list_all (\<lambda>c. in_range 32 43 c \<or> in_range 45 126 c) s"

definition invalidHeaderValueChar :: "char \<Rightarrow> bool" where
  "invalidHeaderValueChar c \<longleftrightarrow> \<not> (of_char c = (9 :: nat) \<or> in_range 32 126 c \<or> in_range 128 255 c)"

text \<open>The groups of \<open>traceparentExpr\<close>: version, trace id, span id, flags, tail\<close>

definition match_traceparent :: "string \<Rightarrow> (string \<times> string \<times> string \<times> string \<times> string) option" where
  "match_traceparent s =
     (let version = take 2 s; traceId = slice s 3 35; spanId = slice s 36 52;
          flags = slice s 53 55; tail = drop 55 s
      in if is_hex 2 version \<and> is_hex 32 traceId \<and> is_hex 16 spanId \<and> is_hex 2 flags \<and>
            s ! 2 = CHR ''-'' \<and> s ! 35 = CHR ''-'' \<and> s ! 52 = CHR ''-'' \<and>
            (tail = [] \<or> hd tail = CHR ''-'' \<and> list_all (\<lambda>c. of_char c \<notin> {10, 13 :: nat}) tail)
         then Some (version, traceId, spanId, flags, tail) else None)"

definition tracestate_value_ok :: "char \<Rightarrow> bool" where
  "tracestate_value_ok c \<longleftrightarrow> in_range 32 43 c \<or> in_range 45 58 c \<or> in_range 60 125 c"

definition tracestate_key_ok :: "char \<Rightarrow> bool" where
  "tracestate_key_ok c \<longleftrightarrow> in_range 33 43 c \<or> in_range 45 60 c \<or> in_range 62 126 c"

definition replace_char :: "char \<Rightarrow> char \<Rightarrow> string \<Rightarrow> string" where
  "replace_char a b s = map (\<lambda>c. if c = a then b else c) s"

definition filter_chars :: "(char \<Rightarrow> bool) \<Rightarrow> string \<Rightarrow> string" where
  "filter_chars P s = map (\<lambda>c. if P c then c else CHR ''_'') s"

definition invalidSegment :: "string \<Rightarrow> bool" where
  "invalidSegment s \<longleftrightarrow> s \<noteq> [] \<and> list_all (\<lambda>c. c = CHR ''0'') s"

definition hex16 :: "string \<Rightarrow> bool" where
  "hex16 s \<longleftrightarrow> is_hex 16 s"

definition zeroTraceId :: string where
  "zeroTraceId = replicate 16 (CHR ''0'')"

subsection \<open>Injection\<close>

definition hasStyle :: "string list \<Rightarrow> string \<Rightarrow> bool" where
  "hasStyle styles name \<longleftrightarrow> name \<in> set styles"

definition some_carrier :: "carrier option \<Rightarrow> carrier" where
  "some_carrier c = (case c of None \<Rightarrow> [] | Some c \<Rightarrow> c)"

text \<open>\<open>a ?? b\<close> on carriers\<close>

definition carrier_or :: "carrier option \<Rightarrow> carrier option \<Rightarrow> carrier option" where
  "carrier_or a b = (case a of None \<Rightarrow> b | Some c \<Rightarrow> Some c)"

definition injectOrigin :: "ectx \<Rightarrow> carrier \<Rightarrow> carrier" where
  "injectOrigin ctx carrier = (case t_origin (ctx_trace ctx) of
      None \<Rightarrow> carrier
    | Some origin \<Rightarrow> if origin \<noteq> [] then field_write datadogOriginHeader origin carrier else carrier)"

definition injectSamplingPriority :: "ectx \<Rightarrow> carrier \<Rightarrow> carrier" where
  "injectSamplingPriority ctx carrier = (case priority (ctx_sampling ctx) of
      None \<Rightarrow> carrier
    | Some p \<Rightarrow> field_write datadogSamplingPriorityHeader (show_int p) carrier)"

text \<open>The loop of \<open>_injectTags\<close>; \<open>None\<close> is the return on an invalid tag.\<close>

fun injectTags_loop :: "jsobj \<Rightarrow> string list \<Rightarrow> string list option" where
  "injectTags_loop [] tags = Some tags"
| "injectTags_loop ((k, v) # rest) tags =
     (if \<not> truthy v \<or> \<not> starts_with ''_dd.p.'' k then injectTags_loop rest tags
      else case v of
          JStr value \<Rightarrow>
            (if \<not> tagKeyExpr k \<or> \<not> tagValueExpr value then None
             else injectTags_loop rest (tags @ [k @ ''='' @ value]))
        | _ \<Rightarrow> None)"

definition injectTags :: "tm_config \<Rightarrow> ectx \<Rightarrow> carrier \<Rightarrow> carrier" where
  "injectTags cfg ctx carrier =
     (if tagsMaxLength cfg = 0 then carrier
      else case injectTags_loop (t_tags (ctx_trace ctx)) [] of
          None \<Rightarrow> carrier
        | Some tags \<Rightarrow>
            (let header = join '','' tags
             in if length header > tagsMaxLength cfg then carrier
                else if header \<noteq> [] then field_write datadogTagsHeader header carrier
                else carrier))"

definition injectDatadog :: "tm_config \<Rightarrow> ectx \<Rightarrow> carrier option \<Rightarrow> carrier option" where
  "injectDatadog cfg ctx carrier =
     (if \<not> hasStyle (injectStyles cfg) ''datadog'' then None
      else let c = some_carrier carrier;
               c = field_write datadogTraceIdHeader (toTraceId (ctx_trace ctx) ctx False) c;
               c = field_write datadogParentIdHeader (toSpanId ctx False) c;
               c = injectOrigin ctx c;
               c = injectSamplingPriority ctx c;
               c = injectTags cfg ctx c
           in Some c)"

fun legacy_baggage_loop :: "(string \<times> string) list \<Rightarrow> carrier option \<Rightarrow> carrier option \<Rightarrow> carrier option" where
  "legacy_baggage_loop [] carrier injected = injected"
| "legacy_baggage_loop ((k, v) # items) carrier injected =
     (let headerValue = (if list_ex invalidHeaderValueChar v then encodeURIComponent v else v)
      in case writeLegacyBaggage (carrier_or injected carrier) k headerValue of
           None \<Rightarrow> legacy_baggage_loop items carrier injected
         | Some c \<Rightarrow> legacy_baggage_loop items carrier (Some c))"

fun baggage_header_loop :: "tm_config \<Rightarrow> baggage \<Rightarrow> string \<Rightarrow> nat \<Rightarrow> nat \<Rightarrow> string" where
  "baggage_header_loop cfg [] header itemCounter byteCounter = header"
| "baggage_header_loop cfg ((k, v) # items) header itemCounter byteCounter =
     (let baggageKey = trim k
      in if \<not> is_token baggageKey then baggage_header_loop cfg items header itemCounter byteCounter
         else let item = baggageKey @ ''='' @ encodeURIComponent v @ '','';
                  itemCounter = itemCounter + 1;
                  byteCounter = byteCounter + length item
              in if itemCounter > baggageMaxItems cfg then header
                 else if byteCounter > baggageMaxBytes cfg then header
                 else baggage_header_loop cfg items (header @ item) itemCounter byteCounter)"

definition injectBaggageItems ::
  "tm_config \<Rightarrow> baggage option \<Rightarrow> ectx option \<Rightarrow> carrier option \<Rightarrow> carrier option" where
  "injectBaggageItems cfg store ctx carrier =
     (let injected =
            (if legacyBaggageEnabled cfg then
               (case ctx of None \<Rightarrow> None | Some ctx \<Rightarrow> legacy_baggage_loop (ctx_baggage ctx) carrier None)
             else None)
      in if hasStyle (injectStyles cfg) ''baggage'' then
           (let baggage = butlast (baggage_header_loop cfg (getAllBaggageItems store) [] 0 0)
            in if baggage \<noteq> [] then
                 Some (field_write baggageHeader baggage (some_carrier (carrier_or injected carrier)))
               else injected)
         else injected)"

definition sampled_digit :: "sampling \<Rightarrow> string" where
  "sampled_digit s = (case priority s of Some p \<Rightarrow> if AUTO_KEEP \<le> p then ''1'' else ''0'' | None \<Rightarrow> ''0'')"

definition injectB3MultipleHeaders :: "tm_config \<Rightarrow> ectx \<Rightarrow> carrier option \<Rightarrow> carrier option" where
  "injectB3MultipleHeaders cfg ctx carrier =
     (if \<not> hasStyle (injectStyles cfg) ''b3multi'' then None
      else let c = some_carrier carrier;
               c = field_write b3TraceIdHeader (toTraceIdHex (ctx_traceId ctx) (trace_tid (ctx_trace ctx))) c;
               c = field_write b3SpanIdHeader (toString_id (the (ctx_spanId ctx)) 16) c;
               c = field_write b3SampledHeader (sampled_digit (ctx_sampling ctx)) c;
               c = (case priority (ctx_sampling ctx) of
                      Some p \<Rightarrow> if AUTO_KEEP < p then field_write b3FlagsHeader ''1'' c else c
                    | None \<Rightarrow> c);
               c = (case ctx_parentId ctx of
                      Some p \<Rightarrow> field_write b3ParentIdHeader (toString_id p 16) c
                    | None \<Rightarrow> c)
           in Some c)"

definition injectB3SingleHeader :: "tm_config \<Rightarrow> ectx \<Rightarrow> carrier option \<Rightarrow> carrier option" where
  "injectB3SingleHeader cfg ctx carrier =
     (if \<not> (hasStyle (injectStyles cfg) ''b3 single header'' \<or> hasStyle (injectStyles cfg) ''b3'') then None
      else let traceId = toTraceIdHex (ctx_traceId ctx) (trace_tid (ctx_trace ctx));
               spanId = toString_id (the (ctx_spanId ctx)) 16;
               header = traceId @ ''-'' @ spanId @ ''-'' @ sampled_digit (ctx_sampling ctx);
               header = (case ctx_parentId ctx of
                           Some p \<Rightarrow> header @ ''-'' @ toString_id p 16
                         | None \<Rightarrow> header)
           in Some (field_write b3Header header (some_carrier carrier)))"

text \<open>The propagated trace tags, as members \<open>t.*\<close> of the vendor data\<close>

definition tracestate_tag :: "(jsval \<Rightarrow> string) \<Rightarrow> string \<times> jsval \<Rightarrow> ts_data \<Rightarrow> ts_data" where
  "tracestate_tag str kv state =
     (case kv of (k, v) \<Rightarrow>
        (if \<not> truthy v \<or> \<not> starts_with ''_dd.p.'' k then state
         else let tagKey = ''t.'' @ filter_chars tracestate_key_ok (drop 6 k);
                  tagValue = replace_char (CHR ''='') (CHR ''~'')
                    (filter_chars tracestate_value_ok (js_string str v))
              in tsd_set tagKey (TsStr tagValue) state))"

definition tracestate_handler :: "(jsval \<Rightarrow> string) \<Rightarrow> int option \<Rightarrow> int option \<Rightarrow> ectx \<Rightarrow> ts_data \<Rightarrow> unit \<times> ts_data" where
  "tracestate_handler str prio mech ctx state =
     (let parent = getp (t_tags (ctx_trace ctx)) DD_PARENT_ID;
          state = (if \<not> ctx_isRemote ctx then tsd_set ''p'' (TsId (the (ctx_spanId ctx))) state
                   else if truthy parent then tsd_set ''p'' (TsStr (js_string str parent)) state
                   else state);
          state = tsd_set ''s'' (case prio of Some p \<Rightarrow> TsNum p | None \<Rightarrow> TsUndef) state;
          state = (case mech of
                     Some m \<Rightarrow> if m \<noteq> 0 then tsd_set ''t.dm'' (TsStr (''-'' @ show_int m)) state else state
                   | None \<Rightarrow> state);
          state = (case t_origin (ctx_trace ctx) of
                     Some origin \<Rightarrow> tsd_set ''o'' (TsStr (replace_char (CHR ''='') (CHR ''~'')
                       (filter_chars tracestate_value_ok origin))) state
                   | None \<Rightarrow> state)
      in ((), fold (tracestate_tag str) (t_tags (ctx_trace ctx)) state))"

text \<open>
  The priority and the mechanism are read before \<open>toTraceparent\<close> takes a pending decision. The
  list of the context is updated in place, so the context is returned as well.
\<close>

definition injectTraceparent ::
  "tm_config \<Rightarrow> (ectx \<Rightarrow> ectx) \<Rightarrow> ectx \<Rightarrow> carrier option \<Rightarrow> bool \<Rightarrow> carrier option \<times> ectx" where
  "injectTraceparent cfg ensure ctx carrier injectTraceContext =
     (if \<not> hasStyle (injectStyles cfg) ''tracecontext'' then (None, ctx)
      else if \<not> injectTraceContext then
        (let tracestate = ts_fromString (map_option ts_toString (ctx_tracestate ctx));
             header = ts_toString (ts_delete ''dd'' tracestate)
         in if header = [] then (None, ctx)
            else (Some (field_write tracestateHeader header (some_carrier carrier)), ctx))
      else
        (let prio = priority (ctx_sampling ctx);
             mech = mechanism (ctx_sampling ctx);
             ts = (case ctx_tracestate ctx of None \<Rightarrow> [] | Some ts \<Rightarrow> ts);
             ctx = (if prio = None then ensure ctx else ctx);
             c = field_write traceparentHeader
                   (toTraceparent (ctx_trace ctx) (ctx_sampling ctx) ctx) (some_carrier carrier);
             ts = snd (forVendor ''dd'' (tracestate_handler (valueString cfg) prio mech ctx) ts);
             ctx = (if ctx_tracestate ctx = None then ctx else ctx\<lparr>ctx_tracestate := Some ts\<rparr>)
         in (Some (field_write tracestateHeader (ts_toString ts) c), ctx)))"

text \<open>\<open>inject(spanContext, carrier)\<close>, for a carrier that is not \<open>null\<close>\<close>

definition inject_context ::
  "tm_config \<Rightarrow> (ectx \<Rightarrow> ectx) \<Rightarrow> baggage option \<Rightarrow> ectx option \<Rightarrow> carrier option \<Rightarrow> carrier option \<times> ectx option" where
  "inject_context cfg ensure store ctx carrier =
     (let injected = injectBaggageItems cfg store ctx carrier
      in case ctx of
           None \<Rightarrow> (injected, None)
         | Some ctx \<Rightarrow>
             (let full = (apmTracingEnabled cfg \<or> hasTraceSourcePropagationTag (t_tags (ctx_trace ctx)));
                  injected = (if full then
                    (let i = carrier_or (injectDatadog cfg ctx (carrier_or injected carrier)) injected;
                         i = carrier_or (injectB3MultipleHeaders cfg ctx (carrier_or i carrier)) i
                     in carrier_or (injectB3SingleHeader cfg ctx (carrier_or i carrier)) i)
                    else injected);
                  (tp, ctx) = injectTraceparent cfg ensure ctx (carrier_or injected carrier) full
              in (carrier_or tp injected, Some ctx)))"

subsection \<open>Extraction\<close>

text \<open>\<open>id(value, radix)\<close> of a value that is not empty\<close>

definition parse_id :: "string \<Rightarrow> nat \<Rightarrow> ident" where
  "parse_id value radix = fst (createIdentifier [] \<lparr>batch = 0, data = []\<rparr> (Some value) radix)"

definition new_ectx :: "ident \<Rightarrow> ident option \<Rightarrow> ectx" where
  "new_ectx traceId spanId = new_SpanContext traceId spanId new_sampling new_trace"

definition ectx_tag :: "string \<Rightarrow> jsval \<Rightarrow> ectx \<Rightarrow> ectx" where
  "ectx_tag k v ctx = ctx\<lparr>ctx_trace := (ctx_trace ctx)\<lparr>t_tags := AList.update k v (t_tags (ctx_trace ctx))\<rparr>\<rparr>"

definition ectx_priority :: "int option \<Rightarrow> ectx \<Rightarrow> ectx" where
  "ectx_priority p ctx = ctx\<lparr>ctx_sampling := (ctx_sampling ctx)\<lparr>priority := p\<rparr>\<rparr>"

definition ectx_origin :: "string option \<Rightarrow> ectx \<Rightarrow> ectx" where
  "ectx_origin og ctx = ctx\<lparr>ctx_trace := (ctx_trace ctx)\<lparr>t_origin := og\<rparr>\<rparr>"

definition extractGenericContext :: "string option \<Rightarrow> string option \<Rightarrow> nat \<Rightarrow> ectx option" where
  "extractGenericContext traceId spanId radix =
     (case (traceId, spanId) of
        (Some t, Some s) \<Rightarrow>
          (if t = [] \<or> invalidSegment t \<or> s = [] then None
           else Some (new_ectx (parse_id t radix) (Some (parse_id s radix))))
      | _ \<Rightarrow> None)"

definition extractOrigin :: "carrier \<Rightarrow> ectx \<Rightarrow> ectx" where
  "extractOrigin carrier ctx = (case readDatadogOrigin carrier of
      Some origin \<Rightarrow> ectx_origin (Some origin) ctx
    | None \<Rightarrow> ctx)"

definition extractLegacyBaggageItems :: "tm_config \<Rightarrow> carrier \<Rightarrow> ectx \<Rightarrow> ectx" where
  "extractLegacyBaggageItems cfg carrier ctx =
     (if \<not> legacyBaggageEnabled cfg then ctx
      else ctx\<lparr>ctx_baggage := readLegacyBaggage carrier (ctx_baggage ctx)\<rparr>)"

definition extractSamplingPriority :: "carrier \<Rightarrow> ectx \<Rightarrow> ectx" where
  "extractSamplingPriority carrier ctx = (case readDatadogSamplingPriority carrier of
      None \<Rightarrow> ctx
    | Some header \<Rightarrow> (case parse_int 10 header of
          Some p \<Rightarrow> ectx_priority (Some p) ctx
        | None \<Rightarrow> ctx))"

lemma index_from_ge: "index_from c s k = Some i \<Longrightarrow> k \<le> i"
  by (auto simp: index_from_def)

text \<open>The scan of \<open>_extractTags\<close>; \<open>None\<close> is the return on an invalid tag.\<close>

function extractTags_loop :: "string \<Rightarrow> nat \<Rightarrow> nat option \<Rightarrow> jsobj \<Rightarrow> jsobj option" where
  "extractTags_loop header start separator tags =
     (if length header < start then Some tags
      else let end = (case index_from (CHR '','') header start of None \<Rightarrow> length header | Some comma \<Rightarrow> comma);
               hasSeparator = (case separator of Some s \<Rightarrow> s < end | None \<Rightarrow> False);
               k = slice header start (if hasSeparator then the separator else end);
               value = (if hasSeparator then slice header (the separator + 1) end else [])
           in if \<not> tagKeyExpr k \<or> \<not> tagValueExpr value then None
              else let tags = (if k = ''_dd.p.tid'' \<and> \<not> hex16 value then tags
                               else AList.update k (JStr value) tags);
                       start = end + 1
                   in extractTags_loop header start
                        (if hasSeparator then index_from (CHR ''='') header start else separator) tags)"
  by pat_completeness auto
termination
  by (relation "measure (\<lambda>(header, start, _, _). length header + 1 - start)")
    (auto split: option.splits dest: index_from_ge)

declare extractTags_loop.simps [simp del]

definition extractTags :: "tm_config \<Rightarrow> carrier \<Rightarrow> jsobj option" where
  "extractTags cfg carrier = (case readDatadogTags carrier of
      None \<Rightarrow> None
    | Some header \<Rightarrow>
        (if header = [] \<or> tagsMaxLength cfg = 0 \<or> length header > tagsMaxLength cfg then None
         else extractTags_loop header 0 (index_of (CHR ''='') header) []))"

definition extract128BitTraceId :: "string \<Rightarrow> ectx \<Rightarrow> ectx" where
  "extract128BitTraceId traceId ctx =
     (if length (ctx_traceId ctx) \<noteq> 16 then ctx
      else let tid = slice traceId 0 16
           in if tid = zeroTraceId then ctx else ectx_tag ''_dd.p.tid'' (JStr tid) ctx)"

text \<open>One entry of the vendor data; the entries were just parsed, so they are strings.\<close>

definition tracestate_entry :: "string \<times> ts_value \<Rightarrow> ectx \<Rightarrow> ectx" where
  "tracestate_entry kv ctx =
     (let k = fst kv; value = show_ts_value (snd kv)
      in if k = ''p'' then ectx_tag DD_PARENT_ID (JStr value) ctx
         else if k = ''s'' then
           (case parse_int 10 value of
              None \<Rightarrow> ctx
            | Some p \<Rightarrow>
                (if priority (ctx_sampling ctx) = Some 1 \<and> 0 < p \<or>
                    priority (ctx_sampling ctx) = Some 0 \<and> p < 0
                 then ectx_priority (Some p) ctx else ctx))
         else if k = ''o'' then ectx_origin (Some (replace_char (CHR ''~'') (CHR ''='') value)) ctx
         else if k = ''t.dm'' then
           (case parse_int 10 value of
              None \<Rightarrow> ctx
            | Some n \<Rightarrow>
                (let ctx = ctx\<lparr>ctx_sampling := (ctx_sampling ctx)\<lparr>mechanism := Some \<bar>n\<bar>\<rparr>\<rparr>
                 in ectx_tag ''_dd.p.dm'' (JStr (''-'' @ show_int \<bar>n\<bar>)) ctx))
         else if \<not> starts_with ''t.'' k then ctx
         else if drop 2 k = ''tid'' then ctx
         else ectx_tag (''_dd.p.'' @ drop 2 k) (JStr (replace_char (CHR ''~'') (CHR ''='') value)) ctx)"

definition extractTraceparentContext :: "tm_config \<Rightarrow> carrier \<Rightarrow> ectx option" where
  "extractTraceparentContext cfg carrier = (case readTraceparent carrier of
      None \<Rightarrow> None
    | Some headerValue \<Rightarrow>
        (if headerValue = [] then None
         else case match_traceparent (trim headerValue) of
             None \<Rightarrow> None
           | Some (version, traceId, spanId, flags, tail) \<Rightarrow>
               (let tracestate = ts_fromString (readTracestate carrier)
                in if invalidSegment traceId \<or> invalidSegment spanId then None
                   else if version = ''ff'' then None
                   else if tail \<noteq> [] \<and> version = ''00'' then None
                   else let ctx = (new_ectx (parse_id traceId 16) (Some (parse_id spanId 16)))
                              \<lparr>ctx_sampling := new_sampling\<lparr>priority :=
                                 Some (if odd (the (parse_int 16 flags)) then 1 else 0)\<rparr>,
                               ctx_traceparent := Some version, ctx_tracestate := Some tracestate\<rparr>;
                            ctx = extract128BitTraceId traceId ctx;
                            ctx = fold tracestate_entry
                              (ts_map (tsd_fromString (map_of tracestate ''dd''))) ctx
                        in Some (extractLegacyBaggageItems cfg carrier ctx))))"

definition extractDatadogContext :: "tm_config \<Rightarrow> carrier \<Rightarrow> ectx option" where
  "extractDatadogContext cfg carrier =
     (case extractGenericContext (readDatadogTraceId carrier) (readDatadogParentId carrier) 10 of
        None \<Rightarrow> None
      | Some ctx \<Rightarrow>
          (let ctx = extractOrigin carrier ctx;
               ctx = extractLegacyBaggageItems cfg carrier ctx;
               ctx = extractSamplingPriority carrier ctx;
               ctx = (case extractTags cfg carrier of
                        Some traceTags \<Rightarrow> ctx\<lparr>ctx_trace := (ctx_trace ctx)\<lparr>t_tags := traceTags\<rparr>\<rparr>
                      | None \<Rightarrow> ctx)
           in if extractFirst cfg then Some ctx
              else case extractTraceparentContext cfg carrier of
                  Some tc \<Rightarrow>
                    (if equals (ctx_traceId ctx) (ctx_traceId tc)
                     then Some (ctx\<lparr>ctx_traceparent := ctx_traceparent tc, ctx_tracestate := ctx_tracestate tc\<rparr>)
                     else Some ctx)
                | None \<Rightarrow> Some ctx))"

record b3_fields =
  b3_traceId :: "string option"
  b3_spanId :: "string option"
  b3_sampled :: "string option"
  b3_flags :: "string option"

definition getPriority :: "string option \<Rightarrow> bool \<Rightarrow> int option" where
  "getPriority sampled debug =
     (if debug then Some USER_KEEP
      else if sampled = Some ''1'' then Some AUTO_KEEP
      else if sampled = Some ''0'' then Some AUTO_REJECT
      else None)"

definition extractB3Context :: "ident \<Rightarrow> b3_fields \<Rightarrow> ectx option" where
  "extractB3Context gen b3 =
     (let debug = (b3_flags b3 = Some ''1'');
          prio = getPriority (b3_sampled b3) debug
      in case extractGenericContext (b3_traceId b3) (b3_spanId b3) 16 of
           None \<Rightarrow>
             (case prio of
                None \<Rightarrow> None
              | Some p \<Rightarrow> Some (ectx_priority (Some p) (new_ectx gen None)))
         | Some ctx \<Rightarrow>
             (let ctx = (case prio of Some p \<Rightarrow> ectx_priority (Some p) ctx | None \<Rightarrow> ctx)
              in Some (extract128BitTraceId (the (b3_traceId b3)) ctx)))"

definition given :: "string option \<Rightarrow> string option" where
  "given s = (case s of Some t \<Rightarrow> if t \<noteq> [] then Some t else None | None \<Rightarrow> None)"

definition extractB3MultipleHeaders :: "carrier \<Rightarrow> b3_fields option" where
  "extractB3MultipleHeaders carrier =
     (let traceId = readB3TraceId carrier; sampled = readB3Sampled carrier; flags = readB3Flags carrier
      in if traceId = None \<and> sampled = None \<and> flags = None then None
         else let spanId = readB3SpanId carrier;
                  ids = (case (given traceId, given spanId) of
                           (Some t, Some s) \<Rightarrow> b3TraceExpr t \<and> b3SpanExpr s
                         | _ \<Rightarrow> False);
                  b3 = \<lparr>b3_traceId = (if ids then traceId else None), b3_spanId = (if ids then spanId else None),
                        b3_sampled = given sampled, b3_flags = given flags\<rparr>
              in if \<not> ids \<and> b3_sampled b3 = None \<and> b3_flags b3 = None then None else Some b3)"

definition extractB3SingleHeader :: "string \<Rightarrow> b3_fields" where
  "extractB3SingleHeader header =
     (let parts = split_on (CHR ''-'') header
      in if hd parts = ''d'' then
           \<lparr>b3_traceId = None, b3_spanId = None, b3_sampled = Some ''1'', b3_flags = Some ''1''\<rparr>
         else if length parts = 1 then
           \<lparr>b3_traceId = None, b3_spanId = None, b3_sampled = Some (hd parts), b3_flags = None\<rparr>
         else let third = (if 2 < length parts then given (Some (parts ! 2)) else None)
              in \<lparr>b3_traceId = Some (parts ! 0), b3_spanId = Some (parts ! 1),
                  b3_sampled = map_option (\<lambda>f. if f = ''0'' then ''0'' else ''1'') third,
                  b3_flags = (if third = Some ''d'' then Some ''1'' else None)\<rparr>)"

definition extractB3MultiContext :: "ident \<Rightarrow> carrier \<Rightarrow> ectx option" where
  "extractB3MultiContext gen carrier = (case extractB3MultipleHeaders carrier of
      None \<Rightarrow> None
    | Some b3 \<Rightarrow> extractB3Context gen b3)"

definition extractB3SingleContext :: "ident \<Rightarrow> carrier \<Rightarrow> ectx option" where
  "extractB3SingleContext gen carrier = (case given (readB3 carrier) of
      None \<Rightarrow> None
    | Some header \<Rightarrow>
        (if \<not> b3HeaderExpr header then None else extractB3Context gen (extractB3SingleHeader header)))"

text \<open>\<open>carrier\<close> as parsed JSON: what is no object has no such field.\<close>

definition extractSqsdContext :: "tm_config \<Rightarrow> (string \<Rightarrow> jsval option) \<Rightarrow> carrier \<Rightarrow> ectx option" where
  "extractSqsdContext cfg json carrier = (case given (readSqsd carrier) of
      None \<Rightarrow> None
    | Some headerValue \<Rightarrow>
        (case json headerValue of
           None \<Rightarrow> None
         | Some (JObj ps) \<Rightarrow> extractDatadogContext cfg ps
         | Some v \<Rightarrow> if truthy v then extractDatadogContext cfg [] else None))"

subsection \<open>Combining the formats\<close>

definition ctx_link :: "ectx \<Rightarrow> (string \<times> string) list \<Rightarrow> span_link" where
  "ctx_link ctx attributes =
     \<lparr>lk_traceId = toTraceId (ctx_trace ctx) ctx True,
      lk_spanId = (case ctx_spanId ctx of Some _ \<Rightarrow> toSpanId ctx True | None \<Rightarrow> []),
      lk_priority = priority (ctx_sampling ctx), lk_tracestate = ctx_tracestate ctx,
      lk_attributes = attributes\<rparr>"

definition hasTraceIdConflict :: "ectx option \<Rightarrow> ectx \<Rightarrow> bool" where
  "hasTraceIdConflict w3c first = (case w3c of
      None \<Rightarrow> False
    | Some w \<Rightarrow> toTraceId (ctx_trace first) first True = toTraceId (ctx_trace w) w True \<and>
        toSpanId first False \<noteq> toSpanId w False)"

definition updateParentIdFromDdHeaders :: "tm_config \<Rightarrow> carrier \<Rightarrow> ectx \<Rightarrow> ectx" where
  "updateParentIdFromDdHeaders cfg carrier first = (case extractDatadogContext cfg carrier of
      None \<Rightarrow> first
    | Some dd \<Rightarrow> ectx_tag DD_PARENT_ID
        (JStr (pad_start 16 (CHR ''0'') (toString_id (the (ctx_spanId dd)) 16))) first)"

definition resolveTraceContextConflicts :: "tm_config \<Rightarrow> ectx option \<Rightarrow> ectx \<Rightarrow> carrier \<Rightarrow> ectx" where
  "resolveTraceContextConflicts cfg w3c first carrier =
     (if \<not> hasTraceIdConflict w3c first then first
      else let w = the w3c;
               first = (if has_own (t_tags (ctx_trace w)) DD_PARENT_ID
                        then ectx_tag DD_PARENT_ID (getp (t_tags (ctx_trace w)) DD_PARENT_ID) first
                        else updateParentIdFromDdHeaders cfg carrier first)
           in first\<lparr>ctx_spanId := ctx_spanId w\<rparr>)"

text \<open>The extractor of a style; \<open>None\<close> is a style the loop skips.\<close>

definition run_extractor :: "tm_config \<Rightarrow> ident \<Rightarrow> string \<Rightarrow> carrier \<Rightarrow> ectx option" where
  "run_extractor cfg gen style carrier =
     (if style = ''datadog'' then extractDatadogContext cfg carrier
      else if style = ''tracecontext'' then extractTraceparentContext cfg carrier
      else if style = ''b3 single header'' \<or> style = ''b3'' then extractB3SingleContext gen carrier
      else if style = ''b3multi'' then extractB3MultiContext gen carrier
      else None)"

fun extract_loop ::
  "tm_config \<Rightarrow> ident \<Rightarrow> carrier \<Rightarrow> string list \<Rightarrow> (ectx \<times> string) option \<Rightarrow> (ectx \<times> string) option" where
  "extract_loop cfg gen carrier [] acc = acc"
| "extract_loop cfg gen carrier (extractor # extractors) acc =
     (case run_extractor cfg gen extractor carrier of
        None \<Rightarrow> extract_loop cfg gen carrier extractors acc
      | Some extracted \<Rightarrow>
          (case acc of
             None \<Rightarrow>
               (if extractFirst cfg then Some (extracted, extractor)
                else extract_loop cfg gen carrier extractors (Some (extracted, extractor)))
           | Some (ctx, style) \<Rightarrow>
               (let ctx = (if extractor = ''tracecontext''
                           then resolveTraceContextConflicts cfg (extractTraceparentContext cfg carrier) ctx carrier
                           else ctx);
                    ctx = (if ctx_spanId extracted \<noteq> None \<and>
                              toTraceId (ctx_trace extracted) extracted True \<noteq> toTraceId (ctx_trace ctx) ctx True
                           then ctx\<lparr>ctx_links := ctx_links ctx @
                             [ctx_link extracted [(''reason'', ''terminated_context''), (''context_headers'', extractor)]]\<rparr>
                           else ctx)
                in extract_loop cfg gen carrier extractors (Some (ctx, style)))))"

text \<open>
  The loop of \<open>_extractBaggageItems\<close>: the items gathered and the context, which is tagged on
  the way; the flag is false when a malformed member made it return.
\<close>

fun extractBaggage_loop ::
  "tm_config \<Rightarrow> string list \<Rightarrow> nat \<Rightarrow> nat \<Rightarrow> baggage option \<Rightarrow> ectx option \<Rightarrow> bool \<times> baggage option \<times> ectx option" where
  "extractBaggage_loop cfg [] itemCount byteCount items ctx = (True, items, ctx)"
| "extractBaggage_loop cfg (keyValue # rest) itemCount byteCount items ctx =
     (if baggageMaxItems cfg \<le> itemCount then (True, items, ctx)
      else let byteCount = byteCount + length keyValue + 1
           in if baggageMaxBytes cfg < byteCount then (True, items, ctx)
              else if keyValue = [] then extractBaggage_loop cfg rest itemCount byteCount items ctx
              else let member = trim (case index_of (CHR '';'') keyValue of
                                        None \<Rightarrow> keyValue | Some i \<Rightarrow> slice keyValue 0 i)
                   in if member = [] then extractBaggage_loop cfg rest itemCount byteCount items ctx
                      else case index_of (CHR ''='') member of
                          None \<Rightarrow> (False, items, ctx)
                        | Some eqIdx \<Rightarrow>
                            (let k = trim (slice member 0 eqIdx);
                                 value = trim (drop (eqIdx + 1) member)
                             in if \<not> is_token k \<or> value = [] then (False, items, ctx)
                                else let value = decode_baggage_value value;
                                         items = AList.update k value (getAllBaggageItems items);
                                         ctx = (if ''*'' \<in> set (baggageTagKeys cfg) \<or> k \<in> set (baggageTagKeys cfg)
                                                then map_option (ectx_tag (''baggage.'' @ k) (JStr value)) ctx
                                                else ctx)
                                     in extractBaggage_loop cfg rest (itemCount + 1) byteCount (Some items) ctx))"

definition extractBaggageItems ::
  "tm_config \<Rightarrow> carrier \<Rightarrow> ectx option \<Rightarrow> baggage option \<Rightarrow> ectx option \<times> baggage option" where
  "extractBaggageItems cfg carrier ctx store =
     (let store = removeAllBaggageItems store
      in if \<not> hasStyle (extractStyles cfg) ''baggage'' then (ctx, store)
         else case given (readBaggage carrier) of
             None \<Rightarrow> (ctx, store)
           | Some header \<Rightarrow>
               (let (done, items, ctx) = extractBaggage_loop cfg (split_on (CHR '','') header) 0 0 None ctx
                in (ctx, case (done, items) of (True, Some items) \<Rightarrow> setAllBaggageItems items store | _ \<Rightarrow> store)))"

definition extract_context ::
  "tm_config \<Rightarrow> ident \<Rightarrow> (string \<Rightarrow> jsval option) \<Rightarrow> carrier \<Rightarrow> baggage option \<Rightarrow> ectx option \<times> baggage option" where
  "extract_context cfg gen json carrier store =
     (let found = extract_loop cfg gen carrier (extractStyles cfg) None;
          ctx = map_option fst found;
          style = (case found of Some (_, s) \<Rightarrow> s | None \<Rightarrow> []);
          (ctx, store) =
            (if behaviorExtract cfg = ''ignore'' then (map_option (\<lambda>c. c\<lparr>ctx_links := []\<rparr>) ctx, store)
             else let ctx = (if behaviorExtract cfg = ''restart''
                        then map_option (\<lambda>c. c\<lparr>ctx_links :=
                          [ctx_link c [(''reason'', ''propagation_behavior_extract''), (''context_headers'', style)]]\<rparr>) ctx
                        else ctx)
                  in extractBaggageItems cfg carrier ctx store)
      in ((case ctx of Some c \<Rightarrow> Some c | None \<Rightarrow> extractSqsdContext cfg json carrier), store))"

text \<open>\<open>_getSamplingPriority\<close>; an absent priority and the priority 0 are both false.\<close>

definition getSamplingPriority :: "int \<Rightarrow> int option \<Rightarrow> string option \<Rightarrow> int" where
  "getSamplingPriority traceparentSampled tracestateSamplingPriority og =
     (let falsy = (tracestateSamplingPriority = None \<or> tracestateSamplingPriority = Some 0);
          fromRumWithoutPriority = (falsy \<and> og = Some ''rum'');
          p = (case tracestateSamplingPriority of None \<Rightarrow> AUTO_KEEP | Some p \<Rightarrow> p)
      in if \<not> fromRumWithoutPriority then
           (if traceparentSampled = 0 \<and> (falsy \<or> 0 \<le> the tracestateSamplingPriority) then AUTO_REJECT
            else if traceparentSampled = 1 \<and> (falsy \<or> the tracestateSamplingPriority < 0) then AUTO_KEEP
            else p)
         else p)"

end
