(* ===== verification/Propagation.thy ===== *)
theory Propagation
  imports TextMap
begin

text \<open>
  What propagation guarantees: the scanning reader of the tag header is the obvious splitter,
  and each format reads back the context it wrote.
\<close>

subsection \<open>The tag header\<close>

definition entry_split :: "string \<Rightarrow> string \<times> string" where
  "entry_split e = (case index_of (CHR ''='') e of
      None \<Rightarrow> (e, [])
    | Some i \<Rightarrow> (take i e, drop (i + 1) e))"

fun tags_of_entries :: "string list \<Rightarrow> jsobj \<Rightarrow> jsobj option" where
  "tags_of_entries [] tags = Some tags"
| "tags_of_entries (e # es) tags =
     (let (k, value) = entry_split e
      in if \<not> tagKeyExpr k \<or> \<not> tagValueExpr value then None
         else tags_of_entries es
           (if k = ''_dd.p.tid'' \<and> \<not> hex16 value then tags else AList.update k (JStr value) tags))"

lemma index_of_take:
  "index_of c (take n s) = (case index_of c s of Some i \<Rightarrow> if i < n then Some i else None | None \<Rightarrow> None)"
proof (induction s arbitrary: n)
  case Nil
  then show ?case by simp
next
  case (Cons x s)
  then show ?case by (cases n) (auto split: option.splits)
qed

lemma index_of_drop:
  "index_of c s = Some i \<Longrightarrow> n \<le> i \<Longrightarrow> index_of c (drop n s) = Some (i - n)"
proof (induction s arbitrary: i n)
  case Nil
  then show ?case by simp
next
  case (Cons x s)
  then show ?case by (cases n) (auto split: if_splits)
qed

lemma slice_from: "slice h a (a + n) = take n (drop a h)"
  by (simp add: slice_def)

lemma extractTags_loop_split:
  "start \<le> length header \<Longrightarrow>
     extractTags_loop header start (index_from (CHR ''='') header start) tags =
     tags_of_entries (split_on (CHR '','') (drop start header)) tags"
proof (induction "length header - start" arbitrary: start tags rule: less_induct)
  case less
  define s where "s = drop start header"
  have len: "length header = start + length s" using less.prems by (simp add: s_def)
  have sep: "index_from (CHR ''='') header start = map_option ((+) start) (index_of (CHR ''='') s)"
    by (simp add: index_from_def s_def)
  show ?case
  proof (cases "index_of (CHR '','') s")
    case None
    then have split: "split_on (CHR '','') s = [s]" by (simp add: index_of_None split_on_no_sep)
    have comma: "index_from (CHR '','') header start = None" using None by (simp add: index_from_def s_def)
    have stop: "extractTags_loop header (Suc (length header)) x t = Some t" for x t
      by (subst extractTags_loop.simps) simp
    have sl: "slice header start (length header) = s" "slice header start (start + k) = take k s"
      "slice header (Suc (start + k)) (length header) = drop (Suc k) s" for k
      by (simp_all add: slice_def s_def add.commute)
    show ?thesis
    proof (cases "index_of (CHR ''='') s")
      case eq: None
      show ?thesis
        unfolding sep eq split [unfolded s_def]
        using less.prems comma eq sl
        by (subst extractTags_loop.simps) (simp add: entry_split_def stop Let_def flip: s_def)
    next
      case (Some i)
      then have i: "i < length s" using index_of_Some_split by blast
      show ?thesis
        unfolding sep Some split [unfolded s_def]
        using less.prems comma Some i sl len stop
        by (subst extractTags_loop.simps) (simp add: entry_split_def stop Let_def flip: s_def)
    qed
  next
    case (Some n)
    then have n: "n < length s" "s ! n = CHR '',''" using index_of_Some_split by blast+
    have split: "split_on (CHR '','') s = take n s # split_on (CHR '','') (drop (Suc n) s)"
      by (rule drop_index_of [OF Some])
    have comma: "index_from (CHR '','') header start = Some (start + n)"
      using Some by (simp add: index_from_def s_def)
    define start' where "start' = start + n + 1"
    have start': "start' \<le> length header" "drop start' header = drop (Suc n) s"
    proof -
      show "start' \<le> length header" using n len by (simp add: start'_def)
      show "drop start' header = drop (Suc n) s" unfolding start'_def s_def drop_drop by (simp add: ac_simps)
    qed
    have IH: "extractTags_loop header start' (index_from (CHR ''='') header start') t =
        tags_of_entries (split_on (CHR '','') (drop (Suc n) s)) t" for t
      using less.hyps [of start' t] start' n len by (simp add: start'_def)
    show ?thesis
    proof (cases "index_of (CHR ''='') (take n s)")
      case none: None
      have "index_from (CHR ''='') header start = index_from (CHR ''='') header start' \<and>
          (case index_from (CHR ''='') header start of Some k \<Rightarrow> \<not> k < start + n | None \<Rightarrow> True)"
      proof (cases "index_of (CHR ''='') s")
        case None
        then have "CHR ''='' \<notin> set (drop (Suc n) s)" by (auto simp: index_of_None dest: in_set_dropD)
        then have "index_of (CHR ''='') (drop start' header) = None"
          by (simp only: start' index_of_None not_False_eq_True)
        then show ?thesis using None by (simp add: index_from_def s_def)
      next
        case j: (Some j)
        have "s ! j = CHR ''=''" using index_of_Some_split [OF j] by simp
        then have "j \<noteq> n" using n by auto
        moreover have "n \<le> j" using none j by (simp add: index_of_take split: if_splits)
        ultimately have "Suc n \<le> j" by simp
        then show ?thesis
          using index_of_drop [OF j, of "Suc n"] j start' by (simp add: index_from_def s_def start'_def)
      qed
      moreover have "entry_split (take n s) = (take n s, [])" using none by (simp add: entry_split_def)
      ultimately show ?thesis
        unfolding split [unfolded s_def]
        using less.prems comma IH
        by (subst extractTags_loop.simps)
          (auto simp: slice_def Let_def s_def start'_def split: option.splits)
    next
      case (Some i)
      then have i: "i < n" "index_of (CHR ''='') s = Some i"
        by (auto simp: index_of_take split: option.splits if_splits)
      have "entry_split (take n s) = (take i s, take (n - Suc i) (drop (Suc i) s))"
        using Some i by (simp add: entry_split_def drop_take min_def)
      moreover have "slice header (start + i + 1) (start + n) = take (n - Suc i) (drop (Suc i) s)"
        using i by (simp add: slice_def s_def add.commute)
      moreover have "slice header start (start + i) = take i s" by (simp add: slice_def s_def)
      ultimately show ?thesis
        unfolding split [unfolded s_def] sep i(2)
        using less.prems comma IH i
        by (subst extractTags_loop.simps) (simp add: Let_def s_def start'_def)
    qed
  qed
qed

text \<open>
  Reading the tag header in one scan, with the position of the next equals sign carried
  along, gives what splitting at every comma and each piece at its first equals sign gives.
\<close>

theorem extractTags_scan:
  "extractTags_loop header 0 (index_of (CHR ''='') header) [] =
     tags_of_entries (split_on (CHR '','') header) []"
  using extractTags_loop_split [of 0 header "[]"] by (cases "index_of (CHR ''='') header") (simp_all add: index_from_def)

subsection \<open>Datadog headers\<close>

text \<open>The trace tags that are propagated, and when they all fit the grammar and the limit\<close>

definition propagated :: "jsobj \<Rightarrow> (string \<times> string) list" where
  "propagated tags = List.map_filter (\<lambda>(k, v). case v of
      JStr s \<Rightarrow> if s \<noteq> [] \<and> starts_with ''_dd.p.'' k then Some (k, s) else None
    | _ \<Rightarrow> None) tags"

definition tags_sendable :: "nat \<Rightarrow> jsobj \<Rightarrow> bool" where
  "tags_sendable limit tags \<longleftrightarrow>
     distinct (map fst tags) \<and>
     list_all (\<lambda>(k, v). truthy v \<and> starts_with ''_dd.p.'' k \<longrightarrow> is_string v) tags \<and>
     list_all (\<lambda>(k, s). tagKeyExpr k \<and> CHR ''='' \<notin> set k \<and> tagValueExpr s \<and> (k = ''_dd.p.tid'' \<longrightarrow> hex16 s))
       (propagated tags) \<and>
     0 < limit \<and> length (join '','' (map (\<lambda>(k, s). k @ ''='' @ s) (propagated tags))) \<le> limit"

lemma propagated_Nil [simp]: "propagated [] = []"
  by (simp add: propagated_def List.map_filter_simps)

lemma propagated_Cons:
  "propagated ((k, v) # tags) = (case v of
      JStr s \<Rightarrow> if s \<noteq> [] \<and> starts_with ''_dd.p.'' k then (k, s) # propagated tags else propagated tags
    | _ \<Rightarrow> propagated tags)"
  by (simp add: propagated_def List.map_filter_simps split: jsval.splits)

lemma fst_propagated: "set (map fst (propagated tags)) \<subseteq> set (map fst tags)"
proof (induction tags)
  case Nil
  then show ?case by simp
next
  case (Cons kv tags)
  then show ?case by (cases kv) (auto simp: propagated_Cons split: jsval.splits)
qed

lemma distinct_propagated: "distinct (map fst tags) \<Longrightarrow> distinct (map fst (propagated tags))"
proof (induction tags)
  case Nil
  then show ?case by simp
next
  case (Cons kv tags)
  then show ?case using fst_propagated [of tags]
    by (cases kv) (auto simp: propagated_Cons split: jsval.splits)
qed

lemma injectTags_loop_propagated:
  assumes "list_all (\<lambda>(k, v). truthy v \<and> starts_with ''_dd.p.'' k \<longrightarrow> is_string v) tags"
    and "list_all (\<lambda>(k, s). tagKeyExpr k \<and> tagValueExpr s) (propagated tags)"
  shows "injectTags_loop tags acc = Some (acc @ map (\<lambda>(k, s). k @ ''='' @ s) (propagated tags))"
  using assms
proof (induction tags arbitrary: acc)
  case Nil
  then show ?case by simp
next
  case (Cons kv tags)
  obtain k v where kv: "kv = (k, v)" by (cases kv)
  show ?case
    using Cons.prems Cons.IH
    by (cases v) (auto simp: kv propagated_Cons is_string_def split: if_splits)
qed

lemma tags_of_entries_texts:
  assumes "list_all (\<lambda>(k, s). tagKeyExpr k \<and> CHR ''='' \<notin> set k \<and> tagValueExpr s \<and>
      (k = ''_dd.p.tid'' \<longrightarrow> hex16 s)) kvs"
  shows "tags_of_entries (map (\<lambda>(k, s). k @ ''='' @ s) kvs) tags =
    Some (obj_assign tags (map (\<lambda>(k, s). (k, JStr s)) kvs))"
  using assms
proof (induction kvs arbitrary: tags)
  case Nil
  then show ?case by simp
next
  case (Cons kv kvs)
  obtain k s where kv: "kv = (k, s)" by (cases kv)
  have "entry_split (k @ ''='' @ s) = (k, s)"
    using Cons.prems by (simp add: kv entry_split_def index_of_append)
  then show ?case using Cons by (auto simp: kv)
qed

lemma tag_chars_no_comma:
  "tagKeyExpr k \<Longrightarrow> CHR '','' \<notin> set k" "tagValueExpr v \<Longrightarrow> CHR '','' \<notin> set v"
proof -
  assume k: "tagKeyExpr k"
  then obtain t where t: "k = ''_dd.p.'' @ t" by (auto simp: tagKeyExpr_def starts_with_iff)
  with k have "CHR '','' \<notin> set t" by (auto simp: tagKeyExpr_def list_all_iff in_range_def)
  with t show "CHR '','' \<notin> set k" by simp
next
  assume "tagValueExpr v"
  then show "CHR '','' \<notin> set v" by (auto simp: tagValueExpr_def list_all_iff in_range_def)
qed

lemma tags_roundtrip:
  assumes ok: "tags_sendable (tagsMaxLength cfg) (t_tags (ctx_trace ctx))"
    and c: "readDatadogTags (injectTags cfg ctx c) = Some h"
    and fresh: "getp c datadogTagsHeader = JUndef"
  shows "extractTags cfg (injectTags cfg ctx c) = Some (map (\<lambda>(k, s). (k, JStr s)) (propagated (t_tags (ctx_trace ctx))))"
proof -
  let ?ps = "propagated (t_tags (ctx_trace ctx))"
  let ?texts = "map (\<lambda>(k, s). k @ ''='' @ s) ?ps"
  have good: "list_all (\<lambda>(k, s). tagKeyExpr k \<and> CHR ''='' \<notin> set k \<and> tagValueExpr s \<and>
      (k = ''_dd.p.tid'' \<longrightarrow> hex16 s)) ?ps"
    using ok by (simp add: tags_sendable_def)
  have loop: "injectTags_loop (t_tags (ctx_trace ctx)) [] = Some ?texts"
    using ok by (subst injectTags_loop_propagated) (auto simp: tags_sendable_def list_all_iff)
  have inj: "injectTags cfg ctx c =
      (if join '','' ?texts \<noteq> [] then field_write datadogTagsHeader (join '','' ?texts) c else c)"
    using ok loop by (simp add: injectTags_def tags_sendable_def Let_def)
  then have ne: "join '','' ?texts \<noteq> []"
    using c fresh by (auto simp: readDatadogTags_def split: if_splits)
  then have "?ps \<noteq> []" by auto
  then have "split_on (CHR '','') (join '','' ?texts) = ?texts"
    using good tag_chars_no_comma by (intro split_on_join) (fastforce simp: list_all_iff)+
  then have "extractTags_loop (join '','' ?texts) 0 (index_of (CHR ''='') (join '','' ?texts)) [] =
      tags_of_entries ?texts []"
    using extractTags_loop_split [of 0 "join '','' ?texts" "[]"]
    by (cases "index_of (CHR ''='') (join '','' ?texts)") (simp_all add: index_from_def)
  also have "\<dots> = Some (obj_assign [] (map (\<lambda>(k, s). (k, JStr s)) ?ps))"
    by (rule tags_of_entries_texts [OF good])
  also have "obj_assign [] (map (\<lambda>(k, s). (k, JStr s)) ?ps) = map (\<lambda>(k, s). (k, JStr s)) ?ps"
  proof -
    have "distinct (map fst (t_tags (ctx_trace ctx)))" using ok by (simp add: tags_sendable_def)
    then have "distinct (map fst ?ps)" by (rule distinct_propagated)
    moreover have "map fst (map (\<lambda>(k, s). (k, JStr s)) ?ps) = map fst ?ps"
      by (simp add: split_beta comp_def)
    ultimately show ?thesis using new_map_distinct by (metis new_map_def)
  qed
  finally show ?thesis
    using ok ne by (simp add: extractTags_def inj readDatadogTags_def tags_sendable_def)
qed

lemma getp_injectTags:
  "h \<noteq> datadogTagsHeader \<Longrightarrow> getp (injectTags cfg ctx c) h = getp c h"
  by (simp add: injectTags_def Let_def split: option.splits)

lemma getp_injectOrigin:
  "getp (injectOrigin ctx c) h =
     (case t_origin (ctx_trace ctx) of
        Some og \<Rightarrow> if og \<noteq> [] \<and> h = datadogOriginHeader then JStr og else getp c h
      | None \<Rightarrow> getp c h)"
  by (simp add: injectOrigin_def split: option.splits)

lemma getp_injectSamplingPriority:
  "getp (injectSamplingPriority ctx c) h =
     (case priority (ctx_sampling ctx) of
        Some p \<Rightarrow> if h = datadogSamplingPriorityHeader then JStr (show_int p) else getp c h
      | None \<Rightarrow> getp c h)"
  by (simp add: injectSamplingPriority_def split: option.splits)

lemma show_nat_zero: "invalidSegment (show_nat n) \<longleftrightarrow> n = 0"
proof
  assume "invalidSegment (show_nat n)"
  then have "\<forall>c \<in> set (show_nat n). c = CHR ''0''" by (simp add: invalidSegment_def list_all_iff)
  then have "show_nat n = replicate (length (show_nat n)) (CHR ''0'')"
    by (metis replicate_eqI)
  then have "digits_val 10 (show_nat n) = 0"
    using digits_val_append_zeros [of 10 "[]" "length (show_nat n)"] by (simp add: digits_val_def)
  then show "n = 0" by (simp add: digits_val_show)
next
  assume "n = 0"
  then show "invalidSegment (show_nat n)"
    by (simp add: invalidSegment_def show_radix.simps digit_char_def) code_simp
qed

text \<open>An identifier of eight bytes as decimal text, and back\<close>

lemma decimal_id:
  assumes "length b = 8"
  shows "parse_id (toString_id b 10) 10 = b" "toString_id b 10 \<noteq> []"
    "invalidSegment (toString_id b 10) \<longleftrightarrow> be_val b = 0"
proof -
  have str: "toString_id b 10 = show_nat (nat (be_val b))"
    using assms by (simp add: toString_id_def toNumberString_show)
  show "parse_id (toString_id b 10) 10 = b"
    using from_to_string(1) [of 10 b] assms
    by (simp add: parse_id_def createIdentifier_def toString_id_def)
  show "toString_id b 10 \<noteq> []" by (simp add: str)
  show "invalidSegment (toString_id b 10) \<longleftrightarrow> be_val b = 0"
    using be_val_bound [of b] by (auto simp: str show_nat_zero)
qed

definition datadog_only :: "tm_config \<Rightarrow> bool" where
  "datadog_only cfg \<longleftrightarrow> injectStyles cfg = [''datadog''] \<and> extractStyles cfg = [''datadog''] \<and>
     \<not> legacyBaggageEnabled cfg \<and> apmTracingEnabled cfg \<and> behaviorExtract cfg = ''continue''"

definition datadog_carrier :: "tm_config \<Rightarrow> ectx \<Rightarrow> carrier" where
  "datadog_carrier cfg ctx = the (injectDatadog cfg ctx None)"

lemma inject_datadog_only:
  assumes "datadog_only cfg"
  shows "inject_context cfg ensure store (Some ctx) None = (Some (datadog_carrier cfg ctx), Some ctx)"
  using assms
  by (auto simp: inject_context_def injectBaggageItems_def hasStyle_def datadog_only_def
      injectB3MultipleHeaders_def injectB3SingleHeader_def injectTraceparent_def
      datadog_carrier_def injectDatadog_def carrier_or_def Let_def)

lemma datadog_carrier_reads:
  assumes "datadog_only cfg" and og: "t_origin (ctx_trace ctx) \<noteq> Some []"
  shows "readDatadogTraceId (datadog_carrier cfg ctx) = Some (toTraceId (ctx_trace ctx) ctx False)"
    "readDatadogParentId (datadog_carrier cfg ctx) = Some (toSpanId ctx False)"
    "readDatadogOrigin (datadog_carrier cfg ctx) = t_origin (ctx_trace ctx)"
    "readDatadogSamplingPriority (datadog_carrier cfg ctx) = map_option show_int (priority (ctx_sampling ctx))"
    "readTraceparent (datadog_carrier cfg ctx) = None"
  using assms
  by (auto simp: datadog_carrier_def injectDatadog_def hasStyle_def datadog_only_def reader_defs
      some_carrier_def getp_injectTags getp_injectOrigin getp_injectSamplingPriority header_defs Let_def
      split: option.splits)

lemma datadog_carrier_tags:
  assumes "datadog_only cfg" and ok: "tags_sendable (tagsMaxLength cfg) (t_tags (ctx_trace ctx))"
  shows "(case extractTags cfg (datadog_carrier cfg ctx) of Some t \<Rightarrow> t | None \<Rightarrow> []) =
    map (\<lambda>(k, s). (k, JStr s)) (propagated (t_tags (ctx_trace ctx)))"
proof -
  obtain c where c: "datadog_carrier cfg ctx = injectTags cfg ctx c" "getp c datadogTagsHeader = JUndef"
    using assms(1)
    by (auto simp: datadog_carrier_def injectDatadog_def hasStyle_def datadog_only_def
        some_carrier_def getp_injectOrigin getp_injectSamplingPriority header_defs Let_def
        split: option.splits)
  show ?thesis
  proof (cases "readDatadogTags (injectTags cfg ctx c)")
    case (Some h)
    then show ?thesis using tags_roundtrip [OF ok Some c(2)] c(1) by simp
  next
    case None
    let ?texts = "map (\<lambda>(k, s). k @ ''='' @ s) (propagated (t_tags (ctx_trace ctx)))"
    have "injectTags_loop (t_tags (ctx_trace ctx)) [] = Some ?texts"
      using ok by (subst injectTags_loop_propagated) (auto simp: tags_sendable_def list_all_iff)
    then have "join '','' ?texts = []"
      using None ok by (auto simp: injectTags_def tags_sendable_def readDatadogTags_def Let_def split: if_splits)
    moreover have "k @ ''='' @ s \<noteq> []" for k s :: string by simp
    ultimately have "propagated (t_tags (ctx_trace ctx)) = []"
    proof (cases "propagated (t_tags (ctx_trace ctx))")
      case (Cons kv kvs)
      then show ?thesis using \<open>join '','' ?texts = []\<close>
        by (cases kvs; cases kv) auto
    qed simp
    then show ?thesis using None c(1) by (simp add: extractTags_def)
  qed
qed

lemma datadog_roundtrip_full:
  assumes "datadog_only cfg" "length (ctx_traceId ctx) = 8" "be_val (ctx_traceId ctx) \<noteq> 0"
    "ctx_spanId ctx = Some sid" "length sid = 8" "t_origin (ctx_trace ctx) \<noteq> Some []"
    "tags_sendable (tagsMaxLength cfg) (t_tags (ctx_trace ctx))"
  shows "\<exists>c ctx'. inject_context cfg ensure store (Some ctx) None = (Some c, Some ctx) \<and>
    fst (extract_context cfg gen json c store') = Some ctx' \<and> ctx_isRemote ctx' \<and>
    ctx_traceId ctx' = ctx_traceId ctx \<and> ctx_spanId ctx' = Some sid \<and>
    priority (ctx_sampling ctx') = priority (ctx_sampling ctx) \<and>
    t_origin (ctx_trace ctx') = t_origin (ctx_trace ctx) \<and>
    t_tags (ctx_trace ctx') = map (\<lambda>(k, s). (k, JStr s)) (propagated (t_tags (ctx_trace ctx)))"
proof -
  let ?c = "datadog_carrier cfg ctx"
  note reads = datadog_carrier_reads [OF assms(1,6)] and tags = datadog_carrier_tags [OF assms(1,7)]
  note ids = decimal_id [OF assms(2)] decimal_id [OF assms(5)]
  define x where "x = new_ectx (ctx_traceId ctx) (Some sid)"
  have gen: "extractGenericContext (readDatadogTraceId ?c) (readDatadogParentId ?c) 10 = Some x"
    using ids assms(3,4) by (simp add: reads extractGenericContext_def toTraceId_def toSpanId_def x_def)
  have tp: "extractTraceparentContext cfg ?c = None"
    by (simp add: extractTraceparentContext_def reads)
  define y where "y = extractSamplingPriority ?c (extractOrigin ?c x)"
  have y: "ctx_traceId y = ctx_traceId ctx" "ctx_spanId y = Some sid" "ctx_isRemote y"
    "priority (ctx_sampling y) = priority (ctx_sampling ctx)"
    "t_origin (ctx_trace y) = t_origin (ctx_trace ctx)" "t_tags (ctx_trace y) = []"
    by (auto simp: y_def x_def extractSamplingPriority_def extractOrigin_def reads ectx_priority_def
        ectx_origin_def new_ectx_def new_SpanContext_def new_sampling_def new_trace_def
        parse_int_show_int split: option.splits)
  define z where "z = (case extractTags cfg ?c of
      Some t \<Rightarrow> y\<lparr>ctx_trace := (ctx_trace y)\<lparr>t_tags := t\<rparr>\<rparr> | None \<Rightarrow> y)"
  have "extractDatadogContext cfg ?c = Some z"
    using gen tp assms(1)
    by (simp add: extractDatadogContext_def extractLegacyBaggageItems_def datadog_only_def z_def y_def Let_def
        split: option.split)
  then have "fst (extract_context cfg gen json ?c store') = Some z"
    using assms(1)
    by (simp add: extract_context_def datadog_only_def run_extractor_def extractBaggageItems_def
        hasStyle_def Let_def)
  moreover have "ctx_traceId z = ctx_traceId ctx" "ctx_spanId z = Some sid" "ctx_isRemote z"
    "priority (ctx_sampling z) = priority (ctx_sampling ctx)"
    "t_origin (ctx_trace z) = t_origin (ctx_trace ctx)"
    "t_tags (ctx_trace z) = map (\<lambda>(k, s). (k, JStr s)) (propagated (t_tags (ctx_trace ctx)))"
    using y tags by (auto simp: z_def split: option.splits)
  ultimately show ?thesis
    using inject_datadog_only [OF assms(1)] by blast
qed

text \<open>
  C5: What is injected in the Datadog format is what is extracted from it: the trace and span
  identifiers, the priority, the origin and every propagated trace tag, whatever the limit the
  tags fit in; the context itself is unchanged.
\<close>

theorem datadog_roundtrip:
  assumes "datadog_only cfg" "length (ctx_traceId ctx) = 8" "be_val (ctx_traceId ctx) \<noteq> 0"
    "ctx_spanId ctx = Some sid" "length sid = 8" "t_origin (ctx_trace ctx) \<noteq> Some []"
    "tags_sendable (tagsMaxLength cfg) (t_tags (ctx_trace ctx))"
  shows "\<exists>c ctx'. inject_context cfg ensure store (Some ctx) None = (Some c, Some ctx) \<and>
    fst (extract_context cfg gen json c store') = Some ctx' \<and> ctx_isRemote ctx' \<and>
    ctx_traceId ctx' = ctx_traceId ctx \<and> ctx_spanId ctx' = Some sid \<and>
    priority (ctx_sampling ctx') = priority (ctx_sampling ctx) \<and>
    t_origin (ctx_trace ctx') = t_origin (ctx_trace ctx) \<and>
    t_tags (ctx_trace ctx') = map (\<lambda>(k, s). (k, JStr s)) (propagated (t_tags (ctx_trace ctx)))"
  by (rule datadog_roundtrip_full) (use assms in simp_all)

definition demo_config :: "string list \<Rightarrow> tm_config" where
  "demo_config styles =
     \<lparr>apmTracingEnabled = True, legacyBaggageEnabled = False, injectStyles = styles,
      extractStyles = styles, baggageMaxItems = 64, baggageMaxBytes = 8192, tagsMaxLength = 512,
      extractFirst = False, behaviorExtract = ''continue'', baggageTagKeys = [],
      valueString = (\<lambda>_. [])\<rparr>"

definition demo_ectx :: ectx where
  "demo_ectx = (new_ectx [0, 0, 0, 0, 0, 0, 0, 1] (Some [0, 0, 0, 0, 0, 0, 0, 2]))
     \<lparr>ctx_sampling := \<lparr>priority = Some 2, mechanism = Some 4\<rparr>,
      ctx_trace := new_trace\<lparr>t_origin := Some ''rum'', t_tags := [(''_dd.p.dm'', JStr ''-4'')]\<rparr>\<rparr>"

theorem datadog_roundtrip_witness:
  "\<exists>c ctx'. inject_context (demo_config [''datadog'']) id None (Some demo_ectx) None = (Some c, Some demo_ectx) \<and>
     fst (extract_context (demo_config [''datadog'']) zeroId (\<lambda>_. None) c None) = Some ctx' \<and>
     priority (ctx_sampling ctx') = Some 2 \<and> t_tags (ctx_trace ctx') = [(''_dd.p.dm'', JStr ''-4'')]"
proof -
  have p: "propagated [(''_dd.p.dm'', JStr ''-4'')] = [(''_dd.p.dm'', ''-4'')]"
    by (simp add: propagated_Cons starts_with_def)
  have t: "tags_sendable 512 [(''_dd.p.dm'', JStr ''-4'')]"
    by (simp add: tags_sendable_def p tagKeyExpr_def tagValueExpr_def in_range_def is_string_def starts_with_def)
  have b: "be_val [0, 0, 0, 0, 0, 0, 0, 1] \<noteq> 0" by (simp add: be_val_def)
  show ?thesis
    using datadog_roundtrip [of "demo_config [''datadog'']" demo_ectx "[0, 0, 0, 0, 0, 0, 0, 2]" id None zeroId "\<lambda>_. None" None]
      t b p
    by (fastforce simp: demo_config_def datadog_only_def demo_ectx_def new_ectx_def new_SpanContext_def
        new_trace_def)
qed

subsection \<open>W3C headers\<close>

lemma ectx_update_simps [simp]:
  "ctx_traceId (ectx_tag k v c) = ctx_traceId c" "ctx_spanId (ectx_tag k v c) = ctx_spanId c"
  "ctx_sampling (ectx_tag k v c) = ctx_sampling c"
  "ctx_traceId (ectx_origin og c) = ctx_traceId c" "ctx_spanId (ectx_origin og c) = ctx_spanId c"
  "ctx_sampling (ectx_origin og c) = ctx_sampling c"
  "ctx_traceId (ectx_priority p c) = ctx_traceId c" "ctx_spanId (ectx_priority p c) = ctx_spanId c"
  "priority (ctx_sampling (ectx_priority p c)) = p"
  by (simp_all add: ectx_tag_def ectx_origin_def ectx_priority_def)

lemma tracestate_entry_ids [frame]:
  "ctx_traceId (tracestate_entry e c) = ctx_traceId c" "ctx_spanId (tracestate_entry e c) = ctx_spanId c"
  by (simp_all add: tracestate_entry_def Let_def split: option.splits)

lemma fold_tracestate_entry_ids [frame]:
  "ctx_traceId (fold tracestate_entry es c) = ctx_traceId c"
  "ctx_spanId (fold tracestate_entry es c) = ctx_spanId c"
  by (induction es arbitrary: c) (simp_all add: frame)

definition merge_priority :: "int option \<Rightarrow> int option \<Rightarrow> int option" where
  "merge_priority flag s = (case s of
      None \<Rightarrow> flag
    | Some p \<Rightarrow> if flag = Some 1 \<and> 0 < p \<or> flag = Some 0 \<and> p < 0 then Some p else flag)"

lemma tracestate_entry_priority:
  "priority (ctx_sampling (tracestate_entry e c)) =
     (if fst e = ''s'' then merge_priority (priority (ctx_sampling c)) (parse_int 10 (show_ts_value (snd e)))
      else priority (ctx_sampling c))"
  by (simp add: tracestate_entry_def merge_priority_def Let_def split: option.splits)

lemma fold_tracestate_priority:
  "distinct (map fst es) \<Longrightarrow> priority (ctx_sampling (fold tracestate_entry es c)) =
     (case map_of es ''s'' of
        None \<Rightarrow> priority (ctx_sampling c)
      | Some v \<Rightarrow> merge_priority (priority (ctx_sampling c)) (parse_int 10 (show_ts_value v)))"
proof (induction es arbitrary: c)
  case Nil
  then show ?case by simp
next
  case (Cons e es)
  have "map_of es ''s'' = None" if "fst e = ''s''"
    using Cons.prems that by (auto simp: map_of_eq_None_iff)
  then show ?case using Cons by (cases e) (auto simp: tracestate_entry_priority split: option.splits)
qed

text \<open>The vendor data of a local context\<close>

definition vendor_state :: "(jsval \<Rightarrow> string) \<Rightarrow> ectx \<Rightarrow> ts_data" where
  "vendor_state str ctx = snd (tracestate_handler str (priority (ctx_sampling ctx)) (mechanism (ctx_sampling ctx)) ctx
     \<lparr>ts_map = [], ts_changed = False\<rparr>)"

definition vendor_entries :: "(jsval \<Rightarrow> string) \<Rightarrow> ectx \<Rightarrow> (string \<times> string) list" where
  "vendor_entries str ctx = map (\<lambda>(k, v). (k, show_ts_value v)) (ts_map (vendor_state str ctx))"

definition vendor_sendable :: "(jsval \<Rightarrow> string) \<Rightarrow> ectx \<Rightarrow> bool" where
  "vendor_sendable str ctx \<longleftrightarrow> good_entries (CHR '';'') (CHR '':'') False (vendor_entries str ctx) \<and>
     good_entry (CHR '','') (CHR ''='') True (''dd'', tsd_toString (vendor_state str ctx))"

lemma tsd_set_get: "map_of (ts_map (tsd_set k v d)) k' = (if k' = k then Some v else map_of (ts_map d) k')"
  by (auto simp: tsd_set_def)

lemma tsd_set_changed: "ts_changed d \<Longrightarrow> ts_changed (tsd_set k v d)"
  by (simp add: tsd_set_def)

lemma tracestate_tag_other:
  "k' = ''s'' \<or> k' = ''p'' \<Longrightarrow> map_of (ts_map (fold (tracestate_tag str) tags d)) k' = map_of (ts_map d) k'"
  by (induction tags arbitrary: d) (auto simp: tracestate_tag_def tsd_set_get Let_def split: prod.splits)

lemma tracestate_tag_changed: "ts_changed d \<Longrightarrow> ts_changed (fold (tracestate_tag str) tags d)"
  by (induction tags arbitrary: d) (auto simp: tracestate_tag_def tsd_set_changed Let_def split: prod.splits)

lemma vendor_state_s:
  assumes "priority (ctx_sampling ctx) = Some p"
  shows "map_of (ts_map (vendor_state str ctx)) ''s'' = Some (TsNum p)" "ts_changed (vendor_state str ctx)"
proof -
  have ch: "ts_changed (tsd_set ''s'' (TsNum p) d)" if "map_of (ts_map d) ''s'' = None" for d
    using that by (simp add: tsd_set_def)
  show "map_of (ts_map (vendor_state str ctx)) ''s'' = Some (TsNum p)"
    using assms by (simp add: vendor_state_def tracestate_handler_def tracestate_tag_other tsd_set_get Let_def
        split: option.splits)
  show "ts_changed (vendor_state str ctx)"
    using assms unfolding vendor_state_def tracestate_handler_def
    by (auto simp: Let_def tsd_set_get split: option.splits intro!: tracestate_tag_changed tsd_set_changed ch)
qed

lemma merge_own_priority:
  "merge_priority (Some (if 1 \<le> p then 1 else 0)) (Some p) = Some p"
  by (auto simp: merge_priority_def)

lemma hex_string_is_hex: "is_hex (2 * length b) (hex_string b)"
  using hex_string_chars [of b] by (simp add: is_hex_def list_all_iff)

lemma digits_val_hex: "digits_val 16 (hex_string b) = nat (be_val b)"
proof (induction b rule: rev_induct)
  case Nil
  then show ?case by (simp add: hex_string_def digits_val_def)
next
  case (snoc x b)
  have "unat x < 256" using unsigned_less [of x] by simp
  then have d: "unat x div 16 < 16" "unat x mod 16 < 16" by simp_all
  have hs: "hex_string (b @ [x]) = (hex_string b @ [digit_char (unat x div 16)]) @ [digit_char (unat x mod 16)]"
    by (simp add: hex_string_def hex_byte_def)
  have "digits_val 16 (hex_string (b @ [x])) =
      (digits_val 16 (hex_string b) * 16 + unat x div 16) * 16 + unat x mod 16"
    unfolding hs digits_val_snoc using d by (simp add: digit_val_char)
  also have "\<dots> = digits_val 16 (hex_string b) * 256 + unat x"
    by simp
  finally have "digits_val 16 (hex_string (b @ [x])) = digits_val 16 (hex_string b) * 256 + unat x" .
  moreover have "nat (be_val b * 256 + uint x) = nat (be_val b) * 256 + unat x"
    using be_val_bound [of b] by (simp add: nat_add_distrib nat_mult_distrib flip: unat_eq_nat_uint)
  ultimately show ?case using snoc by (simp only: be_val_snoc)
qed

lemma hex_zero: "invalidSegment (hex_string b) \<longleftrightarrow> b \<noteq> [] \<and> be_val b = 0"
proof
  assume a: "invalidSegment (hex_string b)"
  then have "hex_string b = replicate (length (hex_string b)) (CHR ''0'')"
    by (intro replicate_eqI) (auto simp: invalidSegment_def list_all_iff)
  moreover have "digits_val 16 (replicate k (CHR ''0'')) = 0" for k
    using digits_val_append_zeros [of 16 "[]" k] by (simp add: digits_val_def)
  ultimately have "digits_val 16 (hex_string b) = 0" by metis
  then have "be_val b = 0" using be_val_bound [of b] by (simp add: digits_val_hex)
  moreover have "b \<noteq> []" using a by (auto simp: invalidSegment_def hex_string_def)
  ultimately show "b \<noteq> [] \<and> be_val b = 0" by simp
next
  assume a: "b \<noteq> [] \<and> be_val b = 0"
  then have "b = be_bytes (length b) 0" using be_bytes_be_val [of b] by simp
  moreover have "be_bytes n 0 = replicate n 0" for n
    by (induction n) (simp_all add: byte_of_def replicate_append_same)
  ultimately have "b = replicate (length b) 0" by simp
  then have "\<forall>x \<in> set b. x = 0" by (metis in_set_replicate)
  moreover have "hex_byte 0 = ''00''" by code_simp
  ultimately have "\<forall>c \<in> set (hex_string b). c = CHR ''0''"
    by (auto simp: hex_string_def)
  with a show "invalidSegment (hex_string b)"
    by (simp add: invalidSegment_def list_all_iff hex_string_def hex_byte_def)
qed

lemma hexBuffer_16:
  assumes "length hi = 16" "length b = 8"
  shows "length (hexBuffer (hi @ hex_string b)) = 16" "drop 8 (hexBuffer (hi @ hex_string b)) = b"
proof -
  have buf: "hexBuffer (hi @ hex_string b) =
      map (\<lambda>i. hex_pair (slice (hi @ hex_string b) (i * 2) (i * 2 + 2))) [0..<16]"
    using assms by (simp add: hexBuffer_def pad_start_id Let_def)
  then show "length (hexBuffer (hi @ hex_string b)) = 16" by simp
  have sl: "slice (hi @ hex_string b) ((8 + i) * 2) ((8 + i) * 2 + 2) = hex_byte (b ! i)" if "i < 8" for i
  proof -
    have "slice (hi @ hex_string b) ((8 + i) * 2) ((8 + i) * 2 + 2) =
        slice (hex_string b) (i * 2) (i * 2 + 2)"
      using assms by (simp add: slice_def)
    then show ?thesis using hex_string_slice [of i b] assms that by simp
  qed
  show "drop 8 (hexBuffer (hi @ hex_string b)) = b"
  proof (rule nth_equalityI)
    show "length (drop 8 (hexBuffer (hi @ hex_string b))) = length b" using assms by (simp add: buf)
    fix i assume "i < length (drop 8 (hexBuffer (hi @ hex_string b)))"
    then have i: "i < 8" by (simp add: buf)
    then have "drop 8 (hexBuffer (hi @ hex_string b)) ! i =
        hex_pair (slice (hi @ hex_string b) ((8 + i) * 2) ((8 + i) * 2 + 2))"
      unfolding buf by (simp only: nth_drop length_map length_upt nth_map nth_upt) (simp del: upt_Suc)
    then show "drop 8 (hexBuffer (hi @ hex_string b)) ! i = b ! i"
      by (simp only: sl [OF i] hex_pair_byte)
  qed
qed

lemma equals_suffix_drop: "length a = 16 \<Longrightarrow> length b = 8 \<Longrightarrow> drop 8 a = b \<Longrightarrow> equals a b"
proof -
  assume a: "length a = 16" "length b = 8" "drop 8 a = b"
  then have "take 8 (rev a) = rev b" by (metis add_diff_cancel_right' numeral_Bit0 rev_drop)
  then show ?thesis using a by (simp add: equals_def equals_loop_take)
qed

definition upper_half :: "trace \<Rightarrow> string" where
  "upper_half t = (case trace_tid t of Some h \<Rightarrow> h | None \<Rightarrow> zeroTraceId)"

lemma toTraceparent_parts:
  assumes "length (ctx_traceId ctx) = 8" "ctx_spanId ctx = Some sid" "length sid = 8"
    "ctx_traceparent ctx = None" "is_hex 16 (upper_half t)"
  shows "toTraceparent t sm ctx = ''00'' @ ''-'' @ (upper_half t @ hex_string (ctx_traceId ctx)) @ ''-'' @
    hex_string sid @ ''-'' @ (if kept (priority sm) then ''01'' else ''00'')"
  using assms
  by (auto simp: toTraceparent_def toTraceId_def toTraceIdHex_def toString_id_def toSpanId_def upper_half_def
      zeroTraceId_def pad_start_def is_hex_def kept_def AUTO_KEEP_def split: option.splits)

lemma match_traceparent_parts:
  assumes "is_hex 32 t" "is_hex 16 p" "f = ''00'' \<or> f = ''01''"
  shows "match_traceparent (trim (''00'' @ ''-'' @ t @ ''-'' @ p @ ''-'' @ f)) = Some (''00'', t, p, f, [])"
proof -
  let ?s = "''00'' @ ''-'' @ t @ ''-'' @ p @ ''-'' @ f"
  have "\<forall>c \<in> set ?s. \<not> is_ws c"
    using assms digit_in_not_ws by (auto simp: is_hex_def list_all_iff is_ws_def)
  then have tr: "trim ?s = ?s" by (rule trim_no_ws)
  have len: "length t = 32" "length p = 16" "length f = 2"
    using assms by (auto simp: is_hex_def)
  have hex00: "is_hex 2 ''00''" "is_hex 2 f"
    using assms(3) by (auto simp: is_hex_def digit_in_def digit_val_def)
  have "take 2 ?s = ''00''" "slice ?s 3 35 = t" "slice ?s 36 52 = p" "slice ?s 53 55 = f" "drop 55 ?s = []"
    "?s ! 2 = CHR ''-''" "?s ! 35 = CHR ''-''" "?s ! 52 = CHR ''-''"
    using len by (simp_all add: slice_def nth_append nth_Cons')
  then show ?thesis
    unfolding tr match_traceparent_def Let_def using assms hex00 by simp
qed

definition w3c_only :: "tm_config \<Rightarrow> bool" where
  "w3c_only cfg \<longleftrightarrow> injectStyles cfg = [''tracecontext''] \<and> extractStyles cfg = [''tracecontext''] \<and>
     \<not> legacyBaggageEnabled cfg \<and> apmTracingEnabled cfg \<and> behaviorExtract cfg = ''continue''"

definition w3c_carrier :: "(jsval \<Rightarrow> string) \<Rightarrow> ectx \<Rightarrow> carrier" where
  "w3c_carrier str ctx =
     field_write tracestateHeader (ts_toString [(''dd'', tsd_toString (vendor_state str ctx))])
       (field_write traceparentHeader (toTraceparent (ctx_trace ctx) (ctx_sampling ctx) ctx) [])"

lemma inject_w3c_only:
  assumes "w3c_only cfg" "ctx_tracestate ctx = None" "priority (ctx_sampling ctx) = Some p" "vendor_sendable (valueString cfg) ctx"
  shows "inject_context cfg ensure store (Some ctx) None = (Some (w3c_carrier (valueString cfg) ctx), Some ctx)"
proof -
  have st: "tracestate_handler (valueString cfg) (Some p) (mechanism (ctx_sampling ctx)) ctx \<lparr>ts_map = [], ts_changed = False\<rparr> =
      ((), vendor_state (valueString cfg) ctx)"
    using assms(3) by (simp add: vendor_state_def prod_eq_iff)
  have "tsd_toString (vendor_state (valueString cfg) ctx) \<noteq> []" using assms(4) by (simp add: vendor_sendable_def good_entry_def)
  then have ts: "snd (forVendor ''dd'' (tracestate_handler (valueString cfg) (Some p) (mechanism (ctx_sampling ctx)) ctx) []) =
      [(''dd'', tsd_toString (vendor_state (valueString cfg) ctx))]"
    using st vendor_state_s(2) [OF assms(3)]
    by (simp add: forVendor_def tsd_fromString_def entries_fromString_def ts_set_spec)
  then show ?thesis
    using assms
    by (simp add: inject_context_def injectBaggageItems_def hasStyle_def w3c_only_def injectDatadog_def
        injectB3MultipleHeaders_def injectB3SingleHeader_def injectTraceparent_def w3c_carrier_def
        some_carrier_def carrier_or_def Let_def)
qed

lemma extract_w3c_carrier:
  assumes "w3c_only cfg" "length (ctx_traceId ctx) = 8" "be_val (ctx_traceId ctx) \<noteq> 0"
    "ctx_spanId ctx = Some sid" "length sid = 8" "be_val sid \<noteq> 0" "ctx_traceparent ctx = None"
    "is_hex 16 (upper_half (ctx_trace ctx))" "priority (ctx_sampling ctx) = Some p" "vendor_sendable (valueString cfg) ctx"
  shows "\<exists>x. extractTraceparentContext cfg (w3c_carrier (valueString cfg) ctx) =
    Some (fold tracestate_entry (map (\<lambda>(k, v). (k, TsStr v)) (vendor_entries (valueString cfg) ctx)) x) \<and>
    length (ctx_traceId x) = 16 \<and> drop 8 (ctx_traceId x) = ctx_traceId ctx \<and> ctx_spanId x = Some sid \<and>
    priority (ctx_sampling x) = Some (if 1 \<le> p then 1 else 0)"
proof -
  let ?hi = "upper_half (ctx_trace ctx)"
  let ?t = "?hi @ hex_string (ctx_traceId ctx)"
  let ?f = "if kept (Some p) then ''01'' else ''00''"
  have hi: "length ?hi = 16" using assms(8) by (simp add: is_hex_def)
  have t: "is_hex 32 ?t"
    using assms(2,8) hex_string_is_hex [of "ctx_traceId ctx"] by (simp add: is_hex_def)
  have sp: "is_hex 16 (hex_string sid)" using assms(5) hex_string_is_hex [of sid] by (simp add: is_hex_def)
  have head: "readTraceparent (w3c_carrier (valueString cfg) ctx) = Some (''00'' @ ''-'' @ ?t @ ''-'' @ hex_string sid @ ''-'' @ ?f)"
    using toTraceparent_parts [OF assms(2,4,5,7,8), of "ctx_sampling ctx"] assms(9)
    by (simp add: w3c_carrier_def readTraceparent_def header_defs)
  have state: "readTracestate (w3c_carrier (valueString cfg) ctx) = Some (ts_toString [(''dd'', tsd_toString (vendor_state (valueString cfg) ctx))])"
    by (simp add: w3c_carrier_def readTracestate_def)
  have ts: "ts_fromString (readTracestate (w3c_carrier (valueString cfg) ctx)) = [(''dd'', tsd_toString (vendor_state (valueString cfg) ctx))]"
    using assms(10) parse_print_entries [of "CHR '',''" "CHR ''=''" True "[(''dd'', tsd_toString (vendor_state (valueString cfg) ctx))]"]
    by (simp add: state ts_fromString_def ts_toString_def good_entries_def vendor_sendable_def MAX_LIST_MEMBERS_def)
  have dd: "ts_map (tsd_fromString (Some (tsd_toString (vendor_state (valueString cfg) ctx)))) =
      map (\<lambda>(k, v). (k, TsStr v)) (vendor_entries (valueString cfg) ctx)"
    using assms(10) parse_print_entries [of "CHR '';''" "CHR '':''" False "vendor_entries (valueString cfg) ctx"]
    by (simp add: tsd_fromString_def tsd_toString_def vendor_sendable_def flip: vendor_entries_def)
  have nz: "\<not> invalidSegment ?t" "\<not> invalidSegment (hex_string sid)"
  proof -
    have "hex_string (ctx_traceId ctx) \<noteq> []"
      using assms(2) length_hex_string [of "ctx_traceId ctx"] by (metis list.size(3) mult_is_0 zero_neq_numeral)
    then show "\<not> invalidSegment ?t" "\<not> invalidSegment (hex_string sid)"
      using hex_zero [of "ctx_traceId ctx"] hex_zero [of sid] assms(3,6)
      by (auto simp: invalidSegment_def)
  qed
  have odd: "odd (the (parse_int 16 ?f)) \<longleftrightarrow> kept (Some p)"
  proof -
    have "parse_int 16 ''01'' = Some 1" "parse_int 16 ''00'' = Some 0" by code_simp+
    then show ?thesis by simp
  qed
  have tid: "parse_id ?t 16 = hexBuffer ?t" "parse_id (hex_string sid) 16 = sid"
  proof -
    have "sid \<noteq> []" using assms(5) by auto
    have "length ?t \<noteq> 0" "length ?t \<noteq> length ''0''" using hi by simp_all
    then have "?t \<noteq> []" "?t \<noteq> ''0''" by (metis list.size(3), metis)
    then show "parse_id ?t 16 = hexBuffer ?t" "parse_id (hex_string sid) 16 = sid"
      using hexBuffer_hex_string [of sid] assms(5) \<open>sid \<noteq> []\<close>
      by (simp_all add: parse_id_def createIdentifier_def createBuffer_def Let_def
          del: append_is_Nil_conv)
  qed
  define x where "x = extract128BitTraceId ?t ((new_ectx (hexBuffer ?t) (Some sid))
      \<lparr>ctx_sampling := new_sampling\<lparr>priority := Some (if kept (Some p) then 1 else 0)\<rparr>,
       ctx_traceparent := Some ''00'', ctx_tracestate := Some [(''dd'', tsd_toString (vendor_state (valueString cfg) ctx))]\<rparr>)"
  have "extractTraceparentContext cfg (w3c_carrier (valueString cfg) ctx) =
      Some (fold tracestate_entry (map (\<lambda>(k, v). (k, TsStr v)) (vendor_entries (valueString cfg) ctx)) x)"
    using match_traceparent_parts [OF t sp, of ?f] nz assms(1)
    by (simp add: extractTraceparentContext_def head ts dd odd tid extractLegacyBaggageItems_def w3c_only_def
        Let_def flip: x_def)
  moreover have "length (ctx_traceId x) = 16" "drop 8 (ctx_traceId x) = ctx_traceId ctx" "ctx_spanId x = Some sid"
    "priority (ctx_sampling x) = Some (if 1 \<le> p then 1 else 0)"
    using hexBuffer_16 [OF hi assms(2)]
    by (auto simp: x_def extract128BitTraceId_def new_ectx_def new_SpanContext_def kept_def AUTO_KEEP_def Let_def)
  ultimately show ?thesis by blast
qed

text \<open>
  C6: What is injected in the W3C format is extracted with the same identity: the new trace id
  ends in the old one (and equals it for \<open>equals\<close>), the parent is the injecting span, and the
  sampling priority survives the one-bit flag through the vendor data.
\<close>

theorem w3c_roundtrip:
  assumes "w3c_only cfg" "length (ctx_traceId ctx) = 8" "be_val (ctx_traceId ctx) \<noteq> 0"
    "ctx_spanId ctx = Some sid" "length sid = 8" "be_val sid \<noteq> 0" "ctx_traceparent ctx = None"
    "ctx_tracestate ctx = None" "is_hex 16 (upper_half (ctx_trace ctx))"
    "priority (ctx_sampling ctx) = Some p" "vendor_sendable (valueString cfg) ctx"
  shows "\<exists>c ctx'. inject_context cfg ensure store (Some ctx) None = (Some c, Some ctx) \<and>
    fst (extract_context cfg gen json c store') = Some ctx' \<and>
    equals (ctx_traceId ctx') (ctx_traceId ctx) \<and> length (ctx_traceId ctx') = 16 \<and>
    ctx_spanId ctx' = Some sid \<and> priority (ctx_sampling ctx') = Some p"
proof -
  obtain x where x: "extractTraceparentContext cfg (w3c_carrier (valueString cfg) ctx) =
      Some (fold tracestate_entry (map (\<lambda>(k, v). (k, TsStr v)) (vendor_entries (valueString cfg) ctx)) x)"
    "length (ctx_traceId x) = 16" "drop 8 (ctx_traceId x) = ctx_traceId ctx" "ctx_spanId x = Some sid"
    "priority (ctx_sampling x) = Some (if 1 \<le> p then 1 else 0)"
    using extract_w3c_carrier [OF assms(1-7,9-11)] by blast
  let ?es = "map (\<lambda>(k, v). (k, TsStr v)) (vendor_entries (valueString cfg) ctx)"
  have "distinct (map fst ?es)"
    using assms(11) by (simp add: vendor_sendable_def good_entries_def split_beta comp_def)
  moreover have "map_of ?es ''s'' = Some (TsStr (show_int p))"
  proof -
    have "?es = map (\<lambda>(k, v). (k, TsStr (show_ts_value v))) (ts_map (vendor_state (valueString cfg) ctx))"
      by (simp add: vendor_entries_def split_beta)
    then show ?thesis
      using vendor_state_s(1) [OF assms(10)] by (simp add: map_of_map show_ts_value_def)
  qed
  ultimately have "priority (ctx_sampling (fold tracestate_entry ?es x)) = Some p"
    using merge_own_priority [of p]
    by (simp add: fold_tracestate_priority x(5) show_ts_value_def parse_int_show_int)
  moreover have "fst (extract_context cfg gen json (w3c_carrier (valueString cfg) ctx) store') =
      Some (fold tracestate_entry ?es x)"
    using assms(1) x(1)
    by (simp add: extract_context_def w3c_only_def run_extractor_def extractBaggageItems_def hasStyle_def Let_def)
  moreover have "equals (ctx_traceId x) (ctx_traceId ctx)"
    using x assms(2) by (intro equals_suffix_drop)
  ultimately show ?thesis
    using inject_w3c_only [OF assms(1,8,10,11)] x
    by (intro exI [of _ "w3c_carrier (valueString cfg) ctx"] exI [of _ "fold tracestate_entry ?es x"]) (simp add: frame)
qed

definition demo_w3c :: ectx where
  "demo_w3c = (new_ectx [0, 0, 0, 0, 0, 0, 0, 1] (Some [0, 0, 0, 0, 0, 0, 0, 2]))
     \<lparr>ctx_isRemote := False, ctx_sampling := \<lparr>priority = Some (- 1), mechanism = Some 4\<rparr>\<rparr>"

theorem w3c_roundtrip_witness:
  "\<exists>c ctx'. inject_context (demo_config [''tracecontext'']) id None (Some demo_w3c) None = (Some c, Some demo_w3c) \<and>
     fst (extract_context (demo_config [''tracecontext'']) zeroId (\<lambda>_. None) c None) = Some ctx' \<and>
     priority (ctx_sampling ctx') = Some (- 1)"
proof -
  have e: "vendor_entries (\<lambda>_. []) demo_w3c = [(''p'', ''0000000000000002''), (''s'', ''-1''), (''t.dm'', ''-4'')]"
    by code_simp
  have v: "tsd_toString (vendor_state (\<lambda>_. []) demo_w3c) = ''t.dm:-4;s:-1;p:0000000000000002''"
    by code_simp
  have "vendor_sendable (\<lambda>_. []) demo_w3c"
    by (simp add: vendor_sendable_def e v good_entries_def good_entry_def MAX_LIST_MEMBERS_def is_ws_def tab_char_def)
  moreover have "be_val [0, 0, 0, 0, 0, 0, 0, 1] \<noteq> 0" "be_val [0, 0, 0, 0, 0, 0, 0, 2] \<noteq> 0"
    by (simp_all add: be_val_def)
  moreover have "is_hex 16 (upper_half (ctx_trace demo_w3c))" by code_simp
  ultimately show ?thesis
    using w3c_roundtrip [of "demo_config [''tracecontext'']" demo_w3c "[0, 0, 0, 0, 0, 0, 0, 2]" "- 1"
        id None zeroId "\<lambda>_. None" None]
    by (fastforce simp: demo_config_def w3c_only_def demo_w3c_def new_ectx_def new_SpanContext_def)
qed

subsection \<open>Baggage\<close>

definition baggage_text :: "string \<times> string \<Rightarrow> string" where
  "baggage_text kv = fst kv @ ''='' @ encodeURIComponent (snd kv)"

definition baggage_bytes :: "baggage \<Rightarrow> nat" where
  "baggage_bytes items = sum_list (map (\<lambda>kv. length (baggage_text kv) + 1) items)"

definition baggage_ok :: "baggage \<Rightarrow> bool" where
  "baggage_ok items \<longleftrightarrow> list_all (\<lambda>kv. is_token (fst kv) \<and> snd kv \<noteq> []) items"

lemma token_char_safe: "is_token_char c \<Longrightarrow> \<not> is_ws c \<and> c \<notin> set '',;=''"
proof -
  assume c: "is_token_char c"
  show ?thesis
  proof (cases "digit_in 36 c")
    case True
    then show ?thesis using digit_in_not_ws [OF True] by (auto simp: digit_in_def digit_val_def)
  next
    case False
    with c show ?thesis by (auto simp: is_token_char_def is_ws_def)
  qed
qed

lemma token_safe: "is_token k \<Longrightarrow> c \<in> set k \<Longrightarrow> \<not> is_ws c \<and> c \<notin> set '',;=''"
  using token_char_safe by (auto simp: is_token_def list_all_iff)

lemma baggage_text_safe:
  assumes "is_token (fst kv)" "c \<in> set (baggage_text kv)"
  shows "\<not> is_ws c" "c \<noteq> CHR '',''" "c \<noteq> CHR '';''"
  using assms(2) token_safe [OF assms(1), of c] encode_safe [of c "snd kv"]
  by (auto simp: baggage_text_def is_ws_def)

lemma baggage_header_loop_all:
  "baggage_ok items \<Longrightarrow> n + length items \<le> baggageMaxItems cfg \<Longrightarrow>
     b + baggage_bytes items \<le> baggageMaxBytes cfg \<Longrightarrow>
     baggage_header_loop cfg items h n b = h @ concat (map (\<lambda>kv. baggage_text kv @ '','') items)"
proof (induction items arbitrary: h n b)
  case Nil
  then show ?case by simp
next
  case (Cons kv items)
  obtain k v where kv: "kv = (k, v)" by (cases kv)
  have "trim k = k" using Cons.prems(1) token_safe by (intro trim_no_ws) (auto simp: baggage_ok_def kv)
  then show ?case
    using Cons.prems Cons.IH
    by (simp add: kv baggage_ok_def baggage_bytes_def baggage_text_def Let_def)
qed

lemma butlast_concat_join:
  "xs \<noteq> [] \<Longrightarrow> butlast (concat (map (\<lambda>x. f x @ '','') xs)) = join '','' (map f xs)"
proof (induction xs)
  case Nil
  then show ?case by simp
next
  case (Cons x xs)
  then show ?case by (cases xs) (auto simp: butlast_append)
qed

lemma extractBaggage_loop_all:
  assumes "baggageTagKeys cfg = []"
  shows "baggage_ok items \<Longrightarrow> n + length items \<le> baggageMaxItems cfg \<Longrightarrow>
     b + baggage_bytes items \<le> baggageMaxBytes cfg \<Longrightarrow>
     extractBaggage_loop cfg (map baggage_text items) n b acc ctx =
       (True, (if items = [] then acc else Some (obj_assign (getAllBaggageItems acc) items)), ctx)"
proof (induction items arbitrary: n b acc)
  case Nil
  then show ?case by simp
next
  case (Cons kv items)
  obtain k v where kv: "kv = (k, v)" by (cases kv)
  have k: "is_token k" "v \<noteq> []" using Cons.prems(1) by (simp_all add: baggage_ok_def kv)
  have "trim (baggage_text kv) = baggage_text kv"
    using baggage_text_safe [of kv] k(1) by (intro trim_no_ws) (auto simp: kv)
  moreover have "index_of (CHR '';'') (baggage_text kv) = None"
    using baggage_text_safe(3) [of kv] k(1) by (fastforce simp: index_of_None kv)
  moreover have "index_of (CHR ''='') (baggage_text kv) = Some (length k)"
    using token_safe [OF k(1)] by (fastforce simp: baggage_text_def kv intro: index_of_append)
  moreover have "trim k = k" using token_safe [OF k(1)] by (intro trim_no_ws) auto
  moreover have "trim (encodeURIComponent v) = encodeURIComponent v"
    using encode_safe by (intro trim_no_ws) blast
  ultimately have step: "extractBaggage_loop cfg (baggage_text kv # map baggage_text items) n b acc ctx =
      extractBaggage_loop cfg (map baggage_text items) (n + 1) (b + length (baggage_text kv) + 1)
        (Some (AList.update k v (getAllBaggageItems acc))) ctx"
    using Cons.prems k assms
    by (simp add: Let_def slice_def kv baggage_text_def baggage_bytes_def decode_baggage_encode)
  show ?case
    using Cons.prems step Cons.IH [of "n + 1" "b + length (baggage_text kv) + 1"]
    by (simp add: baggage_ok_def baggage_bytes_def kv getAllBaggageItems_def)
qed



end
