(* ===== verification/SpanSampler.thy ===== *)
theory SpanSampler
  imports PrioritySampler
begin

text \<open>
  Single-span sampling (\<open>span_sampler.js\<close>): when a trace is not kept, each of its started
  spans that matches a span rule, and that the rule samples, is marked to be kept by itself.
\<close>

fun build_span_rules :: "'l limiter_api \<Rightarrow> rule_config list \<Rightarrow> js_error + 'l sampling_rule list" where
  "build_span_rules api [] = ok []"
| "build_span_rules api (cfg # cfgs) =
     try_then (new_SamplingRule api cfg) (\<lambda>r.
       try_then (build_span_rules api cfgs) (\<lambda>rs. ok (r # rs)))"

definition span_findRule :: "'l sampling_rule list \<Rightarrow> nat \<Rightarrow> heap \<Rightarrow> nat option" where
  "span_findRule rules s h =
     findRule_from 0 rules (sp_service (h_spans h s)) (h_ctxs h (sp_ctx (h_spans h s)))"

text \<open>One span of the loop; \<open>tid\<close> is the trace id of the context being sampled.\<close>

definition span_sample_one ::
  "'l limiter_api \<Rightarrow> int \<Rightarrow> ident \<Rightarrow> nat \<Rightarrow> 'l sampling_rule list \<times> heap \<Rightarrow> 'l sampling_rule list \<times> heap" where
  "span_sample_one api now tid s st =
     (let (rules, h) = st
      in case span_findRule rules s h of
           None \<Rightarrow> st
         | Some i \<Rightarrow>
             (let (b, rule) = rule_sample api now (rules ! i) tid
              in (rules[i := rule],
                  if b then
                    upd_ctx (sp_ctx (h_spans h s)) (\<lambda>c. c\<lparr>ctx_spanSampling :=
                      Some \<lparr>ss_rate = rule_sampleRate rule, ss_max = rule_maxPerSecond rule\<rparr>\<rparr>) h
                  else h)))"

definition span_sample ::
  "'l limiter_api \<Rightarrow> int \<Rightarrow> nat \<Rightarrow> 'l sampling_rule list \<times> heap \<Rightarrow> 'l sampling_rule list \<times> heap" where
  "span_sample api now c st =
     (let decision = priority (sampling_of (snd st) c)
      in if decision = Some USER_KEEP \<or> decision = Some AUTO_KEEP then st
         else fold (span_sample_one api now (ctx_traceId (h_ctxs (snd st) c)))
                (started (trace_of (snd st) c)) st)"

subsection \<open>What stays as it is\<close>

definition only_span_sampling :: "heap \<Rightarrow> heap \<Rightarrow> bool" where
  "only_span_sampling h h' \<longleftrightarrow>
     h_traces h' = h_traces h \<and> h_samplings h' = h_samplings h \<and> h_spans h' = h_spans h \<and>
     (\<forall>c. (h_ctxs h' c)\<lparr>ctx_spanSampling := None\<rparr> = (h_ctxs h c)\<lparr>ctx_spanSampling := None\<rparr>)"

lemma only_span_sampling_refl: "only_span_sampling h h"
  by (simp add: only_span_sampling_def)

lemma only_span_sampling_trans:
  "only_span_sampling h1 h2 \<Longrightarrow> only_span_sampling h2 h3 \<Longrightarrow> only_span_sampling h1 h3"
  by (simp add: only_span_sampling_def)

lemma span_sample_one_frame:
  "only_span_sampling (snd st) (snd (span_sample_one api now tid s st))"
  by (auto simp: span_sample_one_def only_span_sampling_def Let_def split: option.splits prod.splits)

text \<open>Matching does not look at the mark, nor at the state of the limiters.\<close>

lemma locate_span_sampling:
  "c\<lparr>ctx_spanSampling := None\<rparr> = c'\<lparr>ctx_spanSampling := None\<rparr> \<Longrightarrow> locate l sv c = locate l sv c'"
  by (cases l; cases c; cases c')
    (auto simp: locate_def nameLocator_def serviceLocator_def resourceLocator_def ctx_getTag_def)

lemma rule_match_span_sampling:
  assumes "c\<lparr>ctx_spanSampling := None\<rparr> = c'\<lparr>ctx_spanSampling := None\<rparr>"
  shows "rule_match r sv c = rule_match r sv c'"
  using locate_span_sampling [OF assms]
  by (simp add: rule_match_def match_all_iff matcher_match_def split: matcher.splits)

text \<open>The part of a rule that its limiter does not change\<close>

definition rule_core :: "'l sampling_rule \<Rightarrow> matcher list \<times> sampler" where
  "rule_core r = (r_matchers r, r_sampler r)"

lemma rule_core_sample [simp]: "rule_core (snd (rule_sample api now r tid)) = rule_core r"
  by (simp add: rule_core_def frame)

lemma rule_core_match: "rule_core r = rule_core r' \<Longrightarrow> rule_match r sv c = rule_match r' sv c"
  by (simp add: rule_core_def rule_match_def)

definition mark_from :: "'l sampling_rule list \<Rightarrow> ident \<Rightarrow> nat list \<Rightarrow> heap \<Rightarrow> nat \<Rightarrow> span_sampling option \<Rightarrow> bool" where
  "mark_from rules tid spans h c m \<longleftrightarrow>
     (\<exists>s \<in> set spans. \<exists>r \<in> set rules. sp_ctx (h_spans h s) = c \<and>
        rule_match r (sp_service (h_spans h s)) (h_ctxs h c) \<and> isSampled_id (r_sampler r) tid \<and>
        map_option ss_rate m = Some (rule_sampleRate r))"

definition marks_inv :: "'l sampling_rule list \<Rightarrow> ident \<Rightarrow> nat list \<Rightarrow> heap \<Rightarrow> 'l sampling_rule list \<times> heap \<Rightarrow> bool" where
  "marks_inv rules tid spans h st \<longleftrightarrow>
     only_span_sampling h (snd st) \<and> map rule_core (fst st) = map rule_core rules \<and>
     (\<forall>c. ctx_spanSampling (h_ctxs (snd st) c) = ctx_spanSampling (h_ctxs h c) \<or>
          mark_from rules tid spans h c (ctx_spanSampling (h_ctxs (snd st) c)))"

lemma marks_inv_step:
  assumes inv: "marks_inv rules tid spans h st" and s: "s \<in> set spans"
  shows "marks_inv rules tid spans h (span_sample_one api now tid s st)"
proof -
  obtain rs g where st: "st = (rs, g)" by (cases st)
  have core: "map rule_core rs = map rule_core rules" and frame: "only_span_sampling h g"
    using inv by (simp_all add: marks_inv_def st)
  then have spans: "h_spans g = h_spans h" by (simp add: only_span_sampling_def)
  define c where "c = sp_ctx (h_spans h s)"
  show ?thesis
  proof (cases "span_findRule rs s g")
    case None
    then show ?thesis using inv by (simp add: span_sample_one_def st)
  next
    case (Some i)
    then have i: "i < length rs" "rule_match (rs ! i) (sp_service (h_spans h s)) (h_ctxs g c)"
      by (simp_all add: span_findRule_def findRule_from_Some spans c_def)
    obtain b r' where b: "rule_sample api now (rs ! i) tid = (b, r')" by fastforce
    then have r': "rule_core r' = rule_core (rs ! i)" using rule_core_sample [of api now "rs ! i" tid] by simp
    have len: "length rs = length rules" using core by (metis length_map)
    then have ri: "rule_core (rs ! i) = rule_core (rules ! i)" "rules ! i \<in> set rules"
      using core i(1) by (metis nth_map) (use len i(1) in simp)
    have new: "mark_from rules tid spans h c (Some \<lparr>ss_rate = rule_sampleRate r', ss_max = rule_maxPerSecond r'\<rparr>)"
      if b
    proof -
      have samp: "isSampled_id (r_sampler (rs ! i)) tid"
        using b that by (auto simp: rule_sample_def split: if_splits)
      have m: "rule_match (rules ! i) (sp_service (h_spans h s)) (h_ctxs h c)"
      proof -
        have e: "(h_ctxs g c)\<lparr>ctx_spanSampling := None\<rparr> = (h_ctxs h c)\<lparr>ctx_spanSampling := None\<rparr>"
          using frame by (simp add: only_span_sampling_def)
        show ?thesis
          using i(2) unfolding rule_match_span_sampling [OF e] rule_core_match [OF ri(1)] .
      qed
      have eq: "r_sampler (rules ! i) = r_sampler (rs ! i)" "rule_sampleRate (rules ! i) = rule_sampleRate r'"
        using ri r' by (simp_all add: rule_core_def rule_sampleRate_def)
      show ?thesis
        unfolding mark_from_def
        by (rule bexI [OF _ s], rule bexI [OF _ ri(2)]) (simp add: c_def [symmetric] m samp eq)
    qed
    have upd: "map rule_core (rs[i := r']) = map rule_core rules"
      using core r' i(1) by (simp add: map_update) (metis list_update_id nth_map)
    have out: "span_sample_one api now tid s st = (rs[i := r'],
        if b then upd_ctx c (\<lambda>x. x\<lparr>ctx_spanSampling :=
          Some \<lparr>ss_rate = rule_sampleRate r', ss_max = rule_maxPerSecond r'\<rparr>\<rparr>) g else g)"
      using Some b by (simp add: span_sample_one_def st spans c_def)
    have "only_span_sampling h (snd (span_sample_one api now tid s st))"
      using only_span_sampling_trans [OF frame] span_sample_one_frame [of st] st by simp
    then show ?thesis
      using inv upd new unfolding marks_inv_def out by (auto simp: st)
  qed
qed

text \<open>
  Single-span sampling never changes a trace, a priority or a span, and of a context only
  the span-sampling mark; on a trace that is kept it does nothing at all, and a mark it sets is
  on a started span that matches a rule, carries that rule's rate, and that rule samples the id.
\<close>

theorem span_sample_marks:
  "(priority (sampling_of h c) \<in> {Some USER_KEEP, Some AUTO_KEEP} \<longrightarrow>
      span_sample api now c (rules, h) = (rules, h)) \<and>
   marks_inv rules (ctx_traceId (h_ctxs h c)) (started (trace_of h c)) h (span_sample api now c (rules, h))"
proof -
  have init: "marks_inv rules tid spans h (rules, h)" for tid spans
    by (simp add: marks_inv_def only_span_sampling_refl)
  have "marks_inv rules tid spans h (fold (span_sample_one api now tid) spans (rules, h))" for tid spans
    by (rule fold_preserves [where P = "marks_inv rules tid spans h"]) (auto intro: init marks_inv_step)
  with init show ?thesis by (auto simp: span_sample_def Let_def)
qed

theorem span_sample_marks_witness:
  "span_sample window_limiter 0 0 ([], upd_sampling 0 (\<lambda>s. s\<lparr>priority := Some 2\<rparr>) (one_span_heap [])) =
     ([], upd_sampling 0 (\<lambda>s. s\<lparr>priority := Some 2\<rparr>) (one_span_heap []))"
  by (rule span_sample_marks [THEN conjunct1, rule_format])
    (simp add: one_span_heap_def new_SpanContext_def USER_KEEP_def)

end
