(* ===== verification/JsJson.thy ===== *)
theory JsJson
  imports JsValues
begin

text \<open>
  \<open>JSON.stringify\<close>: of strings and of dictionaries of strings, as the code that writes JSON by
  hand uses it, and of arbitrary values, \<open>json_value\<close>. A string is read back by \<open>json_unquote\<close>, which serves to state that nothing is
  lost.
\<close>

abbreviation (input) dquote :: char where "dquote \<equiv> CHR 0x22"
abbreviation (input) backslash :: char where "backslash \<equiv> CHR 0x5C"

definition json_char :: "char \<Rightarrow> string" where
  "json_char c =
     (let n = (of_char c :: nat)
      in if c = dquote \<or> c = backslash then [backslash, c]
         else if n = 8 then [backslash, CHR ''b'']
         else if n = 9 then [backslash, CHR ''t'']
         else if n = 10 then [backslash, CHR ''n'']
         else if n = 12 then [backslash, CHR ''f'']
         else if n = 13 then [backslash, CHR ''r'']
         else if n < 32 then backslash # ''u'' @ pad_start 4 (CHR ''0'') (show_radix 16 n)
         else [c])"

definition json_quote :: "string \<Rightarrow> string" where
  "json_quote s = dquote # concat (map json_char s) @ [dquote]"

definition json_strings :: "(string \<times> string) list \<Rightarrow> string" where
  "json_strings ps =
     ''{'' @ join '','' (map (\<lambda>(k, v). json_quote k @ '':'' @ json_quote v) ps) @ ''}''"

text \<open>
  \<open>JSON.stringify(v)\<close>: nothing for \<open>undefined\<close>, functions and symbols, a TypeError for a bigint.
  A Buffer and a URL are written by their own \<open>toJSON\<close>.
\<close>

definition json_number :: "(jsval \<Rightarrow> string) \<Rightarrow> jsnum \<Rightarrow> string" where
  "json_number str n = (case n of Fin r \<Rightarrow> num_to_string str n | _ \<Rightarrow> ''null'')"

fun json_value :: "(jsval \<Rightarrow> string) \<Rightarrow> jsval \<Rightarrow> js_error + string option"
  and json_items :: "(jsval \<Rightarrow> string) \<Rightarrow> jsval list \<Rightarrow> js_error + string list"
  and json_members :: "(jsval \<Rightarrow> string) \<Rightarrow> (string \<times> jsval) list \<Rightarrow> js_error + string list"
where
  "json_value str JUndef = ok None"
| "json_value str JNull = ok (Some ''null'')"
| "json_value str (JBool b) = ok (Some (bool_to_string b))"
| "json_value str (JNum n) = ok (Some (json_number str n))"
| "json_value str (JStr s) = ok (Some (json_quote s))"
| "json_value str (JArr xs) =
     try_then (json_items str xs) (\<lambda>ts. ok (Some (''['' @ join '','' ts @ '']'')))"
| "json_value str (JObj ps) =
     try_then (json_members str ps) (\<lambda>ts. ok (Some (''{'' @ join '','' ts @ ''}'')))"
| "json_value str (JErr m n st ps) =
     try_then (json_members str ps) (\<lambda>ts. ok (Some (''{'' @ join '','' ts @ ''}'')))"
| "json_value str (JUrl u) = ok (Some (json_quote u))"
| "json_value str (JBuf bs) =
     ok (Some (''{'' @ json_quote ''type'' @ '':'' @ json_quote ''Buffer'' @ '','' @ json_quote ''data'' @ '':['' @
       join '','' (map (\<lambda>b. show_nat (unat b)) bs) @ '']}''))"
| "json_value str (JOther t) = (if t = ''bigint'' then throw TypeError else ok None)"
| "json_items str [] = ok []"
| "json_items str (x # xs) =
     try_then (json_value str x) (\<lambda>t.
       try_then (json_items str xs) (\<lambda>ts. ok ((case t of Some u \<Rightarrow> u | None \<Rightarrow> ''null'') # ts)))"
| "json_members str [] = ok []"
| "json_members str ((k, v) # ps) =
     try_then (json_value str v) (\<lambda>t.
       try_then (json_members str ps) (\<lambda>ts.
         ok (case t of Some u \<Rightarrow> (json_quote k @ '':'' @ u) # ts | None \<Rightarrow> ts)))"

text \<open>The escapes, read back\<close>

definition json_escape :: "char \<Rightarrow> nat" where
  "json_escape c =
     (if c = CHR ''b'' then 8 else if c = CHR ''t'' then 9 else if c = CHR ''n'' then 10
      else if c = CHR ''f'' then 12 else if c = CHR ''r'' then 13 else of_char c)"

fun json_unquote :: "string \<Rightarrow> (string \<times> string) option" where
  "json_unquote [] = None"
| "json_unquote (c # s) =
     (if c = dquote then Some ([], s)
      else if c = backslash then
        (case s of
           [] \<Rightarrow> None
         | d # t \<Rightarrow>
             (if d = CHR ''u'' then
                map_option (\<lambda>(x, r). (char_of (digits_val 16 (take 4 t)) # x, r)) (json_unquote (drop 4 t))
              else map_option (\<lambda>(x, r). (char_of (json_escape d) # x, r)) (json_unquote t)))
      else map_option (\<lambda>(x, r). (c # x, r)) (json_unquote s))"

lemma json_escape_simps [simp]:
  "json_escape dquote = 34" "json_escape backslash = 92" "json_escape (CHR ''b'') = 8"
  "json_escape (CHR ''t'') = 9" "json_escape (CHR ''n'') = 10" "json_escape (CHR ''f'') = 12"
  "json_escape (CHR ''r'') = 13"
  by (simp_all add: json_escape_def)

lemma char_of_specials:
  "char_of (8 :: nat) = CHR 0x08" "char_of (9 :: nat) = CHR 0x09" "char_of (10 :: nat) = CHR 0x0A"
  "char_of (12 :: nat) = CHR 0x0C" "char_of (13 :: nat) = CHR 0x0D" "char_of (34 :: nat) = dquote"
  "char_of (92 :: nat) = backslash"
  by code_simp+

lemma json_control:
  assumes "n < 32"
  shows "json_unquote (backslash # ''u'' @ pad_start 4 (CHR ''0'') (show_radix 16 n) @ t) =
     map_option (\<lambda>(x, r). (char_of n # x, r)) (json_unquote t)"
proof -
  have "n div 16 < 16" using assms by simp
  then have len: "length (show_radix 16 n) \<le> 2"
    by (simp add: show_radix.simps [of 16 n] show_radix.simps [of 16 "n div 16"])
  have "pad_start 4 (CHR ''0'') (show_radix 16 n) = replicate (4 - length (show_radix 16 n)) (CHR ''0'') @ show_radix 16 n"
    by (simp add: pad_start_def)
  moreover have "digits_val 16 (replicate k (CHR ''0'') @ s) = digits_val 16 s" for k s
    by (induction k) (simp_all add: digits_val_def digit_val_def)
  ultimately have "length (pad_start 4 (CHR ''0'') (show_radix 16 n)) = 4"
    "digits_val 16 (pad_start 4 (CHR ''0'') (show_radix 16 n)) = n"
    using len by (simp_all add: digits_val_show)
  then show ?thesis by simp
qed

lemma json_unquote_char:
  "json_unquote (json_char c @ t) = map_option (\<lambda>(x, r). (c # x, r)) (json_unquote t)"
proof -
  define n where "n = (of_char c :: nat)"
  have c: "c = char_of n" by (simp add: n_def)
  have eq: "c = d \<longleftrightarrow> n = of_char d" for d by (simp add: n_def)
  consider "n \<in> {8, 9, 10, 12, 13, 34, 92}" | "n < 32" "n \<notin> {8, 9, 10, 12, 13}"
    | "32 \<le> n" "c \<noteq> dquote" "c \<noteq> backslash"
  proof (cases "c = dquote \<or> c = backslash")
    case True
    then have "n = 34 \<or> n = 92" by (auto simp: n_def)
    then show ?thesis using that(1) by blast
  next
    case False
    then show ?thesis using that by (cases "n < 32") auto
  qed
  then show ?thesis
  proof cases
    case 1
    then have "c = CHR 0x08 \<or> c = CHR 0x09 \<or> c = CHR 0x0A \<or> c = CHR 0x0C \<or> c = CHR 0x0D \<or>
        c = dquote \<or> c = backslash"
      unfolding eq by auto
    then show ?thesis by (elim disjE) (simp_all add: json_char_def char_of_specials)
  next
    case 2
    have "c \<noteq> dquote \<and> c \<noteq> backslash" using 2(1) by (auto simp: n_def)
    then have "json_char c = backslash # ''u'' @ pad_start 4 (CHR ''0'') (show_radix 16 n)"
      using 2 by (simp add: json_char_def flip: n_def)
    then show ?thesis using json_control [OF 2(1), of t] by (simp only: append_Cons append_Nil append_assoc flip: c)
  next
    case 3
    then have "json_char c = [c]" by (simp add: json_char_def flip: n_def)
    with 3 show ?thesis by simp
  qed
qed

lemma json_quote_roundtrip: "json_unquote (tl (json_quote s) @ t) = Some (s, t)"
proof (induction s)
  case Nil
  then show ?case by (simp add: json_quote_def)
next
  case (Cons c s)
  then show ?case by (simp add: json_quote_def json_unquote_char)
qed

end
