(* ===== verification/SpanFormat.thy ===== *)
theory SpanFormat
  imports PrioritySampler JsJson
begin

text \<open>
  The formatting of a finished span (\<open>span_format.js\<close>) into the record the encoders send:
  identifiers, names and times, string tags cut at a length (\<open>meta\<close>), numeric tags
  (\<open>metrics\<close>), the JSON of the links, the sampling decisions of a root span and the tags of the
  trace on the first span of a chunk. Formatting may write one tag back into the span, the base
  service, and remember an extra service name (\<open>service-naming/extra-services.js\<close>).
\<close>

subsection \<open>Constants\<close>

definition MAX_META_KEY_LENGTH :: nat where "MAX_META_KEY_LENGTH = 200"
definition MAX_META_VALUE_LENGTH :: nat where "MAX_META_VALUE_LENGTH = 25000"
definition MAX_METRIC_KEY_LENGTH :: nat where "MAX_METRIC_KEY_LENGTH = MAX_META_KEY_LENGTH"

definition SAMPLING_PRIORITY_KEY :: string where "SAMPLING_PRIORITY_KEY = ''_sampling_priority_v1''"
definition ANALYTICS :: string where "ANALYTICS = ''_dd1.sr.eausr''"
definition ORIGIN_KEY :: string where "ORIGIN_KEY = ''_dd.origin''"
definition HOSTNAME_KEY :: string where "HOSTNAME_KEY = ''_dd.hostname''"
definition TOP_LEVEL_KEY :: string where "TOP_LEVEL_KEY = ''_dd.top_level''"
definition SAMPLING_RULE_DECISION :: string where "SAMPLING_RULE_DECISION = ''_dd.rule_psr''"
definition SAMPLING_LIMIT_DECISION :: string where "SAMPLING_LIMIT_DECISION = ''_dd.limit_psr''"
definition SAMPLING_AGENT_DECISION :: string where "SAMPLING_AGENT_DECISION = ''_dd.agent_psr''"
definition SPAN_SAMPLING_MECHANISM :: string where
  "SPAN_SAMPLING_MECHANISM = ''_dd.span_sampling.mechanism''"
definition SPAN_SAMPLING_RULE_RATE :: string where
  "SPAN_SAMPLING_RULE_RATE = ''_dd.span_sampling.rule_rate''"
definition SPAN_SAMPLING_MAX_PER_SECOND :: string where
  "SPAN_SAMPLING_MAX_PER_SECOND = ''_dd.span_sampling.max_per_second''"
definition SAMPLING_MECHANISM_SPAN :: int where "SAMPLING_MECHANISM_SPAN = 8"
definition PROCESS_ID :: string where "PROCESS_ID = ''process_id''"
definition ERROR_TYPE :: string where "ERROR_TYPE = ''error.type''"
definition ERROR_MESSAGE :: string where "ERROR_MESSAGE = ''error.message''"
definition ERROR_STACK :: string where "ERROR_STACK = ''error.stack''"
definition MEASURED :: string where "MEASURED = ''_dd.measured''"
definition BASE_SERVICE :: string where "BASE_SERVICE = ''_dd.base_service''"
definition TRACING_FIELD_NAME :: string where "TRACING_FIELD_NAME = ''_dd.tags.process''"

text \<open>
  \<open>IGNORE_OTEL_ERROR\<close> is a JavaScript symbol, a key no string equals and \<open>Object.keys\<close> does
  not list. Here it is a key that starts with a null character.
\<close>

definition IGNORE_OTEL_ERROR :: string where
  "IGNORE_OTEL_ERROR = CHR 0x00 # ''ignore.otel.error''"

lemmas error_key_defs = ERROR_TYPE_def ERROR_MESSAGE_def ERROR_STACK_def

lemmas format_key_defs = SAMPLING_PRIORITY_KEY_def ANALYTICS_def ORIGIN_KEY_def HOSTNAME_KEY_def
  TOP_LEVEL_KEY_def SAMPLING_RULE_DECISION_def SAMPLING_LIMIT_DECISION_def SAMPLING_AGENT_DECISION_def
  SPAN_SAMPLING_MECHANISM_def SPAN_SAMPLING_RULE_RATE_def SPAN_SAMPLING_MAX_PER_SECOND_def
  PROCESS_ID_def MEASURED_def BASE_SERVICE_def TRACING_FIELD_NAME_def

subsection \<open>Extra services\<close>

record extra_services =
  es_set :: "string list"
  es_last :: jsval

definition maxExtraServices :: nat where "maxExtraServices = 64"

definition no_extra_services :: extra_services where
  "no_extra_services = \<lparr>es_set = [], es_last = JUndef\<rparr>"

definition registerExtraService :: "jsval \<Rightarrow> extra_services \<Rightarrow> extra_services" where
  "registerExtraService serviceName es =
     (if serviceName = es_last es then es
      else let es = es\<lparr>es_last := serviceName\<rparr>
           in case serviceName of
                JStr s \<Rightarrow>
                  (if s \<noteq> [] \<and> length (es_set es) < maxExtraServices
                   then es\<lparr>es_set := (if s \<in> set (es_set es) then es_set es else es_set es @ [s])\<rparr>
                   else es)
              | _ \<Rightarrow> es)"

subsection \<open>Formatted spans\<close>

record formatted_span =
  f_trace_id :: ident
  f_span_id :: "ident option"
  f_parent_id :: ident
  f_name :: string
  f_resource :: string
  f_service :: "string option"
  f_type :: "string option"
  f_error :: int
  f_meta :: "string obj"
  f_meta_struct :: jsval
  f_metrics :: jsobj
  f_start :: int
  f_duration :: jsnum
  f_span_events :: "span_event list option"

definition set_meta :: "string \<Rightarrow> string \<Rightarrow> formatted_span \<Rightarrow> formatted_span" where
  "set_meta k v f = f\<lparr>f_meta := AList.update k v (f_meta f)\<rparr>"

definition set_metric :: "string \<Rightarrow> jsval \<Rightarrow> formatted_span \<Rightarrow> formatted_span" where
  "set_metric k v f = f\<lparr>f_metrics := AList.update k v (f_metrics f)\<rparr>"

text \<open>\<open>s.length > n ? `${s.slice(0, n)}...` : s\<close>\<close>

definition cut :: "nat \<Rightarrow> string \<Rightarrow> string" where
  "cut n s = (if n < length s then take n s @ ''...'' else s)"

text \<open>\<open>Math.round(x * 1e6)\<close>, milliseconds to nanoseconds\<close>

definition to_nanos :: "jsnum \<Rightarrow> jsnum" where
  "to_nanos n = (case n of Fin r \<Rightarrow> int_num (math_round (r * 1000000)) | _ \<Rightarrow> n)"

definition formatSpan :: "(jsval \<Rightarrow> string) \<Rightarrow> heap \<Rightarrow> nat \<Rightarrow> formatted_span" where
  "formatSpan str h s =
     (let sp = h_spans h s; ctx = h_ctxs h (sp_ctx sp)
      in \<lparr>f_trace_id = ctx_traceId ctx, f_span_id = ctx_spanId ctx,
          f_parent_id = (case ctx_parentId ctx of Some p \<Rightarrow> p | None \<Rightarrow> zeroId),
          f_name = js_string str (ctx_name ctx), f_resource = js_string str (ctx_name ctx),
          f_service = None, f_type = None, f_error = 0, f_meta = [],
          f_meta_struct = sp_meta_struct sp, f_metrics = [],
          f_start = math_round (sp_startTime sp * 1000000),
          f_duration = to_nanos (case sp_duration sp of None \<Rightarrow> NaN | Some d \<Rightarrow> d),
          f_span_events = None\<rparr>)"

definition setSingleSpanIngestionTags :: "span_sampling option \<Rightarrow> formatted_span \<Rightarrow> formatted_span" where
  "setSingleSpanIngestionTags options f =
     (case options of
        None \<Rightarrow> f
      | Some opt \<Rightarrow>
          (let f = set_metric SPAN_SAMPLING_MECHANISM (JNum (int_num SAMPLING_MECHANISM_SPAN)) f;
               f = set_metric SPAN_SAMPLING_RULE_RATE (JNum (Fin (ss_rate opt))) f
           in case ss_max opt of
                Some n \<Rightarrow> set_metric SPAN_SAMPLING_MAX_PER_SECOND (JNum n) f
              | None \<Rightarrow> f))"

definition link_json :: "heap \<Rightarrow> span_ref \<Rightarrow> string" where
  "link_json h l =
     (let c = l_context l; ctx = h_ctxs h c;
          s = ''{\"trace_id\":\"'' @ toTraceId (trace_of h c) ctx True @ ''\",\"span_id\":\"'' @
              toSpanId ctx True @ ''\"'';
          s = (case l_attributes l of
                 Some attributes \<Rightarrow> s @ '',\"attributes\":'' @ json_strings attributes
               | None \<Rightarrow> s);
          s = (case priority (sampling_of h c) of
                 Some p \<Rightarrow> if 0 \<le> p then s @ '',\"flags\":'' @ (if 0 < p then ''1'' else ''0'') else s
               | None \<Rightarrow> s);
          s = (case ctx_tracestate ctx of
                 Some ts \<Rightarrow> s @ '',\"tracestate\":'' @ json_quote (ts_toString ts)
               | None \<Rightarrow> s)
      in s @ ''}'')"

definition extractSpanLinks :: "heap \<Rightarrow> nat \<Rightarrow> formatted_span \<Rightarrow> formatted_span" where
  "extractSpanLinks h s f =
     (let links = sp_links (h_spans h s)
      in if links = [] then f
         else set_meta ''_dd.span_links''
                (cut MAX_META_VALUE_LENGTH (''['' @ join '','' (map (link_json h) links) @ '']'')) f)"

definition extractSpanEvents :: "heap \<Rightarrow> nat \<Rightarrow> formatted_span \<Rightarrow> formatted_span" where
  "extractSpanEvents h s f =
     (if sp_events (h_spans h s) = [] then f else f\<lparr>f_span_events := Some (sp_events (h_spans h s))\<rparr>)"

subsection \<open>Tags\<close>

text \<open>
  Strings go to \<open>meta\<close>, numbers and flags to \<open>metrics\<close>, the members of a plain object one level
  down under dotted keys. A Buffer or a URL is written as text, but among the metrics. The pair
  holds \<open>meta\<close> and \<open>metrics\<close>.
\<close>

function addMixedTag ::
  "(jsval \<Rightarrow> string) \<Rightarrow> string \<Rightarrow> jsval \<Rightarrow> bool \<Rightarrow> string obj \<times> jsobj \<Rightarrow> string obj \<times> jsobj" where
  "addMixedTag str key value nested st =
     (case value of
        JStr s \<Rightarrow> (AList.update (cut MAX_META_KEY_LENGTH key) (cut MAX_META_VALUE_LENGTH s) (fst st), snd st)
      | JNum n \<Rightarrow> (if n = NaN then st
                  else (fst st, AList.update (cut MAX_METRIC_KEY_LENGTH key) (JNum n) (snd st)))
      | JBool b \<Rightarrow> (fst st, AList.update (cut MAX_METRIC_KEY_LENGTH key) (JNum (int_num (of_bool b))) (snd st))
      | JUndef \<Rightarrow> st
      | JNull \<Rightarrow> st
      | JBuf bs \<Rightarrow> (fst st, AList.update (cut MAX_METRIC_KEY_LENGTH key) (JStr (js_string str value)) (snd st))
      | JUrl u \<Rightarrow> (fst st, AList.update (cut MAX_METRIC_KEY_LENGTH key) (JStr (js_string str value)) (snd st))
      | JArr xs \<Rightarrow> st
      | JOther t \<Rightarrow> st
      | JObj ps \<Rightarrow> (if nested then st
                   else fold (\<lambda>(k, v). addMixedTag str (key @ ''.'' @ k) v True) ps st)
      | JErr m n s ps \<Rightarrow> (if nested then st
                   else fold (\<lambda>(k, v). addMixedTag str (key @ ''.'' @ k) v True) ps st))"
  by pat_completeness auto
termination
  by (relation "measure (\<lambda>(str, key, value, nested, st). of_bool (\<not> nested))") auto

declare addMixedTag.simps [simp del]

definition mixed_tag :: "(jsval \<Rightarrow> string) \<Rightarrow> string \<Rightarrow> jsval \<Rightarrow> formatted_span \<Rightarrow> formatted_span" where
  "mixed_tag str key value f =
     (let (meta, metrics) = addMixedTag str key value False (f_meta f, f_metrics f)
      in f\<lparr>f_meta := meta, f_metrics := metrics\<rparr>)"

definition writeErrorMeta :: "(jsval \<Rightarrow> string) \<Rightarrow> string \<Rightarrow> jsval \<Rightarrow> formatted_span \<Rightarrow> formatted_span" where
  "writeErrorMeta str key value = set_meta key (cut MAX_META_VALUE_LENGTH (js_string str value))"

text \<open>\<open>error[k]\<close> of a value \<open>isError\<close> accepts\<close>

definition error_field :: "jsval \<Rightarrow> string \<Rightarrow> jsval" where
  "error_field e k = (case e of
      JErr m n s ps \<Rightarrow>
        (if k = ''message'' then m else if k = ''name'' then n else if k = ''stack'' then s else getp ps k)
    | JObj ps \<Rightarrow> getp ps k
    | _ \<Rightarrow> JUndef)"

definition extractError :: "(jsval \<Rightarrow> string) \<Rightarrow> jsval \<Rightarrow> formatted_span \<Rightarrow> formatted_span" where
  "extractError str e f =
     (if \<not> truthy e then f
      else let f = f\<lparr>f_error := 1\<rparr>
           in if isError e then
                (let msg = js_or (error_field e ''message'') (error_field e ''code'');
                     write = (\<lambda>k v f. if nullish v then f else writeErrorMeta str k v f);
                     f = write ERROR_MESSAGE msg f;
                     f = write ERROR_TYPE (error_field e ''name'') f
                 in write ERROR_STACK (error_field e ''stack'') f)
              else f)"

definition flag_metric :: "jsval \<Rightarrow> jsval" where
  "flag_metric v = JNum (int_num (if v = JUndef \<or> truthy v then 1 else 0))"

text \<open>\<open>if (typeof v === 'string') g(v)\<close>\<close>

definition on_string :: "jsval \<Rightarrow> (string \<Rightarrow> formatted_span) \<Rightarrow> formatted_span \<Rightarrow> formatted_span" where
  "on_string v g f = (case v of JStr s \<Rightarrow> g s | _ \<Rightarrow> f)"

text \<open>The default case, and one turn of the loop of \<open>extractTags\<close>\<close>

definition default_tag :: "(jsval \<Rightarrow> string) \<Rightarrow> string \<Rightarrow> jsval \<Rightarrow> formatted_span \<Rightarrow> formatted_span" where
  "default_tag str tag v f =
     (case v of
        JStr s \<Rightarrow> set_meta (cut MAX_META_KEY_LENGTH tag) (cut MAX_META_VALUE_LENGTH s) f
      | JNum n \<Rightarrow> if n = NaN then f else set_metric (cut MAX_METRIC_KEY_LENGTH tag) (JNum n) f
      | JBool b \<Rightarrow> set_metric (cut MAX_METRIC_KEY_LENGTH tag) (JNum (int_num (of_bool b))) f
      | _ \<Rightarrow> mixed_tag str tag v f)"

definition extract_tag ::
  "(jsval \<Rightarrow> string) \<Rightarrow> jsval \<Rightarrow> jsobj \<Rightarrow> string \<Rightarrow> formatted_span \<Rightarrow> formatted_span" where
  "extract_tag str name tags tag f =
     (let v = getp tags tag
      in if tag = ''service.name'' then
           on_string v (\<lambda>s. f\<lparr>f_service := Some (cut MAX_META_VALUE_LENGTH s)\<rparr>) f
         else if tag = ''span.type'' then
           on_string v (\<lambda>s. f\<lparr>f_type := Some (cut MAX_META_VALUE_LENGTH s)\<rparr>) f
         else if tag = ''resource.name'' then
           on_string v (\<lambda>s. f\<lparr>f_resource := cut MAX_META_VALUE_LENGTH s\<rparr>) f
         else if tag = ''http.status_code'' then
           (if truthy v then set_meta tag (cut MAX_META_VALUE_LENGTH (js_string str v)) f
            else if is_string v then set_meta tag [] f else f)
         else if tag = ''analytics.event'' then set_metric ANALYTICS (flag_metric v) f
         else if tag = HOSTNAME_KEY \<or> tag = MEASURED then set_metric tag (flag_metric v) f
         else if tag = ''error'' then
           (if name \<noteq> JStr ''fs.operation'' then extractError str v f else f)
         else if tag = ERROR_TYPE \<or> tag = ERROR_MESSAGE \<or> tag = ERROR_STACK then
           (if name = JStr ''fs.operation'' then f
            else let f = (if \<not> truthy (getp tags IGNORE_OTEL_ERROR) then f\<lparr>f_error := 1\<rparr> else f)
                 in if nullish v then f else writeErrorMeta str tag v f)
         else default_tag str tag v f)"

text \<open>\<open>Object.keys(tags)\<close> leaves the symbol out.\<close>

definition tag_names :: "jsobj \<Rightarrow> string list" where
  "tag_names tags = filter (\<lambda>k. k \<noteq> IGNORE_OTEL_ERROR) (obj_keys tags)"

text \<open>\<open>v?.toLowerCase()\<close>\<close>

definition lower_opt :: "jsval \<Rightarrow> js_error + jsval" where
  "lower_opt v = (case v of
      JUndef \<Rightarrow> ok JUndef
    | JNull \<Rightarrow> ok JUndef
    | JStr s \<Rightarrow> ok (JStr (to_lower s))
    | _ \<Rightarrow> throw TypeError)"

definition closing_tags ::
  "int \<Rightarrow> sampling \<Rightarrow> trace \<Rightarrow> ctx \<Rightarrow> formatted_span \<Rightarrow> formatted_span" where
  "closing_tags pid sampling trace ctx f =
     (let f = set_meta ''language'' ''javascript'' f;
          f = set_metric PROCESS_ID (JNum (int_num pid)) f;
          f = (case priority sampling of
                 Some p \<Rightarrow> set_metric SAMPLING_PRIORITY_KEY (JNum (int_num p)) f
               | None \<Rightarrow> f);
          f = (case t_origin trace of
                 Some origin \<Rightarrow> set_meta ORIGIN_KEY (cut MAX_META_VALUE_LENGTH origin) f
               | None \<Rightarrow> f)
      in on_string (ctx_hostname ctx) (\<lambda>s. set_meta HOSTNAME_KEY (cut MAX_META_VALUE_LENGTH s) f) f)"

definition sf_extractTags ::
  "(jsval \<Rightarrow> string) \<Rightarrow> int \<Rightarrow> nat \<Rightarrow> extra_services \<times> heap \<times> formatted_span \<Rightarrow>
   js_error + (extra_services \<times> heap \<times> formatted_span)" where
  "sf_extractTags str pid s st =
     (let (es, h, f) = st;
          c = sp_ctx (h_spans h s); ctx = h_ctxs h c; tags = ctx_tags ctx;
          kind = getp tags ''span.kind'';
          f = (if truthy kind \<and> kind \<noteq> JStr ''internal'' then set_metric MEASURED (JNum (Fin 1)) f else f);
          tracerService = to_lower (sp_service (h_spans h s))
      in try_then (lower_opt (getp tags SERVICE_NAME)) (\<lambda>service.
           let (es, h) =
                 (if service \<noteq> JStr tracerService
                  then (registerExtraService (getp tags SERVICE_NAME) es,
                        upd_ctx c (ctx_setTag BASE_SERVICE (JStr tracerService)) h)
                  else (es, h));
               tags = ctx_tags (h_ctxs h c);
               f = fold (extract_tag str (ctx_name ctx) tags) (tag_names tags) f;
               f = setSingleSpanIngestionTags (ctx_spanSampling ctx) f
           in ok (es, h, closing_tags pid (sampling_of h c) (trace_of h c) ctx f)))"

definition opt_metric :: "string \<Rightarrow> rat option \<Rightarrow> formatted_span \<Rightarrow> formatted_span" where
  "opt_metric k r f = (case r of Some x \<Rightarrow> set_metric k (JNum (Fin x)) f | None \<Rightarrow> f)"

definition extractRootTags :: "heap \<Rightarrow> nat \<Rightarrow> formatted_span \<Rightarrow> formatted_span" where
  "extractRootTags h s f =
     (let c = sp_ctx (h_spans h s); t = trace_of h c
      in if root_span h c \<noteq> Some s \<or>
            (case ctx_parentId (h_ctxs h c) of Some p \<Rightarrow> toString_id p 10 \<noteq> ''0'' | None \<Rightarrow> False)
         then f
         else set_metric TOP_LEVEL_KEY (JNum (Fin 1))
                (opt_metric SAMPLING_AGENT_DECISION (t_agent_psr t)
                  (opt_metric SAMPLING_LIMIT_DECISION (t_limit_psr t)
                    (opt_metric SAMPLING_RULE_DECISION (t_rule_psr t) f))))"

definition chunk_tag :: "(jsval \<Rightarrow> string) \<Rightarrow> string \<times> jsval \<Rightarrow> formatted_span \<Rightarrow> formatted_span" where
  "chunk_tag str kv f =
     (case kv of (k, v) \<Rightarrow>
        (case v of
           JStr s \<Rightarrow> set_meta (cut MAX_META_KEY_LENGTH k) (cut MAX_META_VALUE_LENGTH s) f
         | _ \<Rightarrow> mixed_tag str k v f))"

definition extractChunkTags ::
  "(jsval \<Rightarrow> string) \<Rightarrow> heap \<Rightarrow> nat \<Rightarrow> string option \<Rightarrow> formatted_span \<Rightarrow> formatted_span" where
  "extractChunkTags str h s processTags f =
     fold (chunk_tag str) (t_tags (trace_of h (sp_ctx (h_spans h s))))
       (case processTags of
          Some p \<Rightarrow> set_meta TRACING_FIELD_NAME (cut MAX_META_VALUE_LENGTH p) f
        | None \<Rightarrow> f)"

text \<open>\<open>format(span, isFirstSpanInChunk, tagForFirstSpanInChunk)\<close>, what the module exports\<close>

definition span_format ::
  "(jsval \<Rightarrow> string) \<Rightarrow> int \<Rightarrow> nat \<Rightarrow> bool \<Rightarrow> string option \<Rightarrow> extra_services \<times> heap \<Rightarrow>
   js_error + (extra_services \<times> heap \<times> formatted_span)" where
  "span_format str pid s isFirst processTags st =
     (let (es, h) = st;
          f = formatSpan str h s;
          f = extractSpanLinks h s f;
          f = extractSpanEvents h s f;
          f = extractRootTags h s f;
          f = (if isFirst then extractChunkTags str h s processTags f else f)
      in sf_extractTags str pid s (es, h, f))"

subsection \<open>Sizes\<close>

lemma set_obj_update: "set (AList.update k v m) \<subseteq> insert (k, v) (set m)"
  by (induction m) auto

lemma length_cut: "length (cut n s) \<le> n + 3"
  by (simp add: cut_def)

definition meta_fits :: "string obj \<Rightarrow> bool" where
  "meta_fits m \<longleftrightarrow> (\<forall>(k, v) \<in> set m. length k \<le> 203 \<and> length v \<le> 25003)"

definition metric_value :: "jsval \<Rightarrow> bool" where
  "metric_value v \<longleftrightarrow> (case v of JNum _ \<Rightarrow> True | JStr _ \<Rightarrow> True | _ \<Rightarrow> False)"

definition metrics_fit :: "jsobj \<Rightarrow> bool" where
  "metrics_fit m \<longleftrightarrow> (\<forall>(k, v) \<in> set m. length k \<le> 203 \<and> metric_value v)"

definition fits :: "formatted_span \<Rightarrow> bool" where
  "fits f \<longleftrightarrow> meta_fits (f_meta f) \<and> metrics_fit (f_metrics f) \<and>
     pred_option (\<lambda>s. length s \<le> 25003) (f_service f) \<and> pred_option (\<lambda>s. length s \<le> 25003) (f_type f)"

lemma meta_fits_update [wf_intros]:
  "meta_fits m \<Longrightarrow> length k \<le> 203 \<Longrightarrow> length v \<le> 25003 \<Longrightarrow> meta_fits (AList.update k v m)"
  using set_obj_update [of k v m] by (force simp: meta_fits_def)

lemma metrics_fit_update [wf_intros]:
  "metrics_fit m \<Longrightarrow> length k \<le> 203 \<Longrightarrow> metric_value v \<Longrightarrow> metrics_fit (AList.update k v m)"
  using set_obj_update [of k v m] by (force simp: metrics_fit_def)

lemma cut_fits [simp]:
  "length (cut MAX_META_KEY_LENGTH s) \<le> 203" "length (cut MAX_METRIC_KEY_LENGTH s) \<le> 203"
  "length (cut MAX_META_VALUE_LENGTH s) \<le> 25003"
  using length_cut [of MAX_META_KEY_LENGTH s] length_cut [of MAX_META_VALUE_LENGTH s]
  by (simp_all add: MAX_META_KEY_LENGTH_def MAX_METRIC_KEY_LENGTH_def MAX_META_VALUE_LENGTH_def)

lemma metric_value_simps [simp]: "metric_value (JNum n)" "metric_value (JStr s)"
  by (simp_all add: metric_value_def)

lemma fits_set_meta [wf_intros]:
  "fits f \<Longrightarrow> length k \<le> 203 \<Longrightarrow> length v \<le> 25003 \<Longrightarrow> fits (set_meta k v f)"
  by (simp add: fits_def set_meta_def meta_fits_update)

lemma fits_set_metric [wf_intros]:
  "fits f \<Longrightarrow> length k \<le> 203 \<Longrightarrow> metric_value v \<Longrightarrow> fits (set_metric k v f)"
  by (simp add: fits_def set_metric_def metrics_fit_update)

lemma fits_fields [wf_intros]:
  "fits f \<Longrightarrow> fits (f\<lparr>f_error := e\<rparr>)" "fits f \<Longrightarrow> fits (f\<lparr>f_resource := r\<rparr>)"
  "fits f \<Longrightarrow> fits (f\<lparr>f_span_events := x\<rparr>)"
  "fits f \<Longrightarrow> fits (f\<lparr>f_service := Some (cut MAX_META_VALUE_LENGTH s)\<rparr>)"
  "fits f \<Longrightarrow> fits (f\<lparr>f_type := Some (cut MAX_META_VALUE_LENGTH s)\<rparr>)"
  by (simp_all add: fits_def)

lemma addMixedTag_fits:
  "meta_fits (fst st) \<Longrightarrow> metrics_fit (snd st) \<Longrightarrow>
     meta_fits (fst (addMixedTag str key v nested st)) \<and> metrics_fit (snd (addMixedTag str key v nested st))"
proof (induction str key v nested st rule: addMixedTag.induct)
  case (1 str key v nested st)
  let ?P = "\<lambda>st. meta_fits (fst st) \<and> metrics_fit (snd st)"
  have step: "?P (fold (\<lambda>(k, v). addMixedTag str (key @ ''.'' @ k) v True) ps st)"
    if "\<And>k w s. (k, w) \<in> set ps \<Longrightarrow> ?P s \<Longrightarrow> ?P (addMixedTag str (key @ ''.'' @ k) w True s)" for ps
    using that 1(3,4) by (intro fold_preserves [where P = ?P]) auto
  show ?case
  proof (cases v)
    case (JObj ps)
    show ?thesis
    proof (cases nested)
      case False
      have "?P (fold (\<lambda>(k, v). addMixedTag str (key @ ''.'' @ k) v True) ps st)"
        by (rule step) (use 1(1) [OF JObj False] in auto)
      then show ?thesis using JObj False by (simp add: addMixedTag.simps)
    qed (use 1(3,4) JObj in \<open>simp add: addMixedTag.simps\<close>)
  next
    case (JErr m n s' ps)
    show ?thesis
    proof (cases nested)
      case False
      have "?P (fold (\<lambda>(k, v). addMixedTag str (key @ ''.'' @ k) v True) ps st)"
        by (rule step) (use 1(2) [OF JErr False] in auto)
      then show ?thesis using JErr False by (simp add: addMixedTag.simps)
    qed (use 1(3,4) JErr in \<open>simp add: addMixedTag.simps\<close>)
  qed (use 1(3,4) in \<open>simp_all add: addMixedTag.simps wf_intros\<close>)
qed

lemma mixed_tag_fits [wf_intros]: "fits f \<Longrightarrow> fits (mixed_tag str k v f)"
  using addMixedTag_fits [of "(f_meta f, f_metrics f)" str k v False]
  by (auto simp: mixed_tag_def fits_def split: prod.splits)

lemma writeErrorMeta_fits [wf_intros]:
  "fits f \<Longrightarrow> length k \<le> 203 \<Longrightarrow> fits (writeErrorMeta str k v f)"
  by (simp add: writeErrorMeta_def wf_intros)

lemma extractError_fits [wf_intros]: "fits f \<Longrightarrow> fits (extractError str e f)"
  by (simp add: extractError_def Let_def wf_intros error_key_defs)

lemma on_string_fits [wf_intros]: "fits f \<Longrightarrow> (\<And>s. fits (g s)) \<Longrightarrow> fits (on_string v g f)"
  by (cases v) (simp_all add: on_string_def)

lemma default_tag_fits [wf_intros]: "fits f \<Longrightarrow> fits (default_tag str tag v f)"
  by (cases v) (simp_all add: default_tag_def wf_intros)

lemma extract_tag_fits: "fits f \<Longrightarrow> fits (extract_tag str name tags tag f)"
  unfolding extract_tag_def Let_def
  by (simp add: wf_intros format_key_defs error_key_defs flag_metric_def)

lemma chunk_tag_fits: "fits f \<Longrightarrow> fits (chunk_tag str kv f)"
  by (cases kv) (simp add: chunk_tag_def wf_intros split: jsval.splits)

lemma formatSpan_fits: "fits (formatSpan str h s)"
  by (simp add: fits_def formatSpan_def meta_fits_def metrics_fit_def Let_def)

lemma opt_metric_fits [wf_intros]: "fits f \<Longrightarrow> length k \<le> 203 \<Longrightarrow> fits (opt_metric k r f)"
  by (simp add: opt_metric_def wf_intros split: option.splits)

lemma format_parts_fit [wf_intros]:
  "fits f \<Longrightarrow> fits (extractSpanLinks h s f)"
  "fits f \<Longrightarrow> fits (extractSpanEvents h s f)"
  "fits f \<Longrightarrow> fits (extractRootTags h s f)"
  "fits f \<Longrightarrow> fits (extractChunkTags str h s processTags f)"
  "fits f \<Longrightarrow> fits (setSingleSpanIngestionTags options f)"
proof -
  assume f: "fits f"
  show "fits (extractSpanLinks h s f)" "fits (extractSpanEvents h s f)"
    using f by (simp_all add: extractSpanLinks_def extractSpanEvents_def Let_def wf_intros)
  show "fits (extractRootTags h s f)"
    using f by (simp add: extractRootTags_def Let_def wf_intros format_key_defs)
  show "fits (extractChunkTags str h s processTags f)"
    unfolding extractChunkTags_def
    by (rule fold_preserves [where P = fits])
      (use f in \<open>auto simp: wf_intros format_key_defs chunk_tag_fits split: option.splits\<close>)
  show "fits (setSingleSpanIngestionTags options f)"
    using f by (simp add: setSingleSpanIngestionTags_def Let_def wf_intros format_key_defs split: option.splits)
qed

lemma f_error_simps [simp]:
  "f_error (set_meta k v f) = f_error f" "f_error (set_metric k n f) = f_error f"
  "f_error (writeErrorMeta str k n f) = f_error f" "f_error (opt_metric k r f) = f_error f"
  "f_error (mixed_tag str k n f) = f_error f"
  by (simp_all add: set_meta_def set_metric_def writeErrorMeta_def opt_metric_def mixed_tag_def
      split: option.splits prod.splits)

lemma closing_tags_fits [wf_intros]: "fits f \<Longrightarrow> fits (closing_tags pid sampling trace ctx f)"
  by (simp add: closing_tags_def Let_def wf_intros format_key_defs split: option.splits)

lemma fold_extract_tag_fits [wf_intros]: "fits f \<Longrightarrow> fits (fold (extract_tag str name tags) ks f)"
  by (rule fold_preserves [where P = fits]) (auto intro: extract_tag_fits)

text \<open>What \<open>extractTags\<close> does when the service name is a string or absent\<close>

definition base_tagged :: "nat \<Rightarrow> heap \<Rightarrow> heap" where
  "base_tagged s h =
     (let c = sp_ctx (h_spans h s); lower = to_lower (sp_service (h_spans h s))
      in if lower_opt (ctx_getTag (h_ctxs h c) SERVICE_NAME) = Inr (JStr lower) then h
         else upd_ctx c (ctx_setTag BASE_SERVICE (JStr lower)) h)"

lemma sf_extractTags_ok:
  assumes "sf_extractTags str pid s (es, h, f) = Inr (es', h', f')"
  shows "h' = base_tagged s h" and
    "\<exists>g. (fits f \<longrightarrow> fits g) \<and> f_error g = f_error f \<and> f' = closing_tags pid (sampling_of h (sp_ctx (h_spans h s)))
       (trace_of h (sp_ctx (h_spans h s))) (h_ctxs h (sp_ctx (h_spans h s)))
       (setSingleSpanIngestionTags (ctx_spanSampling (h_ctxs h (sp_ctx (h_spans h s))))
         (fold (extract_tag str (ctx_name (h_ctxs h (sp_ctx (h_spans h s))))
            (ctx_tags (h_ctxs h' (sp_ctx (h_spans h s)))))
           (tag_names (ctx_tags (h_ctxs h' (sp_ctx (h_spans h s))))) g))"
proof -
  let ?c = "sp_ctx (h_spans h s)"
  let ?k = "getp (ctx_tags (h_ctxs h ?c)) ''span.kind''"
  let ?g = "if truthy ?k \<and> ?k \<noteq> JStr ''internal'' then set_metric MEASURED (JNum (Fin 1)) f else f"
  obtain service where service: "lower_opt (getp (ctx_tags (h_ctxs h ?c)) SERVICE_NAME) = Inr service"
    using assms by (cases "lower_opt (getp (ctx_tags (h_ctxs h ?c)) SERVICE_NAME)")
      (simp_all add: sf_extractTags_def Let_def)
  show h': "h' = base_tagged s h"
    using assms service
    by (auto simp: sf_extractTags_def base_tagged_def ctx_getTag_def Let_def split: if_splits)
  show "\<exists>g. (fits f \<longrightarrow> fits g) \<and> f_error g = f_error f \<and> f' = closing_tags pid (sampling_of h ?c) (trace_of h ?c) (h_ctxs h ?c)
       (setSingleSpanIngestionTags (ctx_spanSampling (h_ctxs h ?c))
         (fold (extract_tag str (ctx_name (h_ctxs h ?c)) (ctx_tags (h_ctxs h' ?c)))
           (tag_names (ctx_tags (h_ctxs h' ?c))) g))"
  proof (intro exI [of _ ?g] conjI)
    show "fits f \<longrightarrow> fits ?g" by (simp add: fits_set_metric MEASURED_def)
    show "f_error ?g = f_error f" by simp
  qed (use assms service in \<open>auto simp: sf_extractTags_def Let_def split: if_splits\<close>)
qed

lemma sf_extractTags_fits:
  assumes "sf_extractTags str pid s (es, h, f) = Inr (es', h', f')" and "fits f"
  shows "fits f'"
  using sf_extractTags_ok(2) [OF assms(1)] assms(2) by (auto intro: wf_intros)

subsection \<open>The error flag\<close>

definition error_tag :: "jsval \<Rightarrow> jsobj \<Rightarrow> string \<Rightarrow> bool" where
  "error_tag name tags k \<longleftrightarrow> name \<noteq> JStr ''fs.operation'' \<and>
     (k = ''error'' \<and> truthy (getp tags k) \<or>
      k \<in> {ERROR_TYPE, ERROR_MESSAGE, ERROR_STACK} \<and> \<not> truthy (getp tags IGNORE_OTEL_ERROR))"

lemma extractError_flag: "f_error (extractError str e f) = (if truthy e then 1 else f_error f)"
  by (simp add: extractError_def Let_def)

lemma case_flags:
  "(\<And>s. f_error (g s) = f_error f) \<Longrightarrow> f_error (on_string v g f) = f_error f"
  "f_error (default_tag str tag v f) = f_error f"
  by (cases v; simp add: on_string_def default_tag_def)+

lemma extract_tag_flag:
  "f_error (extract_tag str name tags k f) = (if error_tag name tags k then 1 else f_error f)"
  unfolding extract_tag_def error_tag_def Let_def
  by (simp add: extractError_flag case_flags error_key_defs format_key_defs)

lemma fold_extract_tag_flag:
  "f_error (fold (extract_tag str name tags) ks f) =
     (if \<exists>k \<in> set ks. error_tag name tags k then 1 else f_error f)"
  by (induction ks arbitrary: f) (auto simp: extract_tag_flag)

lemma format_parts_flag:
  "f_error (extractSpanLinks h s f) = f_error f" "f_error (extractSpanEvents h s f) = f_error f"
  "f_error (extractRootTags h s f) = f_error f"
  "f_error (extractChunkTags str h s processTags f) = f_error f"
  "f_error (setSingleSpanIngestionTags options f) = f_error f"
proof -
  have fold: "f_error (fold (chunk_tag str) kvs g) = f_error g" for kvs g
    by (induction kvs arbitrary: g) (auto simp: chunk_tag_def split: prod.splits jsval.splits)
  show "f_error (extractChunkTags str h s processTags f) = f_error f"
    by (simp add: extractChunkTags_def fold split: option.splits)
qed (simp_all add: extractSpanLinks_def extractSpanEvents_def extractRootTags_def
    setSingleSpanIngestionTags_def Let_def split: option.splits)

lemma some_error_tag:
  "(\<exists>k \<in> set (tag_names tags). error_tag name tags k) \<longleftrightarrow>
     name \<noteq> JStr ''fs.operation'' \<and>
     (truthy (getp tags ''error'') \<or>
      \<not> truthy (getp tags IGNORE_OTEL_ERROR) \<and>
      (\<exists>k \<in> {ERROR_TYPE, ERROR_MESSAGE, ERROR_STACK}. has_own tags k))"
proof -
  have own: "truthy (getp tags k) \<Longrightarrow> has_own tags k" for k
    by (auto simp: getp_def has_own_def split: option.splits)
  have keys: "k \<in> set (tag_names tags) \<longleftrightarrow> has_own tags k"
    if "k = ''error'' \<or> k \<in> {ERROR_TYPE, ERROR_MESSAGE, ERROR_STACK}" for k
    using that by (auto simp: tag_names_def has_own_iff IGNORE_OTEL_ERROR_def error_key_defs)
  show ?thesis
    using own [of "''error''"] keys unfolding error_tag_def by blast
qed

lemma closing_tags_flag: "f_error (closing_tags pid sampling trace ctx f) = f_error f"
  by (simp add: closing_tags_def Let_def case_flags split: option.splits)

subsection \<open>Identity\<close>

definition f_ids :: "formatted_span \<Rightarrow> ident \<times> ident option \<times> ident" where
  "f_ids f = (f_trace_id f, f_span_id f, f_parent_id f)"

lemma f_ids_simps [simp]:
  "f_ids (set_meta k v f) = f_ids f" "f_ids (set_metric k n f) = f_ids f"
  "f_ids (writeErrorMeta str k n f) = f_ids f" "f_ids (opt_metric k r f) = f_ids f"
  "f_ids (mixed_tag str k n f) = f_ids f" "f_ids (f\<lparr>f_error := e\<rparr>) = f_ids f"
  "f_ids (f\<lparr>f_service := sv\<rparr>) = f_ids f" "f_ids (f\<lparr>f_type := sv\<rparr>) = f_ids f"
  "f_ids (f\<lparr>f_resource := rs\<rparr>) = f_ids f" "f_ids (f\<lparr>f_meta := m\<rparr>) = f_ids f"
  "f_ids (f\<lparr>f_metrics := ms\<rparr>) = f_ids f" "f_ids (f\<lparr>f_span_events := ev\<rparr>) = f_ids f"
  by (simp_all add: f_ids_def set_meta_def set_metric_def writeErrorMeta_def opt_metric_def mixed_tag_def
      split: option.splits prod.splits)

lemma extractError_ids: "f_ids (extractError str e f) = f_ids f"
  by (simp add: extractError_def Let_def)

lemma case_ids:
  "(\<And>s. f_ids (g s) = f_ids f) \<Longrightarrow> f_ids (on_string v g f) = f_ids f"
  "f_ids (default_tag str tag v f) = f_ids f"
  by (cases v; simp add: on_string_def default_tag_def)+

lemma extract_tag_ids: "f_ids (extract_tag str name tags k f) = f_ids f"
  unfolding extract_tag_def Let_def by (simp add: extractError_ids case_ids)

lemma fold_ids:
  "(\<And>x g. f_ids (step x g) = f_ids g) \<Longrightarrow> f_ids (fold step xs f) = f_ids f"
  by (induction xs arbitrary: f) simp_all

lemma format_parts_ids:
  "f_ids (extractSpanLinks h s f) = f_ids f" "f_ids (extractSpanEvents h s f) = f_ids f"
  "f_ids (extractRootTags h s f) = f_ids f"
  "f_ids (extractChunkTags str h s processTags f) = f_ids f"
  "f_ids (setSingleSpanIngestionTags options f) = f_ids f"
  "f_ids (closing_tags pid sampling trace ctx f) = f_ids f"
proof -
  have "f_ids (chunk_tag str kv g) = f_ids g" for kv g
    by (simp add: chunk_tag_def split: prod.splits jsval.splits)
  then show "f_ids (extractChunkTags str h s processTags f) = f_ids f"
    by (simp add: extractChunkTags_def fold_ids split: option.splits)
qed (simp_all add: extractSpanLinks_def extractSpanEvents_def extractRootTags_def closing_tags_def
    setSingleSpanIngestionTags_def Let_def case_ids split: option.splits)

lemma span_format_ids:
  assumes "span_format str pid s isFirst processTags (es, h) = Inr (es', h', f)"
  shows "f_ids f = f_ids (formatSpan str h s)"
  using assms
  by (auto simp: span_format_def sf_extractTags_def Let_def try_then_eq_Inr format_parts_ids fold_ids
      extract_tag_ids split: if_splits)

subsection \<open>What is reported\<close>

lemma base_tagged_ctx:
  "ctx_name (h_ctxs (base_tagged s h) c) = ctx_name (h_ctxs h c)"
  "k \<noteq> BASE_SERVICE \<Longrightarrow> ctx_getTag (h_ctxs (base_tagged s h) c) k = ctx_getTag (h_ctxs h c) k"
  "k \<noteq> BASE_SERVICE \<Longrightarrow> has_own (ctx_tags (h_ctxs (base_tagged s h) c)) k = has_own (ctx_tags (h_ctxs h c)) k"
  by (auto simp: base_tagged_def Let_def ctx_setTag_def ctx_getTag_def)

lemma span_format_ok:
  assumes "span_format str pid s isFirst processTags (es, h) = Inr (es', h', f)"
  obtains g where "fits g" "f_error g = 0" "sf_extractTags str pid s (es, h, g) = Inr (es', h', f)"
proof -
  let ?f = "extractRootTags h s (extractSpanEvents h s (extractSpanLinks h s (formatSpan str h s)))"
  let ?g = "if isFirst then extractChunkTags str h s processTags ?f else ?f"
  have "fits ?g" by (simp add: format_parts_fit formatSpan_fits)
  moreover have "f_error ?g = 0"
    by (simp add: format_parts_flag) (simp add: formatSpan_def Let_def)
  moreover have "sf_extractTags str pid s (es, h, ?g) = Inr (es', h', f)"
    using assms by (simp add: span_format_def Let_def)
  ultimately show thesis by (rule that)
qed

lemma span_format_heap:
  "span_format str pid s isFirst processTags (es, h) = Inr (es', h', f) \<Longrightarrow> h' = base_tagged s h"
  using span_format_ok sf_extractTags_ok(1) by metis

definition service_ok :: "jsval \<Rightarrow> bool" where
  "service_ok v \<longleftrightarrow> is_string v \<or> nullish v"

lemma lower_opt_total: "service_ok v \<Longrightarrow> \<exists>r. lower_opt v = Inr r"
  by (cases v) (simp_all add: service_ok_def is_string_def nullish_def lower_opt_def)

lemma span_format_total:
  assumes "service_ok (ctx_getTag (h_ctxs h (sp_ctx (h_spans h s))) SERVICE_NAME)"
  shows "\<exists>es' h' f. span_format str pid s isFirst processTags (es, h) = Inr (es', h', f)"
  using lower_opt_total [OF assms]
  by (auto simp: span_format_def sf_extractTags_def ctx_getTag_def Let_def split: prod.splits)

definition format_error :: "ctx \<Rightarrow> bool" where
  "format_error ctx \<longleftrightarrow> ctx_name ctx \<noteq> JStr ''fs.operation'' \<and>
     (truthy (ctx_getTag ctx ''error'') \<or>
      \<not> truthy (ctx_getTag ctx IGNORE_OTEL_ERROR) \<and>
      (\<exists>k \<in> {ERROR_TYPE, ERROR_MESSAGE, ERROR_STACK}. ctx_hasTag ctx k))"

text \<open>
  C15: A formatted span carries the error flag exactly when its name is not \<open>fs.operation\<close> and it
  has a truthy \<open>error\<close> tag, or one of the three error tags without the OpenTelemetry mark; every
  string tag it reports is cut to 25003 characters under a key of at most 203, and every metric
  is a number or text.
\<close>

theorem format_bounded_error_flag:
  assumes "span_format str pid s isFirst processTags (es, h) = Inr (es', h', f)"
  shows "fits f \<and> f_error f = (if format_error (h_ctxs h (sp_ctx (h_spans h s))) then 1 else 0)"
proof -
  obtain g where g: "fits g" "f_error g = 0" "sf_extractTags str pid s (es, h, g) = Inr (es', h', f)"
    using span_format_ok [OF assms] by blast
  let ?c = "sp_ctx (h_spans h s)"
  let ?tags = "ctx_tags (h_ctxs h' ?c)"
  have h': "h' = base_tagged s h" by (rule sf_extractTags_ok(1) [OF g(3)])
  have keys: "IGNORE_OTEL_ERROR \<noteq> BASE_SERVICE" "''error'' \<noteq> BASE_SERVICE"
    "ERROR_TYPE \<noteq> BASE_SERVICE" "ERROR_MESSAGE \<noteq> BASE_SERVICE" "ERROR_STACK \<noteq> BASE_SERVICE"
    by (simp_all add: BASE_SERVICE_def IGNORE_OTEL_ERROR_def error_key_defs)
  have same: "getp ?tags k = ctx_getTag (h_ctxs h ?c) k" "has_own ?tags k = ctx_hasTag (h_ctxs h ?c) k"
    if "k \<noteq> BASE_SERVICE" for k
    using base_tagged_ctx(2,3) [OF that, of s h ?c] by (simp_all add: h' ctx_getTag_def ctx_hasTag_def)
  have "f_error f = (if \<exists>k \<in> set (tag_names ?tags). error_tag (ctx_name (h_ctxs h ?c)) ?tags k then 1 else 0)"
    using sf_extractTags_ok(2) [OF g(3)] g(2)
    by (auto simp: closing_tags_flag format_parts_flag fold_extract_tag_flag)
  then show ?thesis
    using sf_extractTags_fits [OF g(3,1)] by (simp add: some_error_tag format_error_def same keys)
qed

theorem format_bounded_error_flag_witness:
  "\<exists>es' h' f. span_format (\<lambda>_. []) 1 0 True None (no_extra_services, one_span_heap [(''error'', JBool True)]) =
     Inr (es', h', f) \<and> fits f \<and> f_error f = 1"
proof -
  let ?h = "one_span_heap [(''error'', JBool True)]"
  have ctx: "ctx_getTag (h_ctxs ?h c) ''error'' = JBool True" "ctx_name (h_ctxs ?h c) = JUndef"
    "getp (ctx_tags (h_ctxs ?h c)) SERVICE_NAME = JUndef" for c
    by (simp_all add: one_span_heap_def new_SpanContext_def ctx_getTag_def getp_def SERVICE_NAME_def)
  then obtain es' h' f where r:
    "span_format (\<lambda>_. []) 1 0 True None (no_extra_services, ?h) = Inr (es', h', f)"
    by (cases "span_format (\<lambda>_. []) 1 0 True None (no_extra_services, ?h)")
      (auto simp: span_format_def sf_extractTags_def lower_opt_def Let_def)
  then show ?thesis
    using format_bounded_error_flag [OF r] by (auto simp: format_error_def ctx)
qed


end
