(* ===== verification/SpanLife.thy ===== *)
theory SpanLife
  imports SpanSampler HttpOtel
begin

text \<open>
  The life of a span (\<open>opentracing/span.js\<close>) on the heap of shared contexts, traces and sampling
  objects: creation of its context, tags, links, events, the source of its service name
  (\<open>service-naming/source-resolver.js\<close>). Finishing it is in the theory of the processor.

  One number of \<open>h_next\<close> names everything one creation allocates: the span, its context, and for
  a root its trace and sampling objects. What the outside gives is the record \<open>env\<close>, read once per
  operation: the clocks, a fresh identifier, the rate limiter, \<open>String\<close> of objects, the URL
  parser. Logs, channels, runtime metrics and the registries for leaked spans are left out; the
  major version is 6.
\<close>

record 'l env =
  e_api :: "'l limiter_api"
  e_str :: "jsval \<Rightarrow> string"
  e_url :: "string \<Rightarrow> parsed_url option"
  e_limit_now :: int
  e_now :: rat
  e_date :: rat
  e_id :: ident
  e_pid :: int
  e_standalone :: bool

text \<open>\<open>e_now\<close> is \<open>performance.now()\<close>, \<open>e_date\<close> is \<open>Date.now()\<close>.\<close>

record tracer_config =
  tc_service :: string
  tc_tags :: jsval
  tc_hostname :: jsval
  tc_128bit :: bool
  tc_behavior :: string
  tc_flushMinSpans :: nat
  tc_enabled :: bool
  tc_apm :: bool
  tc_otel :: bool
  tc_stats :: bool
  tc_processTags :: "string option"
  tc_git :: "(jsval \<times> jsval) option"

record 'l world =
  w_heap :: heap
  w_ps :: "'l priority_sampler"
  w_rules :: "'l sampling_rule list"
  w_es :: extra_services
  w_counts :: "((string \<times> string) \<times> nat) list"
  w_exported :: "formatted_span list list"
  w_stats :: "formatted_span list"
  w_kill :: bool

definition on_heap :: "(heap \<Rightarrow> heap) \<Rightarrow> 'l world \<Rightarrow> 'l world" where
  "on_heap f w = w\<lparr>w_heap := f (w_heap w)\<rparr>"

lemma on_heap_sel [simp]:
  "w_heap (on_heap f w) = f (w_heap w)" "w_exported (on_heap f w) = w_exported w"
  "w_kill (on_heap f w) = w_kill w" "w_stats (on_heap f w) = w_stats w"
  by (simp_all add: on_heap_def)

text \<open>\<open>getIntegrationCounter(event, integration).inc()\<close>\<close>

definition inc_counter :: "string \<Rightarrow> string \<Rightarrow> 'l world \<Rightarrow> 'l world" where
  "inc_counter event integration w =
     (let n = (case map_of (w_counts w) (event, integration) of Some n \<Rightarrow> n | None \<Rightarrow> 0)
      in w\<lparr>w_counts := AList.update (event, integration) (n + 1) (w_counts w)\<rparr>)"

lemma inc_counter_sel [simp]:
  "w_heap (inc_counter e i w) = w_heap w" "w_exported (inc_counter e i w) = w_exported w"
  "w_kill (inc_counter e i w) = w_kill w"
  by (simp_all add: inc_counter_def Let_def)

subsection \<open>The sampler of the tracer\<close>

definition root_service :: "heap \<Rightarrow> nat \<Rightarrow> string" where
  "root_service h c = (case root_span h c of Some s \<Rightarrow> sp_service (h_spans h s) | None \<Rightarrow> [])"

definition tracer_sample :: "'l env \<Rightarrow> nat \<Rightarrow> bool \<Rightarrow> 'l world \<Rightarrow> 'l world" where
  "tracer_sample env c auto w =
     (let (ps, h) =
        (if e_standalone env then ts_sample (e_api env) (e_limit_now env) (Some c) auto (w_ps w, w_heap w)
         else ps_sample (e_api env) (e_str env) (e_limit_now env) (root_service (w_heap w) c) (Some c) auto
                (w_ps w, w_heap w))
      in w\<lparr>w_ps := ps, w_heap := h\<rparr>)"

lemma tracer_sample_frame:
  "h_ctxs (w_heap (tracer_sample env c auto w)) = h_ctxs (w_heap w) \<and>
   h_spans (w_heap (tracer_sample env c auto w)) = h_spans (w_heap w) \<and>
   same_books (w_heap w) (w_heap (tracer_sample env c auto w)) \<and>
   w_exported (tracer_sample env c auto w) = w_exported w \<and>
   w_kill (tracer_sample env c auto w) = w_kill w"
  using auto_policy.sample_frame [of "e_api env" "e_str env" "e_limit_now env" "root_service (w_heap w) c"
      "Some c" auto "(w_ps w, w_heap w)"]
    standalone_policy.sample_frame [of "e_api env" "e_limit_now env" "Some c" auto "(w_ps w, w_heap w)"]
  by (auto simp: tracer_sample_def ps_sample_def ts_sample_def Let_def split: prod.splits)

subsection \<open>Attributes\<close>

text \<open>The own enumerable properties of a value, the elements of an array under their indices\<close>

definition enum_props :: "jsval \<Rightarrow> jsobj" where
  "enum_props v = (case v of
      JObj ps \<Rightarrow> ps
    | JErr m n s ps \<Rightarrow> ps
    | JArr xs \<Rightarrow> zip (map show_nat [0..<length xs]) xs
    | _ \<Rightarrow> [])"

definition ALLOWED :: "jsval \<Rightarrow> bool" where
  "ALLOWED v = (case v of JStr _ \<Rightarrow> True | JNum _ \<Rightarrow> True | JBool _ \<Rightarrow> True | _ \<Rightarrow> False)"

text \<open>\<open>addArrayOrScalarAttribute(out, key, value)\<close> and the loop over the elements of an array\<close>

fun addArrayOrScalarAttribute ::
    "(jsval \<Rightarrow> string) \<Rightarrow> string \<Rightarrow> jsval \<Rightarrow> (string \<times> string) list option \<Rightarrow> (string \<times> string) list option"
  and add_elements ::
    "(jsval \<Rightarrow> string) \<Rightarrow> string \<Rightarrow> nat \<Rightarrow> jsval list \<Rightarrow> (string \<times> string) list option \<Rightarrow> (string \<times> string) list option"
where
  "addArrayOrScalarAttribute str key (JArr xs) out = add_elements str key 0 xs out"
| "addArrayOrScalarAttribute str key v out =
     (if ALLOWED v then
        Some (AList.update key (js_string str v) (case out of Some m \<Rightarrow> m | None \<Rightarrow> []))
      else out)"
| "add_elements str key i [] out = out"
| "add_elements str key i (x # xs) out =
     add_elements str key (i + 1) xs (addArrayOrScalarAttribute str (key @ ''.'' @ show_nat i) x out)"

text \<open>Both sanitizers take the attributes, \<open>{}\<close> when missing.\<close>

definition sanitizeAttributes :: "(jsval \<Rightarrow> string) \<Rightarrow> jsobj option \<Rightarrow> (string \<times> string) list option" where
  "sanitizeAttributes str attributes =
     fold (\<lambda>(k, v). addArrayOrScalarAttribute str k v) (case attributes of Some ps \<Rightarrow> ps | None \<Rightarrow> []) None"

definition sanitize_event_attribute :: "string \<times> jsval \<Rightarrow> jsobj option \<Rightarrow> jsobj option" where
  "sanitize_event_attribute kv out =
     (case kv of (k, v) \<Rightarrow>
        (let put = (\<lambda>v. Some (AList.update k v (case out of Some m \<Rightarrow> m | None \<Rightarrow> [])))
         in case v of
              JArr xs \<Rightarrow> put (JArr (filter ALLOWED xs))
            | _ \<Rightarrow> if ALLOWED v then put v else out))"

definition sanitizeEventAttributes :: "jsobj \<Rightarrow> jsobj option" where
  "sanitizeEventAttributes attributes = fold sanitize_event_attribute attributes None"

subsection \<open>Creation\<close>

record span_fields =
  fd_operationName :: jsval
  fd_parent :: "nat option"
  fd_context :: "nat option"
  fd_startTime :: "rat option"
  fd_hostname :: jsval
  fd_128bit :: bool
  fd_integrationName :: string
  fd_links :: "(nat \<times> jsobj option) list"
  fd_tags :: "jsobj option"

text \<open>The upper half of a 128-bit trace id: the second of the start in hexadecimal\<close>

definition tid_tag :: "rat \<Rightarrow> string" where
  "tid_tag startTime =
     pad_end 16 (CHR ''0'') (pad_start 8 (CHR ''0'') (show_radix 16 (nat \<lfloor>startTime / 1000\<rfloor>)))"

definition is_remote :: "heap \<Rightarrow> nat option \<Rightarrow> bool" where
  "is_remote h parent = (case parent of Some p \<Rightarrow> ctx_isRemote (h_ctxs h p) | None \<Rightarrow> False)"

text \<open>
  \<open>_createContext(parent, fields)\<close>, allocating at \<open>n\<close>: the heap and the context. The start time
  of a trace is set when it has none; a context that is made here is not remote.
\<close>

definition root_context :: "tracer_config \<Rightarrow> 'l env \<Rightarrow> span_fields \<Rightarrow> nat option \<Rightarrow> nat \<Rightarrow> heap \<Rightarrow> heap" where
  "root_context cfg env fd dropped n h =
     (let startTime = e_date env;
          t = new_trace\<lparr>t_startTime := startTime,
                t_tags := (if fd_128bit fd then [(TRACE_ID_128, JStr (tid_tag startTime))] else [])\<rparr>;
          ctx = new_SpanContext (e_id env) (Some (e_id env)) n n;
          baggage = (case dropped of Some p \<Rightarrow> ctx_baggage (h_ctxs h p) | None \<Rightarrow> []);
          ctx = (if tc_behavior cfg = ''restart'' then ctx\<lparr>ctx_baggage := baggage\<rparr> else ctx)
      in h\<lparr>h_traces := (h_traces h)(n := t), h_samplings := (h_samplings h)(n := new_sampling),
           h_ctxs := (h_ctxs h)(n := ctx)\<rparr>)"

definition child_context :: "'l env \<Rightarrow> nat \<Rightarrow> nat \<Rightarrow> heap \<Rightarrow> heap" where
  "child_context env p n h =
     (let parent = h_ctxs h p;
          ctx = (new_SpanContext (ctx_traceId parent) (Some (e_id env)) (ctx_sampling parent) (ctx_trace parent))
            \<lparr>ctx_parentId := ctx_spanId parent, ctx_baggage := ctx_baggage parent,
             ctx_tracestate := ctx_tracestate parent\<rparr>
      in upd_ctx n (\<lambda>_. ctx) h)"

definition start_trace :: "'l env \<Rightarrow> nat \<Rightarrow> heap \<Rightarrow> heap" where
  "start_trace env c h =
     set_trace c (\<lambda>t. t\<lparr>t_startTime := (if t_startTime t = 0 then e_date env else t_startTime t),
       t_ticks := (if t_ticks t = 0 then e_now env else t_ticks t)\<rparr>) h"

definition createContext ::
  "tracer_config \<Rightarrow> 'l env \<Rightarrow> span_fields \<Rightarrow> nat \<Rightarrow> heap \<Rightarrow> heap \<times> nat" where
  "createContext cfg env fd n h =
     (let restart = is_remote h (fd_parent fd) \<and> tc_behavior cfg \<noteq> ''continue'';
          dropped = (if restart then fd_parent fd else None);
          parent = (if restart then None else fd_parent fd);
          (h, c) = (case fd_context fd of
                      Some c \<Rightarrow> (h, c)
                    | None \<Rightarrow>
                        (case parent of
                           Some p \<Rightarrow> (child_context env p n h, n)
                         | None \<Rightarrow> (root_context cfg env fd dropped n h, n)))
      in (upd_ctx c (\<lambda>ctx. ctx\<lparr>ctx_isRemote := False\<rparr>) (start_trace env c h), c))"

text \<open>\<open>_getTime()\<close>\<close>

definition getTime :: "'l env \<Rightarrow> heap \<Rightarrow> nat \<Rightarrow> rat" where
  "getTime env h c = t_startTime (trace_of h c) + e_now env - t_ticks (trace_of h c)"

text \<open>The constructor; the span is \<open>n\<close>, the next free number.\<close>

definition integration_of :: "span_fields \<Rightarrow> string" where
  "integration_of fd = (if fd_integrationName fd = [] then ''opentracing'' else fd_integrationName fd)"

definition name_context :: "span_fields \<Rightarrow> ctx \<Rightarrow> ctx" where
  "name_context fd ctx = ctx\<lparr>ctx_name := fd_operationName fd,
     ctx_tags := (case fd_tags fd of Some ps \<Rightarrow> obj_assign (ctx_tags ctx) ps | None \<Rightarrow> ctx_tags ctx),
     ctx_hostname := fd_hostname fd\<rparr>"

definition make_span :: "tracer_config \<Rightarrow> 'l env \<Rightarrow> span_fields \<Rightarrow> nat \<Rightarrow> heap \<Rightarrow> span" where
  "make_span cfg env fd c h =
     \<lparr>sp_ctx = c, sp_name = fd_operationName fd, sp_integrationName = integration_of fd,
      sp_startTime = (case fd_startTime fd of
          Some r \<Rightarrow> if r \<noteq> 0 then r else getTime env h c | None \<Rightarrow> getTime env h c),
      sp_duration = None,
      sp_links = map (\<lambda>(l, a). \<lparr>l_context = l, l_attributes = sanitizeAttributes (e_str env) a\<rparr>) (fd_links fd),
      sp_events = [], sp_service = tc_service cfg, sp_marker = JUndef, sp_meta_struct = JUndef\<rparr>"

definition new_Span ::
  "tracer_config \<Rightarrow> 'l env \<Rightarrow> span_fields \<Rightarrow> 'l world \<Rightarrow> 'l world \<times> nat" where
  "new_Span cfg env fd w =
     (let w = inc_counter ''spans_created'' (integration_of fd) w;
          n = h_next (w_heap w);
          (h, c) = createContext cfg env fd n (w_heap w);
          h = upd_ctx c (name_context fd) h;
          h = set_trace c (\<lambda>t. t\<lparr>started := started t @ [n]\<rparr>) h
      in (w\<lparr>w_heap := (upd_span n (\<lambda>_. make_span cfg env fd c h) h)\<lparr>h_next := n + 1\<rparr>\<rparr>, n))"

subsection \<open>Operations\<close>

definition ctx_of :: "heap \<Rightarrow> nat \<Rightarrow> nat" where
  "ctx_of h s = sp_ctx (h_spans h s)"

definition isSamplingPriorityTag :: "string \<Rightarrow> bool" where
  "isSamplingPriorityTag k \<longleftrightarrow> k = MANUAL_KEEP \<or> k = MANUAL_DROP \<or> k = SAMPLING_PRIORITY"

definition resample :: "'l env \<Rightarrow> nat \<Rightarrow> bool \<Rightarrow> 'l world \<Rightarrow> 'l world" where
  "resample env s may w =
     (let c = ctx_of (w_heap w) s
      in if may \<and> priority (sampling_of (w_heap w) c) = None then tracer_sample env c False w else w)"

definition setTag :: "'l env \<Rightarrow> nat \<Rightarrow> string \<Rightarrow> jsval \<Rightarrow> 'l world \<Rightarrow> 'l world" where
  "setTag env s k v w =
     resample env s (isSamplingPriorityTag k)
       (on_heap (\<lambda>h. upd_ctx (ctx_of h s) (ctx_setTag k v) h) w)"

definition is_array :: "jsval \<Rightarrow> bool" where
  "is_array v = (case v of JArr _ \<Rightarrow> True | _ \<Rightarrow> False)"

definition addTags :: "'l env \<Rightarrow> nat \<Rightarrow> jsval \<Rightarrow> 'l world \<Rightarrow> 'l world" where
  "addTags env s keyValueMap w =
     (if js_typeof keyValueMap = ''object'' \<and> keyValueMap \<noteq> JNull \<and> \<not> is_array keyValueMap then
        (let ps = enum_props keyValueMap
         in resample env s (\<exists>k \<in> set (obj_keys ps). isSamplingPriorityTag k)
              (on_heap (\<lambda>h. upd_ctx (ctx_of h s) (\<lambda>ctx. ctx\<lparr>ctx_tags := obj_assign (ctx_tags ctx) ps\<rparr>) h) w))
      else w)"

definition setOperationName :: "nat \<Rightarrow> jsval \<Rightarrow> 'l world \<Rightarrow> 'l world" where
  "setOperationName s name = on_heap (\<lambda>h. upd_ctx (ctx_of h s) (\<lambda>ctx. ctx\<lparr>ctx_name := name\<rparr>) h)"

definition span_setBaggageItem :: "nat \<Rightarrow> string \<Rightarrow> string \<Rightarrow> 'l world \<Rightarrow> 'l world" where
  "span_setBaggageItem s k v =
     on_heap (\<lambda>h. upd_ctx (ctx_of h s) (\<lambda>ctx. ctx\<lparr>ctx_baggage := AList.update k v (ctx_baggage ctx)\<rparr>) h)"

definition span_getBaggageItem :: "nat \<Rightarrow> string \<Rightarrow> 'l world \<Rightarrow> string option" where
  "span_getBaggageItem s k w = obj_get (ctx_baggage (h_ctxs (w_heap w) (ctx_of (w_heap w) s))) k"

definition span_removeBaggageItem :: "nat \<Rightarrow> string \<Rightarrow> 'l world \<Rightarrow> 'l world" where
  "span_removeBaggageItem s k =
     on_heap (\<lambda>h. upd_ctx (ctx_of h s) (\<lambda>ctx. ctx\<lparr>ctx_baggage := AList.delete k (ctx_baggage ctx)\<rparr>) h)"

definition span_removeAllBaggageItems :: "nat \<Rightarrow> 'l world \<Rightarrow> 'l world" where
  "span_removeAllBaggageItems s = on_heap (\<lambda>h. upd_ctx (ctx_of h s) (\<lambda>ctx. ctx\<lparr>ctx_baggage := []\<rparr>) h)"

definition addLink :: "'l env \<Rightarrow> nat \<Rightarrow> nat \<Rightarrow> jsobj option \<Rightarrow> 'l world \<Rightarrow> 'l world" where
  "addLink env s l attributes =
     on_heap (upd_span s (\<lambda>sp. sp\<lparr>sp_links := sp_links sp @
       [\<lparr>l_context = l, l_attributes = sanitizeAttributes (e_str env) attributes\<rparr>]\<rparr>))"

definition addLinks :: "'l env \<Rightarrow> nat \<Rightarrow> (nat \<times> jsobj option) list \<Rightarrow> 'l world \<Rightarrow> 'l world" where
  "addLinks env s links w = fold (\<lambda>(l, a). addLink env s l a) links w"

text \<open>\<open>addSpanPointer\<close> links to a context of zeros made for it.\<close>

definition addSpanPointer :: "'l env \<Rightarrow> nat \<Rightarrow> string \<Rightarrow> string \<Rightarrow> string \<Rightarrow> 'l world \<Rightarrow> 'l world" where
  "addSpanPointer env s ptrKind ptrDir ptrHash w =
     (let n = h_next (w_heap w);
          w = on_heap (\<lambda>h. h\<lparr>h_traces := (h_traces h)(n := new_trace),
                h_samplings := (h_samplings h)(n := new_sampling),
                h_ctxs := (h_ctxs h)(n := new_SpanContext zeroId (Some zeroId) n n), h_next := n + 1\<rparr>) w
      in addLink env s n
           (Some [(''ptr.kind'', JStr ptrKind), (''ptr.dir'', JStr ptrDir), (''ptr.hash'', JStr ptrHash),
                  (''link.kind'', JStr ''span-pointer'')]) w)"

definition addEvent :: "'l env \<Rightarrow> nat \<Rightarrow> jsval \<Rightarrow> jsval \<Rightarrow> jsval \<Rightarrow> 'l world \<Rightarrow> 'l world" where
  "addEvent env s name attributesOrStartTime startTime w =
     (let isAttributes = (truthy attributesOrStartTime \<and> js_typeof attributesOrStartTime = ''object'');
          attributes = (if isAttributes then sanitizeEventAttributes (enum_props attributesOrStartTime) else None);
          startTime = (if truthy attributesOrStartTime \<and> \<not> isAttributes then attributesOrStartTime else startTime);
          h = w_heap w;
          time = js_or startTime (JNum (Fin (getTime env h (ctx_of h s))))
      in on_heap (upd_span s (\<lambda>sp. sp\<lparr>sp_events := sp_events sp @
           [\<lparr>ev_name = name, ev_attributes = attributes, ev_startTime = time\<rparr>]\<rparr>)) w)"

definition SVC_SRC_KEY :: string where "SVC_SRC_KEY = ''_dd.svc_src''"

definition resolveServiceSource :: "nat \<Rightarrow> string \<Rightarrow> heap \<Rightarrow> heap" where
  "resolveServiceSource s tracerService h =
     (let c = ctx_of h s; ctx = h_ctxs h c; currentService = ctx_getTag ctx SERVICE_NAME
      in if currentService = JStr tracerService then
           (if ctx_getTag ctx SVC_SRC_KEY = JUndef then h else upd_ctx c (ctx_setTag SVC_SRC_KEY JUndef) h)
         else if sp_marker (h_spans h s) = currentService then h
         else upd_ctx c (ctx_setTag SVC_SRC_KEY (JStr ''m'')) h)"

end
