(* ===== verification/SpanProcessor.thy ===== *)
theory SpanProcessor
  imports SpanLife
begin

text \<open>
  The span processor (\<open>span_processor.js\<close>) and the finishing of a span, which calls it: when all
  spans of a trace have finished, or enough of them, the finished ones are sampled, formatted and
  exported as one chunk, and the trace keeps the active ones. An exception in the middle leaves
  the state as it is at that point, so the steps return the state with the exception, if any.

  \<open>finish\<close> and \<open>process\<close> call each other once \<open>killAll\<close> was called. The recursion is bounded
  by fuel; a lemma shows that one more than the number of unfinished spans is enough.
\<close>

definition sample_span :: "'l env \<Rightarrow> nat \<Rightarrow> 'l world \<Rightarrow> 'l world" where
  "sample_span env c w =
     (let w = tracer_sample env c True w;
          (rules, h) = span_sample (e_api env) (e_limit_now env) c (w_rules w, w_heap w)
      in w\<lparr>w_rules := rules, w_heap := h\<rparr>)"

definition SCI_REPOSITORY_URL :: string where "SCI_REPOSITORY_URL = ''_dd.git.repository_url''"
definition SCI_COMMIT_SHA :: string where "SCI_COMMIT_SHA = ''_dd.git.commit.sha''"
definition APM_TRACING_ENABLED_KEY :: string where "APM_TRACING_ENABLED_KEY = ''_dd.apm.enabled''"

text \<open>\<open>git_metadata_tagger.js\<close>; the metadata is there when the tagger is enabled.\<close>

definition tagGitMetadata :: "(jsval \<times> jsval) option \<Rightarrow> nat \<Rightarrow> heap \<Rightarrow> heap" where
  "tagGitMetadata git c h =
     (case git of
        None \<Rightarrow> h
      | Some (commitSHA, repositoryUrl) \<Rightarrow>
          set_trace c (\<lambda>t. t\<lparr>t_tags := AList.update SCI_REPOSITORY_URL repositoryUrl
            (AList.update SCI_COMMIT_SHA commitSHA (t_tags t))\<rparr>) h)"

text \<open>
  The loop over the started spans: the active ones and the formatted ones. The flag says whether
  the next finished span is the first of the chunk.
\<close>

fun format_chunk ::
  "tracer_config \<Rightarrow> 'l env \<Rightarrow> bool \<Rightarrow> nat list \<Rightarrow> 'l world \<Rightarrow>
   'l world \<times> (js_error + nat list \<times> formatted_span list)" where
  "format_chunk cfg env isFirst [] w = (w, ok ([], []))"
| "format_chunk cfg env isFirst (s # ss) w =
     (if sp_duration (h_spans (w_heap w) s) = None then
        (let (w, r) = format_chunk cfg env isFirst ss w
         in (w, try_then r (\<lambda>(active, formatted). ok (s # active, formatted))))
      else case span_format (e_str env) (e_pid env) s isFirst (tc_processTags cfg) (w_es w, w_heap w) of
             Inl e \<Rightarrow> (w, throw e)
           | Inr (es, h, f) \<Rightarrow>
               (let f = (if tc_apm cfg then f else set_metric APM_TRACING_ENABLED_KEY (JNum (Fin 0)) f);
                    w = w\<lparr>w_es := es, w_heap := h, w_stats := (if tc_stats cfg then w_stats w @ [f] else w_stats w)\<rparr>;
                    f = (if tc_otel cfg then applyHttpOtelSemantics (e_url env) f else f);
                    (w, r) = format_chunk cfg env False ss w
                in (w, try_then r (\<lambda>(active, formatted). ok (active, f # formatted)))))"

text \<open>\<open>_erase(trace, active)\<close>; the checks of the experimental state tracking only log.\<close>

definition erase :: "nat \<Rightarrow> nat list \<Rightarrow> heap \<Rightarrow> heap" where
  "erase t active h = upd_trace t (\<lambda>tr. tr\<lparr>started := active, finished := []\<rparr>) h"

definition flush_due :: "tracer_config \<Rightarrow> trace \<Rightarrow> bool" where
  "flush_due cfg t \<longleftrightarrow> length (started t) = length (finished t) \<or> tc_flushMinSpans cfg \<le> length (finished t)"

definition flush_trace ::
  "tracer_config \<Rightarrow> 'l env \<Rightarrow> nat \<Rightarrow> 'l world \<Rightarrow> 'l world \<times> js_error option" where
  "flush_trace cfg env s w =
     (let c = ctx_of (w_heap w) s; t = ctx_trace (h_ctxs (w_heap w) c);
          ss = started (h_traces (w_heap w) t);
          w = on_heap (tagGitMetadata (tc_git cfg) c) (sample_span env c w);
          (w, r) = format_chunk cfg env True ss w
      in case r of
           Inl e \<Rightarrow> (w, Some e)
         | Inr (active, formatted) \<Rightarrow>
             (let w = (if formatted \<noteq> [] \<and> t_isRecording (h_traces (w_heap w) t) \<noteq> Some False
                       then w\<lparr>w_exported := w_exported w @ [formatted]\<rparr> else w)
              in (on_heap (erase t active) w, None)))"

text \<open>
  \<open>process(span)\<close> up to the loop of \<open>killAll\<close>; the last component is what that loop goes
  through, the spans that were started on entry, or nothing after an early return.
\<close>

definition process_span ::
  "tracer_config \<Rightarrow> 'l env \<Rightarrow> nat \<Rightarrow> 'l world \<Rightarrow> 'l world \<times> js_error option \<times> nat list" where
  "process_span cfg env s w =
     (let t = ctx_trace (h_ctxs (w_heap w) (ctx_of (w_heap w) s));
          tr = h_traces (w_heap w) t
      in if t_record tr = Some False then (w, None, [])
         else if \<not> tc_enabled cfg then (on_heap (erase t []) w, None, [])
         else if flush_due cfg tr then
           (let (w, e) = flush_trace cfg env s w in (w, e, started tr))
         else (w, None, started tr))"

subsection \<open>Finishing a span\<close>

text \<open>\<open>Number.parseFloat(finishTime) || this._getTime()\<close>\<close>

definition finish_time :: "'l env \<Rightarrow> heap \<Rightarrow> nat \<Rightarrow> jsval \<Rightarrow> jsnum" where
  "finish_time env h s finishTime =
     (let now = Fin (getTime env h (ctx_of h s));
          n = parse_float (js_string (e_str env) finishTime)
      in if finishTime = JUndef then now
         else case finishTime of
                JNum m \<Rightarrow> if num_truthy m then m else now
              | _ \<Rightarrow> if num_truthy n then n else now)"

definition minus_start :: "jsnum \<Rightarrow> rat \<Rightarrow> jsnum" where
  "minus_start n start = (case n of Fin r \<Rightarrow> Fin (r - start) | _ \<Rightarrow> n)"

definition mark_finished :: "tracer_config \<Rightarrow> 'l env \<Rightarrow> nat \<Rightarrow> jsval \<Rightarrow> 'l world \<Rightarrow> 'l world" where
  "mark_finished cfg env s finishTime w =
     (let integration = sp_integrationName (h_spans (w_heap w) s);
          w = inc_counter ''spans_finished'' integration w;
          c = ctx_of (w_heap w) s;
          h = upd_ctx c (ctx_setTag ''_dd.integration'' (JStr integration)) (w_heap w);
          h = resolveServiceSource s (tc_service cfg) h;
          d = minus_start (finish_time env h s finishTime) (sp_startTime (h_spans h s));
          h = upd_span s (\<lambda>sp. sp\<lparr>sp_duration := Some d\<rparr>) h;
          h = set_trace c (\<lambda>t. t\<lparr>finished := finished t @ [s]\<rparr>) h
      in w\<lparr>w_heap := upd_ctx c (\<lambda>ctx. ctx\<lparr>ctx_isFinished := True\<rparr>) h\<rparr>)"

text \<open>The loop over spans of \<open>killAll\<close>; \<open>None\<close> when the fuel has run out.\<close>

fun each_span ::
  "(nat \<Rightarrow> 'w \<Rightarrow> ('w \<times> js_error option) option) \<Rightarrow> nat list \<Rightarrow> 'w \<Rightarrow> ('w \<times> js_error option) option" where
  "each_span f [] w = Some (w, None)"
| "each_span f (s # ss) w =
     (case f s w of
        None \<Rightarrow> None
      | Some (w, Some e) \<Rightarrow> Some (w, Some e)
      | Some (w, None) \<Rightarrow> each_span f ss w)"

primrec finish ::
  "nat \<Rightarrow> tracer_config \<Rightarrow> 'l env \<Rightarrow> nat \<Rightarrow> jsval \<Rightarrow> 'l world \<Rightarrow> ('l world \<times> js_error option) option" where
  "finish 0 cfg env s finishTime w = None"
| "finish (Suc fuel) cfg env s finishTime w =
     (if sp_duration (h_spans (w_heap w) s) \<noteq> None then Some (w, None)
      else (let (w, e, rest) = process_span cfg env s (mark_finished cfg env s finishTime w)
            in case e of
                 Some _ \<Rightarrow> Some (w, e)
               | None \<Rightarrow>
                   if w_kill w then each_span (\<lambda>s w. finish fuel cfg env s JUndef w) rest w
                   else Some (w, None)))"

definition killAll :: "'l world \<Rightarrow> 'l world" where
  "killAll w = w\<lparr>w_kill := True\<rparr>"

subsection \<open>What most operations leave alone\<close>

text \<open>The spans, the trace each context is on, and the books of every trace\<close>

definition same_life :: "heap \<Rightarrow> heap \<Rightarrow> bool" where
  "same_life h h' \<longleftrightarrow> h_spans h' = h_spans h \<and>
     (\<forall>c. ctx_trace (h_ctxs h' c) = ctx_trace (h_ctxs h c) \<and> ctx_spanId (h_ctxs h' c) = ctx_spanId (h_ctxs h c)) \<and>
     same_books h h'"

lemma same_life_refl [simp]: "same_life h h"
  by (simp add: same_life_def same_books_refl)

lemma same_life_trans: "same_life h1 h2 \<Longrightarrow> same_life h2 h3 \<Longrightarrow> same_life h1 h3"
  by (auto simp: same_life_def intro: same_books_trans)

lemma same_life_upd_ctx:
  "(\<And>x. ctx_trace (f x) = ctx_trace x \<and> ctx_spanId (f x) = ctx_spanId x) \<Longrightarrow> same_life h (upd_ctx c f h)"
  by (simp add: same_life_def same_books_def)

lemma same_life_set_tag [simp]: "same_life h (upd_ctx c (ctx_setTag k v) h)"
  by (rule same_life_upd_ctx) (simp add: ctx_setTag_def)

lemma same_life_tracer_sample: "same_life (w_heap w) (w_heap (tracer_sample env c auto w))"
  using tracer_sample_frame [of env c auto w] by (simp add: same_life_def)

lemma span_sample_one_life: "same_life (snd st) (snd (span_sample_one api now tid s st))"
  by (auto simp: span_sample_one_def Let_def same_life_def same_books_def split: option.splits prod.splits)

lemma span_sample_life: "same_life (snd st) (snd (span_sample api now c st))"
proof -
  have "same_life (snd st) (snd (fold (span_sample_one api now tid) ss st))" for tid ss
    by (rule fold_preserves [where P = "\<lambda>x. same_life (snd st) (snd x)"])
      (auto intro: same_life_trans span_sample_one_life)
  then show ?thesis by (simp add: span_sample_def Let_def)
qed

lemma sample_span_frame:
  "same_life (w_heap w) (w_heap (sample_span env c w)) \<and>
   w_exported (sample_span env c w) = w_exported w \<and> w_kill (sample_span env c w) = w_kill w"
proof -
  let ?w = "tracer_sample env c True w"
  have "same_life (w_heap ?w) (snd (span_sample (e_api env) (e_limit_now env) c (w_rules ?w, w_heap ?w)))"
    using span_sample_life [of "(w_rules ?w, w_heap ?w)"] by simp
  then show ?thesis
    using same_life_trans [OF same_life_tracer_sample] tracer_sample_frame [of env c True w]
    by (auto simp: sample_span_def Let_def split: prod.splits)
qed

lemma tagGitMetadata_life: "same_life h (tagGitMetadata git c h)"
  by (auto simp: tagGitMetadata_def same_life_def same_books_def split: option.splits prod.splits)

lemma base_tagged_life: "same_life h (base_tagged s h)"
  by (simp add: base_tagged_def Let_def)

lemma resolveServiceSource_life: "same_life h (resolveServiceSource s sv h)"
  by (simp add: resolveServiceSource_def Let_def)

definition unfinished :: "heap \<Rightarrow> nat \<Rightarrow> bool" where
  "unfinished h s \<longleftrightarrow> sp_duration (h_spans h s) = None"

definition span_trace :: "heap \<Rightarrow> nat \<Rightarrow> nat" where
  "span_trace h s = ctx_trace (h_ctxs h (ctx_of h s))"

definition span_id_of :: "heap \<Rightarrow> nat \<Rightarrow> ident option" where
  "span_id_of h s = ctx_spanId (h_ctxs h (ctx_of h s))"

lemma same_life_view:
  assumes "same_life h h'"
  shows "unfinished h' s = unfinished h s" "span_trace h' s = span_trace h s" "span_id_of h' s = span_id_of h s"
    "started (h_traces h' t) = started (h_traces h t)" "finished (h_traces h' t) = finished (h_traces h t)"
    "t_record (h_traces h' t) = t_record (h_traces h t)"
    "t_isRecording (h_traces h' t) = t_isRecording (h_traces h t)" "h_next h' = h_next h"
  using assms
  by (simp_all add: same_life_def same_books_def unfinished_def span_trace_def span_id_of_def ctx_of_def)

subsection \<open>One chunk\<close>

lemma otel_ids: "f_ids (applyHttpOtelSemantics new_URL f) = f_ids f"
  by (simp add: applyHttpOtelSemantics_def otel_rename_def Let_def f_ids_def split: option.splits)

lemma format_chunk_frame:
  "same_life (w_heap w) (w_heap (fst (format_chunk cfg env isFirst ss w))) \<and>
   w_exported (fst (format_chunk cfg env isFirst ss w)) = w_exported w \<and>
   w_kill (fst (format_chunk cfg env isFirst ss w)) = w_kill w"
proof (induction ss arbitrary: isFirst w)
  case Nil
  then show ?case by simp
next
  case (Cons s ss)
  show ?case
  proof (cases "sp_duration (h_spans (w_heap w) s) = None")
    case True
    then show ?thesis using Cons [where isFirst = isFirst and w = w]
      by (cases "format_chunk cfg env isFirst ss w") simp
  next
    case False
    then obtain d where d: "sp_duration (h_spans (w_heap w) s) = Some d" by auto
    show ?thesis
    proof (cases "span_format (e_str env) (e_pid env) s isFirst (tc_processTags cfg) (w_es w, w_heap w)")
      case (Inl e)
      then show ?thesis using Inl d by simp
    next
      case (Inr r)
      obtain es h f where r: "r = (es, h, f)" by (cases r)
      have life: "same_life (w_heap w) h"
        using span_format_heap Inr [unfolded r] base_tagged_life by metis
      define w' where "w' = w\<lparr>w_es := es, w_heap := h, w_stats :=
        (if tc_stats cfg
         then w_stats w @ [if tc_apm cfg then f else set_metric APM_TRACING_ENABLED_KEY (JNum (Fin 0)) f]
         else w_stats w)\<rparr>"
      have "fst (format_chunk cfg env isFirst (s # ss) w) = fst (format_chunk cfg env False ss w')"
        using d Inr r by (simp add: Let_def w'_def split: prod.splits)
      moreover have "w_heap w' = h" "w_exported w' = w_exported w" "w_kill w' = w_kill w"
        by (simp_all add: w'_def)
      ultimately show ?thesis
        using Cons [where isFirst = False and w = w'] same_life_trans [OF life] by simp
    qed
  qed
qed

lemma format_chunk_ok:
  "format_chunk cfg env isFirst ss w = (w', Inr (active, formatted)) \<Longrightarrow>
     active = filter (unfinished (w_heap w)) ss \<and>
     map f_span_id formatted = map (span_id_of (w_heap w)) (filter (\<lambda>s. \<not> unfinished (w_heap w) s) ss)"
proof (induction ss arbitrary: isFirst w w' active formatted)
  case Nil
  then show ?case by simp
next
  case (Cons s ss)
  show ?case
  proof (cases "sp_duration (h_spans (w_heap w) s) = None")
    case True
    obtain w2 r2 where rec: "format_chunk cfg env isFirst ss w = (w2, r2)" by (cases "format_chunk cfg env isFirst ss w")
    then obtain a where "r2 = Inr (a, formatted)" "active = s # a"
      using True Cons.prems by (auto simp: try_then_eq_Inr)
    then show ?thesis using Cons.IH [where isFirst = isFirst and w = w and w' = w2 and active = a and formatted = formatted] rec True by (simp add: unfinished_def)
  next
    case False
    then obtain d where d: "sp_duration (h_spans (w_heap w) s) = Some d" by auto
    show ?thesis
    proof (cases "span_format (e_str env) (e_pid env) s isFirst (tc_processTags cfg) (w_es w, w_heap w)")
      case (Inl e)
      then show ?thesis using Inl d Cons.prems by simp
    next
      case (Inr r)
      obtain es h f where r: "r = (es, h, f)" by (cases r)
      have life: "same_life (w_heap w) h"
        using span_format_heap Inr [unfolded r] base_tagged_life by metis
      let ?f = "if tc_apm cfg then f else set_metric APM_TRACING_ENABLED_KEY (JNum (Fin 0)) f"
      let ?g = "if tc_otel cfg then applyHttpOtelSemantics (e_url env) ?f else ?f"
      define w1 where "w1 = w\<lparr>w_es := es, w_heap := h, w_stats :=
        (if tc_stats cfg then w_stats w @ [?f] else w_stats w)\<rparr>"
      obtain w2 r2 where rec: "format_chunk cfg env False ss w1 = (w2, r2)" by (cases "format_chunk cfg env False ss w1")
      then have "(w', Inr (active, formatted)) = (w2, try_then r2 (\<lambda>(active, formatted). ok (active, ?g # formatted)))"
        using d Inr r Cons.prems by (simp add: Let_def w1_def)
      then obtain fs where fs: "r2 = Inr (active, fs)" "formatted = ?g # fs"
        by (cases r2) auto
      have "f_ids ?g = f_ids f" by (simp add: otel_ids)
      then have "f_ids ?g = f_ids (formatSpan (e_str env) (w_heap w) s)"
        using span_format_ids Inr [unfolded r] by metis
      then have "f_span_id ?g = span_id_of (w_heap w) s"
        by (simp add: f_ids_def formatSpan_def span_id_of_def ctx_of_def Let_def)
      moreover have "w_heap w1 = h" by (simp add: w1_def)
      moreover have "unfinished h = unfinished (w_heap w)" "span_id_of h = span_id_of (w_heap w)"
        using same_life_view(1,3) [OF life] by auto
      moreover have "\<not> unfinished (w_heap w) s" by (simp add: unfinished_def d)
      ultimately show ?thesis
        using Cons.IH [where isFirst = False and w = w1 and w' = w2 and active = active and formatted = fs] rec fs
        by simp
    qed
  qed
qed

text \<open>A chunk of spans whose service names are text, or missing, is formatted without an exception.\<close>

definition services_ok :: "heap \<Rightarrow> nat list \<Rightarrow> bool" where
  "services_ok h ss \<longleftrightarrow> (\<forall>s \<in> set ss. service_ok (ctx_getTag (h_ctxs h (ctx_of h s)) SERVICE_NAME))"

lemma services_ok_cong:
  assumes "h_spans h' = h_spans h" "\<And>c. ctx_getTag (h_ctxs h' c) SERVICE_NAME = ctx_getTag (h_ctxs h c) SERVICE_NAME"
  shows "services_ok h' ss = services_ok h ss"
  using assms by (simp add: services_ok_def ctx_of_def)

lemma span_sample_tags:
  "ctx_getTag (h_ctxs (snd (span_sample api now c st)) x) k = ctx_getTag (h_ctxs (snd st) x) k"
proof -
  have one: "ctx_tags (h_ctxs (snd (span_sample_one api now tid s st)) x) = ctx_tags (h_ctxs (snd st) x)"
    for tid s st
    by (auto simp: span_sample_one_def Let_def split: option.splits prod.splits)
  have "ctx_tags (h_ctxs (snd (fold (span_sample_one api now tid) ss st)) x) = ctx_tags (h_ctxs (snd st) x)"
    for tid ss
    by (rule fold_preserves [where P = "\<lambda>y. ctx_tags (h_ctxs (snd y) x) = ctx_tags (h_ctxs (snd st) x)"])
      (simp_all add: one)
  then show ?thesis by (simp add: span_sample_def Let_def ctx_getTag_def)
qed

lemma sample_span_tags:
  "ctx_getTag (h_ctxs (w_heap (sample_span env c w)) x) k = ctx_getTag (h_ctxs (w_heap w) x) k"
  using span_sample_tags [of "e_api env" "e_limit_now env" c
      "(w_rules (tracer_sample env c True w), w_heap (tracer_sample env c True w))" x k]
    tracer_sample_frame [of env c True w]
  by (auto simp: sample_span_def Let_def split: prod.splits)

lemma format_chunk_total:
  "services_ok (w_heap w) ss \<Longrightarrow> \<exists>w' r. format_chunk cfg env isFirst ss w = (w', Inr r)"
proof (induction ss arbitrary: isFirst w)
  case Nil
  then show ?case by simp
next
  case (Cons s ss)
  have ok: "services_ok (w_heap w) ss" using Cons.prems by (simp add: services_ok_def)
  show ?case
  proof (cases "sp_duration (h_spans (w_heap w) s)")
    case None
    obtain w' a b where "format_chunk cfg env isFirst ss w = (w', Inr (a, b))"
      using Cons.IH [OF ok, where isFirst = isFirst] by auto
    then show ?thesis using None by simp
  next
    case (Some d)
    obtain es h f where f: "span_format (e_str env) (e_pid env) s isFirst (tc_processTags cfg) (w_es w, w_heap w) = Inr (es, h, f)"
      using span_format_total Cons.prems by (metis list.set_intros(1) services_ok_def ctx_of_def)
    have h: "h = base_tagged s (w_heap w)" by (rule span_format_heap [OF f])
    have "services_ok h ss = services_ok (w_heap w) ss"
    proof (rule services_ok_cong)
      show "h_spans h = h_spans (w_heap w)" using base_tagged_life [of "w_heap w" s] by (simp add: h same_life_def)
      show "ctx_getTag (h_ctxs h c) SERVICE_NAME = ctx_getTag (h_ctxs (w_heap w) c) SERVICE_NAME" for c
        by (simp add: h base_tagged_ctx SERVICE_NAME_def BASE_SERVICE_def)
    qed
    moreover define w1 where "w1 = w\<lparr>w_es := es, w_heap := h, w_stats :=
        (if tc_stats cfg
         then w_stats w @ [if tc_apm cfg then f else set_metric APM_TRACING_ENABLED_KEY (JNum (Fin 0)) f]
         else w_stats w)\<rparr>"
    ultimately obtain w' a b where "format_chunk cfg env False ss w1 = (w', Inr (a, b))"
      using Cons.IH [of w1, where isFirst = False] ok by (auto simp: w1_def)
    then show ?thesis using Some f by (simp add: Let_def flip: w1_def)
  qed
qed

lemma flush_trace_total:
  assumes "services_ok (w_heap w) (started (h_traces (w_heap w) (span_trace (w_heap w) s)))"
  shows "\<exists>w'. flush_trace cfg env s w = (w', None)"
proof -
  let ?c = "ctx_of (w_heap w) s" and ?ss = "started (h_traces (w_heap w) (span_trace (w_heap w) s))"
  define w1 where "w1 = on_heap (tagGitMetadata (tc_git cfg) ?c) (sample_span env ?c w)"
  have "h_ctxs (tagGitMetadata git c h) = h_ctxs h" for git c h
    by (simp add: tagGitMetadata_def split: option.splits prod.splits)
  moreover have "h_spans (w_heap w1) = h_spans (w_heap w)"
    using sample_span_frame [of w env ?c] tagGitMetadata_life [of "w_heap (sample_span env ?c w)" "tc_git cfg" ?c]
    by (simp add: w1_def same_life_def)
  ultimately have "services_ok (w_heap w1) ?ss"
    using assms services_ok_cong [of "w_heap w1" "w_heap w" ?ss] by (simp add: w1_def sample_span_tags)
  then obtain w2 a b where "format_chunk cfg env True ?ss w1 = (w2, Inr (a, b))"
    using format_chunk_total [of w1 ?ss cfg env True] by auto
  then show ?thesis by (simp add: flush_trace_def Let_def span_trace_def flip: w1_def)
qed

subsection \<open>One call of the processor\<close>

lemma flush_trace_result:
  assumes "flush_trace cfg env s w = (w', e)"
  shows "w_kill w' = w_kill w \<and>
    (\<exists>g. same_life (w_heap w) g \<and>
      (case e of
         Some _ \<Rightarrow> w_heap w' = g \<and> w_exported w' = w_exported w
       | None \<Rightarrow>
           (let t = span_trace (w_heap w) s; ss = started (h_traces (w_heap w) t);
                done = filter (\<lambda>s. \<not> unfinished (w_heap w) s) ss
            in w_heap w' = erase t (filter (unfinished (w_heap w)) ss) g \<and>
               (\<exists>chunk. map f_span_id chunk = map (span_id_of (w_heap w)) done \<and>
                  w_exported w' = w_exported w @
                    (if done \<noteq> [] \<and> t_isRecording (h_traces (w_heap w) t) \<noteq> Some False then [chunk] else [])))))"
proof -
  let ?c = "ctx_of (w_heap w) s" and ?t = "span_trace (w_heap w) s"
  let ?ss = "started (h_traces (w_heap w) ?t)"
  define w1 where "w1 = on_heap (tagGitMetadata (tc_git cfg) ?c) (sample_span env ?c w)"
  have l1: "same_life (w_heap w) (w_heap w1)" "w_exported w1 = w_exported w" "w_kill w1 = w_kill w"
    using sample_span_frame [of w env ?c] same_life_trans [OF _ tagGitMetadata_life]
    by (simp_all add: w1_def)
  obtain w2 r where r: "format_chunk cfg env True ?ss w1 = (w2, r)" by (cases "format_chunk cfg env True ?ss w1")
  have l2: "same_life (w_heap w) (w_heap w2)" "w_exported w2 = w_exported w" "w_kill w2 = w_kill w"
    using format_chunk_frame [of w1 cfg env True ?ss] r l1 same_life_trans [OF l1(1)] by simp_all
  have same: "unfinished (w_heap w1) = unfinished (w_heap w)" "span_id_of (w_heap w1) = span_id_of (w_heap w)"
    using same_life_view(1,3) [OF l1(1)] by auto
  show ?thesis
  proof (cases r)
    case (Inl x)
    then have "(w', e) = (w2, Some x)"
      using assms r by (simp add: flush_trace_def Let_def span_trace_def flip: w1_def)
    then show ?thesis using l2 by auto
  next
    case (Inr p)
    obtain active chunk where p: "p = (active, chunk)" by (cases p)
    have ok: "active = filter (unfinished (w_heap w)) ?ss"
      "map f_span_id chunk = map (span_id_of (w_heap w)) (filter (\<lambda>s. \<not> unfinished (w_heap w) s) ?ss)"
      using format_chunk_ok [of cfg env True ?ss w1 w2 active chunk] r Inr p same by simp_all
    have ne: "chunk = [] \<longleftrightarrow> filter (\<lambda>s. \<not> unfinished (w_heap w) s) ?ss = []"
      using ok(2) by (metis map_is_Nil_conv)
    have rec: "t_isRecording (h_traces (w_heap w2) ?t) = t_isRecording (h_traces (w_heap w) ?t)"
      by (rule same_life_view(7) [OF l2(1)])
    have "(w', e) = (on_heap (erase ?t active)
        (if chunk \<noteq> [] \<and> t_isRecording (h_traces (w_heap w2) ?t) \<noteq> Some False
         then w2\<lparr>w_exported := w_exported w2 @ [chunk]\<rparr> else w2), None)"
      using assms r Inr p by (simp add: flush_trace_def Let_def span_trace_def flip: w1_def)
    then have w': "w_heap w' = erase ?t active (w_heap w2)" "w_kill w' = w_kill w" "e = None"
      "w_exported w' = w_exported w @
         (if chunk \<noteq> [] \<and> t_isRecording (h_traces (w_heap w) ?t) \<noteq> Some False then [chunk] else [])"
      using l2 rec by simp_all
    show ?thesis
      unfolding Let_def w'(3) option.case
      using l2(1) w' ok ne by (intro conjI exI [of _ "w_heap w2"] exI [of _ chunk]) simp_all
  qed
qed

lemma process_span_result:
  assumes "process_span cfg env s w = (w', e, rest)" and "tc_enabled cfg"
  shows "w_kill w' = w_kill w \<and>
    (\<exists>g. same_life (w_heap w) g \<and>
      (w_heap w' = g \<or>
       (let t = span_trace (w_heap w) s
        in w_heap w' = erase t (filter (unfinished (w_heap w)) (started (h_traces (w_heap w) t))) g))) \<and>
    set rest \<subseteq> set (started (h_traces (w_heap w) (span_trace (w_heap w) s)))"
proof (cases "flush_due cfg (h_traces (w_heap w) (span_trace (w_heap w) s)) \<and>
    t_record (h_traces (w_heap w) (span_trace (w_heap w) s)) \<noteq> Some False")
  case True
  obtain w2 e2 where f: "flush_trace cfg env s w = (w2, e2)" by (cases "flush_trace cfg env s w")
  then have "w' = w2" "rest = started (h_traces (w_heap w) (span_trace (w_heap w) s))"
    using assms True by (simp_all add: process_span_def Let_def span_trace_def)
  then show ?thesis
    using flush_trace_result [OF f] by (cases e2) (auto simp: Let_def)
next
  case False
  then have "w' = w" "set rest \<subseteq> set (started (h_traces (w_heap w) (span_trace (w_heap w) s)))"
    using assms by (auto simp: process_span_def Let_def span_trace_def split: if_splits)
  then show ?thesis by (intro conjI exI [of _ "w_heap w"]) simp_all
qed

subsection \<open>The invariant of the books\<close>

text \<open>
  \<open>S\<close> holds the spans created so far. The books of a trace list each of its spans at most once;
  the finished list is exactly the finished part of the started one; and no unfinished span is
  ever lost from the trace it is on.
\<close>

definition books_ok :: "heap \<Rightarrow> nat set \<Rightarrow> nat \<Rightarrow> bool" where
  "books_ok h S t \<longleftrightarrow>
     distinct (started (h_traces h t)) \<and> distinct (finished (h_traces h t)) \<and>
     set (started (h_traces h t)) \<subseteq> S \<and> (\<forall>s \<in> set (started (h_traces h t)). span_trace h s = t) \<and>
     set (finished (h_traces h t)) = {s \<in> set (started (h_traces h t)). \<not> unfinished h s}"

definition life_inv :: "nat set \<Rightarrow> heap \<Rightarrow> bool" where
  "life_inv S h \<longleftrightarrow>
     (\<forall>s \<in> S. s < h_next h \<and> ctx_of h s < h_next h) \<and>
     (\<forall>c. ctx_trace (h_ctxs h c) < max 1 (h_next h)) \<and>
     (\<forall>t. books_ok h S t) \<and>
     (\<forall>s \<in> S. unfinished h s \<longrightarrow> s \<in> set (started (h_traces h (span_trace h s))))"

text \<open>The spans some trace still keeps\<close>

definition listed :: "heap \<Rightarrow> nat set" where
  "listed h = {s. \<exists>t. s \<in> set (started (h_traces h t))}"

lemma listed_same: "same_life h h' \<Longrightarrow> listed h' = listed h"
  by (simp add: listed_def same_life_view)

lemma life_inv_same:
  assumes "life_inv S h" and "same_life h h'"
  shows "life_inv S h'"
proof -
  have eq: "unfinished h' = unfinished h" "span_trace h' = span_trace h" "ctx_of h' = ctx_of h"
    "h_next h' = h_next h" "\<And>c. ctx_trace (h_ctxs h' c) = ctx_trace (h_ctxs h c)"
    "\<And>t. started (h_traces h' t) = started (h_traces h t)"
    "\<And>t. finished (h_traces h' t) = finished (h_traces h t)"
    using same_life_view [OF assms(2)] assms(2) by (auto simp: same_life_def ctx_of_def)
  show ?thesis
    using assms(1) unfolding life_inv_def books_ok_def eq .
qed

lemma erase_view:
  "unfinished (erase t as h) = unfinished h" "span_trace (erase t as h) = span_trace h"
  "ctx_of (erase t as h) = ctx_of h" "h_next (erase t as h) = h_next h" "h_ctxs (erase t as h) = h_ctxs h"
  "started (h_traces (erase t as h) t') = (if t' = t then as else started (h_traces h t'))"
  "finished (h_traces (erase t as h) t') = (if t' = t then [] else finished (h_traces h t'))"
  by (auto simp: erase_def unfinished_def span_trace_def ctx_of_def)

lemma life_inv_erase:
  assumes inv: "life_inv S h" and act: "active = filter (unfinished h) (started (h_traces h t))"
  shows "life_inv S (erase t active h)"
proof -
  have "books_ok (erase t active h) S t'" for t'
    using inv by (auto simp: life_inv_def books_ok_def erase_view act)
  moreover have "s \<in> set (started (h_traces (erase t active h) (span_trace h s)))"
    if "s \<in> S" "unfinished h s" for s
    using inv that by (auto simp: life_inv_def erase_view act)
  ultimately show ?thesis
    using inv by (simp add: life_inv_def erase_view)
qed

lemma mark_finished_view:
  fixes w :: "'l world" and cfg :: tracer_config and env :: "'l env" and s :: nat and ft :: jsval
  defines "h \<equiv> w_heap w" and "h' \<equiv> w_heap (mark_finished cfg env s ft w)"
  shows "unfinished h' x \<longleftrightarrow> x \<noteq> s \<and> unfinished h x" "span_trace h' x = span_trace h x"
    "ctx_of h' x = ctx_of h x" "h_next h' = h_next h" "ctx_trace (h_ctxs h' c) = ctx_trace (h_ctxs h c)"
    "started (h_traces h' t) = started (h_traces h t)"
    "finished (h_traces h' t) = finished (h_traces h t) @ (if t = span_trace h s then [s] else [])"
    "span_id_of h' x = span_id_of h x"
    "t_record (h_traces h' t) = t_record (h_traces h t)"
    "t_isRecording (h_traces h' t) = t_isRecording (h_traces h t)"
proof -
  let ?i = "sp_integrationName (h_spans h s)"
  define g where "g = resolveServiceSource s (tc_service cfg)
    (upd_ctx (ctx_of h s) (ctx_setTag ''_dd.integration'' (JStr ?i)) h)"
  have g: "same_life h g"
    unfolding g_def by (rule same_life_trans [OF same_life_set_tag resolveServiceSource_life])
  obtain d where h': "h' = upd_ctx (ctx_of h s) (\<lambda>ctx. ctx\<lparr>ctx_isFinished := True\<rparr>)
      (set_trace (ctx_of h s) (\<lambda>t. t\<lparr>finished := finished t @ [s]\<rparr>)
        (upd_span s (\<lambda>sp. sp\<lparr>sp_duration := Some d\<rparr>) g))"
    by (simp add: h'_def mark_finished_def Let_def g_def h_def)
  note v = same_life_view [OF g]
  have spans: "h_spans g = h_spans h" and ctx: "\<And>c. ctx_trace (h_ctxs g c) = ctx_trace (h_ctxs h c)"
      "\<And>c. ctx_spanId (h_ctxs g c) = ctx_spanId (h_ctxs h c)"
    using g by (simp_all add: same_life_def)
  show "unfinished h' x \<longleftrightarrow> x \<noteq> s \<and> unfinished h x" "span_trace h' x = span_trace h x"
    "ctx_of h' x = ctx_of h x" "h_next h' = h_next h" "ctx_trace (h_ctxs h' c) = ctx_trace (h_ctxs h c)"
    "started (h_traces h' t) = started (h_traces h t)"
    "finished (h_traces h' t) = finished (h_traces h t) @ (if t = span_trace h s then [s] else [])"
    "span_id_of h' x = span_id_of h x"
    "t_record (h_traces h' t) = t_record (h_traces h t)"
    "t_isRecording (h_traces h' t) = t_isRecording (h_traces h t)"
    using v(4-8) by (simp_all add: h' unfinished_def span_trace_def span_id_of_def ctx_of_def spans ctx)
qed

lemma mark_finished_services:
  "services_ok (w_heap (mark_finished cfg env s ft w)) ss = services_ok (w_heap w) ss"
proof -
  have tag: "ctx_getTag (h_ctxs (w_heap (mark_finished cfg env s ft w)) c) SERVICE_NAME =
      ctx_getTag (h_ctxs (w_heap w) c) SERVICE_NAME" for c
    by (simp add: mark_finished_def resolveServiceSource_def Let_def ctx_getTag_def ctx_setTag_def
        SERVICE_NAME_def SVC_SRC_KEY_def)
  show ?thesis unfolding services_ok_def by (simp add: mark_finished_view(3) tag)
qed

lemma life_inv_mark:
  assumes inv: "life_inv S (w_heap w)" and s: "s \<in> S" "unfinished (w_heap w) s"
  shows "life_inv S (w_heap (mark_finished cfg env s ft w))"
proof -
  have st: "s \<in> set (started (h_traces (w_heap w) (span_trace (w_heap w) s)))"
    using inv s by (simp add: life_inv_def)
  have "books_ok (w_heap (mark_finished cfg env s ft w)) S t" for t
    using inv s st by (fastforce simp: life_inv_def books_ok_def mark_finished_view)
  then show ?thesis
    using inv s by (auto simp: life_inv_def mark_finished_view)
qed

lemma mark_finished_kill: "w_kill (mark_finished cfg env s ft w) = w_kill w"
  by (simp add: mark_finished_def Let_def)

lemma life_inv_process:
  assumes inv: "life_inv S (w_heap w)" and "tc_enabled cfg"
    and p: "process_span cfg env s w = (w', e, rest)"
  shows "life_inv S (w_heap w')" "unfinished (w_heap w') = unfinished (w_heap w)" "w_kill w' = w_kill w"
    "set rest \<subseteq> S" "listed (w_heap w') \<subseteq> listed (w_heap w)"
proof -
  let ?t = "span_trace (w_heap w) s"
  obtain g where g: "same_life (w_heap w) g"
    and h': "w_heap w' = g \<or> w_heap w' = erase ?t (filter (unfinished (w_heap w)) (started (h_traces (w_heap w) ?t))) g"
    and kill: "w_kill w' = w_kill w" and rest: "set rest \<subseteq> set (started (h_traces (w_heap w) ?t))"
    using process_span_result [OF p assms(2)] by (auto simp: Let_def)
  have ig: "life_inv S g" by (rule life_inv_same [OF inv g])
  have eq: "unfinished g = unfinished (w_heap w)" using same_life_view(1) [OF g] by auto
  have "life_inv S (erase ?t (filter (unfinished (w_heap w)) (started (h_traces (w_heap w) ?t))) g)"
    by (rule life_inv_erase [OF ig]) (simp add: eq same_life_view(4) [OF g])
  then show "life_inv S (w_heap w')" using h' ig by auto
  show "unfinished (w_heap w') = unfinished (w_heap w)" using h' eq by (auto simp: erase_view)
  show "w_kill w' = w_kill w" by (rule kill)
  show "listed (w_heap w') \<subseteq> listed (w_heap w)"
    using h' same_life_view(4) [OF g] by (auto simp: listed_def erase_view split: if_splits)
  have "set (started (h_traces (w_heap w) ?t)) \<subseteq> S" using inv by (simp add: life_inv_def books_ok_def)
  with rest show "set rest \<subseteq> S" by blast
qed

subsection \<open>Finishing ends and keeps the books\<close>

lemma each_span_total:
  assumes "\<And>s w. s \<in> set ss \<Longrightarrow> P w \<Longrightarrow> \<exists>w' e. f s w = Some (w', e) \<and> P w'" and "P w"
  shows "\<exists>w' e. each_span f ss w = Some (w', e) \<and> P w'"
  using assms
proof (induction ss arbitrary: w)
  case Nil
  then show ?case by simp
next
  case (Cons s ss)
  obtain w1 e where 1: "f s w = Some (w1, e)" "P w1" using Cons.prems by (meson list.set_intros(1))
  show ?case
  proof (cases e)
    case None
    have "\<exists>w' e. each_span f ss w1 = Some (w', e) \<and> P w'"
      by (rule Cons.IH) (use Cons.prems 1 in auto)
    then show ?thesis using 1 None by simp
  qed (use 1 in simp)
qed

definition pending :: "nat set \<Rightarrow> heap \<Rightarrow> nat set" where
  "pending S h = {s \<in> S. unfinished h s}"

lemma finish_total:
  fixes w :: "'l world"
  assumes "tc_enabled cfg" "finite S"
  shows "life_inv S (w_heap w) \<Longrightarrow> s \<in> S \<Longrightarrow> card (pending S (w_heap w)) < fuel \<Longrightarrow>
    \<exists>w' e. finish fuel cfg env s ft w = Some (w', e) \<and> life_inv S (w_heap w') \<and>
      pending S (w_heap w') \<subseteq> pending S (w_heap w) - {s} \<and> listed (w_heap w') \<subseteq> listed (w_heap w)"
proof (induction fuel arbitrary: w s ft)
  case 0
  then show ?case by simp
next
  case (Suc fuel)
  show ?case
  proof (cases "unfinished (w_heap w) s")
    case False
    then show ?thesis using Suc.prems by (auto simp: unfinished_def pending_def)
  next
    case True
    define w1 where "w1 = mark_finished cfg env s ft w"
    obtain w2 e rest where p: "process_span cfg env s w1 = (w2, e, rest)" by (metis prod_cases3)
    have i1: "life_inv S (w_heap w1)"
      unfolding w1_def by (rule life_inv_mark [OF Suc.prems(1,2) True])
    note i2 = life_inv_process [OF i1 assms(1) p]
    have pend: "pending S (w_heap w2) = pending S (w_heap w) - {s}"
      by (auto simp: pending_def i2(2)) (auto simp: w1_def mark_finished_view)
    have fin: "finite (pending S (w_heap w))" using assms(2) by (simp add: pending_def)
    have mem: "s \<in> pending S (w_heap w)" using True Suc.prems(2) by (simp add: pending_def)
    have card: "card (pending S (w_heap w2)) < fuel"
      unfolding pend using card_Diff1_less [OF fin mem] Suc.prems(3) by linarith
    have eq: "finish (Suc fuel) cfg env s ft w = (case e of
        Some _ \<Rightarrow> Some (w2, e)
      | None \<Rightarrow> if w_kill w2 then each_span (\<lambda>s w. finish fuel cfg env s JUndef w) rest w2 else Some (w2, None))"
      using True p by (simp add: unfinished_def flip: w1_def)
    let ?P = "\<lambda>w' :: 'l world. life_inv S (w_heap w') \<and> pending S (w_heap w') \<subseteq> pending S (w_heap w2) \<and> listed (w_heap w') \<subseteq> listed (w_heap w2)"
    have "\<exists>w' e. each_span (\<lambda>s w. finish fuel cfg env s JUndef w) rest w2 = Some (w', e) \<and> ?P w'"
    proof (rule each_span_total [where P = ?P])
      fix x v assume x: "x \<in> set rest" and v: "?P v"
      have "card (pending S (w_heap v)) \<le> card (pending S (w_heap w2))"
        using v fin by (intro card_mono) (auto simp: pend)
      then have "card (pending S (w_heap v)) < fuel" using card by simp
      moreover have "x \<in> S" using x i2(4) by blast
      ultimately obtain v' e' where "finish fuel cfg env x JUndef v = Some (v', e')"
        "life_inv S (w_heap v')" "pending S (w_heap v') \<subseteq> pending S (w_heap v) - {x}"
        "listed (w_heap v') \<subseteq> listed (w_heap v)"
        using Suc.IH [of v x JUndef] v by blast
      then show "\<exists>w' e. finish fuel cfg env x JUndef v = Some (w', e) \<and> ?P w'"
        using v by blast
    qed (use i2 in simp)
    moreover have "listed (w_heap w1) = listed (w_heap w)"
      by (simp add: listed_def w1_def mark_finished_view)
    ultimately show ?thesis
      unfolding eq using i2(1,5) pend by (auto split: option.splits)
  qed
qed

subsection \<open>Starting a span keeps the books\<close>

definition ref_ok :: "heap \<Rightarrow> nat option \<Rightarrow> bool" where
  "ref_ok h r \<longleftrightarrow> (case r of Some c \<Rightarrow> c < h_next h | None \<Rightarrow> True)"

lemma fresh_books:
  assumes "life_inv S h"
  shows "started (h_traces h (h_next h)) = []" "finished (h_traces h (h_next h)) = []"
proof -
  have "s \<notin> set (started (h_traces h (h_next h)))" for s
  proof
    assume s: "s \<in> set (started (h_traces h (h_next h)))"
    then have "span_trace h s = h_next h" "s \<in> S"
      using assms by (auto simp: life_inv_def books_ok_def)
    moreover have "span_trace h s < max 1 (h_next h)" using assms by (simp add: life_inv_def span_trace_def)
    moreover have "s < h_next h" using assms calculation(2) by (simp add: life_inv_def)
    ultimately show False by simp
  qed
  then show "started (h_traces h (h_next h)) = []" by (metis list.set_intros(1) neq_Nil_conv)
  moreover have "set (finished (h_traces h (h_next h))) \<subseteq> set (started (h_traces h (h_next h)))"
    using assms by (auto simp: life_inv_def books_ok_def)
  ultimately show "finished (h_traces h (h_next h)) = []" by simp
qed

lemma createContext_view:
  assumes inv: "life_inv S h" and n: "n = h_next h"
    and ok: "ref_ok h (fd_parent fd)" "ref_ok h (fd_context fd)"
    and r: "createContext cfg env fd n h = (h2, c)"
  shows "c \<le> n" "h_spans h2 = h_spans h" "\<And>x. x < n \<Longrightarrow> ctx_trace (h_ctxs h2 x) = ctx_trace (h_ctxs h x)"
    "ctx_trace (h_ctxs h2 c) \<le> n" "\<And>x. x \<noteq> c \<Longrightarrow> ctx_trace (h_ctxs h2 x) = ctx_trace (h_ctxs h x)"
    "\<And>t. started (h_traces h2 t) = started (h_traces h t) \<and> finished (h_traces h2 t) = finished (h_traces h t)"
    "fd_context fd = None \<Longrightarrow> c = n"
proof -
  have lt: "ctx_trace (h_ctxs h x) < n" if "x < n" for x
    using inv that n by (force simp: life_inv_def)
  have root: "started (h_traces h n) = []" "finished (h_traces h n) = []"
    using fresh_books [OF inv] by (simp_all add: n)
  have "c \<le> n \<and> h_spans h2 = h_spans h \<and> (\<forall>x < n. ctx_trace (h_ctxs h2 x) = ctx_trace (h_ctxs h x)) \<and>
    ctx_trace (h_ctxs h2 c) \<le> n \<and> (\<forall>x. x \<noteq> c \<longrightarrow> ctx_trace (h_ctxs h2 x) = ctx_trace (h_ctxs h x)) \<and>
    (\<forall>t. started (h_traces h2 t) = started (h_traces h t) \<and> finished (h_traces h2 t) = finished (h_traces h t)) \<and>
    (fd_context fd = None \<longrightarrow> c = n)"
  proof (cases "fd_context fd")
    case (Some x)
    then show ?thesis
      using r ok(2) lt [of x] n
      by (auto simp: createContext_def Let_def start_trace_def ref_ok_def)
  next
    case None
    note none = None
    show ?thesis
    proof (cases "fd_parent fd = None \<or> is_remote h (fd_parent fd) \<and> tc_behavior cfg \<noteq> ''continue''")
      case True
      then show ?thesis
        using r root None
        by (auto simp: createContext_def Let_def start_trace_def root_context_def new_SpanContext_def
            new_trace_def is_remote_def split: if_splits)
    next
      case False
      then obtain p where p: "fd_parent fd = Some p" by auto
      then have "p < n" using ok(1) n by (simp add: ref_ok_def)
      have "h2 = upd_ctx n (\<lambda>ctx. ctx\<lparr>ctx_isRemote := False\<rparr>) (start_trace env n (child_context env p n h)) \<and> c = n"
        using r False p None by (auto simp: createContext_def Let_def)
      then show ?thesis
        using lt [OF \<open>p < n\<close>] by (simp add: start_trace_def child_context_def new_SpanContext_def Let_def none)
    qed
  qed
  then show "c \<le> n" "h_spans h2 = h_spans h" "\<And>x. x < n \<Longrightarrow> ctx_trace (h_ctxs h2 x) = ctx_trace (h_ctxs h x)"
    "ctx_trace (h_ctxs h2 c) \<le> n" "\<And>x. x \<noteq> c \<Longrightarrow> ctx_trace (h_ctxs h2 x) = ctx_trace (h_ctxs h x)"
    "\<And>t. started (h_traces h2 t) = started (h_traces h t) \<and> finished (h_traces h2 t) = finished (h_traces h t)"
    "fd_context fd = None \<Longrightarrow> c = n"
    by blast+
qed

lemma new_Span_view:
  assumes inv: "life_inv S (w_heap w)"
    and ok: "ref_ok (w_heap w) (fd_parent fd)" "ref_ok (w_heap w) (fd_context fd)"
    and r: "new_Span cfg env fd w = (w', n)"
  defines "h \<equiv> w_heap w" and "h' \<equiv> w_heap w'"
  shows "n = h_next h" "h_next h' = n + 1" "ctx_of h' n \<le> n" "unfinished h' n"
    "\<And>x. x \<noteq> n \<Longrightarrow> h_spans h' x = h_spans h x"
    "\<And>x. x < n \<Longrightarrow> ctx_trace (h_ctxs h' x) = ctx_trace (h_ctxs h x)"
    "\<And>x. x \<noteq> ctx_of h' n \<Longrightarrow> ctx_trace (h_ctxs h' x) = ctx_trace (h_ctxs h x)" "span_trace h' n \<le> n"
    "\<And>t. started (h_traces h' t) = started (h_traces h t) @ (if t = span_trace h' n then [n] else [])"
    "\<And>t. finished (h_traces h' t) = finished (h_traces h t)"
    "fd_context fd = None \<Longrightarrow> ctx_of h' n = n" "w_kill w' = w_kill w" "w_exported w' = w_exported w"
proof -
  obtain h2 c where c: "createContext cfg env fd (h_next h) h = (h2, c)"
    by (cases "createContext cfg env fd (h_next h) h")
  note v = createContext_view [OF inv [folded h_def] refl ok [folded h_def] c]
  obtain f sp where h': "h' = (upd_span n (\<lambda>_. sp) (upd_trace (ctx_trace (h_ctxs h2 c)) (\<lambda>t. t\<lparr>started := started t @ [n]\<rparr>)
      (upd_ctx c f h2)))\<lparr>h_next := n + 1\<rparr>" and n: "n = h_next h"
    and f: "\<And>x. ctx_trace (f x) = ctx_trace x" and sp: "sp_ctx sp = c" "sp_duration sp = None"
    and kw: "w_kill w' = w_kill w" "w_exported w' = w_exported w"
  proof -
    let ?h3 = "upd_trace (ctx_trace (h_ctxs h2 c)) (\<lambda>t. t\<lparr>started := started t @ [h_next h]\<rparr>)
      (upd_ctx c (name_context fd) h2)"
    have trace: "ctx_trace (name_context fd x) = ctx_trace x" for x by (simp add: name_context_def)
    have eq: "w' = (inc_counter ''spans_created'' (integration_of fd) w)
        \<lparr>w_heap := (upd_span (h_next h) (\<lambda>_. make_span cfg env fd c ?h3) ?h3)\<lparr>h_next := h_next h + 1\<rparr>\<rparr>"
      "n = h_next h"
      using r c by (auto simp: new_Span_def Let_def h_def trace)
    show thesis
      by (rule that [of "make_span cfg env fd c ?h3" "name_context fd"])
        (simp_all add: eq h'_def trace make_span_def)
  qed
  have traces: "started (h_traces h' t) = started (h_traces h t) @ (if t = ctx_trace (h_ctxs h2 c) then [n] else [])"
    "finished (h_traces h' t) = finished (h_traces h t)" for t
    using v(6) [of t] v(6) [of "ctx_trace (h_ctxs h2 c)"] by (simp_all add: h')
  have ctxs: "ctx_trace (h_ctxs h' x) = ctx_trace (h_ctxs h2 x)" for x
    by (simp add: h' f)
  have "ctx_of h' n = c" by (simp add: h' ctx_of_def sp)
  then have tr: "span_trace h' n = ctx_trace (h_ctxs h2 c)" "ctx_of h' n = c"
    by (simp_all add: span_trace_def ctxs)
  show "n = h_next h" by (rule n)
  show "h_next h' = n + 1" by (simp add: h')
  show "ctx_of h' n \<le> n" using v(1) n tr by simp
  show "unfinished h' n" by (simp add: h' unfinished_def sp)
  show "\<And>x. x \<noteq> n \<Longrightarrow> h_spans h' x = h_spans h x" using v(2) by (simp add: h')
  show "\<And>x. x < n \<Longrightarrow> ctx_trace (h_ctxs h' x) = ctx_trace (h_ctxs h x)" using v(3) n ctxs by simp
  show "span_trace h' n \<le> n" using v(4) n tr by simp
  show "\<And>x. x \<noteq> ctx_of h' n \<Longrightarrow> ctx_trace (h_ctxs h' x) = ctx_trace (h_ctxs h x)" using v(5) tr ctxs by simp
  show "\<And>t. started (h_traces h' t) = started (h_traces h t) @ (if t = span_trace h' n then [n] else [])"
    "\<And>t. finished (h_traces h' t) = finished (h_traces h t)" using traces tr by simp_all
  show "fd_context fd = None \<Longrightarrow> ctx_of h' n = n" using v(7) n tr by simp
  show "w_kill w' = w_kill w" "w_exported w' = w_exported w" by (rule kw)+
qed

lemma life_inv_new_Span:
  assumes inv: "life_inv S (w_heap w)"
    and ok: "ref_ok (w_heap w) (fd_parent fd)" "ref_ok (w_heap w) (fd_context fd)"
    and r: "new_Span cfg env fd w = (w', n)"
  shows "n \<notin> S" "life_inv (insert n S) (w_heap w')"
proof -
  let ?h = "w_heap w" and ?h' = "w_heap w'"
  note v = new_Span_view [OF inv ok r]
  show new: "n \<notin> S" using inv v(1) by (auto simp: life_inv_def)
  have old: "unfinished ?h' s = unfinished ?h s" "ctx_of ?h' s = ctx_of ?h s" "span_trace ?h' s = span_trace ?h s"
    if "s \<in> S" for s
  proof -
    have "s \<noteq> n" using that new by auto
    have "ctx_of ?h s < n" using inv that v(1) by (simp add: life_inv_def)
    with \<open>s \<noteq> n\<close> show "unfinished ?h' s = unfinished ?h s" "ctx_of ?h' s = ctx_of ?h s"
      "span_trace ?h' s = span_trace ?h s"
      using v(5,6) by (simp_all add: unfinished_def ctx_of_def span_trace_def)
  qed
  have books: "books_ok ?h' (insert n S) t" for t
  proof -
    have b: "books_ok ?h S t" using inv by (simp add: life_inv_def)
    then have "n \<notin> set (started (h_traces ?h t))" using new by (auto simp: books_ok_def)
    moreover have "set (finished (h_traces ?h t)) = {s \<in> set (started (h_traces ?h t)). \<not> unfinished ?h' s}"
      using b old by (auto simp: books_ok_def)
    moreover have "\<forall>s \<in> set (started (h_traces ?h t)). span_trace ?h' s = t"
      using b old by (auto simp: books_ok_def)
    ultimately show ?thesis
      using b v(4) by (auto simp: books_ok_def v(9,10))
  qed
  have lost: "s \<in> set (started (h_traces ?h' (span_trace ?h' s)))" if "s \<in> insert n S" "unfinished ?h' s" for s
    using that inv old by (auto simp: life_inv_def v(9))
  have ctx: "ctx_trace (h_ctxs ?h' c) < max 1 (h_next ?h')" for c
  proof (cases "c = ctx_of ?h' n")
    case True
    then show ?thesis using v(2,8) by (simp add: span_trace_def)
  next
    case False
    have "ctx_trace (h_ctxs ?h c) < max 1 n" using inv v(1) by (simp add: life_inv_def)
    then show ?thesis using v(2) v(7) [OF False] by simp
  qed
  have nums: "s < h_next ?h' \<and> ctx_of ?h' s < h_next ?h'" if "s \<in> insert n S" for s
    using that inv old v(1,2,3) by (fastforce simp: life_inv_def)
  show "life_inv (insert n S) ?h'"
    unfolding life_inv_def using books lost ctx nums by blast
qed

subsection \<open>Properties\<close>

text \<open>
  C13: Finishing a span ends, killed tracer or not, with fuel for one more call than there are
  unfinished spans; it keeps the books, and the span is finished afterwards.
\<close>

theorem finish_terminates:
  fixes w :: "'l world"
  assumes "tc_enabled cfg" "finite S" "life_inv S (w_heap w)" "s \<in> S"
    and "card (pending S (w_heap w)) < fuel"
  shows "\<exists>w' e. finish fuel cfg env s ft w = Some (w', e) \<and> life_inv S (w_heap w') \<and>
    \<not> unfinished (w_heap w') s \<and> pending S (w_heap w') \<subseteq> pending S (w_heap w)"
  using finish_total [OF assms(1-5), of env ft] assms(4) by (fastforce simp: pending_def)

definition empty_heap :: heap where
  "empty_heap = \<lparr>h_traces = (\<lambda>_. new_trace), h_samplings = (\<lambda>_. new_sampling),
     h_ctxs = (\<lambda>_. new_SpanContext zeroId None 0 0),
     h_spans = (\<lambda>_. \<lparr>sp_ctx = 0, sp_name = JUndef, sp_integrationName = [], sp_startTime = 0,
        sp_duration = None, sp_links = [], sp_events = [], sp_service = [], sp_marker = JUndef,
        sp_meta_struct = JUndef\<rparr>),
     h_next = 0\<rparr>"

definition empty_world :: "(int \<times> nat \<times> int) world" where
  "empty_world = \<lparr>w_heap = empty_heap, w_ps = plain_sampler, w_rules = [], w_es = no_extra_services,
     w_counts = [], w_exported = [], w_stats = [], w_kill = False\<rparr>"

lemma life_inv_empty: "life_inv {} (w_heap empty_world)"
  by (simp add: life_inv_def books_ok_def empty_world_def empty_heap_def new_trace_def new_SpanContext_def)

definition demo_env :: "(int \<times> nat \<times> int) env" where
  "demo_env = \<lparr>e_api = window_limiter, e_str = (\<lambda>_. []), e_url = (\<lambda>_. None), e_limit_now = 0,
     e_now = 5, e_date = 1700000000000, e_id = [0, 0, 0, 0, 0, 0, 0, 1], e_pid = 1, e_standalone = False\<rparr>"

definition demo_cfg :: tracer_config where
  "demo_cfg = \<lparr>tc_service = ''web'', tc_tags = JUndef, tc_hostname = JUndef, tc_128bit = True,
     tc_behavior = ''continue'', tc_flushMinSpans = 1000, tc_enabled = True, tc_apm = True, tc_otel = False,
     tc_stats = False, tc_processTags = None, tc_git = None\<rparr>"

definition demo_fields :: span_fields where
  "demo_fields = \<lparr>fd_operationName = JStr ''op'', fd_parent = None, fd_context = None, fd_startTime = None,
     fd_hostname = JUndef, fd_128bit = True, fd_integrationName = [], fd_links = [], fd_tags = None\<rparr>"

lemma demo_started:
  obtains w where "new_Span demo_cfg demo_env demo_fields empty_world = (w, 0)" "life_inv {0} (w_heap w)"
    "unfinished (w_heap w) 0" "w_kill w = False" "span_trace (w_heap w) 0 = 0"
    "started (h_traces (w_heap w) 0) = [0]" "t_record (h_traces (w_heap w) 0) = None"
    "ctx_getTag (h_ctxs (w_heap w) (ctx_of (w_heap w) 0)) SERVICE_NAME = JUndef"
proof -
  obtain w n where r: "new_Span demo_cfg demo_env demo_fields empty_world = (w, n)"
    by (cases "new_Span demo_cfg demo_env demo_fields empty_world")
  have ok: "ref_ok (w_heap empty_world) (fd_parent demo_fields)" "ref_ok (w_heap empty_world) (fd_context demo_fields)"
    by (simp_all add: ref_ok_def demo_fields_def)
  note v = new_Span_view [OF life_inv_empty ok r]
  have n: "n = 0" using v(1) by (simp add: empty_world_def empty_heap_def)
  have st: "span_trace (w_heap w) 0 = 0" using v(8) n by simp
  have "t_record (h_traces (w_heap w) 0) = None \<and>
      ctx_getTag (h_ctxs (w_heap w) (ctx_of (w_heap w) 0)) SERVICE_NAME = JUndef"
    using r by (auto simp: new_Span_def createContext_def root_context_def start_trace_def demo_fields_def
        is_remote_def Let_def new_trace_def name_context_def empty_world_def empty_heap_def
        new_SpanContext_def inc_counter_def make_span_def ctx_of_def ctx_getTag_def)
  then show thesis
    using that [of w] r v(4,12) n st life_inv_new_Span [OF life_inv_empty ok r] v(9) [of 0]
    by (simp add: empty_world_def empty_heap_def new_trace_def)
qed

theorem finish_terminates_witness:
  "\<exists>w w' e. new_Span demo_cfg demo_env demo_fields empty_world = (w, 0) \<and>
     finish 2 demo_cfg demo_env 0 JUndef w = Some (w', e) \<and> \<not> unfinished (w_heap w') 0"
proof -
  obtain w where w: "new_Span demo_cfg demo_env demo_fields empty_world = (w, 0)" "life_inv {0} (w_heap w)"
    by (rule demo_started)
  have "card (pending {0} (w_heap w)) \<le> card {0 :: nat}"
    by (rule card_mono) (auto simp: pending_def)
  then have "\<exists>w' e. finish 2 demo_cfg demo_env 0 JUndef w = Some (w', e) \<and> life_inv {0} (w_heap w') \<and>
      \<not> unfinished (w_heap w') 0 \<and> pending {0} (w_heap w') \<subseteq> pending {0} (w_heap w)"
    by (intro finish_terminates) (simp_all add: w demo_cfg_def)
  then show ?thesis using w by blast
qed

lemma finished_count:
  assumes "books_ok h S t"
  shows "length (finished (h_traces h t)) = length (filter (\<lambda>s. \<not> unfinished h s) (started (h_traces h t)))"
proof -
  have "length (finished (h_traces h t)) = card (set (finished (h_traces h t)))"
    by (rule distinct_card [symmetric]) (use assms in \<open>simp add: books_ok_def\<close>)
  also have "set (finished (h_traces h t)) = set (filter (\<lambda>s. \<not> unfinished h s) (started (h_traces h t)))"
    using assms by (auto simp: books_ok_def)
  also have "card \<dots> = length (filter (\<lambda>s. \<not> unfinished h s) (started (h_traces h t)))"
    using assms by (intro distinct_card) (simp add: books_ok_def)
  finally show ?thesis .
qed

subsection \<open>The abstract book of a trace\<close>

text \<open>
  What the processor promises, on lists of spans with a flag for the finished ones: finishing a
  span sets its flag; once all are set, or \<open>limit\<close> of them, the flagged ones leave together.
\<close>

definition book :: "heap \<Rightarrow> nat \<Rightarrow> (nat \<times> bool) list" where
  "book h t = map (\<lambda>s. (s, \<not> unfinished h s)) (started (h_traces h t))"

definition book_finish :: "nat \<Rightarrow> nat \<Rightarrow> (nat \<times> bool) list \<Rightarrow> (nat \<times> bool) list \<times> nat list" where
  "book_finish limit s b =
     (let b = map (\<lambda>(x, d). (x, d \<or> x = s)) b; done = filter snd b
      in if length done = length b \<or> limit \<le> length done
         then (filter (\<lambda>(x, d). \<not> d) b, map fst done) else (b, []))"

lemma book_filter:
  "filter snd (map (\<lambda>s. (s, P s)) xs) = map (\<lambda>s. (s, P s)) (filter P xs)"
  "filter (\<lambda>(x, d). \<not> d) (map (\<lambda>s. (s, P s)) xs) = map (\<lambda>s. (s, False)) (filter (\<lambda>s. \<not> P s) xs)"
  by (induction xs) simp_all

lemma finish_once:
  fixes w :: "'l world"
  defines "h \<equiv> w_heap w"
  assumes "tc_enabled cfg" "life_inv S h" "s \<in> S" "unfinished h s" "\<not> w_kill w"
    and "t = span_trace h s" "t_record (h_traces h t) \<noteq> Some False"
    and names: "services_ok h (started (h_traces h t))"
    and spec: "book_finish (tc_flushMinSpans cfg) s (book h t) = (stay, leave)"
  shows "\<exists>w'. finish (Suc n) cfg env s ft w = Some (w', None) \<and>
    (\<forall>t'. book (w_heap w') t' = (if t' = t then stay else book h t')) \<and>
    (\<exists>chunk. map f_span_id chunk = map (span_id_of h) leave \<and>
      w_exported w' = w_exported w @
        (if leave \<noteq> [] \<and> t_isRecording (h_traces h t) \<noteq> Some False then [chunk] else []))"
proof -
  define w1 where "w1 = mark_finished cfg env s ft w"
  note mv = mark_finished_view [of cfg env s ft w, folded w1_def h_def]
  have inv1: "life_inv S (w_heap w1)"
    unfolding w1_def by (rule life_inv_mark) (use assms in simp_all)
  have un: "unfinished (w_heap w1) = (\<lambda>x. x \<noteq> s \<and> unfinished h x)" using mv(1) by auto
  let ?D = "\<lambda>x. x = s \<or> \<not> unfinished h x" and ?ss = "started (h_traces h t)"
  have nun: "(\<lambda>x. \<not> (x \<noteq> s \<and> unfinished h x)) = ?D" by auto
  have count: "length (finished (h_traces (w_heap w1) t)) = length (filter ?D ?ss)"
    using finished_count [of "w_heap w1" S t] inv1 by (simp add: life_inv_def mv(6) un nun)
  have flagged: "map (\<lambda>(x, d). (x, d \<or> x = s)) (book h t) = map (\<lambda>x. (x, ?D x)) ?ss"
    by (auto simp: book_def)
  have due: "flush_due cfg (h_traces (w_heap w1) t) \<longleftrightarrow>
      length (filter ?D ?ss) = length ?ss \<or> tc_flushMinSpans cfg \<le> length (filter ?D ?ss)"
    unfolding flush_due_def count mv(6) by auto
  have stay: "stay = (if flush_due cfg (h_traces (w_heap w1) t)
        then map (\<lambda>x. (x, False)) (filter (\<lambda>x. \<not> ?D x) ?ss) else map (\<lambda>x. (x, ?D x)) ?ss)"
    and leave: "leave = (if flush_due cfg (h_traces (w_heap w1) t) then filter ?D ?ss else [])"
    using spec unfolding book_finish_def Let_def flagged due by (auto simp: book_filter comp_def)
  have elsewhere: "s \<notin> set (started (h_traces h t'))" if "t' \<noteq> t" for t'
    using assms(3,7) that by (auto simp: life_inv_def books_ok_def)
  have others: "map (\<lambda>x. (x, ?D x)) (started (h_traces h t')) = book h t'" if "t' \<noteq> t" for t'
    using elsewhere [OF that] by (auto simp: book_def)
  have tt: "span_trace (w_heap w1) s = t" using mv(2) assms by simp
  have kill: "\<not> w_kill w1" using assms(6) by (simp add: w1_def mark_finished_kill)
  have exp1: "w_exported w1 = w_exported w" by (simp add: w1_def mark_finished_def Let_def)
  have step: "finish (Suc n) cfg env s ft w = Some (w', None)"
    if "process_span cfg env s w1 = (w', None, rest)" "\<not> w_kill w'" for w' rest
    using that assms(5) by (simp add: unfinished_def h_def flip: w1_def)
  show ?thesis
  proof (cases "flush_due cfg (h_traces (w_heap w1) t)")
    case True
    have "services_ok (w_heap w1) (started (h_traces (w_heap w1) (span_trace (w_heap w1) s)))"
      unfolding tt mv(6) using names by (simp add: w1_def mark_finished_services h_def)
    then obtain w' where f: "flush_trace cfg env s w1 = (w', None)"
      using flush_trace_total by blast
    have "process_span cfg env s w1 = (w', None, started (h_traces (w_heap w1) t))"
      using f True tt assms(2,8) mv(9) [of t]
      by (simp add: process_span_def Let_def flip: span_trace_def)
    moreover have "\<not> w_kill w'" using flush_trace_result [OF f] kill by simp
    ultimately have fin: "finish (Suc n) cfg env s ft w = Some (w', None)" by (rule step)
    obtain g chunk where g: "same_life (w_heap w1) g"
      and h': "w_heap w' = erase t (filter (unfinished (w_heap w1)) (started (h_traces (w_heap w1) t))) g"
      and chunk: "map f_span_id chunk = map (span_id_of (w_heap w1))
          (filter (\<lambda>x. \<not> unfinished (w_heap w1) x) (started (h_traces (w_heap w1) t)))"
      and exp: "w_exported w' = w_exported w1 @
          (if filter (\<lambda>x. \<not> unfinished (w_heap w1) x) (started (h_traces (w_heap w1) t)) \<noteq> [] \<and>
              t_isRecording (h_traces (w_heap w1) t) \<noteq> Some False then [chunk] else [])"
      using flush_trace_result [OF f] tt by (auto simp: Let_def)
    have ids: "span_id_of (w_heap w1) = span_id_of h" using mv(8) by auto
    have gv: "unfinished g = unfinished (w_heap w1)" "\<And>t. started (h_traces g t) = started (h_traces (w_heap w1) t)"
      using same_life_view(1,4) [OF g] by auto
    have "book (w_heap w') t' = (if t' = t then stay else book h t')" for t'
      using others [of t'] stay True
      by (auto simp: book_def h' erase_view gv un mv(6))
    then show ?thesis
      using chunk exp leave True exp1
      by (intro exI [of _ w'] conjI exI [of _ chunk] fin allI) (simp_all add: un nun ids mv(6,10))
  next
    case False
    then have "process_span cfg env s w1 = (w1, None, started (h_traces (w_heap w1) t))"
      using tt assms(2,8) mv(9) [of t] by (simp add: process_span_def Let_def flip: span_trace_def)
    then have fin: "finish (Suc n) cfg env s ft w = Some (w1, None)" using kill by (rule step)
    have "book (w_heap w1) t' = (if t' = t then stay else book h t')" for t'
      using others [of t'] stay False by (auto simp: book_def un mv(6))
    then show ?thesis
      using leave False exp1 by (intro exI [of _ w1] conjI exI [of _ "[]"] fin allI) simp_all
  qed
qed

text \<open>
  C2: Finishing a span refines the abstract book. On the book of its trace the code does exactly
  what the specification says, the chunk it exports holds exactly the spans that leave the book,
  in the order they were started (and nothing is exported when none leaves or the trace is not
  recording), and the books of all other traces stay as they are. It cannot fail while the service
  names of the trace are text or missing.
\<close>

theorem finish_refines:
  fixes w :: "'l world"
  defines "h \<equiv> w_heap w"
  assumes "tc_enabled cfg" "life_inv S h" "s \<in> S" "unfinished h s" "\<not> w_kill w"
    and "t = span_trace h s" "t_record (h_traces h t) \<noteq> Some False"
    and names: "services_ok h (started (h_traces h t))"
    and spec: "book_finish (tc_flushMinSpans cfg) s (book h t) = (stay, leave)"
  shows "\<exists>w'. finish (Suc n) cfg env s ft w = Some (w', None) \<and>
    (\<forall>t'. book (w_heap w') t' = (if t' = t then stay else book h t')) \<and>
    (\<exists>chunk. map f_span_id chunk = map (span_id_of h) leave \<and>
      w_exported w' = w_exported w @
        (if leave \<noteq> [] \<and> t_isRecording (h_traces h t) \<noteq> Some False then [chunk] else []))"
  unfolding h_def by (rule finish_once [OF assms(2-10) [unfolded h_def]])

theorem finish_refines_witness:
  "\<exists>w w'. new_Span demo_cfg demo_env demo_fields empty_world = (w, 0) \<and> book (w_heap w) 0 = [(0, False)] \<and>
     finish 1 demo_cfg demo_env 0 JUndef w = Some (w', None) \<and> book (w_heap w') 0 = []"
proof -
  obtain w where w: "new_Span demo_cfg demo_env demo_fields empty_world = (w, 0)" "life_inv {0} (w_heap w)"
    "unfinished (w_heap w) 0" "w_kill w = False" "span_trace (w_heap w) 0 = 0"
    "started (h_traces (w_heap w) 0) = [0]" "t_record (h_traces (w_heap w) 0) = None"
    "ctx_getTag (h_ctxs (w_heap w) (ctx_of (w_heap w) 0)) SERVICE_NAME = JUndef"
    by (rule demo_started)
  have b: "book (w_heap w) 0 = [(0, False)]" using w(3,6) by (simp add: book_def)
  have "services_ok (w_heap w) [0]" using w(8) by (simp add: services_ok_def service_ok_def)
  moreover have "book_finish (tc_flushMinSpans demo_cfg) 0 (book (w_heap w) 0) = ([], [0])"
    by (simp add: b book_finish_def)
  ultimately obtain w' where "finish (Suc 0) demo_cfg demo_env 0 JUndef w = Some (w', None)" "book (w_heap w') 0 = []"
    using finish_refines [of demo_cfg "{0}" w 0 0 "[]" "[0]" 0 demo_env JUndef] w by (auto simp: demo_cfg_def)
  then show ?thesis using w(1) b by (metis One_nat_def)
qed

end
