(* ===== verification/Tracer.thy ===== *)
theory Tracer
  imports SpanProcessor Propagation
begin

text \<open>
  The tracer (\<open>opentracing/tracer.js\<close>): starting spans from options and references, injecting the
  context of a span into a carrier and extracting one, with the propagator of logs
  (\<open>opentracing/propagation/log.js\<close>). The operations on spans make a transition system over the
  world of the tracer; every reachable state keeps the books of the traces.

  A context is read from the heap into one record for injection, and an extracted record is
  written to a fresh place of the heap. Contexts of one trace that share a trace state list hold
  copies of it here.
\<close>

subsection \<open>Between the heap and single contexts\<close>

definition retype :: "'u \<Rightarrow> 'r \<Rightarrow> ('t, 's) span_context \<Rightarrow> ('u, 'r) span_context" where
  "retype t s c =
     \<lparr>ctx_traceId = ctx_traceId c, ctx_spanId = ctx_spanId c, ctx_isRemote = ctx_isRemote c,
      ctx_parentId = ctx_parentId c, ctx_name = ctx_name c, ctx_isFinished = ctx_isFinished c,
      ctx_tags = ctx_tags c, ctx_sampling = s, ctx_spanSampling = ctx_spanSampling c,
      ctx_links = ctx_links c, ctx_baggage = ctx_baggage c, ctx_traceparent = ctx_traceparent c,
      ctx_tracestate = ctx_tracestate c, ctx_trace = t, ctx_hostname = ctx_hostname c\<rparr>"

definition read_context :: "heap \<Rightarrow> nat \<Rightarrow> ectx" where
  "read_context h c = retype (trace_of h c) (sampling_of h c) (h_ctxs h c)"

definition import_context :: "ectx \<Rightarrow> heap \<Rightarrow> heap" where
  "import_context e h =
     (let n = h_next h
      in h\<lparr>h_traces := (h_traces h)(n := ctx_trace e), h_samplings := (h_samplings h)(n := ctx_sampling e),
           h_ctxs := (h_ctxs h)(n := retype n n e), h_next := n + 1\<rparr>)"

lemma retype_sel [simp]:
  "ctx_traceId (retype t s c) = ctx_traceId c" "ctx_spanId (retype t s c) = ctx_spanId c"
  "ctx_trace (retype t s c) = t" "ctx_sampling (retype t s c) = s"
  by (simp_all add: retype_def)

subsection \<open>Starting a span\<close>

datatype span_or_context = IsSpan nat | IsContext nat | IsOther

definition getContext :: "heap \<Rightarrow> span_or_context \<Rightarrow> nat option" where
  "getContext h r = (case r of IsSpan s \<Rightarrow> Some (ctx_of h s) | IsContext c \<Rightarrow> Some c | IsOther \<Rightarrow> None)"

definition REFERENCE_CHILD_OF :: string where "REFERENCE_CHILD_OF = ''child_of''"
definition REFERENCE_FOLLOWS_FROM :: string where "REFERENCE_FOLLOWS_FROM = ''follows_from''"

text \<open>A reference is its type and the context it refers to.\<close>

fun getParent :: "(string \<times> nat option) list \<Rightarrow> nat option \<Rightarrow> nat option" where
  "getParent [] parent = parent"
| "getParent ((type, ref) # refs) parent =
     (if type = REFERENCE_CHILD_OF then ref
      else if type = REFERENCE_FOLLOWS_FROM \<and> parent = None then getParent refs ref
      else getParent refs parent)"

record start_options =
  so_childOf :: "span_or_context option"
  so_references :: "(string \<times> nat option) list"
  so_operationName :: jsval
  so_startTime :: "rat option"
  so_integrationName :: string
  so_links :: "(nat \<times> jsobj option) list"
  so_tags :: "jsobj option"

definition parent_of :: "heap \<Rightarrow> start_options \<Rightarrow> nat option" where
  "parent_of h opts =
     (case so_childOf opts of
        Some r \<Rightarrow> getContext h r
      | None \<Rightarrow> getParent (so_references opts) None)"

definition startSpan ::
  "tracer_config \<Rightarrow> 'l env \<Rightarrow> jsval \<Rightarrow> start_options \<Rightarrow> 'l world \<Rightarrow> 'l world \<times> nat" where
  "startSpan cfg env name opts w =
     (let fd = \<lparr>fd_operationName = js_or (so_operationName opts) name, fd_parent = parent_of (w_heap w) opts,
                fd_context = None, fd_startTime = so_startTime opts, fd_hostname = tc_hostname cfg,
                fd_128bit = tc_128bit cfg, fd_integrationName = so_integrationName opts,
                fd_links = so_links opts, fd_tags = None\<rparr>;
          (w, s) = new_Span cfg env fd w;
          service = (case so_tags opts of Some tags \<Rightarrow> getp tags ''service'' | None \<Rightarrow> JUndef);
          tags = (if truthy service \<and> service \<noteq> JStr (tc_service cfg)
                  then map_option (AList.update ''version'' JUndef) (so_tags opts) else so_tags opts);
          name = (if truthy service then JStr (js_string (e_str env) service) else JStr (tc_service cfg));
          w = on_heap (\<lambda>h. upd_ctx (ctx_of h s) (ctx_setTag SERVICE_NAME name) h) w;
          w = addTags env s (tc_tags cfg) w
      in (case tags of Some ps \<Rightarrow> addTags env s (JObj ps) w | None \<Rightarrow> w, s))"

subsection \<open>Propagation\<close>

record log_config =
  lc_128bit :: bool
  lc_128bitLogging :: bool
  lc_service :: string
  lc_version :: string
  lc_env :: string

text \<open>The carrier of the log format: \<open>None\<close> when nothing was written, else the field \<open>dd\<close>.\<close>

definition put_text :: "string \<Rightarrow> string \<Rightarrow> string obj \<Rightarrow> string obj" where
  "put_text k v m = (if v \<noteq> [] then AList.update k v m else m)"

definition log_inject :: "log_config \<Rightarrow> ectx option \<Rightarrow> string obj option" where
  "log_inject lc ctx =
     (let dd = (case ctx of
            None \<Rightarrow> []
          | Some c \<Rightarrow>
              [(''trace_id'',
                if lc_128bit lc \<and> lc_128bitLogging lc \<and> truthy (getp (t_tags (ctx_trace c)) TRACE_ID_128)
                then toTraceId (ctx_trace c) c True else toTraceId (ctx_trace c) c False),
               (''span_id'', toSpanId c False)]);
          dd = put_text ''service'' (lc_service lc) dd;
          dd = put_text ''version'' (lc_version lc) dd;
          dd = put_text ''env'' (lc_env lc) dd
      in if dd = [] then None else Some dd)"

definition log_extract :: "string obj option \<Rightarrow> ectx option" where
  "log_extract carrier =
     (case carrier of
        None \<Rightarrow> None
      | Some dd \<Rightarrow>
          (case (given (obj_get dd ''trace_id''), given (obj_get dd ''span_id'')) of
             (Some t, Some s) \<Rightarrow>
               (if length t = 32 then
                  Some (ectx_tag TRACE_ID_128 (JStr (slice t 0 16))
                    (new_ectx (parse_id (slice t 16 32) 16) (Some (parse_id s 10))))
                else Some (new_ectx (parse_id t 10) (Some (parse_id s 10))))
           | _ \<Rightarrow> None))"

text \<open>
  \<open>inject(context, 'text_map', carrier)\<close>: the pending decision is taken first, so the propagator
  finds one wherever the trace has a root span. The trace state of the context is updated in place.
\<close>

definition tracer_inject ::
  "tm_config \<Rightarrow> 'l env \<Rightarrow> baggage option \<Rightarrow> nat \<Rightarrow> carrier option \<Rightarrow> 'l world \<Rightarrow> carrier option \<times> 'l world" where
  "tracer_inject tm env store c carrier w =
     (let w = tracer_sample env c True w;
          (injected, e) = inject_context tm id store (Some (read_context (w_heap w) c)) carrier
      in (injected,
          case e of
            Some x \<Rightarrow> on_heap (upd_ctx c (\<lambda>ctx. ctx\<lparr>ctx_tracestate := ctx_tracestate x\<rparr>)) w
          | None \<Rightarrow> w))"

definition tracer_extract ::
  "tm_config \<Rightarrow> 'l env \<Rightarrow> (string \<Rightarrow> jsval option) \<Rightarrow> carrier \<Rightarrow> baggage option \<Rightarrow> 'l world \<Rightarrow>
   nat option \<times> baggage option \<times> 'l world" where
  "tracer_extract tm env json carrier store w =
     (let (e, store) = extract_context tm (e_id env) json carrier store
      in case e of
           Some x \<Rightarrow> (Some (h_next (w_heap w)), store, on_heap (import_context x) w)
         | None \<Rightarrow> (None, store, w))"

subsection \<open>An extracted context has no spans\<close>

definition quiet :: "ectx \<Rightarrow> bool" where
  "quiet e \<longleftrightarrow> started (ctx_trace e) = [] \<and> finished (ctx_trace e) = []"

lemma quiet_new [simp]: "quiet (new_ectx t s)"
  by (simp add: quiet_def new_ectx_def new_SpanContext_def new_trace_def)

lemma quiet_updates [simp]:
  "quiet (ectx_tag k v e) = quiet e" "quiet (ectx_priority p e) = quiet e" "quiet (ectx_origin og e) = quiet e"
  "quiet (e\<lparr>ctx_trace := (ctx_trace e)\<lparr>t_tags := ts\<rparr>\<rparr>) = quiet e" "quiet (e\<lparr>ctx_links := ls\<rparr>) = quiet e"
  "quiet (e\<lparr>ctx_sampling := sm\<rparr>) = quiet e" "quiet (e\<lparr>ctx_spanId := sid\<rparr>) = quiet e"
  "quiet (e\<lparr>ctx_traceparent := tp\<rparr>) = quiet e" "quiet (e\<lparr>ctx_tracestate := st\<rparr>) = quiet e"
  "quiet (e\<lparr>ctx_baggage := bg\<rparr>) = quiet e"
  by (simp_all add: quiet_def ectx_tag_def ectx_priority_def ectx_origin_def)

lemma quiet_parts [simp]:
  "quiet (extractOrigin c e) = quiet e" "quiet (extractLegacyBaggageItems cfg c e) = quiet e"
  "quiet (extractSamplingPriority c e) = quiet e" "quiet (extract128BitTraceId t e) = quiet e"
  "quiet (tracestate_entry kv e) = quiet e"
  by (simp_all add: extractOrigin_def extractLegacyBaggageItems_def extractSamplingPriority_def
      extract128BitTraceId_def tracestate_entry_def Let_def split: option.splits)

lemma quiet_entries [simp]: "quiet (fold tracestate_entry es e) = quiet e"
  by (induction es arbitrary: e) simp_all

lemma quiet_generic: "pred_option quiet (extractGenericContext t s r)"
  by (simp add: extractGenericContext_def split: option.splits)

lemma quiet_traceparent: "pred_option quiet (extractTraceparentContext cfg c)"
  by (simp add: extractTraceparentContext_def Let_def split: option.splits prod.splits)

lemma quiet_datadog: "pred_option quiet (extractDatadogContext cfg c)"
  using quiet_generic [of "readDatadogTraceId c" "readDatadogParentId c" 10]
  by (auto simp: extractDatadogContext_def Let_def split: option.splits)

lemma quiet_b3: "pred_option quiet (extractB3Context gen b3)"
  using quiet_generic [of "b3_traceId b3" "b3_spanId b3" 16]
  by (auto simp: extractB3Context_def Let_def split: option.splits)

lemma quiet_run: "pred_option quiet (run_extractor cfg gen style c)"
  using quiet_b3
  by (auto simp: run_extractor_def quiet_datadog quiet_traceparent extractB3SingleContext_def
      extractB3MultiContext_def split: option.splits)

lemma quiet_resolve [simp]: "quiet (resolveTraceContextConflicts cfg w first c) = quiet first"
  by (simp add: resolveTraceContextConflicts_def updateParentIdFromDdHeaders_def Let_def split: option.splits)

lemma quiet_loop:
  "pred_option (\<lambda>(e, _). quiet e) acc \<Longrightarrow> pred_option (\<lambda>(e, _). quiet e) (extract_loop cfg gen c xs acc)"
proof (induction xs arbitrary: acc)
  case Nil
  then show ?case by simp
next
  case (Cons x xs)
  show ?case
  proof (cases "run_extractor cfg gen x c")
    case None
    then show ?thesis using Cons by simp
  next
    case (Some e)
    then have "quiet e" using quiet_run [of cfg gen x c] by simp
    then show ?thesis
      using Some Cons.prems by (auto simp: Let_def split: option.splits intro!: Cons.IH)
  qed
qed

lemma quiet_baggage_loop:
  "extractBaggage_loop cfg kvs i b items e = (d, items', e') \<Longrightarrow> pred_option quiet e \<Longrightarrow> pred_option quiet e'"
proof (induction cfg kvs i b items e rule: extractBaggage_loop.induct)
  case (1 cfg i b items e)
  then show ?case by simp
next
  case (2 cfg kv rest i b items e)
  then show ?case
    by (auto simp: Let_def option.pred_map comp_def split: if_splits option.splits)
qed

lemma quiet_extract: "pred_option quiet (fst (extract_context cfg gen json c store))"
proof -
  have base: "pred_option quiet (map_option fst (extract_loop cfg gen c (extractStyles cfg) None))"
    using quiet_loop [of None cfg gen c "extractStyles cfg"]
    by (cases "extract_loop cfg gen c (extractStyles cfg) None") auto
  have sqsd: "pred_option quiet (extractSqsdContext cfg json c)"
    by (auto simp: extractSqsdContext_def quiet_datadog split: option.splits jsval.splits)
  have bag: "pred_option quiet (fst (extractBaggageItems cfg c e store))" if "pred_option quiet e" for e
    using that quiet_baggage_loop
    by (auto simp: extractBaggageItems_def Let_def split: option.splits prod.splits)
  have link: "pred_option quiet (map_option (\<lambda>c. c\<lparr>ctx_links := f c\<rparr>) e) = pred_option quiet e" for f e
    by (cases e) simp_all
  have fall: "pred_option quiet (case e of Some c \<Rightarrow> Some c | None \<Rightarrow> extractSqsdContext cfg json c)"
    if "pred_option quiet e" for e
    using that sqsd by (cases e) simp_all
  show ?thesis
  proof (cases "behaviorExtract cfg = ''ignore''")
    case True
    define e0 where "e0 = map_option (\<lambda>x :: ectx. x\<lparr>ctx_links := []\<rparr>) (map_option fst (extract_loop cfg gen c (extractStyles cfg) None))"
    have "pred_option quiet e0" unfolding e0_def link by (rule base)
    moreover have "fst (extract_context cfg gen json c store) =
        (case e0 of Some c \<Rightarrow> Some c | None \<Rightarrow> extractSqsdContext cfg json c)"
      using True by (simp add: extract_context_def Let_def e0_def)
    ultimately show ?thesis using fall by simp
  next
    case False
    define e1 where "e1 = (if behaviorExtract cfg = ''restart''
      then map_option (\<lambda>x :: ectx. x\<lparr>ctx_links := [ctx_link x [(''reason'', ''propagation_behavior_extract''),
        (''context_headers'', case extract_loop cfg gen c (extractStyles cfg) None of Some (_, s) \<Rightarrow> s | None \<Rightarrow> [])]]\<rparr>)
        (map_option fst (extract_loop cfg gen c (extractStyles cfg) None))
      else map_option fst (extract_loop cfg gen c (extractStyles cfg) None))"
    have "pred_option quiet e1" unfolding e1_def using base link by simp
    then have "pred_option quiet (fst (extractBaggageItems cfg c e1 store))" by (rule bag)
    moreover have "fst (extract_context cfg gen json c store) =
        (case fst (extractBaggageItems cfg c e1 store) of Some c \<Rightarrow> Some c | None \<Rightarrow> extractSqsdContext cfg json c)"
      using False by (simp add: extract_context_def Let_def e1_def split: prod.split)
    ultimately show ?thesis using fall by simp
  qed
qed

subsection \<open>The operations as transitions\<close>

inductive life_step :: "tracer_config \<Rightarrow> nat set \<times> 'l world \<Rightarrow> nat set \<times> 'l world \<Rightarrow> bool" for cfg where
  start: "ref_ok (w_heap w) (parent_of (w_heap w) opts) \<Longrightarrow> startSpan cfg env name opts w = (w', s) \<Longrightarrow>
    life_step cfg (S, w) (insert s S, w')"
| finish: "s \<in> S \<Longrightarrow> card (pending S (w_heap w)) < fuel \<Longrightarrow> finish fuel cfg env s ft w = Some (w', e) \<Longrightarrow>
    life_step cfg (S, w) (S, w')"
| set_tag: "s \<in> S \<Longrightarrow> life_step cfg (S, w) (S, setTag env s k v w)"
| add_tags: "s \<in> S \<Longrightarrow> life_step cfg (S, w) (S, addTags env s v w)"
| set_name: "s \<in> S \<Longrightarrow> life_step cfg (S, w) (S, setOperationName s v w)"
| set_baggage: "s \<in> S \<Longrightarrow> life_step cfg (S, w) (S, span_setBaggageItem s k b w)"
| remove_baggage: "s \<in> S \<Longrightarrow> life_step cfg (S, w) (S, span_removeBaggageItem s k w)"
| clear_baggage: "s \<in> S \<Longrightarrow> life_step cfg (S, w) (S, span_removeAllBaggageItems s w)"
| add_link: "s \<in> S \<Longrightarrow> life_step cfg (S, w) (S, addLink env s l a w)"
| add_links: "s \<in> S \<Longrightarrow> life_step cfg (S, w) (S, addLinks env s ls w)"
| add_pointer: "s \<in> S \<Longrightarrow> life_step cfg (S, w) (S, addSpanPointer env s k d hs w)"
| add_event: "s \<in> S \<Longrightarrow> life_step cfg (S, w) (S, addEvent env s n a t w)"
| carry_out: "tracer_inject tm env store c carrier w = (out, w') \<Longrightarrow> life_step cfg (S, w) (S, w')"
| carry_in: "tracer_extract tm env json carr store w = (c, store', w') \<Longrightarrow> life_step cfg (S, w) (S, w')"
| kill: "life_step cfg (S, w) (S, killAll w)"

inductive life_reachable :: "tracer_config \<Rightarrow> nat set \<times> 'l world \<Rightarrow> bool" for cfg where
  init: "w_heap w = empty_heap \<Longrightarrow> life_reachable cfg ({}, w)"
| step: "life_reachable cfg sw \<Longrightarrow> life_step cfg sw sw' \<Longrightarrow> life_reachable cfg sw'"

inductive_cases life_stepE: "life_step cfg (S, w) (S', w')"

lemma resample_life: "same_life (w_heap w) (w_heap (resample env s may w))"
  by (simp add: resample_def Let_def same_life_tracer_sample)

lemma same_life_on_ctx:
  "(\<And>x. ctx_trace (f x) = ctx_trace x \<and> ctx_spanId (f x) = ctx_spanId x) \<Longrightarrow>
     same_life (w_heap w) (w_heap (on_heap (\<lambda>h. upd_ctx (c h) f h) w))"
  by (simp add: same_life_upd_ctx)

lemma operations_life:
  "same_life (w_heap w) (w_heap (setTag env s k v w))"
  "same_life (w_heap w) (w_heap (addTags env s v w))"
  "same_life (w_heap w) (w_heap (setOperationName s v w))"
  "same_life (w_heap w) (w_heap (span_setBaggageItem s k b w))"
  "same_life (w_heap w) (w_heap (span_removeBaggageItem s k w))"
  "same_life (w_heap w) (w_heap (span_removeAllBaggageItems s w))"
proof -
  show "same_life (w_heap w) (w_heap (setTag env s k v w))"
    unfolding setTag_def
    by (rule same_life_trans [OF same_life_on_ctx resample_life]) (simp add: ctx_setTag_def)
  show "same_life (w_heap w) (w_heap (addTags env s v w))"
    unfolding addTags_def Let_def
    by (auto intro!: same_life_trans [OF same_life_on_ctx resample_life])
qed (simp_all add: setOperationName_def span_setBaggageItem_def span_removeBaggageItem_def
    span_removeAllBaggageItems_def same_life_upd_ctx)

text \<open>The spans that finished and left their trace; a transition never brings one back.\<close>

definition gone :: "nat set \<Rightarrow> heap \<Rightarrow> nat set" where
  "gone S h = {s \<in> S. \<not> unfinished h s \<and> s \<notin> listed h}"

definition life_next :: "nat set \<Rightarrow> heap \<Rightarrow> heap \<Rightarrow> bool" where
  "life_next S h h' \<longleftrightarrow> life_inv S h' \<and> gone S h \<subseteq> gone S h'"

lemma life_next_same: "life_inv S h \<Longrightarrow> same_life h h' \<Longrightarrow> life_next S h h'"
  using life_inv_same listed_same same_life_view(1) by (auto simp: life_next_def gone_def)

lemma life_next_trans: "life_next S h h1 \<Longrightarrow> life_next S h1 h2 \<Longrightarrow> life_next S h h2"
  by (auto simp: life_next_def)

lemma life_next_refl: "life_inv S h \<Longrightarrow> life_next S h h"
  by (simp add: life_next_def)

lemma life_next_upd_span:
  assumes inv: "life_inv S h" and f: "\<And>x. sp_ctx (f x) = sp_ctx x \<and> sp_duration (f x) = sp_duration x"
  shows "life_next S h (upd_span s f h)"
proof -
  have eq: "unfinished (upd_span s f h) = unfinished h" "span_trace (upd_span s f h) = span_trace h"
    "ctx_of (upd_span s f h) = ctx_of h"
    "listed (upd_span s f h) = listed h"
    using f [THEN conjunct1] f [THEN conjunct2] by (auto simp: unfinished_def span_trace_def ctx_of_def listed_def fun_eq_iff)
  show ?thesis
    using inv unfolding life_next_def gone_def life_inv_def books_ok_def eq by simp
qed

lemma addLinks_next:
  fixes w :: "'l world"
  assumes "life_inv S (w_heap w)"
  shows "life_next S (w_heap w) (w_heap (addLinks env s ls w))"
  unfolding addLinks_def
proof (rule fold_preserves [where P = "\<lambda>v :: 'l world. life_next S (w_heap w) (w_heap v)"])
  fix x :: "nat \<times> jsobj option" and v :: "'l world" assume v: "life_next S (w_heap w) (w_heap v)"
  obtain l a where x: "x = (l, a)" by (cases x)
  have "life_inv S (w_heap v)" using v by (simp add: life_next_def)
  then have "life_next S (w_heap v) (w_heap (addLink env s l a v))"
    by (simp add: addLink_def life_next_upd_span)
  with v show "life_next S (w_heap w) (w_heap ((case x of (l, a) \<Rightarrow> addLink env s l a) v))"
    by (simp add: x life_next_trans)
qed (rule life_next_refl [OF assms])

lemma life_next_alloc:
  assumes inv: "life_inv S h" and n: "n = h_next h" and q: "started t = []" "finished t = []"
    and c: "ctx_trace c = n"
  shows "life_next S h (h\<lparr>h_traces := (h_traces h)(n := t), h_samplings := (h_samplings h)(n := sm),
    h_ctxs := (h_ctxs h)(n := c), h_next := n + 1\<rparr>)" (is "life_next S h ?h")
proof -
  have old: "s < n" "ctx_of h s < n" "span_trace h s < n" if "s \<in> S" for s
  proof -
    show s: "s < n" "ctx_of h s < n" using inv that n by (simp_all add: life_inv_def)
    have "span_trace h s < max 1 n" using inv n by (simp add: life_inv_def span_trace_def)
    then show "span_trace h s < n" using s by simp
  qed
  have eq: "unfinished ?h = unfinished h" "ctx_of ?h = ctx_of h" by (auto simp: unfinished_def ctx_of_def)
  have tr: "span_trace ?h s = span_trace h s" if "s \<in> S" for s
    unfolding span_trace_def eq using old [OF that] by simp
  have fresh: "started (h_traces h n) = []" "finished (h_traces h n) = []"
    using fresh_books [OF inv] by (simp_all add: n)
  then have st: "started (h_traces ?h t') = started (h_traces h t')" "finished (h_traces ?h t') = finished (h_traces h t')"
    for t' using q by simp_all
  have books: "books_ok ?h S t'" for t'
  proof -
    have "books_ok h S t'" using inv by (simp add: life_inv_def)
    then show ?thesis using tr unfolding books_ok_def st eq(1) by auto
  qed
  have ctx: "ctx_trace (h_ctxs ?h x) < max 1 (h_next ?h)" for x
  proof -
    have "ctx_trace (h_ctxs h x) < max 1 n" using inv n by (simp add: life_inv_def)
    then show ?thesis using c by auto
  qed
  have "s \<in> set (started (h_traces ?h (span_trace ?h s)))" if "s \<in> S" "unfinished ?h s" for s
    using that inv unfolding tr [OF that(1)] st eq(1) by (simp add: life_inv_def)
  moreover have "s < h_next ?h \<and> ctx_of ?h s < h_next ?h" if "s \<in> S" for s
    using old [OF that] unfolding eq(2) by simp
  ultimately have "life_inv S ?h"
    unfolding life_inv_def using books ctx by blast
  moreover have "listed ?h = listed h" unfolding listed_def st ..
  ultimately show ?thesis unfolding life_next_def gone_def eq(1) by simp
qed

lemma import_context_next:
  assumes "life_inv S h" "quiet e"
  shows "life_next S h (import_context e h)"
  unfolding import_context_def Let_def
  by (rule life_next_alloc [OF assms(1) refl]) (use assms(2) in \<open>simp_all add: quiet_def\<close>)

lemma startSpan_life:
  assumes inv: "life_inv S (w_heap w)" and ok: "ref_ok (w_heap w) (parent_of (w_heap w) opts)"
    and r: "startSpan cfg env name opts w = (w', s)"
  shows "life_inv (insert s S) (w_heap w') \<and> gone S (w_heap w) \<subseteq> gone S (w_heap w') \<and> s \<notin> S \<and>
    unfinished (w_heap w') s"
proof -
  define fd where "fd = \<lparr>fd_operationName = js_or (so_operationName opts) name, fd_parent = parent_of (w_heap w) opts,
    fd_context = None, fd_startTime = so_startTime opts, fd_hostname = tc_hostname cfg,
    fd_128bit = tc_128bit cfg, fd_integrationName = so_integrationName opts,
    fd_links = so_links opts, fd_tags = None\<rparr>"
  obtain w1 n where n: "new_Span cfg env fd w = (w1, n)" by (cases "new_Span cfg env fd w")
  have refs: "ref_ok (w_heap w) (fd_parent fd)" "ref_ok (w_heap w) (fd_context fd)"
    using ok by (simp_all add: fd_def ref_ok_def)
  note new = life_inv_new_Span [OF inv refs n] and v = new_Span_view [OF inv refs n]
  obtain v1 ps where w': "s = n" "w' = (case ps of Some p \<Rightarrow> addTags env n (JObj p)
      (addTags env n (tc_tags cfg) (on_heap (\<lambda>h. upd_ctx (ctx_of h n) (ctx_setTag SERVICE_NAME v1) h) w1))
      | None \<Rightarrow> addTags env n (tc_tags cfg) (on_heap (\<lambda>h. upd_ctx (ctx_of h n) (ctx_setTag SERVICE_NAME v1) h) w1))"
    using r n unfolding startSpan_def Let_def by (auto simp flip: fd_def)
  let ?w2 = "on_heap (\<lambda>h. upd_ctx (ctx_of h n) (ctx_setTag SERVICE_NAME v1) h) w1"
  have "same_life (w_heap w1) (w_heap ?w2)" by simp
  then have "same_life (w_heap w1) (w_heap (addTags env n (tc_tags cfg) ?w2))"
    by (rule same_life_trans [OF _ operations_life(2)])
  then have "same_life (w_heap w1) (w_heap w')"
    by (auto simp: w' split: option.splits intro: same_life_trans [OF _ operations_life(2)])
  then have l: "life_inv (insert s S) (w_heap w')" "unfinished (w_heap w') = unfinished (w_heap w1)"
    "listed (w_heap w') = listed (w_heap w1)"
    using new life_inv_same same_life_view(1) listed_same by (auto simp: w'(1))
  have "gone S (w_heap w) \<subseteq> gone S (w_heap w')"
  proof
    fix x assume x: "x \<in> gone S (w_heap w)"
    then have "x \<noteq> n" using new(1) by (auto simp: gone_def)
    with x have "x \<notin> listed (w_heap w1)" "\<not> unfinished (w_heap w1) x"
      using v(5) [of x] by (auto simp: gone_def listed_def v(9) unfinished_def)
    with x show "x \<in> gone S (w_heap w')" by (simp add: gone_def l)
  qed
  then show ?thesis using l new v(4) w'(1) by simp
qed

lemma tracer_inject_life:
  assumes "tracer_inject tm env store c carrier w = (out, w')"
  shows "same_life (w_heap w) (w_heap w')"
proof -
  have "same_life (w_heap w) (w_heap (on_heap (upd_ctx c (\<lambda>ctx. ctx\<lparr>ctx_tracestate := x\<rparr>)) (tracer_sample env c True w)))" for x
    by (rule same_life_trans [OF same_life_tracer_sample [of w env c True]]) (simp add: same_life_upd_ctx)
  then show ?thesis
    using assms same_life_tracer_sample
    by (auto simp: tracer_inject_def Let_def split: prod.splits option.splits)
qed

lemma life_step_next:
  assumes "life_step cfg sw sw'" "tc_enabled cfg" "finite (fst sw)" "life_inv (fst sw) (w_heap (snd sw))"
  shows "finite (fst sw') \<and> life_inv (fst sw') (w_heap (snd sw')) \<and> fst sw \<subseteq> fst sw' \<and>
    gone (fst sw) (w_heap (snd sw)) \<subseteq> gone (fst sw) (w_heap (snd sw'))"
proof -
  have "finite (fst sw') \<and> fst sw' = fst sw \<and> life_next (fst sw) (w_heap (snd sw)) (w_heap (snd sw')) \<or>
    finite (fst sw') \<and> life_inv (fst sw') (w_heap (snd sw')) \<and> fst sw \<subseteq> fst sw' \<and>
      gone (fst sw) (w_heap (snd sw)) \<subseteq> gone (fst sw) (w_heap (snd sw'))"
    using assms
  proof (induction rule: life_step.induct)
    case (start w opts env name w' s S)
    then show ?case using startSpan_life [of S w opts cfg env name w' s] by auto
  next
    case (finish s S w fuel env ft w' e)
    then obtain "life_inv S (w_heap w')" "pending S (w_heap w') \<subseteq> pending S (w_heap w)"
      "listed (w_heap w') \<subseteq> listed (w_heap w)"
      using finish_total [of cfg S w s fuel env ft] by auto
    then show ?case using finish by (auto simp: life_next_def gone_def pending_def)
  next
    case (add_link s S w env l a)
    then show ?case by (simp add: addLink_def life_next_upd_span)
  next
    case (add_links s S w env ls)
    then show ?case by (simp add: addLinks_next)
  next
    case (add_pointer s S w env k d hs)
    let ?h = "w_heap w"
    let ?g = "?h\<lparr>h_traces := (h_traces ?h)(h_next ?h := new_trace), h_samplings := (h_samplings ?h)(h_next ?h := new_sampling),
        h_ctxs := (h_ctxs ?h)(h_next ?h := new_SpanContext zeroId (Some zeroId) (h_next ?h) (h_next ?h)), h_next := h_next ?h + 1\<rparr>"
    have g: "life_next S ?h ?g"
      using add_pointer by (intro life_next_alloc) (simp_all add: new_trace_def new_SpanContext_def)
    then have "life_inv S ?g" by (simp add: life_next_def)
    from life_next_trans [OF g life_next_upd_span [OF this]] show ?case
      using add_pointer by (simp add: addSpanPointer_def addLink_def Let_def)
  next
    case (add_event s S w env n a t)
    then show ?case by (simp add: addEvent_def Let_def life_next_upd_span)
  next
    case (carry_out tm env store c carrier w out w' S)
    then show ?case using life_next_same [OF _ tracer_inject_life] by (metis fst_conv snd_conv)
  next
    case (carry_in tm env json carr store w c store' w' S)
    have "quiet x" if "extract_context tm (e_id env) json carr store = (Some x, st)" for x st
      using quiet_extract [of tm "e_id env" json carr store] that by simp
    then show ?case
      using carry_in
      by (auto simp: tracer_extract_def Let_def split: prod.splits option.splits
          intro: import_context_next life_next_refl)
  qed (simp_all add: killAll_def life_next_refl life_next_same operations_life)
  then show ?thesis by (auto simp: life_next_def)
qed

lemma reachable_inv:
  assumes "life_reachable cfg sw" "tc_enabled cfg"
  shows "finite (fst sw) \<and> life_inv (fst sw) (w_heap (snd sw))"
  using assms
proof (induction rule: life_reachable.induct)
  case (init w)
  then show ?case using life_inv_empty by (simp add: empty_world_def)
next
  case (step sw sw')
  then show ?case using life_step_next by blast
qed

lemma run_gone:
  assumes "(life_step cfg)\<^sup>*\<^sup>* sw sw'" "life_reachable cfg sw" "tc_enabled cfg"
  shows "life_reachable cfg sw' \<and> fst sw \<subseteq> fst sw' \<and>
    gone (fst sw) (w_heap (snd sw)) \<subseteq> gone (fst sw') (w_heap (snd sw'))"
  using assms
proof (induction rule: rtranclp_induct)
  case base
  then show ?case by simp
next
  case (step sw1 sw2)
  then have "gone (fst sw1) (w_heap (snd sw1)) \<subseteq> gone (fst sw1) (w_heap (snd sw2)) \<and> fst sw1 \<subseteq> fst sw2"
    using life_step_next reachable_inv by blast
  moreover have "gone (fst sw1) h \<subseteq> gone (fst sw2) h" if "fst sw1 \<subseteq> fst sw2" for h
    using that by (auto simp: gone_def)
  ultimately show ?case using step life_reachable.step by blast
qed

subsection \<open>Properties of every run\<close>

lemma count_list_distinct: "distinct xs \<Longrightarrow> count_list xs x = (if x \<in> set xs then 1 else 0)"
  by (induction xs) auto

text \<open>
  C1: In every state the operations of the tracer can reach, and for every span it has started: the
  finished list of a trace is exactly the finished part of its started list, and an unfinished
  span is on the list of its own trace exactly once and on no other list, so that the processor
  still waits for it.
\<close>

theorem reachable_books:
  assumes "life_reachable cfg (S, w)" "tc_enabled cfg" "s \<in> S"
  shows "set (finished (h_traces (w_heap w) t)) =
      {x \<in> set (started (h_traces (w_heap w) t)). \<not> unfinished (w_heap w) x} \<and>
    (unfinished (w_heap w) s \<longrightarrow>
      count_list (started (h_traces (w_heap w) t)) s = (if t = span_trace (w_heap w) s then 1 else 0))"
proof -
  have inv: "life_inv S (w_heap w)" using reachable_inv [OF assms(1,2)] by simp
  then have books: "books_ok (w_heap w) S t" by (simp add: life_inv_def)
  have "count_list (started (h_traces (w_heap w) t)) s = (if t = span_trace (w_heap w) s then 1 else 0)"
    if "unfinished (w_heap w) s"
  proof (cases "t = span_trace (w_heap w) s")
    case True
    have "s \<in> set (started (h_traces (w_heap w) t))"
      using inv that assms(3) unfolding True life_inv_def by blast
    moreover have "distinct (started (h_traces (w_heap w) t))" using books by (simp add: books_ok_def)
    ultimately show ?thesis using True by (simp add: count_list_distinct)
  next
    case False
    then have "s \<notin> set (started (h_traces (w_heap w) t))" using books by (auto simp: books_ok_def)
    then show ?thesis using False by (simp add: count_list_0_iff)
  qed
  then show ?thesis using books by (simp add: books_ok_def)
qed


definition demo_opts :: start_options where
  "demo_opts = \<lparr>so_childOf = None, so_references = [], so_operationName = JUndef, so_startTime = None,
     so_integrationName = [], so_links = [], so_tags = None\<rparr>"

lemma demo_run:
  obtains w w' where "startSpan demo_cfg demo_env (JStr ''op'') demo_opts empty_world = (w, 0)"
    "life_reachable demo_cfg ({0}, w)" "unfinished (w_heap w) 0" "span_trace (w_heap w) 0 = 0"
    "finish 2 demo_cfg demo_env 0 JUndef w = Some (w', None)" "life_reachable demo_cfg ({0}, w')"
    "\<not> unfinished (w_heap w') 0" "\<forall>t. 0 \<notin> set (started (h_traces (w_heap w') t))"
proof -
  obtain w s where r: "startSpan demo_cfg demo_env (JStr ''op'') demo_opts empty_world = (w, s)"
    by (cases "startSpan demo_cfg demo_env (JStr ''op'') demo_opts empty_world")
  have p: "parent_of (w_heap empty_world) demo_opts = None" by (simp add: parent_of_def demo_opts_def)
  have en: "tc_enabled demo_cfg" by (simp add: demo_cfg_def)
  have "life_reachable demo_cfg ({}, empty_world)"
    by (rule life_reachable.init) (simp add: empty_world_def)
  moreover have "life_step demo_cfg ({}, empty_world) ({s}, w)"
    using life_step.start [OF _ r, of "{}"] p by (simp add: ref_ok_def)
  ultimately have reach: "life_reachable demo_cfg ({s}, w)" by (rule life_reachable.step)
  have s: "s = 0" "unfinished (w_heap w) 0" "span_trace (w_heap w) 0 = 0"
    "t_record (h_traces (w_heap w) 0) = None" "w_kill w = False"
    "started (h_traces (w_heap w) 0) = [0]"
    "ctx_getTag (h_ctxs (w_heap w) (ctx_of (w_heap w) 0)) SERVICE_NAME = JStr ''web''"
    using r
    by (auto simp: startSpan_def demo_opts_def demo_cfg_def parent_of_def addTags_def new_Span_def createContext_def
        root_context_def start_trace_def is_remote_def Let_def new_trace_def name_context_def empty_world_def
        empty_heap_def new_SpanContext_def inc_counter_def make_span_def ctx_of_def ctx_getTag_def ctx_setTag_def
        unfinished_def span_trace_def js_typeof_def getp_def)
  have inv: "life_inv {0} (w_heap w)" using reachable_inv [OF reach en] by (simp add: s(1))
  have sv: "services_ok (w_heap w) [0]" using s(7) by (simp add: services_ok_def service_ok_def is_string_def)
  have b: "book (w_heap w) 0 = [(0, False)]" using s(2,6) by (simp add: book_def)
  have bf: "book_finish (tc_flushMinSpans demo_cfg) 0 (book (w_heap w) 0) = ([], [0])"
    by (simp add: b book_finish_def)
  have rec: "t_record (h_traces (w_heap w) 0) \<noteq> Some False" by (simp add: s(4))
  obtain w' where w': "finish (Suc 1) demo_cfg demo_env 0 JUndef w = Some (w', None)"
    "\<forall>t. book (w_heap w') t = (if t = 0 then [] else book (w_heap w) t)"
    using finish_once [of demo_cfg "{0}" w 0 0 "[]" "[0]" 1 demo_env JUndef] inv en s rec sv bf
    by auto
  have card: "card (pending {0} (w_heap w)) < Suc 1"
    using card_mono [of "{0 :: nat}" "pending {0} (w_heap w)"] by (simp add: pending_def subset_iff)
  have "life_step demo_cfg ({0}, w) ({0}, w')"
    by (rule life_step.finish [OF _ card w'(1)]) simp
  then have reach': "life_reachable demo_cfg ({0}, w')" using reach s(1) life_reachable.step by blast
  obtain v e where "finish (Suc 1) demo_cfg demo_env 0 JUndef w = Some (v, e)"
    "pending {0} (w_heap v) \<subseteq> pending {0} (w_heap w) - {0}"
    using finish_total [OF en _ inv _ card, of 0 demo_env JUndef] by auto
  then have un: "\<not> unfinished (w_heap w') 0" using w'(1) by (auto simp: pending_def)
  have "0 \<notin> set (started (h_traces (w_heap w') t))" for t
  proof (cases "t = 0")
    case True
    then have "book (w_heap w') t = []" using w'(2) by simp
    then show ?thesis by (simp add: book_def)
  next
    case False
    then have "book (w_heap w') t = book (w_heap w) t" using w'(2) by simp
    then have "map fst (book (w_heap w') t) = map fst (book (w_heap w) t)" by simp
    then have "started (h_traces (w_heap w') t) = started (h_traces (w_heap w) t)" by (simp add: book_def comp_def)
    then show ?thesis using inv False s(3) by (auto simp: life_inv_def books_ok_def)
  qed
  then have out: "\<forall>t. 0 \<notin> set (started (h_traces (w_heap w') t))" by blast
  show thesis
    using that [of w w'] r reach s w'(1) reach' un out by (simp add: numeral_2_eq_2)
qed

theorem reachable_books_witness:
  "\<exists>w. startSpan demo_cfg demo_env (JStr ''op'') demo_opts empty_world = (w, 0) \<and>
     count_list (started (h_traces (w_heap w) 0)) 0 = 1 \<and> finished (h_traces (w_heap w) 0) = []"
proof -
  obtain w where w: "startSpan demo_cfg demo_env (JStr ''op'') demo_opts empty_world = (w, 0)"
    "life_reachable demo_cfg ({0}, w)" "unfinished (w_heap w) 0" "span_trace (w_heap w) 0 = 0"
    by (rule demo_run)
  have "tc_enabled demo_cfg" by (simp add: demo_cfg_def)
  from reachable_books [OF w(2) this, of 0 0] have r: "set (finished (h_traces (w_heap w) 0)) =
      {x \<in> set (started (h_traces (w_heap w) 0)). \<not> unfinished (w_heap w) x}"
    "count_list (started (h_traces (w_heap w) 0)) 0 = 1" using w(3,4) by simp_all
  have "set (started (h_traces (w_heap w) 0)) \<subseteq> {0}"
    using reachable_inv [OF w(2)] by (simp add: life_inv_def books_ok_def demo_cfg_def)
  then have "set (finished (h_traces (w_heap w) 0)) = {}" using r(1) w(3) by auto
  then show ?thesis using w(1) r(2) by simp
qed


subsection \<open>Logs\<close>

lemma decimal_short:
  assumes "length b = 8"
  shows "length (toString_id b 10) \<noteq> 32"
proof -
  have "toString_id b 10 = show_nat (nat (be_val b))"
    using assms by (simp add: toString_id_def toNumberString_show)
  moreover have "length (show_nat (nat (be_val b))) \<le> 20"
  proof (rule length_show_nat_bound)
    have "be_val b < 2 ^ 64" using be_val_bound [of b] assms by simp
    then show "nat (be_val b) < 10 ^ 20" by simp
  qed simp
  ultimately show ?thesis by simp
qed

text \<open>
  The identifiers that log injection writes are read back: the extracted context has the same
  trace and span identifiers, and the upper half of the trace identifier too when both options
  for 128-bit identifiers are on.
\<close>

theorem log_roundtrip:
  assumes "length (ctx_traceId ctx) = 8" "ctx_spanId ctx = Some sid" "length sid = 8"
    and "getp (t_tags (ctx_trace ctx)) TRACE_ID_128 = (case tid of Some hi \<Rightarrow> JStr hi | None \<Rightarrow> JUndef)"
    and "pred_option (\<lambda>hi. length hi = 16) tid"
  shows "\<exists>dd ctx'. log_inject lc (Some ctx) = Some dd \<and> log_extract (Some dd) = Some ctx' \<and>
    ctx_traceId ctx' = ctx_traceId ctx \<and> ctx_spanId ctx' = Some sid \<and>
    trace_tid (ctx_trace ctx') = (if lc_128bit lc \<and> lc_128bitLogging lc then tid else None)"
proof -
  define both where "both = (lc_128bit lc \<and> lc_128bitLogging lc)"
  define t where "t = (if both \<and> tid \<noteq> None then the tid @ hex_string (ctx_traceId ctx)
    else toString_id (ctx_traceId ctx) 10)"
  note ids = decimal_id [OF assms(1)] decimal_id [OF assms(3)]
  have "toTraceId (ctx_trace ctx) ctx True = hi @ hex_string (ctx_traceId ctx)" if "tid = Some hi" for hi
    using assms that
    by (auto simp: toTraceId_def toTraceIdHex_def toString_id_def pad_start_def trace_tid_def)
  then have t: "t = (if both \<and> truthy (getp (t_tags (ctx_trace ctx)) TRACE_ID_128)
      then toTraceId (ctx_trace ctx) ctx True else toTraceId (ctx_trace ctx) ctx False)"
    using assms(4,5) by (auto simp: t_def toTraceId_def split: option.splits)
  have s: "toSpanId ctx False = toString_id sid 10" by (simp add: toSpanId_def assms(2))
  define dd where "dd = put_text ''env'' (lc_env lc) (put_text ''version'' (lc_version lc)
    (put_text ''service'' (lc_service lc) [(''trace_id'', t), (''span_id'', toString_id sid 10)]))"
  have reads: "obj_get dd ''trace_id'' = Some t" "obj_get dd ''span_id'' = Some (toString_id sid 10)"
    by (simp_all add: dd_def put_text_def)
  then have "dd \<noteq> []" by auto
  then have inj: "log_inject lc (Some ctx) = Some dd"
    using t s by (simp add: log_inject_def Let_def dd_def both_def)
  show ?thesis
  proof (cases "both \<and> tid \<noteq> None")
    case True
    then obtain hi where hi: "tid = Some hi" "length hi = 16" using assms(5) by auto
    have t: "t = hi @ hex_string (ctx_traceId ctx)" using True hi by (simp add: t_def)
    have "slice t 16 32 = hex_string (ctx_traceId ctx)" "slice t 0 16 = hi" "length t = 32"
      using hi(2) assms(1) by (simp_all add: t slice_def)
    moreover have "parse_id (hex_string (ctx_traceId ctx)) 16 = ctx_traceId ctx"
      using hexBuffer_hex_string [of "ctx_traceId ctx"] assms(1)
      by (force simp: parse_id_def createIdentifier_def createBuffer_def)
    ultimately show ?thesis
      using inj reads ids True hi
      by (auto simp: log_extract_def given_def both_def trace_tid_def ectx_tag_def new_ectx_def new_SpanContext_def
          new_trace_def getp_def)
  next
    case False
    then have "t = toString_id (ctx_traceId ctx) 10" by (auto simp: t_def)
    then show ?thesis
      using inj reads ids False decimal_short [OF assms(1)]
      by (auto simp: log_extract_def given_def both_def trace_tid_def new_ectx_def new_SpanContext_def
          new_trace_def getp_def)
  qed
qed

definition demo_log :: log_config where
  "demo_log = \<lparr>lc_128bit = True, lc_128bitLogging = True, lc_service = ''web'', lc_version = [], lc_env = ''prod''\<rparr>"

theorem log_roundtrip_witness:
  "\<exists>dd ctx'. log_inject demo_log (Some (ectx_tag TRACE_ID_128 (JStr ''65f1a2b300000000'')
       (new_ectx [0, 0, 0, 0, 0, 0, 0, 1] (Some [0, 0, 0, 0, 0, 0, 0, 2])))) = Some dd \<and>
     log_extract (Some dd) = Some ctx' \<and> ctx_traceId ctx' = [0, 0, 0, 0, 0, 0, 0, 1] \<and>
     trace_tid (ctx_trace ctx') = Some ''65f1a2b300000000''"
  using log_roundtrip [of "ectx_tag TRACE_ID_128 (JStr ''65f1a2b300000000'')
      (new_ectx [0, 0, 0, 0, 0, 0, 0, 1] (Some [0, 0, 0, 0, 0, 0, 0, 2]))" "[0, 0, 0, 0, 0, 0, 0, 2]"
      "Some ''65f1a2b300000000''" demo_log]
  by (auto simp: ectx_tag_def new_ectx_def new_SpanContext_def new_trace_def getp_def demo_log_def)

subsection \<open>One trace over two processes\<close>

text \<open>What setting tags on a context leaves alone\<close>

definition same_identity :: "heap \<Rightarrow> heap \<Rightarrow> bool" where
  "same_identity h h' \<longleftrightarrow> h_samplings h' = h_samplings h \<and> h_traces h' = h_traces h \<and>
     (\<forall>s. ctx_of h' s = ctx_of h s) \<and>
     (\<forall>c. ctx_traceId (h_ctxs h' c) = ctx_traceId (h_ctxs h c) \<and> ctx_spanId (h_ctxs h' c) = ctx_spanId (h_ctxs h c) \<and>
       ctx_parentId (h_ctxs h' c) = ctx_parentId (h_ctxs h c) \<and> ctx_trace (h_ctxs h' c) = ctx_trace (h_ctxs h c) \<and>
       ctx_sampling (h_ctxs h' c) = ctx_sampling (h_ctxs h c))"

lemma same_identity_refl: "same_identity h h"
  by (simp add: same_identity_def)

lemma same_identity_trans: "same_identity h h1 \<Longrightarrow> same_identity h1 h2 \<Longrightarrow> same_identity h h2"
  by (simp add: same_identity_def)

lemma addTags_decided:
  assumes "priority (sampling_of (w_heap w) (ctx_of (w_heap w) s)) = Some p"
  shows "same_identity (w_heap w) (w_heap (addTags env s v w))"
  using assms
  by (auto simp: addTags_def resample_def Let_def same_identity_def ctx_of_def)

text \<open>A span started under a context of which the decision is known joins its trace.\<close>

lemma startSpan_child:
  assumes parent: "parent_of (w_heap w) opts = Some c" "c < h_next (w_heap w)"
    and go: "\<not> ctx_isRemote (h_ctxs (w_heap w) c) \<or> tc_behavior cfg = ''continue''"
    and p: "priority (sampling_of (w_heap w) c) = Some p"
    and r: "startSpan cfg env name opts w = (w', s)"
  defines "h \<equiv> w_heap w" and "h' \<equiv> w_heap w'"
  shows "ctx_traceId (h_ctxs h' (ctx_of h' s)) = ctx_traceId (h_ctxs h c) \<and>
    ctx_parentId (h_ctxs h' (ctx_of h' s)) = ctx_spanId (h_ctxs h c) \<and>
    ctx_spanId (h_ctxs h' (ctx_of h' s)) = Some (e_id env) \<and>
    sampling_of h' (ctx_of h' s) = sampling_of h c \<and>
    t_tags (trace_of h' (ctx_of h' s)) = t_tags (trace_of h c) \<and>
    t_origin (trace_of h' (ctx_of h' s)) = t_origin (trace_of h c) \<and>
    started (trace_of h' (ctx_of h' s)) = started (trace_of h c) @ [s]"
proof -
  define fd where "fd = \<lparr>fd_operationName = js_or (so_operationName opts) name, fd_parent = parent_of (w_heap w) opts,
    fd_context = None, fd_startTime = so_startTime opts, fd_hostname = tc_hostname cfg,
    fd_128bit = tc_128bit cfg, fd_integrationName = so_integrationName opts,
    fd_links = so_links opts, fd_tags = None\<rparr>"
  obtain w1 n where n: "new_Span cfg env fd w = (w1, n)" by (cases "new_Span cfg env fd w")
  let ?h1 = "w_heap w1"
  have new: "ctx_traceId (h_ctxs ?h1 (ctx_of ?h1 n)) = ctx_traceId (h_ctxs h c) \<and>
    ctx_parentId (h_ctxs ?h1 (ctx_of ?h1 n)) = ctx_spanId (h_ctxs h c) \<and>
    ctx_spanId (h_ctxs ?h1 (ctx_of ?h1 n)) = Some (e_id env) \<and>
    sampling_of ?h1 (ctx_of ?h1 n) = sampling_of h c \<and>
    t_tags (trace_of ?h1 (ctx_of ?h1 n)) = t_tags (trace_of h c) \<and>
    t_origin (trace_of ?h1 (ctx_of ?h1 n)) = t_origin (trace_of h c) \<and>
    started (trace_of ?h1 (ctx_of ?h1 n)) = started (trace_of h c) @ [n]"
    using n parent go
    by (auto simp: new_Span_def createContext_def child_context_def start_trace_def is_remote_def fd_def Let_def
        h_def name_context_def ctx_of_def make_span_def inc_counter_def new_SpanContext_def)
  obtain v1 ps where w': "s = n" "w' = (case ps of Some p \<Rightarrow> addTags env n (JObj p)
      (addTags env n (tc_tags cfg) (on_heap (\<lambda>h. upd_ctx (ctx_of h n) (ctx_setTag SERVICE_NAME v1) h) w1))
      | None \<Rightarrow> addTags env n (tc_tags cfg) (on_heap (\<lambda>h. upd_ctx (ctx_of h n) (ctx_setTag SERVICE_NAME v1) h) w1))"
    using r n unfolding startSpan_def Let_def by (auto simp flip: fd_def)
  let ?w2 = "on_heap (\<lambda>h. upd_ctx (ctx_of h n) (ctx_setTag SERVICE_NAME v1) h) w1"
  have 2: "same_identity ?h1 (w_heap ?w2)" by (simp add: same_identity_def ctx_setTag_def ctx_of_def)
  have dec: "priority (sampling_of g (ctx_of g n)) = Some p" if "same_identity ?h1 g" for g
    using that new p by (simp add: same_identity_def h_def)
  have 3: "same_identity ?h1 (w_heap (addTags env n (tc_tags cfg) ?w2))"
    by (rule same_identity_trans [OF 2 addTags_decided [OF dec [OF 2]]])
  have "same_identity ?h1 h'"
    using 3 same_identity_trans [OF 3 addTags_decided [OF dec [OF 3]]]
    by (auto simp: h'_def w' split: option.splits)
  then show ?thesis using new w'(1) by (simp add: same_identity_def)
qed


definition demo_sender :: "(int \<times> nat \<times> int) world" where
  "demo_sender = on_heap (import_context demo_ectx) empty_world"


end
