(* ===== verification/Tagger.thy ===== *)
theory Tagger
  imports SpanFormat
begin

text \<open>
  \<open>tagger.js\<close>: adding tags given as text (\<open>key:value,key:value\<close>), as a list of such, or as
  an object. The text is read in one pass with three indices; the lemmas say that this is cutting
  it at the commas and each piece at its first separator.
\<close>

definition addNonEmpty :: "string \<Rightarrow> string \<Rightarrow> jsobj \<Rightarrow> jsobj" where
  "addNonEmpty key v carrier = (if key \<noteq> [] then AList.update key (JStr v) carrier else carrier)"

text \<open>The loop: index, start of the key, start of the value (0 while unset)\<close>

function tagger_loop :: "char \<Rightarrow> string \<Rightarrow> nat \<Rightarrow> nat \<Rightarrow> nat \<Rightarrow> jsobj \<Rightarrow> nat \<times> nat \<times> jsobj" where
  "tagger_loop sep s i keyStart valueStart carrier =
     (if i < length s then
        if s ! i = sep then
          tagger_loop sep s (i + 1) keyStart (if valueStart = 0 then i else valueStart) carrier
        else if s ! i = CHR '','' then
          (let valueStart = (if valueStart = 0 then i else valueStart)
           in tagger_loop sep s (i + 1) (i + 1) 0
                (addNonEmpty (trim (slice s keyStart valueStart)) (trim (slice s (valueStart + 1) i)) carrier))
        else tagger_loop sep s (i + 1) keyStart valueStart carrier
      else (keyStart, valueStart, carrier))"
  by pat_completeness auto
termination
  by (relation "measure (\<lambda>(sep, s, i, k, v, c). length s - i)") auto

declare tagger_loop.simps [simp del]

definition close_text :: "string \<Rightarrow> nat \<times> nat \<times> jsobj \<Rightarrow> jsobj" where
  "close_text s st =
     (let (keyStart, valueStart, carrier) = st
      in if s = [] \<or> last s \<noteq> CHR '','' then
           (let valueStart = (if valueStart = 0 then length s else valueStart)
            in addNonEmpty (trim (slice s keyStart valueStart)) (trim (drop (valueStart + 1) s)) carrier)
         else carrier)"

definition add_text :: "char \<Rightarrow> string \<Rightarrow> jsobj \<Rightarrow> jsobj" where
  "add_text sep s carrier = close_text s (tagger_loop sep s 0 0 0 carrier)"

text \<open>The own enumerable properties \<open>Object.assign\<close> copies\<close>

definition own_props :: "jsval \<Rightarrow> jsobj" where
  "own_props v = (case v of JObj ps \<Rightarrow> ps | JErr m n s ps \<Rightarrow> ps | _ \<Rightarrow> [])"

text \<open>\<open>add(carrier, keyValuePairs, valueSeparator)\<close>; the elements of a list are read with colons.\<close>

fun tagger_add :: "char \<Rightarrow> jsval \<Rightarrow> jsobj \<Rightarrow> jsobj" where
  "tagger_add sep (JStr s) carrier = add_text sep s carrier"
| "tagger_add sep (JArr xs) carrier = fold (\<lambda>x c. tagger_add (CHR '':'') x c) xs carrier"
| "tagger_add sep v carrier = obj_assign carrier (own_props v)"

subsection \<open>The reference\<close>

definition tag_piece :: "char \<Rightarrow> string \<Rightarrow> jsobj \<Rightarrow> jsobj" where
  "tag_piece sep p = addNonEmpty (trim (takeWhile (\<lambda>c. c \<noteq> sep) p)) (trim (drop 1 (dropWhile (\<lambda>c. c \<noteq> sep) p)))"

text \<open>A comma at the end starts no piece.\<close>

definition tag_pieces :: "string \<Rightarrow> string list" where
  "tag_pieces s =
     (let ps = split_on (CHR '','') s in if last ps = [] \<and> s \<noteq> [] then butlast ps else ps)"

definition value_start :: "char \<Rightarrow> nat \<Rightarrow> string \<Rightarrow> nat" where
  "value_start sep k p = (if sep \<in> set p then k + length (takeWhile (\<lambda>c. c \<noteq> sep) p) else 0)"

text \<open>Reading one piece without commas\<close>

lemma tagger_loop_piece:
  assumes "CHR '','' \<notin> set q" "sep \<noteq> CHR '',''" "0 < k \<or> p @ q = [] \<or> hd (p @ q) \<noteq> sep" "length u = k"
  shows "tagger_loop sep (u @ p @ q @ w) (k + length p) k (value_start sep k p) c =
    tagger_loop sep (u @ p @ q @ w) (k + length (p @ q)) k (value_start sep k (p @ q)) c"
  using assms
proof (induction q arbitrary: p)
  case Nil
  then show ?case by simp
next
  case (Cons x q)
  let ?s = "u @ p @ (x # q) @ w"
  have at: "k + length p < length ?s" "?s ! (k + length p) = x"
    using Cons.prems(4) by (simp_all add: nth_append)
  have "tagger_loop sep ?s (k + length p) k (value_start sep k p) c =
      tagger_loop sep ?s (k + length (p @ [x])) k (value_start sep k (p @ [x])) c"
  proof (cases "x = sep")
    case True
    have "(if value_start sep k p = 0 then k + length p else value_start sep k p) = value_start sep k (p @ [x])"
    proof (cases "sep \<in> set p")
      case True
      then have "0 < k + length (takeWhile (\<lambda>c. c \<noteq> sep) p)"
        using Cons.prems(3) by (cases p) auto
      then show ?thesis using True by (auto simp: value_start_def)
    next
      case False
      then have "takeWhile (\<lambda>c. c \<noteq> sep) (p @ [sep]) = p"
        by (intro take_while_append_neq) auto
      then show ?thesis using False \<open>x = sep\<close> by (simp add: value_start_def)
    qed
    then show ?thesis
      using at True by (subst tagger_loop.simps) (simp add: Let_def)
  next
    case False
    then have "value_start sep k (p @ [x]) = value_start sep k p"
      by (auto simp: value_start_def takeWhile_append1)
    moreover have "x \<noteq> CHR '',''" using Cons.prems(1) by auto
    ultimately show ?thesis
      using at False by (subst tagger_loop.simps) (simp add: Let_def)
  qed
  also have "\<dots> = tagger_loop sep ?s (k + length (p @ x # q)) k (value_start sep k (p @ x # q)) c"
    using Cons.IH [of "p @ [x]"] Cons.prems by simp
  finally show ?case by simp
qed

text \<open>Where key and value of a piece lie in the text\<close>

lemma piece_slices:
  assumes "length u = k" and "v = (if value_start sep k p = 0 then k + length p else value_start sep k p)"
    and "0 < k \<or> p = [] \<or> hd p \<noteq> sep"
  shows "slice (u @ p @ w) k v = takeWhile (\<lambda>c. c \<noteq> sep) p"
    and "slice (u @ p @ w) (v + 1) (k + length p) = drop 1 (dropWhile (\<lambda>c. c \<noteq> sep) p)"
proof -
  let ?t = "takeWhile (\<lambda>c. c \<noteq> sep) p" and ?d = "dropWhile (\<lambda>c. c \<noteq> sep) p"
  have p: "p = ?t @ ?d" by simp
  have len: "length p = length ?t + length ?d" by (metis length_append p)
  have v: "v = k + length ?t"
  proof (cases "sep \<in> set p")
    case True
    then have "0 < k + length ?t" using assms(3) by (cases p) auto
    then show ?thesis using True assms(2) by (auto simp: value_start_def)
  next
    case False
    then have "?t = p" by (intro take_while_all) auto
    then have "length ?t = length p" by (rule arg_cong)
    then show ?thesis using False assms(2) by (simp add: value_start_def)
  qed
  have w: "u @ p @ w = u @ ?t @ ?d @ w" by (metis append_assoc p)
  show "slice (u @ p @ w) k v = ?t"
    unfolding w using assms(1) by (simp add: slice_def v)
  have "slice (u @ p @ w) (v + 1) (k + length p) = take (length ?d - 1) (drop (k + length ?t + 1) (u @ ?t @ ?d @ w))"
    unfolding w using len by (simp add: slice_def v)
  also have "\<dots> = take (length ?d - 1) (drop 1 (?d @ w))"
    using assms(1) by simp
  also have "take (length d - 1) (drop 1 (d @ w)) = drop 1 d" for d :: string
    by (cases d) simp_all
  finally show "slice (u @ p @ w) (v + 1) (k + length p) = drop 1 ?d" .
qed

lemma tagger_loop_end: "tagger_loop sep s (length s) k v c = (k, v, c)"
  by (subst tagger_loop.simps) simp

lemma add_text_from:
  assumes "sep \<noteq> CHR '',''" "u = [] \<or> last u = CHR '',''" "u \<noteq> [] \<or> r = [] \<or> hd r \<noteq> sep"
  shows "close_text (u @ r) (tagger_loop sep (u @ r) (length u) (length u) 0 c) =
    fold (tag_piece sep) (if r = [] \<and> u \<noteq> [] then [] else tag_pieces r) c"
  using assms
proof (induction "length r" arbitrary: u r c rule: less_induct)
  case less
  let ?k = "length u"
  show ?case
  proof (cases "CHR '','' \<in> set r")
    case False
    have loop: "tagger_loop sep (u @ r) ?k ?k 0 c = (?k, value_start sep ?k r, c)"
      using tagger_loop_piece [of r sep ?k "[]" u "[]" c] False less.prems tagger_loop_end [of sep "u @ r"]
      by (auto simp: value_start_def)
    have pieces: "tag_pieces r = (if r = [] then [[]] else [r])"
      using split_on_no_sep [OF False] by (simp add: tag_pieces_def)
    show ?thesis
    proof (cases "r = [] \<and> u \<noteq> []")
      case True
      then show ?thesis using less.prems(2) loop by (simp add: close_text_def)
    next
      case nonempty: False
      define v where "v = (if value_start sep ?k r = 0 then ?k + length r else value_start sep ?k r)"
      have "0 < ?k \<or> r = [] \<or> hd r \<noteq> sep" using less.prems(3) by auto
      note sl = piece_slices [OF refl v_def this, of "[]"]
      have last: "u @ r = [] \<or> last (u @ r) \<noteq> CHR '',''"
      proof -
        have "r \<noteq> [] \<Longrightarrow> last r \<noteq> CHR '',''" using False last_in_set by metis
        then show ?thesis using nonempty by (auto simp: last_append)
      qed
      have rest: "drop (v + 1) (u @ r) = slice (u @ r) (v + 1) (?k + length r)"
        by (simp add: slice_def)
      have "close_text (u @ r) (?k, value_start sep ?k r, c) = tag_piece sep r c"
        using last sl rest by (auto simp: close_text_def tag_piece_def Let_def v_def)
      then show ?thesis using nonempty loop pieces by (auto simp: tag_piece_def)
    qed
  next
    case True
    then obtain p r' where rr: "r = p @ CHR '','' # r'" and np: "CHR '','' \<notin> set p"
      by (blast dest: split_list_first)
    define v where "v = (if value_start sep ?k p = 0 then ?k + length p else value_start sep ?k p)"
    have st: "0 < ?k \<or> p = [] \<or> hd p \<noteq> sep"
      using less.prems(3) by (cases p) (auto simp: rr)
    note sl = piece_slices [OF refl v_def st, of "CHR '','' # r'"]
    let ?s = "u @ p @ CHR '','' # r'"
    have "tagger_loop sep ?s ?k ?k 0 c = tagger_loop sep ?s (?k + length p) ?k (value_start sep ?k p) c"
      using tagger_loop_piece [of p sep ?k "[]" u "CHR '','' # r'" c] np less.prems(1) st
      by (simp add: value_start_def)
    also have "\<dots> = tagger_loop sep ?s (?k + length p + 1) (?k + length p + 1) 0 (tag_piece sep p c)"
    proof -
      have "?s ! (?k + length p) = CHR '',''" by (simp add: nth_append)
      then show ?thesis
        using less.prems(1) sl
        by (subst tagger_loop.simps) (simp add: Let_def tag_piece_def flip: v_def)
    qed
    finally have step: "tagger_loop sep ?s ?k ?k 0 c =
        tagger_loop sep ((u @ p @ '','') @ r') (length (u @ p @ '','')) (length (u @ p @ '','')) 0 (tag_piece sep p c)"
      by simp
    have "close_text ((u @ p @ '','') @ r') (tagger_loop sep ((u @ p @ '','') @ r') (length (u @ p @ '',''))
          (length (u @ p @ '','')) 0 (tag_piece sep p c)) =
        fold (tag_piece sep) (if r' = [] \<and> u @ p @ '','' \<noteq> [] then [] else tag_pieces r') (tag_piece sep p c)"
      by (rule less.hyps) (simp_all add: rr less.prems(1))
    moreover have "tag_pieces r = p # (if r' = [] then [] else tag_pieces r')"
      using split_on_append [OF np, of r'] by (simp add: tag_pieces_def rr Let_def)
    moreover have "r \<noteq> []" by (simp add: rr)
    ultimately show ?thesis using step by (simp add: rr)
  qed
qed



end
