(* ===== verification/JsFloat.thy ===== *)
theory JsFloat
  imports JsNumbers
begin

text \<open>
  The 64-bit representation of a number (IEEE 754 binary64, \<open>DataView.setFloat64\<close>), written and
  read as eight bytes. Writing is defined on every rational, where it cuts off what a double
  cannot hold; on the doubles reading inverts it.
\<close>

text \<open>The powers of two a normal double can start with, the highest first\<close>

definition exponents :: "int list" where
  "exponents = rev [-1022..1023]"

definition leading_exponent :: "rat \<Rightarrow> int option" where
  "leading_exponent a = find (\<lambda>k. 2 powi k \<le> a) exponents"

definition float_bits :: "rat \<Rightarrow> int" where
  "float_bits a =
     (case leading_exponent a of
        Some k \<Rightarrow> (k + 1023) * 2 ^ 52 + (\<lfloor>a * 2 powi (52 - k)\<rfloor> - 2 ^ 52)
      | None \<Rightarrow> \<lfloor>a * 2 powi 1074\<rfloor>)"

definition float64_bytes :: "jsnum \<Rightarrow> byte list" where
  "float64_bytes n = be_bytes 8 (case n of
      NaN \<Rightarrow> 0x7FF8000000000000
    | PInf \<Rightarrow> 0x7FF0000000000000
    | NInf \<Rightarrow> 0xFFF0000000000000
    | Fin r \<Rightarrow> (if r < 0 then 2 ^ 63 + float_bits (- r) else float_bits r))"

definition float64_value :: "byte list \<Rightarrow> jsnum" where
  "float64_value bs =
     (let b = be_val bs;
          neg = 2 ^ 63 \<le> b;
          expo = b mod 2 ^ 63 div 2 ^ 52;
          mant = b mod 2 ^ 52
      in if expo = 2047 then (if mant \<noteq> 0 then NaN else if neg then NInf else PInf)
         else let a = (if expo = 0 then rat_of_int mant * 2 powi (- 1074)
                       else rat_of_int (2 ^ 52 + mant) * 2 powi (expo - 1075))
              in Fin (if neg then - a else a))"

text \<open>The finite doubles\<close>

definition is_double :: "rat \<Rightarrow> bool" where
  "is_double r \<longleftrightarrow> (\<exists>m e. \<bar>m\<bar> < 2 ^ 53 \<and> - 1074 \<le> e \<and> e \<le> 971 \<and> r = rat_of_int m * 2 powi e)"

definition is_js_number :: "jsnum \<Rightarrow> bool" where
  "is_js_number n = (case n of Fin r \<Rightarrow> is_double r | _ \<Rightarrow> True)"

lemma length_float64_bytes [simp]: "length (float64_bytes n) = 8"
  by (simp add: float64_bytes_def)

lemma is_double_minus: "is_double r \<Longrightarrow> is_double (- r)"
proof -
  assume "is_double r"
  then obtain m e where "\<bar>m\<bar> < 2 ^ 53" "- 1074 \<le> e" "e \<le> 971" "r = rat_of_int m * 2 powi e"
    unfolding is_double_def by blast
  then show ?thesis
    unfolding is_double_def by (intro exI [of _ "- m"] exI [of _ e]) simp
qed

lemma is_double_int: "\<bar>m\<bar> < 2 ^ 53 \<Longrightarrow> is_double (rat_of_int m)"
  unfolding is_double_def by (intro exI [of _ m] exI [of _ 0]) simp

lemma powi_mono2: "j \<le> k \<Longrightarrow> (2 :: rat) powi j \<le> 2 powi k"
  by (rule power_int_increasing) simp_all

lemma powi_less_iff2: "(2 :: rat) powi j < 2 powi k \<longleftrightarrow> j < k"
  by (metis linorder_not_le power_int_strict_increasing powi_mono2 one_less_numeral_iff semiring_norm(76))

lemma powi_int_floor:
  fixes e :: int
  assumes "0 \<le> e"
  shows "\<exists>i. (2 :: rat) powi e = rat_of_int i"
  by (rule exI [of _ "2 ^ nat e"]) (use assms in \<open>simp add: power_int_def\<close>)

lemma find_down:
  assumes "find P (rev [a..b]) = Some k"
  shows "P k \<and> a \<le> k \<and> k \<le> b \<and> (\<forall>j. k < j \<and> j \<le> b \<longrightarrow> \<not> P j)"
proof -
  obtain i where i: "i < length (rev [a..b])" "P (rev [a..b] ! i)" "k = rev [a..b] ! i"
    "\<forall>j < i. \<not> P (rev [a..b] ! j)"
    using assms by (auto simp: find_Some_iff)
  have len: "length [a..b] = nat (b - a + 1)" by simp
  have at: "rev [a..b] ! j = b - int j" if "j < nat (b - a + 1)" for j
    using that by (simp add: rev_nth nth_upto)
  have k: "k = b - int i" using i(1,3) at [of i] len by simp
  have "\<not> P j" if "k < j" "j \<le> b" for j
  proof -
    have "nat (b - j) < i" using that k by linarith
    then have "\<not> P (rev [a..b] ! nat (b - j))" using i(4) by blast
    moreover have "rev [a..b] ! nat (b - j) = j"
    proof -
      have "nat (b - j) < nat (b - a + 1)" using i(1) len \<open>nat (b - j) < i\<close> unfolding length_rev by linarith
      then show ?thesis unfolding at [OF \<open>nat (b - j) < nat (b - a + 1)\<close>] using that by simp
    qed
    ultimately show ?thesis by simp
  qed
  then show ?thesis using i k len by auto
qed

lemma find_up_None: "find P (rev [a..b]) = None \<Longrightarrow> a \<le> j \<Longrightarrow> j \<le> b \<Longrightarrow> \<not> P j"
  by (simp add: find_None_iff)

lemma leading_exponent_Some:
  assumes "leading_exponent a = Some k" "a < 2 powi 1024"
  shows "2 powi k \<le> a" "a < 2 powi (k + 1)" "- 1022 \<le> k" "k \<le> 1023"
proof -
  have k: "2 powi k \<le> a \<and> - 1022 \<le> k \<and> k \<le> 1023 \<and> (\<forall>j. k < j \<and> j \<le> 1023 \<longrightarrow> \<not> 2 powi j \<le> a)"
    using assms(1) unfolding leading_exponent_def exponents_def by (rule find_down)
  then show "2 powi k \<le> a" "- 1022 \<le> k" "k \<le> 1023" by blast+
  show "a < 2 powi (k + 1)"
  proof (cases "k = 1023")
    case True
    then show ?thesis using assms(2) by simp
  next
    case False
    then have "\<not> 2 powi (k + 1) \<le> a" using k by simp
    then show ?thesis by simp
  qed
qed

lemma leading_exponent_None:
  assumes "leading_exponent a = None"
  shows "a < 2 powi (- 1022)"
proof -
  have "\<not> 2 powi (- 1022) \<le> a"
    using assms unfolding leading_exponent_def exponents_def by (rule find_up_None) arith+
  then show ?thesis unfolding not_le .
qed

text \<open>What a double that is not negative is: an integer after scaling by its exponent\<close>

lemma double_scaled:
  assumes "is_double a" "0 \<le> a"
  shows "a < 2 powi 1024"
    and "2 powi k \<le> a \<Longrightarrow> \<exists>i. a * 2 powi (52 - k) = rat_of_int i"
    and "\<exists>i. a * 2 powi 1074 = rat_of_int i"
proof -
  obtain m e where me: "\<bar>m\<bar> < 2 ^ 53" "- 1074 \<le> e" "e \<le> 971" "a = rat_of_int m * 2 powi e"
    using assms(1) by (auto simp: is_double_def)
  have m: "rat_of_int m < 2 powi 53"
  proof -
    have "m < 2 ^ 53" using me(1) by simp
    then have "rat_of_int m < rat_of_int (2 ^ 53)" by (simp only: of_int_less_iff)
    then show ?thesis by (simp add: power_int_def)
  qed
  have pos: "0 < (2 :: rat) powi e" by simp
  have a: "a < 2 powi (53 + e)"
    using mult_strict_right_mono [OF m pos] by (simp add: me(4) power_int_add)
  also have "(2 :: rat) powi (53 + e) \<le> 2 powi 1024" by (rule powi_mono2) (use me(3) in simp)
  finally show "a < 2 powi 1024" .
  have scale: "\<exists>i. a * 2 powi j = rat_of_int i" if j: "0 \<le> e + j" for j
  proof -
    obtain i where "(2 :: rat) powi (e + j) = rat_of_int i" using powi_int_floor [OF j] by blast
    then have "a * 2 powi j = rat_of_int (m * i)" by (simp add: me(4) power_int_add mult.assoc)
    then show ?thesis by blast
  qed
  show "\<exists>i. a * 2 powi (52 - k) = rat_of_int i" if "2 powi k \<le> a"
  proof (rule scale)
    have "(2 :: rat) powi k < 2 powi (53 + e)" using that a by simp
    then show "0 \<le> e + (52 - k)" by (simp add: powi_less_iff2)
  qed
  show "\<exists>i. a * 2 powi 1074 = rat_of_int i" by (rule scale) (use me(2) in simp)
qed

lemma float_bits_parts:
  assumes "is_double a" "0 \<le> a"
  obtains expo mant where "float_bits a = expo * 2 ^ 52 + mant" "0 \<le> expo" "expo < 2047" "0 \<le> mant" "mant < 2 ^ 52"
    "a = (if expo = 0 then rat_of_int mant * 2 powi (- 1074) else rat_of_int (2 ^ 52 + mant) * 2 powi (expo - 1075))"
proof (cases "leading_exponent a")
  case None
  obtain i where i: "a * 2 powi 1074 = rat_of_int i" using double_scaled(3) [OF assms] by blast
  have a: "a = rat_of_int i * 2 powi (- 1074)"
  proof -
    have "a = a * 2 powi 1074 * 2 powi (- 1074)" by (simp add: power_int_minus)
    then show ?thesis using i by simp
  qed
  have "a * 2 powi 1074 < 2 powi (- 1022) * 2 powi 1074"
    using leading_exponent_None [OF None] by simp
  also have "\<dots> = 2 powi 52" by (simp flip: power_int_add)
  also have "(2 :: rat) powi 52 = rat_of_int (2 ^ 52)" by (simp add: power_int_def)
  finally have lt: "i < 2 ^ 52" unfolding i of_int_less_iff .
  have ge: "0 \<le> i"
  proof -
    have "0 \<le> a * 2 powi 1074" using assms(2) by simp
    then show ?thesis unfolding i by simp
  qed
  have "float_bits a = i" unfolding float_bits_def None option.case i by (rule floor_of_int)
  then have "float_bits a = 0 * 2 ^ 52 + i" by simp
  then show thesis
    by (rule that [OF _ _ _ ge lt]) (simp, simp, simp only: a [symmetric] refl if_True)
next
  case (Some k)
  note k = leading_exponent_Some [OF Some double_scaled(1) [OF assms]]
  obtain i where i: "a * 2 powi (52 - k) = rat_of_int i" using double_scaled(2) [OF assms k(1)] by blast
  have a: "a = rat_of_int i * 2 powi (k - 52)"
  proof -
    have "a = a * (2 powi (52 - k) * 2 powi (k - 52))" by (simp flip: power_int_add)
    then show ?thesis using i by (metis mult.assoc)
  qed
  have two: "(2 :: rat) powi 52 = rat_of_int (2 ^ 52)" "(2 :: rat) powi 53 = rat_of_int (2 ^ 53)"
    by (simp_all add: power_int_def)
  have "2 powi k * 2 powi (52 - k) \<le> a * 2 powi (52 - k)" using k(1) by simp
  also have "(2 :: rat) powi k * 2 powi (52 - k) = rat_of_int (2 ^ 52)" unfolding two(1) [symmetric] by (simp flip: power_int_add)
  finally have ge: "2 ^ 52 \<le> i" unfolding i of_int_le_iff .
  have "a * 2 powi (52 - k) < 2 powi (k + 1) * 2 powi (52 - k)" using k(2) by simp
  also have "(2 :: rat) powi (k + 1) * 2 powi (52 - k) = rat_of_int (2 ^ 53)"
    unfolding two(2) [symmetric] by (simp flip: power_int_add)
  finally have lt: "i < 2 ^ 53" unfolding i of_int_less_iff .
  have "float_bits a = (k + 1023) * 2 ^ 52 + (i - 2 ^ 52)" unfolding float_bits_def Some option.case i floor_of_int ..
  moreover have "0 < k + 1023" "k + 1023 < 2047" using k(3,4) by simp_all
  moreover have "0 \<le> i - 2 ^ 52" "i - 2 ^ 52 < 2 ^ 52" using ge lt by simp_all
  moreover have "a = rat_of_int (2 ^ 52 + (i - 2 ^ 52)) * 2 powi (k + 1023 - 1075)" using a by simp
  ultimately show thesis by (intro that [of "k + 1023" "i - 2 ^ 52"]) simp_all
qed

lemma float64_split:
  assumes "0 \<le> expo" "expo < 2048" "0 \<le> mant" "mant < 2 ^ 52" "s = 0 \<or> s = (1 :: int)"
  defines "b \<equiv> be_val (be_bytes 8 (s * 2 ^ 63 + (expo * 2 ^ 52 + mant)))"
  shows "2 ^ 63 \<le> b \<longleftrightarrow> s = 1" "b mod 2 ^ 63 div 2 ^ 52 = expo" "b mod 2 ^ 52 = mant"
proof -
  have r: "0 \<le> expo * 2 ^ 52 + mant" "expo * 2 ^ 52 + mant < 2 ^ 63"
    using assms(1-4) by simp_all
  have b: "b = s * 2 ^ 63 + (expo * 2 ^ 52 + mant)"
    unfolding b_def be_val_be_bytes by (rule mod_pos_pos_trivial) (use r assms(5) in auto)
  show "2 ^ 63 \<le> b \<longleftrightarrow> s = 1" using r assms(5) unfolding b by auto
  have "b mod 2 ^ 63 = expo * 2 ^ 52 + mant" using r assms(5) unfolding b by auto
  then show "b mod 2 ^ 63 div 2 ^ 52 = expo" using assms(3,4) by simp
  have "b = mant + 2 ^ 52 * (s * 2 ^ 11 + expo)" unfolding b by simp
  then have "b mod 2 ^ 52 = mant mod 2 ^ 52" by (simp only: mod_mult_self2)
  then show "b mod 2 ^ 52 = mant" using assms(3,4) by simp
qed

lemma float64_bytes_eq: "0x7FF8000000000000 = (0 :: int) * 2 ^ 63 + (2047 * 2 ^ 52 + 2 ^ 51)"
  "0x7FF0000000000000 = (0 :: int) * 2 ^ 63 + (2047 * 2 ^ 52 + 0)"
  "0xFFF0000000000000 = (1 :: int) * 2 ^ 63 + (2047 * 2 ^ 52 + 0)"
  by simp_all

lemma float64_finite:
  assumes "is_double a" "0 \<le> a" "s = 0 \<or> s = (1 :: int)"
  shows "float64_value (be_bytes 8 (s * 2 ^ 63 + float_bits a)) = Fin (if s = 1 then - a else a)"
proof -
  obtain expo mant where p: "float_bits a = expo * 2 ^ 52 + mant" "0 \<le> expo" "expo < 2047" "0 \<le> mant" "mant < 2 ^ 52"
    "a = (if expo = 0 then rat_of_int mant * 2 powi (- 1074) else rat_of_int (2 ^ 52 + mant) * 2 powi (expo - 1075))"
    by (rule float_bits_parts [OF assms(1,2)])
  have "expo < 2048" using p(3) by simp
  note sp = float64_split [OF p(2) this p(4,5) assms(3)]
  show ?thesis
    unfolding float64_value_def p(1) Let_def sp using p(3,6) by auto
qed

lemma float64_roundtrip: "is_js_number n \<Longrightarrow> float64_value (float64_bytes n) = n"
proof (cases n)
  case NaN
  have "float64_bytes n = be_bytes 8 (0 * 2 ^ 63 + (2047 * 2 ^ 52 + 2 ^ 51))" by (simp add: NaN float64_bytes_def)
  then show ?thesis using float64_split [of 2047 "2 ^ 51" 0] by (simp add: NaN float64_value_def Let_def)
next
  case PInf
  have "float64_bytes n = be_bytes 8 (0 * 2 ^ 63 + (2047 * 2 ^ 52 + 0))" by (simp add: PInf float64_bytes_def)
  then show ?thesis using float64_split [of 2047 0 0] by (simp add: PInf float64_value_def Let_def)
next
  case NInf
  have "float64_bytes n = be_bytes 8 (1 * 2 ^ 63 + (2047 * 2 ^ 52 + 0))" by (simp add: NInf float64_bytes_def)
  then show ?thesis using float64_split [of 2047 0 1] by (simp add: NInf float64_value_def Let_def)
next
  case (Fin r)
  assume "is_js_number n"
  then have d: "is_double r" by (simp add: is_js_number_def Fin)
  show ?thesis
  proof (cases "r < 0")
    case True
    then show ?thesis
      using float64_finite [OF is_double_minus [OF d], of 1] by (simp add: Fin float64_bytes_def)
  next
    case False
    then show ?thesis
      using float64_finite [OF d, of 0] by (simp add: Fin float64_bytes_def)
  qed
qed

end
