(* ===== verification/Msgpack.thy ===== *)
theory Msgpack
  imports JsFloat Baggage
begin

text \<open>
  MessagePack: the growing write buffer (\<open>msgpack/chunk.js\<close>) and the encoder of arbitrary values
  (\<open>msgpack/index.js\<close>). A chunk is the list of the bytes written so far with the capacity of the
  buffer behind them; what lies beyond the written part is not initialised and not modelled.
  Reserving room and filling it is one step, \<open>put\<close>. An operation is done, raises an exception
  in some state, or never ends (doubling an empty buffer).

  The format itself is given by the relation \<open>wire\<close> and its reader \<open>mp_decode\<close>. Strings hold
  Latin-1 characters and are written as UTF-8.
\<close>

subsection \<open>The buffer\<close>

definition SHRINK_AFTER_FLUSHES :: nat where "SHRINK_AFTER_FLUSHES = 32"
definition SHRINK_USAGE_RATIO :: nat where "SHRINK_USAGE_RATIO = 4"
definition DEFAULT_MIN_SIZE :: nat where "DEFAULT_MIN_SIZE = 1024 * 1024"
definition MAX_SIZE :: nat where "MAX_SIZE = 50 * 1024 * 1024"
definition OverflowError :: js_error where "OverflowError = GenericError ''ERR_MSGPACK_CHUNK_OVERFLOW''"

record chunk =
  ck_used :: "byte list"
  ck_cap :: nat
  ck_min :: nat
  ck_streak :: nat

datatype 's outcome = Done 's | Raised js_error 's | Loops

definition and_then :: "('s \<Rightarrow> 's outcome) \<Rightarrow> ('s \<Rightarrow> 's outcome) \<Rightarrow> 's \<Rightarrow> 's outcome" where
  "and_then f g s = (case f s of Done s' \<Rightarrow> g s' | r \<Rightarrow> r)"

lemma and_then_Done: "and_then f g s = Done s' \<longleftrightarrow> (\<exists>t. f s = Done t \<and> g t = Done s')"
  by (simp add: and_then_def split: outcome.split)

definition new_chunk :: "nat \<Rightarrow> chunk" where
  "new_chunk minSize = \<lparr>ck_used = [], ck_cap = minSize, ck_min = minSize, ck_streak = 0\<rparr>"

text \<open>\<open>while (newSize < needed) newSize *= 2\<close>\<close>

partial_function (option) double_to :: "nat \<Rightarrow> nat \<Rightarrow> nat option" where
  "double_to n needed = (if n < needed then double_to (n * 2) needed else Some n)"

declare double_to.simps [code]

definition put :: "byte list \<Rightarrow> chunk \<Rightarrow> chunk outcome" where
  "put bs c =
     (let needed = length (ck_used c) + length bs; c' = c\<lparr>ck_used := ck_used c @ bs\<rparr>
      in if ck_cap c < needed then
           (if MAX_SIZE < needed then Raised OverflowError c
            else case double_to (ck_cap c) needed of
                   None \<Rightarrow> Loops
                 | Some n \<Rightarrow> Done (c'\<lparr>ck_cap := min n MAX_SIZE\<rparr>))
         else Done c')"

definition chunk_reset :: "chunk \<Rightarrow> chunk" where
  "chunk_reset c =
     (let peak = length (ck_used c); c = c\<lparr>ck_used := []\<rparr>
      in if ck_min c < ck_cap c \<and> peak * SHRINK_USAGE_RATIO < ck_cap c then
           (let streak = ck_streak c + 1
            in if SHRINK_AFTER_FLUSHES \<le> streak
               then c\<lparr>ck_cap := max (ck_min c) (ck_cap c div 2), ck_streak := 0\<rparr>
               else c\<lparr>ck_streak := streak\<rparr>)
         else c\<lparr>ck_streak := 0\<rparr>)"

subsection \<open>Writers\<close>

definition utf8_char :: "char \<Rightarrow> byte list" where
  "utf8_char c =
     (let n = (of_char c :: int)
      in if n < 128 then [byte_of n] else [byte_of (192 + n div 64), byte_of (128 + n mod 64)])"

definition utf8_bytes :: "string \<Rightarrow> byte list" where
  "utf8_bytes s = concat (map utf8_char s)"

text \<open>The four, two bytes that the code writes with shifts\<close>

definition shifted4 :: "int \<Rightarrow> byte list" where
  "shifted4 v = [byte_of (shr v 24), byte_of (shr v 16), byte_of (shr v 8), byte_of v]"

definition shifted2 :: "int \<Rightarrow> byte list" where
  "shifted2 v = [byte_of (shr v 8), byte_of v]"

definition write_bytes :: "string \<Rightarrow> byte list option" where
  "write_bytes value =
     (let text = utf8_bytes value; n = int (length text)
      in if n < 0x20 then Some (byte_of (n OR 0xA0) # text)
         else if n < 0x100000000 then Some (0xDB # shifted4 n @ text)
         else None)"

text \<open>Beyond four gigabytes nothing is reserved and \<open>utf8Write\<close> gets a negative offset.\<close>

definition chunk_write :: "string \<Rightarrow> chunk \<Rightarrow> chunk outcome" where
  "chunk_write value c = (case write_bytes value of Some bs \<Rightarrow> put bs c | None \<Rightarrow> Raised RangeError c)"

definition writeNull :: "chunk \<Rightarrow> chunk outcome" where
  "writeNull = put [0xC0]"

definition writeBoolean :: "bool \<Rightarrow> chunk \<Rightarrow> chunk outcome" where
  "writeBoolean b = put [if b then 0xC3 else 0xC2]"

definition writeFixArray :: "nat \<Rightarrow> chunk \<Rightarrow> chunk outcome" where
  "writeFixArray n = put [byte_of (0x90 + int n)]"

definition writeArrayPrefix :: "nat \<Rightarrow> chunk \<Rightarrow> chunk outcome" where
  "writeArrayPrefix n = put (0xDD # shifted4 (int n))"

definition writeMapPrefix :: "nat \<Rightarrow> chunk \<Rightarrow> chunk outcome" where
  "writeMapPrefix n = put (0xDF # shifted4 (int n))"

definition writeByte :: "int \<Rightarrow> chunk \<Rightarrow> chunk outcome" where
  "writeByte v = put [byte_of v]"

definition writeBin :: "byte list \<Rightarrow> chunk \<Rightarrow> chunk outcome" where
  "writeBin value =
     (let n = int (length value)
      in and_then
           (if n < 256 then put [0xC4, byte_of n]
            else if n < 65536 then put (0xC5 # shifted2 n)
            else put (0xC6 # shifted4 n))
           (put value))"

definition writeInteger :: "int \<Rightarrow> chunk \<Rightarrow> chunk outcome" where
  "writeInteger v = put (0xCE # shifted4 v)"

text \<open>\<open>(v / 2 ** 32) >> 0\<close> cuts off the fraction; \<open>Math.floor(v / 2 ** 32)\<close> rounds down.\<close>

definition high_word :: "int \<Rightarrow> int" where
  "high_word v = to_int32 (if 0 \<le> v then v div 2 ^ 32 else - (- v div 2 ^ 32))"

definition writeLong :: "int \<Rightarrow> chunk \<Rightarrow> chunk outcome" where
  "writeLong v = put (0xCF # shifted4 (high_word v) @ shifted4 (to_uint32 v))"

definition unsigned_bytes :: "int \<Rightarrow> byte list" where
  "unsigned_bytes v =
     (if v \<le> 0x7F then [byte_of v]
      else if v \<le> 0xFF then [0xCC, byte_of v]
      else if v \<le> 0xFFFF then 0xCD # shifted2 v
      else if v \<le> 0xFFFFFFFF then 0xCE # shifted4 v
      else 0xCF # shifted4 (high_word v) @ shifted4 (to_uint32 v))"

definition writeUnsigned :: "int \<Rightarrow> chunk \<Rightarrow> chunk outcome" where
  "writeUnsigned v = put (unsigned_bytes v)"

definition signed_bytes :: "int \<Rightarrow> byte list" where
  "signed_bytes v =
     (if - 0x20 \<le> v then [byte_of v]
      else if - 0x80 \<le> v then [0xD0, byte_of v]
      else if - 0x8000 \<le> v then 0xD1 # shifted2 v
      else if - 0x80000000 \<le> v then 0xD2 # shifted4 v
      else 0xD3 # shifted4 (v div 2 ^ 32) @ shifted4 (to_uint32 v))"

definition writeSigned :: "int \<Rightarrow> chunk \<Rightarrow> chunk outcome" where
  "writeSigned v = put (signed_bytes v)"

definition writeBigInt :: "int \<Rightarrow> chunk \<Rightarrow> chunk outcome" where
  "writeBigInt v = put ((if 0 \<le> v then 0xCF else 0xD3) # be_bytes 8 v)"

definition writeFloat :: "jsnum \<Rightarrow> chunk \<Rightarrow> chunk outcome" where
  "writeFloat n = put (0xCB # float64_bytes n)"

definition int_or_float_bytes :: "jsnum \<Rightarrow> byte list" where
  "int_or_float_bytes n =
     (case n of
        Fin r \<Rightarrow>
          (if of_int \<lfloor>r\<rfloor> = r then (if 0 \<le> r then unsigned_bytes \<lfloor>r\<rfloor> else signed_bytes \<lfloor>r\<rfloor>)
           else 0xCB # float64_bytes n)
      | _ \<Rightarrow> 0xCB # float64_bytes n)"

definition writeNumber :: "jsnum \<Rightarrow> chunk \<Rightarrow> chunk outcome" where
  "writeNumber n = put (int_or_float_bytes (if n = NaN then Fin 0 else n))"

text \<open>The fast path: \<open>value === (value & 0x7F)\<close>\<close>

definition is_fixint :: "jsnum \<Rightarrow> bool" where
  "is_fixint n = (case n of Fin r \<Rightarrow> of_int \<lfloor>r\<rfloor> = r \<and> r = of_int (\<lfloor>r\<rfloor> AND 0x7F) | _ \<Rightarrow> False)"

definition writeIntOrFloat :: "jsnum \<Rightarrow> chunk \<Rightarrow> chunk outcome" where
  "writeIntOrFloat n =
     (if is_fixint n then (case n of Fin r \<Rightarrow> put [byte_of \<lfloor>r\<rfloor>] | _ \<Rightarrow> Done)
      else put (int_or_float_bytes n))"

subsection \<open>Arbitrary values\<close>

text \<open>
  \<open>str\<close> is \<open>String(v)\<close>, which is also \<open>toString\<close> of a symbol; the value of a bigint is read off
  its digits. A URL has no own enumerable property.
\<close>

fun writeValue :: "(jsval \<Rightarrow> string) \<Rightarrow> jsval \<Rightarrow> chunk \<Rightarrow> chunk outcome"
  and writeItems :: "(jsval \<Rightarrow> string) \<Rightarrow> jsval list \<Rightarrow> chunk \<Rightarrow> chunk outcome"
  and writeEntries :: "(jsval \<Rightarrow> string) \<Rightarrow> (string \<times> jsval) list \<Rightarrow> chunk \<Rightarrow> chunk outcome"
where
  "writeValue str (JStr s) = chunk_write s"
| "writeValue str (JNum n) = writeNumber n"
| "writeValue str JNull = writeNull"
| "writeValue str (JArr xs) =
     and_then (if length xs < 16 then writeFixArray (length xs) else writeArrayPrefix (length xs))
       (writeItems str xs)"
| "writeValue str (JBuf bs) = writeBin bs"
| "writeValue str (JObj ps) = and_then (writeMapPrefix (length ps)) (writeEntries str ps)"
| "writeValue str (JErr m n st ps) = and_then (writeMapPrefix (length ps)) (writeEntries str ps)"
| "writeValue str (JUrl u) = writeMapPrefix 0"
| "writeValue str (JBool b) = writeBoolean b"
| "writeValue str (JOther t) =
     (if t = ''bigint'' then
        (case parse_int 10 (str (JOther t)) of Some i \<Rightarrow> writeBigInt i | None \<Rightarrow> writeNull)
      else if t = ''symbol'' then chunk_write (str (JOther t))
      else writeNull)"
| "writeValue str JUndef = writeNull"
| "writeItems str [] = Done"
| "writeItems str (x # xs) = and_then (writeValue str x) (writeItems str xs)"
| "writeEntries str [] = Done"
| "writeEntries str ((k, v) # ps) =
     and_then (chunk_write k) (and_then (writeValue str v) (writeEntries str ps))"

definition mp_encode :: "(jsval \<Rightarrow> string) \<Rightarrow> jsval \<Rightarrow> byte list outcome" where
  "mp_encode str v =
     (case writeValue str v (new_chunk DEFAULT_MIN_SIZE) of
        Done c \<Rightarrow> Done (ck_used c)
      | Raised e c \<Rightarrow> Raised e (ck_used c)
      | Loops \<Rightarrow> Loops)"

subsection \<open>What a writer does to a chunk\<close>

definition chunk_ok :: "chunk \<Rightarrow> bool" where
  "chunk_ok c \<longleftrightarrow> 0 < ck_min c \<and> ck_min c \<le> ck_cap c \<and> ck_cap c \<le> MAX_SIZE \<and> length (ck_used c) \<le> ck_cap c"

definition grown :: "chunk \<Rightarrow> byte list \<Rightarrow> chunk \<Rightarrow> bool" where
  "grown c bs c' \<longleftrightarrow> ck_used c' = ck_used c @ bs \<and> ck_min c' = ck_min c \<and> chunk_ok c'"

definition cap_error :: "js_error \<Rightarrow> bool" where
  "cap_error e \<longleftrightarrow> e = OverflowError \<or> e = RangeError"

text \<open>A writer of \<open>bs\<close> appends exactly these bytes, or raises when the cap does not allow them.\<close>

definition writes :: "(chunk \<Rightarrow> chunk outcome) \<Rightarrow> byte list \<Rightarrow> bool" where
  "writes f bs \<longleftrightarrow> (\<forall>c. chunk_ok c \<longrightarrow>
     (if length (ck_used c) + length bs \<le> MAX_SIZE then \<exists>c'. f c = Done c' \<and> grown c bs c'
      else \<exists>e c'. f c = Raised e c' \<and> cap_error e \<and> chunk_ok c' \<and> ck_min c' = ck_min c))"

lemma writes_done:
  "writes f bs \<Longrightarrow> chunk_ok c \<Longrightarrow> length (ck_used c) + length bs \<le> MAX_SIZE \<Longrightarrow> \<exists>c'. f c = Done c' \<and> grown c bs c'"
  unfolding writes_def by (metis (full_types))

lemma writes_raised:
  "writes f bs \<Longrightarrow> chunk_ok c \<Longrightarrow> \<not> length (ck_used c) + length bs \<le> MAX_SIZE \<Longrightarrow>
     \<exists>e c'. f c = Raised e c' \<and> cap_error e \<and> chunk_ok c' \<and> ck_min c' = ck_min c"
  unfolding writes_def by (metis (full_types))

lemma double_to_enough: "0 < n \<Longrightarrow> \<exists>m. double_to n needed = Some m \<and> needed \<le> m \<and> n \<le> m"
proof (induction "needed - n" arbitrary: n rule: less_induct)
  case less
  show ?case
  proof (cases "n < needed")
    case True
    then have "needed - n * 2 < needed - n" using less.prems by linarith
    then obtain m where "double_to (n * 2) needed = Some m" "needed \<le> m" "n * 2 \<le> m"
      using less.hyps [of "n * 2"] less.prems by auto
    then show ?thesis using True by (subst double_to.simps) simp
  next
    case False
    then show ?thesis by (subst double_to.simps) simp
  qed
qed

lemma writes_put: "writes (put bs) bs"
  unfolding writes_def
proof (intro allI impI)
  fix c assume c: "chunk_ok c"
  then obtain m where "double_to (ck_cap c) (length (ck_used c) + length bs) = Some m"
    "length (ck_used c) + length bs \<le> m" "ck_cap c \<le> m"
    using double_to_enough [of "ck_cap c" "length (ck_used c) + length bs"] by (auto simp: chunk_ok_def)
  then show "if length (ck_used c) + length bs \<le> MAX_SIZE then \<exists>c'. put bs c = Done c' \<and> grown c bs c'
      else \<exists>e c'. put bs c = Raised e c' \<and> cap_error e \<and> chunk_ok c' \<and> ck_min c' = ck_min c"
    using c by (auto simp: put_def Let_def grown_def chunk_ok_def cap_error_def)
qed

lemma writes_Done: "writes Done []"
  by (simp add: writes_def grown_def) (simp add: chunk_ok_def)

lemma writes_and_then:
  assumes "writes f a" "writes g b"
  shows "writes (and_then f g) (a @ b)"
  unfolding writes_def
proof (intro allI impI)
  fix c assume c: "chunk_ok c"
  show "if length (ck_used c) + length (a @ b) \<le> MAX_SIZE
      then \<exists>c'. and_then f g c = Done c' \<and> grown c (a @ b) c'
      else \<exists>e c'. and_then f g c = Raised e c' \<and> cap_error e \<and> chunk_ok c' \<and> ck_min c' = ck_min c"
  proof (cases "length (ck_used c) + length a \<le> MAX_SIZE")
    case True
    then obtain c1 where c1: "f c = Done c1" "grown c a c1"
      using writes_done [OF assms(1) c] by blast
    then have "chunk_ok c1" by (simp add: grown_def)
    then have "if length (ck_used c1) + length b \<le> MAX_SIZE then \<exists>c'. g c1 = Done c' \<and> grown c1 b c'
        else \<exists>e c'. g c1 = Raised e c' \<and> cap_error e \<and> chunk_ok c' \<and> ck_min c' = ck_min c1"
      using assms(2) by (simp add: writes_def)
    then show ?thesis using c1 by (auto simp: and_then_def grown_def split: if_splits)
  next
    case False
    then obtain e c' where "f c = Raised e c'" "cap_error e" "chunk_ok c'" "ck_min c' = ck_min c"
      using writes_raised [OF assms(1) c] by blast
    then show ?thesis using False by (auto simp: and_then_def)
  qed
qed

lemma writes_too_long:
  assumes "MAX_SIZE < length bs" "\<And>c. chunk_ok c \<Longrightarrow> f c = Raised RangeError c"
  shows "writes f bs"
  unfolding writes_def
proof (intro allI impI)
  fix c assume c: "chunk_ok c"
  then have "f c = Raised RangeError c" by (rule assms(2))
  then show "if length (ck_used c) + length bs \<le> MAX_SIZE then \<exists>c'. f c = Done c' \<and> grown c bs c'
      else \<exists>e c'. f c = Raised e c' \<and> cap_error e \<and> chunk_ok c' \<and> ck_min c' = ck_min c"
    using assms(1) c by (auto simp: cap_error_def)
qed

lemma chunk_ok_new: "0 < n \<Longrightarrow> n \<le> MAX_SIZE \<Longrightarrow> chunk_ok (new_chunk n)"
  by (simp add: chunk_ok_def new_chunk_def)

lemma chunk_ok_reset: "chunk_ok c \<Longrightarrow> chunk_ok (chunk_reset c)"
  by (auto simp: chunk_ok_def chunk_reset_def Let_def)

lemma chunk_reset_used [simp]: "ck_used (chunk_reset c) = []" "ck_min (chunk_reset c) = ck_min c"
  by (simp_all add: chunk_reset_def Let_def)

subsection \<open>The bytes of each writer\<close>

definition string_bytes :: "string \<Rightarrow> byte list" where
  "string_bytes s =
     (let n = int (length (utf8_bytes s))
      in if n < 0x20 then byte_of (0xA0 + n) # utf8_bytes s else 0xDB # be_bytes 4 n @ utf8_bytes s)"

lemma shifted4_be: "shifted4 v = be_bytes 4 v"
  by (simp add: shifted4_def be_bytes_shr4)

lemma shifted2_be: "shifted2 v = be_bytes 2 v"
  by (simp add: shifted2_def be_bytes_shr2)

lemma fixstr_or:
  assumes "0 \<le> n" "n < 32"
  shows "n OR 0xA0 = 0xA0 + (n :: int)"
proof -
  have "n = n AND 31"
    using assms take_bit_int_eq_self [of n 5] by (simp add: take_bit_eq_mask mask_eq_exp_minus_1)
  then have "n AND 160 = n AND (31 AND 160)" by (metis and.assoc)
  then have "n AND 160 = 0" by simp
  then have "n + 160 = n OR 160" by (rule disjunctive_add_eq_or)
  then show ?thesis by simp
qed

lemma write_bytes_eq: "write_bytes s = (if length (utf8_bytes s) < 2 ^ 32 then Some (string_bytes s) else None)"
  by (auto simp: write_bytes_def string_bytes_def Let_def fixstr_or shifted4_be)

lemma writes_string: "writes (chunk_write s) (string_bytes s)"
proof (cases "length (utf8_bytes s) < 2 ^ 32")
  case True
  then have "chunk_write s = put (string_bytes s)" by (simp add: chunk_write_def write_bytes_eq fun_eq_iff)
  then show ?thesis by (simp add: writes_put)
next
  case False
  then show ?thesis
    by (intro writes_too_long) (auto simp: chunk_write_def write_bytes_eq string_bytes_def MAX_SIZE_def Let_def)
qed

lemma high_low:
  assumes "0 \<le> v"
  shows "shifted4 (high_word v) @ shifted4 (to_uint32 v) = be_bytes 8 v"
proof -
  have "be_bytes 4 (high_word v) = be_bytes 4 (v div 2 ^ 32)"
    by (rule be_bytes_cong) (use assms to_int32_mod in \<open>simp add: high_word_def\<close>)
  moreover have "be_bytes 4 (to_uint32 v) = be_bytes 4 v"
    by (rule be_bytes_cong) (simp add: to_uint32_mod)
  moreover have "be_bytes 8 v = be_bytes 4 (v div 2 ^ 32) @ be_bytes 4 v"
    by (simp add: numeral_eq_Suc zdiv_zmult2_eq [symmetric])
  ultimately show ?thesis by (simp add: shifted4_be)
qed

lemma high_low_signed: "shifted4 (v div 2 ^ 32) @ shifted4 (to_uint32 v) = be_bytes 8 v"
proof -
  have "be_bytes 4 (to_uint32 v) = be_bytes 4 v"
    by (rule be_bytes_cong) (simp add: to_uint32_mod)
  moreover have "be_bytes 8 v = be_bytes 4 (v div 2 ^ 32) @ be_bytes 4 v"
    by (simp add: numeral_eq_Suc zdiv_zmult2_eq [symmetric])
  ultimately show ?thesis by (simp add: shifted4_be)
qed

definition bigint_bytes :: "int \<Rightarrow> byte list" where
  "bigint_bytes v = (if 0 \<le> v then 0xCF else 0xD3) # be_bytes 8 v"

lemma writes_simple:
  "writes writeNull [0xC0]" "writes (writeBoolean b) [if b then 0xC3 else 0xC2]"
  "writes (writeFixArray n) [byte_of (0x90 + int n)]"
  "writes (writeArrayPrefix n) (0xDD # be_bytes 4 (int n))" "writes (writeMapPrefix n) (0xDF # be_bytes 4 (int n))"
  "writes (writeUnsigned v) (unsigned_bytes v)" "writes (writeSigned v) (signed_bytes v)"
  "writes (writeBigInt v) (bigint_bytes v)"
  "writes (writeFloat x) (0xCB # float64_bytes x)"
  "writes (writeNumber x) (int_or_float_bytes (if x = NaN then Fin 0 else x))"
  by (simp_all only: writeNull_def writeBoolean_def writeFixArray_def writeArrayPrefix_def writeMapPrefix_def
      writeUnsigned_def writeSigned_def writeBigInt_def writeFloat_def writeNumber_def bigint_bytes_def shifted4_be
      writes_put)

lemma fixint_bytes:
  assumes "is_fixint (Fin r)"
  shows "int_or_float_bytes (Fin r) = [byte_of \<lfloor>r\<rfloor>]"
proof -
  have r: "of_int \<lfloor>r\<rfloor> = r" "r = of_int (\<lfloor>r\<rfloor> AND 127)" using assms by (simp_all add: is_fixint_def)
  have "\<lfloor>r\<rfloor> AND 127 = \<lfloor>r\<rfloor> mod 128"
    using take_bit_eq_mask [of 7 "\<lfloor>r\<rfloor>"] by (simp add: take_bit_eq_mod mask_eq_exp_minus_1)
  moreover have "\<lfloor>r\<rfloor> = \<lfloor>r\<rfloor> AND 127" using r by (metis floor_of_int)
  ultimately have "0 \<le> \<lfloor>r\<rfloor>" "\<lfloor>r\<rfloor> \<le> 127" by (metis pos_mod_sign zero_less_numeral, smt (verit) pos_mod_bound)
  then show ?thesis using r(1) by (simp add: int_or_float_bytes_def unsigned_bytes_def)
qed

lemma writes_int_or_float: "writes (writeIntOrFloat x) (int_or_float_bytes x)"
proof -
  have "writeIntOrFloat x = put (int_or_float_bytes x)"
    by (cases x) (auto simp: writeIntOrFloat_def fixint_bytes is_fixint_def)
  then show ?thesis by (simp add: writes_put)
qed

definition bin_bytes :: "byte list \<Rightarrow> byte list" where
  "bin_bytes bs =
     (let n = int (length bs)
      in (if n < 256 then [0xC4, byte_of n]
          else if n < 65536 then 0xC5 # be_bytes 2 n else 0xC6 # be_bytes 4 n) @ bs)"

lemma writes_bin: "writes (writeBin bs) (bin_bytes bs)"
  unfolding writeBin_def bin_bytes_def Let_def shifted4_be shifted2_be
  by (rule writes_and_then) (simp_all add: writes_put)

subsection \<open>The format\<close>

datatype mp =
    MNil
  | MBool bool
  | MInt int
  | MFloat jsnum
  | MStr string
  | MBin "byte list"
  | MArr "mp list"
  | MMap "(mp \<times> mp) list"

text \<open>
  \<open>wire v bs\<close>: the bytes are a representation of the value. The format has several for one
  value; these rules have the ones the encoders use.
\<close>

definition flat :: "(mp \<times> mp) list \<Rightarrow> mp list" where
  "flat kvs = concat (map (\<lambda>(k, v). [k, v]) kvs)"

inductive wire :: "mp \<Rightarrow> byte list \<Rightarrow> bool" and wires :: "mp list \<Rightarrow> byte list \<Rightarrow> bool" where
  w_nil: "wire MNil [0xC0]"
| w_bool: "wire (MBool b) [if b then 0xC3 else 0xC2]"
| w_fix: "0 \<le> i \<Longrightarrow> i < 128 \<Longrightarrow> wire (MInt i) [byte_of i]"
| w_neg: "- 32 \<le> i \<Longrightarrow> i < 0 \<Longrightarrow> wire (MInt i) [byte_of i]"
| w_u8: "0 \<le> i \<Longrightarrow> i < 2 ^ 8 \<Longrightarrow> wire (MInt i) [0xCC, byte_of i]"
| w_u16: "0 \<le> i \<Longrightarrow> i < 2 ^ 16 \<Longrightarrow> wire (MInt i) (0xCD # be_bytes 2 i)"
| w_u32: "0 \<le> i \<Longrightarrow> i < 2 ^ 32 \<Longrightarrow> wire (MInt i) (0xCE # be_bytes 4 i)"
| w_u64: "0 \<le> i \<Longrightarrow> i < 2 ^ 64 \<Longrightarrow> wire (MInt i) (0xCF # be_bytes 8 i)"
| w_i8: "- (2 ^ 7) \<le> i \<Longrightarrow> i < 2 ^ 7 \<Longrightarrow> wire (MInt i) [0xD0, byte_of i]"
| w_i16: "- (2 ^ 15) \<le> i \<Longrightarrow> i < 2 ^ 15 \<Longrightarrow> wire (MInt i) (0xD1 # be_bytes 2 i)"
| w_i32: "- (2 ^ 31) \<le> i \<Longrightarrow> i < 2 ^ 31 \<Longrightarrow> wire (MInt i) (0xD2 # be_bytes 4 i)"
| w_i64: "- (2 ^ 63) \<le> i \<Longrightarrow> i < 2 ^ 63 \<Longrightarrow> wire (MInt i) (0xD3 # be_bytes 8 i)"
| w_float: "is_js_number x \<Longrightarrow> wire (MFloat x) (0xCB # float64_bytes x)"
| w_fixstr: "length (utf8_bytes s) < 32 \<Longrightarrow> wire (MStr s) (byte_of (0xA0 + int (length (utf8_bytes s))) # utf8_bytes s)"
| w_str32: "length (utf8_bytes s) < 2 ^ 32 \<Longrightarrow> wire (MStr s) (0xDB # be_bytes 4 (int (length (utf8_bytes s))) @ utf8_bytes s)"
| w_bin8: "length bs < 2 ^ 8 \<Longrightarrow> wire (MBin bs) (0xC4 # byte_of (int (length bs)) # bs)"
| w_bin16: "length bs < 2 ^ 16 \<Longrightarrow> wire (MBin bs) (0xC5 # be_bytes 2 (int (length bs)) @ bs)"
| w_bin32: "length bs < 2 ^ 32 \<Longrightarrow> wire (MBin bs) (0xC6 # be_bytes 4 (int (length bs)) @ bs)"
| w_fixarr: "wires vs bs \<Longrightarrow> length vs < 16 \<Longrightarrow> wire (MArr vs) (byte_of (0x90 + int (length vs)) # bs)"
| w_arr32: "wires vs bs \<Longrightarrow> length vs < 2 ^ 32 \<Longrightarrow> wire (MArr vs) (0xDD # be_bytes 4 (int (length vs)) @ bs)"
| w_fixmap: "wires (flat kvs) bs \<Longrightarrow> length kvs < 16 \<Longrightarrow> wire (MMap kvs) (byte_of (0x80 + int (length kvs)) # bs)"
| w_map32: "wires (flat kvs) bs \<Longrightarrow> length kvs < 2 ^ 32 \<Longrightarrow> wire (MMap kvs) (0xDF # be_bytes 4 (int (length kvs)) @ bs)"
| ws_nil: "wires [] []"
| ws_cons: "wire v a \<Longrightarrow> wires vs b \<Longrightarrow> wires (v # vs) (a @ b)"

text \<open>The reader\<close>

definition split_bytes :: "nat \<Rightarrow> byte list \<Rightarrow> (byte list \<times> byte list) option" where
  "split_bytes n s = (if length s < n then None else Some (take n s, drop n s))"

definition read_uint :: "nat \<Rightarrow> byte list \<Rightarrow> (int \<times> byte list) option" where
  "read_uint n s = map_option (\<lambda>(a, r). (be_val a, r)) (split_bytes n s)"

definition read_int :: "nat \<Rightarrow> byte list \<Rightarrow> (int \<times> byte list) option" where
  "read_int n s = map_option (\<lambda>(a, r). (signed_take_bit (8 * n - 1) (be_val a), r)) (split_bytes n s)"

definition read_text :: "nat \<Rightarrow> byte list \<Rightarrow> (mp \<times> byte list) option" where
  "read_text n s = map_option (\<lambda>(a, r). (MStr (utf8_text (map unat a)), r)) (split_bytes n s)"

definition read_bin :: "nat \<Rightarrow> byte list \<Rightarrow> (mp \<times> byte list) option" where
  "read_bin n s = map_option (\<lambda>(a, r). (MBin a, r)) (split_bytes n s)"

fun pair_up :: "mp list \<Rightarrow> (mp \<times> mp) list" where
  "pair_up (k # v # vs) = (k, v) # pair_up vs"
| "pair_up _ = []"

definition as_int :: "(int \<times> byte list) option \<Rightarrow> (mp \<times> byte list) option" where
  "as_int = map_option (\<lambda>(i, r). (MInt i, r))"

definition sized :: "(int \<times> byte list) option \<Rightarrow> (nat \<Rightarrow> byte list \<Rightarrow> 'a option) \<Rightarrow> 'a option" where
  "sized l f = (case l of Some (n, r) \<Rightarrow> f (nat n) r | None \<Rightarrow> None)"

definition as_map :: "(mp list \<times> byte list) option \<Rightarrow> (mp \<times> byte list) option" where
  "as_map = map_option (\<lambda>(vs, r). (MMap (pair_up vs), r))"

definition as_arr :: "(mp list \<times> byte list) option \<Rightarrow> (mp \<times> byte list) option" where
  "as_arr = map_option (\<lambda>(vs, r). (MArr vs, r))"

text \<open>By the first byte; \<open>rs\<close> reads a number of values.\<close>

definition mp_dispatch ::
  "(nat \<Rightarrow> byte list \<Rightarrow> (mp list \<times> byte list) option) \<Rightarrow> nat \<Rightarrow> byte list \<Rightarrow> (mp \<times> byte list) option" where
  "mp_dispatch rs c s =
     (if c < 0x80 then Some (MInt (int c), s)
         else if c < 0x90 then as_map (rs (2 * (c - 0x80)) s)
         else if c < 0xA0 then as_arr (rs (c - 0x90) s)
         else if c < 0xC0 then read_text (c - 0xA0) s
         else if c = 0xC0 then Some (MNil, s)
         else if c = 0xC2 then Some (MBool False, s)
         else if c = 0xC3 then Some (MBool True, s)
         else if c = 0xC4 then sized (read_uint 1 s) read_bin
         else if c = 0xC5 then sized (read_uint 2 s) read_bin
         else if c = 0xC6 then sized (read_uint 4 s) read_bin
         else if c = 0xCB then map_option (\<lambda>(a, r). (MFloat (float64_value a), r)) (split_bytes 8 s)
         else if c = 0xCC then as_int (read_uint 1 s)
         else if c = 0xCD then as_int (read_uint 2 s)
         else if c = 0xCE then as_int (read_uint 4 s)
         else if c = 0xCF then as_int (read_uint 8 s)
         else if c = 0xD0 then as_int (read_int 1 s)
         else if c = 0xD1 then as_int (read_int 2 s)
         else if c = 0xD2 then as_int (read_int 4 s)
         else if c = 0xD3 then as_int (read_int 8 s)
         else if c = 0xD9 then sized (read_uint 1 s) read_text
         else if c = 0xDA then sized (read_uint 2 s) read_text
         else if c = 0xDB then sized (read_uint 4 s) read_text
         else if c = 0xDC then sized (read_uint 2 s) (\<lambda>n r. as_arr (rs n r))
         else if c = 0xDD then sized (read_uint 4 s) (\<lambda>n r. as_arr (rs n r))
         else if c = 0xDE then sized (read_uint 2 s) (\<lambda>n r. as_map (rs (2 * n) r))
         else if c = 0xDF then sized (read_uint 4 s) (\<lambda>n r. as_map (rs (2 * n) r))
         else if 0xE0 \<le> c then Some (MInt (int c - 0x100), s)
         else None)"

fun mp_read :: "nat \<Rightarrow> byte list \<Rightarrow> (mp \<times> byte list) option"
  and mp_reads :: "nat \<Rightarrow> nat \<Rightarrow> byte list \<Rightarrow> (mp list \<times> byte list) option"
where
  "mp_read 0 bs = None"
| "mp_read (Suc f) [] = None"
| "mp_read (Suc f) (b # s) = mp_dispatch (mp_reads f) (unat b) s"
| "mp_reads f 0 s = Some ([], s)"
| "mp_reads 0 (Suc n) s = None"
| "mp_reads (Suc f) (Suc n) s =
     (case mp_read f s of
        None \<Rightarrow> None
      | Some (v, r) \<Rightarrow> map_option (\<lambda>(vs, r). (v # vs, r)) (mp_reads f n r))"

definition mp_decode :: "byte list \<Rightarrow> mp option" where
  "mp_decode bs = (case mp_read (2 * length bs) bs of Some (v, []) \<Rightarrow> Some v | _ \<Rightarrow> None)"

subsection \<open>Reading inverts the format\<close>

lemma split_bytes_append [simp]: "length a = n \<Longrightarrow> split_bytes n (a @ r) = Some (a, r)"
  by (auto simp: split_bytes_def)

lemma read_uint_bytes [simp]:
  "0 \<le> i \<Longrightarrow> i < 256 ^ n \<Longrightarrow> read_uint n (be_bytes n i @ r) = Some (i, r)"
  by (simp add: read_uint_def be_val_be_bytes)

lemma read_int_bytes [simp]:
  assumes "- (2 ^ (8 * n - 1)) \<le> i" "i < 2 ^ (8 * n - 1)" "0 < n"
  shows "read_int n (be_bytes n i @ r) = Some (i, r)"
proof -
  have "signed_take_bit (8 * n - 1) (be_val (be_bytes n i)) = signed_take_bit (8 * n - 1) (take_bit (8 * n) i)"
    by (simp add: be_val_be_bytes take_bit_eq_mod power_mult)
  also have "\<dots> = signed_take_bit (8 * n - 1) i"
    using assms(3) unfolding signed_take_bit_eq_iff_take_bit_eq by simp
  also have "\<dots> = i" using assms(1,2) by (rule signed_take_bit_int_eq_self)
  finally show ?thesis by (simp add: read_int_def)
qed

lemma one_byte: "[byte_of i] = be_bytes 1 i"
  by simp

lemma unat_byte_of: "unat (byte_of i) = nat (i mod 256)"
  by (simp add: unat_eq_nat_uint uint_byte_of)

lemma utf8_pair:
  "n = 194 \<or> n = 195 \<Longrightarrow> 128 \<le> m \<Longrightarrow> m \<le> 191 \<Longrightarrow>
     utf8_text (n # m # ms) = char_of ((n - 192) * 64 + (m - 128)) # utf8_text ms"
  by auto

lemma utf8_roundtrip [simp]: "utf8_text (map unat (utf8_bytes s)) = s"
proof (induction s)
  case Nil
  then show ?case by (simp add: utf8_bytes_def)
next
  case (Cons c s)
  define n where "n = (of_char c :: nat)"
  have "(of_char c :: nat) mod 256 < 256" by (rule mod_less_divisor) simp
  then have c: "c = char_of n" "n < 256" "of_char c = int n"
    by (simp_all add: n_def of_nat_of_char)
  have rest: "utf8_text (map unat (utf8_bytes (c # s))) = utf8_text (map unat (utf8_char c) @ map unat (utf8_bytes s))"
    by (simp add: utf8_bytes_def)
  show ?case
  proof (cases "n < 128")
    case True
    then have "map unat (utf8_char c) = [n]" by (simp add: utf8_char_def c(3) unat_byte_of)
    then show ?thesis using rest Cons True c(1) by simp
  next
    case False
    then have d: "n div 64 = 2 \<or> n div 64 = 3" using c(2) by linarith
    have m: "n mod 64 < 64" by simp
    have "int n div 64 = int (n div 64)" "int n mod 64 = int (n mod 64)" by (simp_all add: zdiv_int zmod_int)
    then have "utf8_char c = [byte_of (int (192 + n div 64)), byte_of (int (128 + n mod 64))]"
      using False by (simp add: utf8_char_def c(3))
    moreover have b: "unat (byte_of (int k)) = k" if "k < 256" for k using that by (simp add: unat_byte_of)
    have "192 + n div 64 < 256" "128 + n mod 64 < 256" using d m by auto
    ultimately have u: "map unat (utf8_char c) = [192 + n div 64, 128 + n mod 64]" by (simp only: b list.map)
    have "utf8_text ((192 + n div 64) # (128 + n mod 64) # map unat (utf8_bytes s)) =
        char_of ((192 + n div 64 - 192) * 64 + (128 + n mod 64 - 128)) # utf8_text (map unat (utf8_bytes s))"
      by (rule utf8_pair) (use d m in linarith)+
    moreover have "(192 + n div 64 - 192) * 64 + (128 + n mod 64 - 128) = n" by simp
    ultimately show ?thesis unfolding rest u using Cons c(1) by simp
  qed
qed

lemma pair_up_flat [simp]: "pair_up (flat kvs) = kvs"
  by (induction kvs) (auto simp: flat_def)

lemma length_flat [simp]: "length (flat kvs) = 2 * length kvs"
  by (induction kvs) (auto simp: flat_def)

lemmas reader_defs = as_int_def as_arr_def as_map_def sized_def read_text_def read_bin_def

lemma read_uint_one [simp]: "0 \<le> i \<Longrightarrow> i < 256 \<Longrightarrow> read_uint (Suc 0) (byte_of i # r) = Some (i, r)"
  using read_uint_bytes [of i 1 r] by simp

lemma read_int_one [simp]: "- 128 \<le> i \<Longrightarrow> i < 128 \<Longrightarrow> read_int (Suc 0) (byte_of i # r) = Some (i, r)"
  using read_int_bytes [of 1 i r] by simp

lemma dispatch_simps:
  "mp_dispatch rs 0xC0 s = Some (MNil, s)" "mp_dispatch rs 0xC2 s = Some (MBool False, s)"
  "mp_dispatch rs 0xC3 s = Some (MBool True, s)"
  "mp_dispatch rs 0xC4 s = sized (read_uint 1 s) read_bin" "mp_dispatch rs 0xC5 s = sized (read_uint 2 s) read_bin"
  "mp_dispatch rs 0xC6 s = sized (read_uint 4 s) read_bin"
  "mp_dispatch rs 0xCB s = map_option (\<lambda>(a, r). (MFloat (float64_value a), r)) (split_bytes 8 s)"
  "mp_dispatch rs 0xCC s = as_int (read_uint 1 s)" "mp_dispatch rs 0xCD s = as_int (read_uint 2 s)"
  "mp_dispatch rs 0xCE s = as_int (read_uint 4 s)" "mp_dispatch rs 0xCF s = as_int (read_uint 8 s)"
  "mp_dispatch rs 0xD0 s = as_int (read_int 1 s)" "mp_dispatch rs 0xD1 s = as_int (read_int 2 s)"
  "mp_dispatch rs 0xD2 s = as_int (read_int 4 s)" "mp_dispatch rs 0xD3 s = as_int (read_int 8 s)"
  "mp_dispatch rs 0xDB s = sized (read_uint 4 s) read_text"
  "mp_dispatch rs 0xDD s = sized (read_uint 4 s) (\<lambda>n r. as_arr (rs n r))"
  "mp_dispatch rs 0xDF s = sized (read_uint 4 s) (\<lambda>n r. as_map (rs (2 * n) r))"
  by (simp_all add: mp_dispatch_def)

lemma dispatch_ranges:
  "c < 0x80 \<Longrightarrow> mp_dispatch rs c s = Some (MInt (int c), s)"
  "n < 16 \<Longrightarrow> mp_dispatch rs (0x80 + n) s = as_map (rs (2 * n) s)"
  "n < 16 \<Longrightarrow> mp_dispatch rs (0x90 + n) s = as_arr (rs n s)"
  "n < 32 \<Longrightarrow> mp_dispatch rs (0xA0 + n) s = read_text n s"
  "0xE0 \<le> c \<Longrightarrow> mp_dispatch rs c s = Some (MInt (int c - 0x100), s)"
  by (simp_all add: mp_dispatch_def)

lemma tag_bytes:
  "n < 16 \<Longrightarrow> unat (byte_of (0x80 + int n)) = 0x80 + n" "n < 16 \<Longrightarrow> unat (byte_of (0x90 + int n)) = 0x90 + n"
  "n < 32 \<Longrightarrow> unat (byte_of (0xA0 + int n)) = 0xA0 + n"
  "0 \<le> i \<Longrightarrow> i < 128 \<Longrightarrow> unat (byte_of i) = nat i"
  "- 32 \<le> i \<Longrightarrow> i < 0 \<Longrightarrow> unat (byte_of i) = nat (i + 256)"
proof -
  show "unat (byte_of i) = nat (i + 256)" if "- 32 \<le> i" "i < 0"
  proof -
    have "i mod 256 = (i + 256) mod 256" by simp
    also have "\<dots> = i + 256" using that by (intro mod_pos_pos_trivial) simp_all
    finally show ?thesis by (simp add: unat_byte_of)
  qed
qed (simp_all add: unat_byte_of nat_add_distrib)

lemma mp_read_pos: "0 < f \<Longrightarrow> mp_read f (b # s) = mp_dispatch (mp_reads (f - 1)) (unat b) s"
  by (cases f) simp_all

lemma wire_read:
  "wire v bs \<Longrightarrow> bs \<noteq> [] \<and> (\<forall>f r. 2 * length bs \<le> f \<longrightarrow> mp_read f (bs @ r) = Some (v, r))"
  "wires vs bs \<Longrightarrow> length vs \<le> length bs \<and>
     (\<forall>f r. 2 * length bs + 1 \<le> f \<longrightarrow> mp_reads f (length vs) (bs @ r) = Some (vs, r))"
proof (induction rule: wire_wires.inducts)
  case (ws_cons v a vs b)
  have "mp_reads f (length (v # vs)) ((a @ b) @ r) = Some (v # vs, r)" if le: "2 * length (a @ b) + 1 \<le> f" for f r
  proof -
    obtain g where g: "f = Suc g" using le by (cases f) auto
    have "0 < length a" using ws_cons by simp
    then have "2 * length a \<le> g" "2 * length b + 1 \<le> g" using le g by (simp, cases "length a") simp_all
    then show ?thesis using ws_cons by (simp add: g)
  qed
  moreover have "length (v # vs) \<le> length (a @ b)" using ws_cons by (cases a) auto
  ultimately show ?case by blast
next
  case (w_fixmap kvs bs)
  then show ?case by (simp add: mp_read_pos dispatch_ranges reader_defs tag_bytes)
next
  case (w_map32 kvs bs)
  then show ?case by (simp add: mp_read_pos dispatch_simps reader_defs)
next
  case (w_fixarr vs bs)
  then show ?case by (simp add: mp_read_pos dispatch_ranges reader_defs tag_bytes)
next
  case (w_arr32 vs bs)
  then show ?case by (simp add: mp_read_pos dispatch_simps reader_defs)
next
  case (w_float x)
  then show ?case by (simp add: mp_read_pos dispatch_simps float64_roundtrip)
next
  case (w_fixstr s)
  then show ?case by (simp add: mp_read_pos dispatch_ranges reader_defs tag_bytes)
next
  case (w_bool b)
  then show ?case by (simp add: mp_read_pos dispatch_simps)
next
  case (w_fix i)
  then show ?case by (simp add: mp_read_pos dispatch_ranges tag_bytes)
next
  case (w_neg i)
  then show ?case by (simp add: mp_read_pos dispatch_ranges tag_bytes)
qed (simp_all add: mp_read_pos dispatch_simps reader_defs)

lemma mp_decode_wire:
  assumes "wire v bs"
  shows "mp_decode bs = Some v"
proof -
  have "mp_read (2 * length bs) (bs @ []) = Some (v, [])" using wire_read(1) [OF assms] by blast
  then show ?thesis by (simp add: mp_decode_def)
qed

subsection \<open>The encoder of values writes the format\<close>

text \<open>What is kept of an integer: sixty-four bits, signed when it is negative\<close>

definition int64 :: "int \<Rightarrow> int" where
  "int64 i = (if 0 \<le> i then i mod 2 ^ 64 else signed_take_bit 63 i)"

definition mp_num :: "jsnum \<Rightarrow> mp" where
  "mp_num n = (case n of
      Fin r \<Rightarrow> if of_int \<lfloor>r\<rfloor> = r then MInt (int64 \<lfloor>r\<rfloor>) else MFloat n
    | _ \<Rightarrow> MFloat n)"

lemma int64_id: "- (2 ^ 63) \<le> i \<Longrightarrow> i < 2 ^ 64 \<Longrightarrow> int64 i = i"
  by (auto simp: int64_def signed_take_bit_int_eq_self)

lemma int64_range: "if 0 \<le> i then 0 \<le> int64 i \<and> int64 i < 2 ^ 64 else - (2 ^ 63) \<le> int64 i \<and> int64 i < 2 ^ 63"
  using signed_take_bit_int_greater_eq_minus_exp [of 63 i] signed_take_bit_int_less_exp [of 63 i]
  by (simp add: int64_def)

lemma be_bytes_int64: "be_bytes 8 (int64 i) = be_bytes 8 i"
proof (rule be_bytes_cong)
  have "signed_take_bit 63 i mod 2 ^ 64 = i mod (2 ^ 64 :: int)"
    unfolding take_bit_eq_mod [symmetric] take_bit_signed_take_bit by (simp add: take_bit_signed_take_bit)
  then show "int64 i mod 256 ^ 8 = i mod 256 ^ 8" by (simp add: int64_def)
qed

lemma wire_unsigned: "0 \<le> i \<Longrightarrow> wire (MInt (int64 i)) (unsigned_bytes i)"
proof (cases "i < 2 ^ 32")
  assume "0 \<le> i"
  case True
  then show ?thesis
    using \<open>0 \<le> i\<close> int64_id [of i] w_fix [of i] w_u8 [of i] w_u16 [of i] w_u32 [of i]
    by (simp add: unsigned_bytes_def shifted2_be shifted4_be del: be_bytes.simps)
next
  assume "0 \<le> i"
  case False
  have "wire (MInt (int64 i)) (0xCF # be_bytes 8 (int64 i))"
    using int64_range [of i] \<open>0 \<le> i\<close> by (intro w_u64) simp_all
  then show ?thesis
    using False high_low [OF \<open>0 \<le> i\<close>] by (simp add: unsigned_bytes_def be_bytes_int64)
qed

lemma wire_signed: "i < 0 \<Longrightarrow> wire (MInt (int64 i)) (signed_bytes i)"
proof (cases "- (2 ^ 31) \<le> i")
  assume "i < 0"
  case True
  then show ?thesis
    using \<open>i < 0\<close> int64_id [of i] w_neg [of i] w_i8 [of i] w_i16 [of i] w_i32 [of i]
    by (simp add: signed_bytes_def shifted2_be shifted4_be del: be_bytes.simps)
next
  assume "i < 0"
  case False
  have "wire (MInt (int64 i)) (0xD3 # be_bytes 8 (int64 i))"
    using int64_range [of i] \<open>i < 0\<close> by (intro w_i64) simp_all
  then show ?thesis
    using False high_low_signed [of i] by (simp add: signed_bytes_def be_bytes_int64)
qed

text \<open>An integer of any size has a representation; other numbers are doubles.\<close>

definition sendable :: "jsnum \<Rightarrow> bool" where
  "sendable n \<longleftrightarrow> is_js_number n \<or> is_int_num n"

lemma wire_number: "sendable n \<Longrightarrow> wire (mp_num n) (int_or_float_bytes n)"
  by (cases n) (auto simp: sendable_def is_int_num_def mp_num_def int_or_float_bytes_def intro: wire_unsigned wire_signed w_float)

lemma wire_string: "length (string_bytes s) \<le> MAX_SIZE \<Longrightarrow> wire (MStr s) (string_bytes s)"
  using w_fixstr [of s] w_str32 [of s] by (auto simp: string_bytes_def Let_def MAX_SIZE_def split: if_splits)

lemma wire_bin: "length (bin_bytes bs) \<le> MAX_SIZE \<Longrightarrow> wire (MBin bs) (bin_bytes bs)"
  using w_bin8 [of bs] w_bin16 [of bs] w_bin32 [of bs]
  by (auto simp: bin_bytes_def Let_def MAX_SIZE_def split: if_splits simp del: be_bytes.simps)

lemma wires_length: "wires vs bs \<Longrightarrow> length vs \<le> length bs"
  using wire_read(2) by blast

lemma wires_append: "wires vs a \<Longrightarrow> wires ws b \<Longrightarrow> wires (vs @ ws) (a @ b)"
proof (induction vs arbitrary: a)
  case Nil
  then show ?case by (auto elim: wires.cases)
next
  case (Cons v vs)
  then obtain c d where "a = c @ d" "wire v c" "wires vs d" by (auto elim: wires.cases)
  then show ?case using Cons.IH [of d] Cons.prems(2) by (auto intro: ws_cons)
qed

fun value_bytes :: "(jsval \<Rightarrow> string) \<Rightarrow> jsval \<Rightarrow> byte list"
  and items_bytes :: "(jsval \<Rightarrow> string) \<Rightarrow> jsval list \<Rightarrow> byte list"
  and entries_bytes :: "(jsval \<Rightarrow> string) \<Rightarrow> (string \<times> jsval) list \<Rightarrow> byte list"
where
  "value_bytes str (JStr s) = string_bytes s"
| "value_bytes str (JNum n) = int_or_float_bytes (if n = NaN then Fin 0 else n)"
| "value_bytes str JNull = [0xC0]"
| "value_bytes str (JArr xs) =
     (if length xs < 16 then [byte_of (0x90 + int (length xs))] else 0xDD # be_bytes 4 (int (length xs))) @
     items_bytes str xs"
| "value_bytes str (JBuf bs) = bin_bytes bs"
| "value_bytes str (JObj ps) = (0xDF # be_bytes 4 (int (length ps))) @ entries_bytes str ps"
| "value_bytes str (JErr m n st ps) = (0xDF # be_bytes 4 (int (length ps))) @ entries_bytes str ps"
| "value_bytes str (JUrl u) = 0xDF # be_bytes 4 (int 0)"
| "value_bytes str (JBool b) = [if b then 0xC3 else 0xC2]"
| "value_bytes str (JOther t) =
     (if t = ''bigint'' then
        (case parse_int 10 (str (JOther t)) of
Some i \<Rightarrow> bigint_bytes i | None \<Rightarrow> [0xC0])
      else if t = ''symbol'' then string_bytes (str (JOther t))
      else [0xC0])"
| "value_bytes str JUndef = [0xC0]"
| "items_bytes str [] = []"
| "items_bytes str (x # xs) = value_bytes str x @ items_bytes str xs"
| "entries_bytes str [] = []"
| "entries_bytes str ((k, v) # ps) = string_bytes k @ value_bytes str v @ entries_bytes str ps"

fun mp_of :: "(jsval \<Rightarrow> string) \<Rightarrow> jsval \<Rightarrow> mp"
  and mp_items :: "(jsval \<Rightarrow> string) \<Rightarrow> jsval list \<Rightarrow> mp list"
  and mp_entries :: "(jsval \<Rightarrow> string) \<Rightarrow> (string \<times> jsval) list \<Rightarrow> (mp \<times> mp) list"
where
  "mp_of str (JStr s) = MStr s"
| "mp_of str (JNum n) = mp_num (if n = NaN then Fin 0 else n)"
| "mp_of str JNull = MNil"
| "mp_of str (JArr xs) = MArr (mp_items str xs)"
| "mp_of str (JBuf bs) = MBin bs"
| "mp_of str (JObj ps) = MMap (mp_entries str ps)"
| "mp_of str (JErr m n st ps) = MMap (mp_entries str ps)"
| "mp_of str (JUrl u) = MMap []"
| "mp_of str (JBool b) = MBool b"
| "mp_of str (JOther t) =
     (if t = ''bigint'' then
        (case parse_int 10 (str (JOther t)) of Some i \<Rightarrow> MInt (int64 i) | None \<Rightarrow> MNil)
      else if t = ''symbol'' then MStr (str (JOther t))
      else MNil)"
| "mp_of str JUndef = MNil"
| "mp_items str [] = []"
| "mp_items str (x # xs) = mp_of str x # mp_items str xs"
| "mp_entries str [] = []"
| "mp_entries str ((k, v) # ps) = (MStr k, mp_of str v) # mp_entries str ps"

text \<open>Every number of the value is one a JavaScript number can be.\<close>

fun doubles_only :: "jsval \<Rightarrow> bool"
  and doubles_items :: "jsval list \<Rightarrow> bool"
  and doubles_entries :: "(string \<times> jsval) list \<Rightarrow> bool"
where
  "doubles_only (JNum n) = is_js_number n"
| "doubles_only (JArr xs) = doubles_items xs"
| "doubles_only (JObj ps) = doubles_entries ps"
| "doubles_only (JErr m n st ps) = doubles_entries ps"
| "doubles_only _ = True"
| "doubles_items [] = True"
| "doubles_items (x # xs) = (doubles_only x \<and> doubles_items xs)"
| "doubles_entries [] = True"
| "doubles_entries ((k, v) # ps) = (doubles_only v \<and> doubles_entries ps)"

lemma writes_value:
  "writes (writeValue str v) (value_bytes str v)"
  "writes (writeItems str xs) (items_bytes str xs)"
  "writes (writeEntries str ps) (entries_bytes str ps)"
proof (induction str v and str xs and str ps rule: value_bytes_items_bytes_entries_bytes.induct)
  case (4 str xs)
  then show ?case
    using writes_and_then [OF writes_simple(3) 4] writes_and_then [OF writes_simple(4) 4] by simp
next
  case (8 str u)
  then show ?case using writes_simple(5) [of 0] by simp
next
  case (10 str t)
  then show ?case
    by (simp add: writes_simple writes_string split: option.splits)
next
  case (15 str k v ps)
  then show ?case by (auto intro!: writes_and_then writes_string)
next
  case (2 str n)
  show ?case using writes_simple(10) [of n] by simp
next
  case (6 str ps)
  then show ?case using writes_and_then [OF writes_simple(5) 6] by simp
next
  case (7 str m n st ps)
  then show ?case using writes_and_then [OF writes_simple(5) 7] by simp
next
  case (9 str b)
  show ?case using writes_simple(2) [of b] by simp
qed (auto intro!: writes_and_then writes_Done intro: writes_simple writes_string writes_bin)

lemma length_mp_items [simp]: "length (mp_items str xs) = length xs"
  by (induction xs) simp_all

lemma length_mp_entries [simp]: "length (mp_entries str ps) = length ps"
  by (induction ps) auto

lemma wire_value:
  "length (value_bytes str v) \<le> MAX_SIZE \<Longrightarrow> doubles_only v \<Longrightarrow> wire (mp_of str v) (value_bytes str v)"
  "length (items_bytes str xs) \<le> MAX_SIZE \<Longrightarrow> doubles_items xs \<Longrightarrow> wires (mp_items str xs) (items_bytes str xs)"
  "length (entries_bytes str ps) \<le> MAX_SIZE \<Longrightarrow> doubles_entries ps \<Longrightarrow>
     wires (flat (mp_entries str ps)) (entries_bytes str ps)"
proof (induction str v and str xs and str ps rule: value_bytes_items_bytes_entries_bytes.induct)
  case (2 str n)
  then show ?case by (auto intro!: wire_number simp: sendable_def is_js_number_def is_double_int [of 0, simplified])
next
  case (4 str xs)
  then have ws: "wires (mp_items str xs) (items_bytes str xs)" by (auto split: if_splits)
  then have "length xs \<le> MAX_SIZE" using wires_length [OF ws] 4(2) by (simp split: if_splits)
  then have "length xs < 2 ^ 32" by (simp add: MAX_SIZE_def)
  then show ?case using w_fixarr [OF ws] w_arr32 [OF ws] by simp
next
  case (6 str ps)
  then have ws: "wires (flat (mp_entries str ps)) (entries_bytes str ps)" by simp
  then have "length ps < 2 ^ 32" using wires_length [OF ws] 6(2) by (simp add: MAX_SIZE_def)
  then show ?case using w_map32 [OF ws] by simp
next
  case (7 str m n st ps)
  then have ws: "wires (flat (mp_entries str ps)) (entries_bytes str ps)" by simp
  then have "length ps < 2 ^ 32" using wires_length [OF ws] 7(2) by (simp add: MAX_SIZE_def)
  then show ?case using w_map32 [OF ws] by simp
next
  case (8 str u)
  then show ?case using w_map32 [of "[]" "[]"] ws_nil by (simp add: flat_def)
next
  case (9 str b)
  show ?case using w_bool [of b] by simp
next
  case (10 str t)
  have "wire (MInt (int64 i)) (bigint_bytes i)" for i
    using int64_range [of i] w_u64 [of "int64 i"] w_i64 [of "int64 i"]
    by (cases "0 \<le> i") (simp_all add: be_bytes_int64 bigint_bytes_def)
  then show ?case using 10 w_nil by (auto intro: wire_string split: option.splits)
next
  case (15 str k v ps)
  then have "wire (MStr k) (string_bytes k)" by (intro wire_string) simp
  then show ?case using 15 by (auto simp: flat_def intro: ws_cons)
qed (auto simp: flat_def intro: wire_string wire_bin w_nil w_bool ws_nil ws_cons)

text \<open>
  C20: What the encoder of values writes is read back as the same value: strings, buffers, arrays,
  objects in order, numbers of every kind (an integer beyond 64 bits is cut to its lowest 64).
  The encoder always ends; it raises exactly when the representation is longer than the cap.
\<close>

theorem mp_roundtrip:
  assumes "doubles_only v"
  shows "if length (value_bytes str v) \<le> MAX_SIZE
    then \<exists>bs. mp_encode str v = Done bs \<and> mp_decode bs = Some (mp_of str v)
    else \<exists>e bs. mp_encode str v = Raised e bs \<and> cap_error e"
proof -
  have c: "chunk_ok (new_chunk DEFAULT_MIN_SIZE)" "ck_used (new_chunk DEFAULT_MIN_SIZE) = []"
    by (rule chunk_ok_new) (simp_all add: DEFAULT_MIN_SIZE_def MAX_SIZE_def new_chunk_def)
  show ?thesis
  proof (cases "length (value_bytes str v) \<le> MAX_SIZE")
    case True
    then obtain c' where "writeValue str v (new_chunk DEFAULT_MIN_SIZE) = Done c'" "ck_used c' = value_bytes str v"
      using writes_done [OF writes_value(1) c(1)] c(2) by (auto simp: grown_def)
    then show ?thesis using True mp_decode_wire [OF wire_value(1) [OF True assms]] by (simp add: mp_encode_def)
  next
    case False
    then obtain e c' where "writeValue str v (new_chunk DEFAULT_MIN_SIZE) = Raised e c'" "cap_error e"
      using writes_raised [OF writes_value(1) c(1)] c(2) by fastforce
    then show ?thesis using False by (simp add: mp_encode_def)
  qed
qed

theorem mp_roundtrip_witness:
  "\<exists>bs. mp_encode (\<lambda>_. []) (JObj [(''a'', JNum (Fin 300)), (''b'', JArr [JStr ''x'', JNull])]) = Done bs \<and>
     mp_decode bs = Some (MMap [(MStr ''a'', MInt 300), (MStr ''b'', MArr [MStr ''x'', MNil])])"
proof -
  let ?v = "JObj [(''a'', JNum (Fin 300)), (''b'', JArr [JStr ''x'', JNull])]"
  have "doubles_only ?v" using is_double_int [of 300] by (simp add: is_js_number_def)
  moreover have "length (value_bytes (\<lambda>_. []) ?v) \<le> MAX_SIZE"
    by (simp add: string_bytes_def int_or_float_bytes_def unsigned_bytes_def shifted2_def utf8_bytes_def utf8_char_def
        Let_def MAX_SIZE_def)
  moreover have "mp_of (\<lambda>_. []) ?v = MMap [(MStr ''a'', MInt 300), (MStr ''b'', MArr [MStr ''x'', MNil])]"
    by (simp add: mp_num_def int64_def)
  ultimately show ?thesis using mp_roundtrip [of ?v "\<lambda>_. []"] by simp
qed

end
