(* ===== verification/TagsProcessors.thy ===== *)
theory TagsProcessors
  imports SpanFormat
begin

text \<open>
  What every encoder does to a formatted span first (\<open>encode/tags-processors.js\<close>): defaults for a
  missing service or name, the limits of the agent on the lengths of the fields, and the time of
  an event in nanoseconds.
\<close>

definition MAX_RESOURCE_NAME_LENGTH :: nat where "MAX_RESOURCE_NAME_LENGTH = 5000"
definition MAX_META_VALUE_LENGTH_TEST_OPTIMIZATION :: nat where
  "MAX_META_VALUE_LENGTH_TEST_OPTIMIZATION = 5000"
definition DEFAULT_SPAN_NAME :: string where "DEFAULT_SPAN_NAME = ''unnamed_operation''"
definition DEFAULT_SERVICE_NAME :: string where "DEFAULT_SERVICE_NAME = ''unnamed-service''"
definition MAX_NAME_LENGTH :: nat where "MAX_NAME_LENGTH = 100"
definition MAX_SERVICE_LENGTH :: nat where "MAX_SERVICE_LENGTH = 100"
definition MAX_TYPE_LENGTH :: nat where "MAX_TYPE_LENGTH = 100"

lemmas limit_defs = MAX_RESOURCE_NAME_LENGTH_def MAX_META_VALUE_LENGTH_TEST_OPTIMIZATION_def
  MAX_NAME_LENGTH_def MAX_SERVICE_LENGTH_def MAX_TYPE_LENGTH_def

definition truncateSpan :: "formatted_span \<Rightarrow> formatted_span" where
  "truncateSpan f = f\<lparr>f_resource := cut MAX_RESOURCE_NAME_LENGTH (f_resource f)\<rparr>"

definition truncateSpanTestOpt :: "formatted_span \<Rightarrow> formatted_span" where
  "truncateSpanTestOpt f =
     (let f = truncateSpan f
      in f\<lparr>f_meta := map (\<lambda>(k, v). (k, cut MAX_META_VALUE_LENGTH_TEST_OPTIMIZATION v)) (f_meta f)\<rparr>)"

definition eventTimeNano :: "span_event \<Rightarrow> jsnum" where
  "eventTimeNano ev = to_nanos (to_number (ev_startTime ev))"

text \<open>\<open>s ||= d\<close>\<close>

definition or_default :: "string \<Rightarrow> string option \<Rightarrow> string" where
  "or_default d s = (case s of Some t \<Rightarrow> if t = [] then d else t | None \<Rightarrow> d)"

definition normalizeSpan :: "formatted_span \<Rightarrow> formatted_span" where
  "normalizeSpan f =
     (let service = or_default DEFAULT_SERVICE_NAME (f_service f);
          f = f\<lparr>f_service := Some (take MAX_SERVICE_LENGTH service)\<rparr>;
          name = or_default DEFAULT_SPAN_NAME (Some (f_name f));
          f = f\<lparr>f_name := take MAX_NAME_LENGTH name\<rparr>;
          f = (if f_resource f = [] then f\<lparr>f_resource := f_name f\<rparr> else f)
      in f\<lparr>f_type := map_option (take MAX_TYPE_LENGTH) (f_type f)\<rparr>)"

lemma normalizeSpan_frame [simp]:
  "f_trace_id (normalizeSpan f) = f_trace_id f" "f_span_id (normalizeSpan f) = f_span_id f"
  "f_parent_id (normalizeSpan f) = f_parent_id f" "f_error (normalizeSpan f) = f_error f"
  "f_meta (normalizeSpan f) = f_meta f" "f_meta_struct (normalizeSpan f) = f_meta_struct f"
  "f_metrics (normalizeSpan f) = f_metrics f" "f_start (normalizeSpan f) = f_start f"
  "f_duration (normalizeSpan f) = f_duration f" "f_span_events (normalizeSpan f) = f_span_events f"
  by (simp_all add: normalizeSpan_def Let_def)

lemma normalizeSpan_fields:
  "f_service (normalizeSpan f) = Some (take MAX_SERVICE_LENGTH (or_default DEFAULT_SERVICE_NAME (f_service f)))"
  "f_name (normalizeSpan f) = take MAX_NAME_LENGTH (or_default DEFAULT_SPAN_NAME (Some (f_name f)))"
  "f_resource (normalizeSpan f) = or_default (f_name (normalizeSpan f)) (Some (f_resource f))"
  "f_type (normalizeSpan f) = map_option (take MAX_TYPE_LENGTH) (f_type f)"
  by (simp_all add: normalizeSpan_def Let_def or_default_def)

lemma or_default_cut:
  assumes "d \<noteq> []" "0 < n"
  shows "take n (or_default d s) \<noteq> []" "or_default d (Some (take n (or_default d s))) = take n (or_default d s)"
  using assms by (auto simp: or_default_def split: option.split)

lemma default_names: "DEFAULT_SERVICE_NAME \<noteq> []" "DEFAULT_SPAN_NAME \<noteq> []"
  by (simp_all add: DEFAULT_SERVICE_NAME_def DEFAULT_SPAN_NAME_def)

lemma limits_positive: "0 < MAX_SERVICE_LENGTH" "0 < MAX_NAME_LENGTH" "0 < MAX_TYPE_LENGTH"
  by (simp_all add: limit_defs)

lemma normalizeSpan_idem: "normalizeSpan (normalizeSpan f) = normalizeSpan f"
proof (rule formatted_span.equality)
  show "f_service (normalizeSpan (normalizeSpan f)) = f_service (normalizeSpan f)"
    by (simp add: normalizeSpan_fields(1) or_default_cut(2) default_names limits_positive)
  show name: "f_name (normalizeSpan (normalizeSpan f)) = f_name (normalizeSpan f)"
    by (simp add: normalizeSpan_fields(2) or_default_cut(2) default_names limits_positive)
  show "f_resource (normalizeSpan (normalizeSpan f)) = f_resource (normalizeSpan f)"
    unfolding normalizeSpan_fields(3) name by (simp add: or_default_def)
  show "f_type (normalizeSpan (normalizeSpan f)) = f_type (normalizeSpan f)"
    by (simp add: normalizeSpan_fields(4) option.map_comp comp_def)
qed simp_all

text \<open>
  A normalised span has a service and a name of one to a hundred characters, some resource and
  a type of at most a hundred characters, and normalising it again changes nothing. Truncation
  keeps resources, and the values of all tags of a test span, within the limit and its three dots.
\<close>

theorem normalize_bounds:
  "(\<exists>s. f_service (normalizeSpan f) = Some s \<and> s \<noteq> [] \<and> length s \<le> 100) \<and>
   f_name (normalizeSpan f) \<noteq> [] \<and> length (f_name (normalizeSpan f)) \<le> 100 \<and>
   f_resource (normalizeSpan f) \<noteq> [] \<and>
   pred_option (\<lambda>t. length t \<le> 100) (f_type (normalizeSpan f)) \<and>
   normalizeSpan (normalizeSpan f) = normalizeSpan f \<and>
   length (f_resource (truncateSpan f)) \<le> 5003 \<and>
   list_all (\<lambda>(k, v). length v \<le> 5003) (f_meta (truncateSpanTestOpt f)) \<and>
   map fst (f_meta (truncateSpanTestOpt f)) = map fst (f_meta f)"
proof -
  have name: "f_name (normalizeSpan f) \<noteq> []" "length (f_name (normalizeSpan f)) \<le> 100"
    unfolding normalizeSpan_fields(2) using or_default_cut(1) default_names limits_positive
    by (blast, simp add: limit_defs)
  have "\<exists>s. f_service (normalizeSpan f) = Some s \<and> s \<noteq> [] \<and> length s \<le> 100"
    unfolding normalizeSpan_fields(1) using or_default_cut(1) [OF default_names(1) limits_positive(1)]
    by (simp add: limit_defs)
  moreover have "pred_option (\<lambda>t. length t \<le> 100) (f_type (normalizeSpan f))"
    by (cases "f_type f") (simp_all add: normalizeSpan_fields(4) limit_defs)
  moreover have "f_resource (normalizeSpan f) \<noteq> []"
    using name(1) by (simp add: normalizeSpan_fields(3) or_default_def)
  moreover have "list_all (\<lambda>(k, v). length v \<le> 5003) (f_meta (truncateSpanTestOpt f))"
    by (auto simp: truncateSpanTestOpt_def Let_def truncateSpan_def limit_defs cut_def list_all_iff)
  moreover have "length (f_resource (truncateSpan f)) \<le> 5003"
    "map fst (f_meta (truncateSpanTestOpt f)) = map fst (f_meta f)"
    by (auto simp: truncateSpanTestOpt_def truncateSpan_def Let_def limit_defs cut_def)
  ultimately show ?thesis using name normalizeSpan_idem [of f] by blast
qed

end
