(* ===== verification/EncoderBase.thy ===== *)
theory EncoderBase
  imports Msgpack TagsProcessors
begin

text \<open>
  The state of an encoder of traces and the writers the encoders share (\<open>encode/0.4.js\<close>,
  class \<open>AgentEncoder\<close>): the buffer of the traces, the buffer and the cache of the strings, the
  number of traces. A writer returns a value, throws in some state or runs on.

  An entry of the string cache is a view of the string buffer; its bytes stay the same until the
  cache is emptied, so the model keeps the bytes. \<open>#refreshStringCache\<close>, which rebuilds the views
  after the buffer was moved, changes none of them. Reserved room is filled with zeros until it
  is written.

  \<open>writes_out f a bs\<close> is the contract of a writer: it returns \<open>a\<close> having appended exactly
  \<open>bs\<close> to the traces, or throws the error of an exceeded cap.
\<close>

record encoder =
  e_limit :: nat
  e_native :: bool
  e_count :: nat
  e_bytes :: chunk
  e_stringCount :: nat
  e_strings :: chunk
  e_map :: "(string \<times> byte list) list"

datatype 'a result = Returns 'a encoder | Throws js_error encoder | Runs_on

type_synonym 'a enc = "encoder \<Rightarrow> 'a result"

definition ret :: "'a \<Rightarrow> 'a enc" where
  "ret a e = Returns a e"

definition raise :: "js_error \<Rightarrow> 'a enc" where
  "raise er e = Throws er e"

definition bind :: "'a enc \<Rightarrow> ('a \<Rightarrow> 'b enc) \<Rightarrow> 'b enc" where
  "bind f g e = (case f e of Returns a e' \<Rightarrow> g a e' | Throws er e' \<Rightarrow> Throws er e' | Runs_on \<Rightarrow> Runs_on)"

definition seq :: "'a enc \<Rightarrow> 'b enc \<Rightarrow> 'b enc" where
  "seq f g = bind f (\<lambda>_. g)"

definition of_sum :: "js_error + 'a \<Rightarrow> 'a enc" where
  "of_sum r = (case r of Inl er \<Rightarrow> raise er | Inr a \<Rightarrow> ret a)"

text \<open>An operation of the buffer of the traces, its length, and writing over what is there\<close>

definition chunked :: "(chunk \<Rightarrow> chunk outcome) \<Rightarrow> unit enc" where
  "chunked f e = (case f (e_bytes e) of
      Done c \<Rightarrow> Returns () (e\<lparr>e_bytes := c\<rparr>)
    | Raised er c \<Rightarrow> Throws er (e\<lparr>e_bytes := c\<rparr>)
    | Loops \<Rightarrow> Runs_on)"

definition emit :: "byte list \<Rightarrow> unit enc" where
  "emit bs = chunked (put bs)"

definition position :: "nat enc" where
  "position e = Returns (length (ck_used (e_bytes e))) e"

definition on_used :: "(byte list \<Rightarrow> byte list) \<Rightarrow> unit enc" where
  "on_used g e = Returns () (e\<lparr>e_bytes := (e_bytes e)\<lparr>ck_used := g (ck_used (e_bytes e))\<rparr>\<rparr>)"

definition patch :: "nat \<Rightarrow> byte list \<Rightarrow> unit enc" where
  "patch off bs = on_used (\<lambda>u. take off u @ bs @ drop (off + length bs) u)"

definition rewind :: "nat \<Rightarrow> unit enc" where
  "rewind off = on_used (take off)"

text \<open>
  The frame of every loop: reserve the slot of the count behind some bytes, run the loop, patch
  the count it returns. (The code shifts a count with \<open>>>>\<close> and a length with \<open>>>\<close>; the byte that
  is stored is the same.)
\<close>

definition counted :: "byte list \<Rightarrow> nat enc \<Rightarrow> unit enc" where
  "counted pre loop =
     bind position (\<lambda>off.
       seq (emit (pre @ [0, 0, 0, 0]))
         (bind loop (\<lambda>count. patch (off + length pre) (shifted4 (int count)))))"

text \<open>
  The same when nothing written by the loop undoes it all; the result tells whether anything stays.
  A header byte that depends on such a result is written over.
\<close>

definition optional_block :: "unit enc \<Rightarrow> byte list \<Rightarrow> nat enc \<Rightarrow> bool enc" where
  "optional_block head pre loop =
     bind position (\<lambda>start.
       seq head (bind position (\<lambda>off.
         seq (emit (pre @ [0, 0, 0, 0]))
           (bind loop (\<lambda>count.
             if count = 0 then seq (rewind start) (ret False)
             else seq (patch (off + length pre) (shifted4 (int count))) (ret True))))))"

definition with_header :: "byte \<Rightarrow> byte \<Rightarrow> bool enc \<Rightarrow> unit enc" where
  "with_header h h' body =
     bind position (\<lambda>off.
       seq (emit [h]) (bind body (\<lambda>b. if b then patch off [h'] else ret ())))"

subsection \<open>Strings\<close>

definition STRING_CACHE_BYPASS_LIMIT :: nat where "STRING_CACHE_BYPASS_LIMIT = 1024"

definition cacheString :: "string \<Rightarrow> byte list enc" where
  "cacheString value e =
     (case map_of (e_map e) value of
        Some entry \<Rightarrow> Returns entry e
      | None \<Rightarrow>
          (let e = e\<lparr>e_stringCount := e_stringCount e + 1\<rparr>;
               start = length (ck_used (e_strings e))
           in case chunk_write value (e_strings e) of
                Done c \<Rightarrow>
                  (let entry = drop start (ck_used c)
                   in Returns entry (e\<lparr>e_strings := c, e_map := AList.update value entry (e_map e)\<rparr>))
              | Raised er c \<Rightarrow> Throws er (e\<lparr>e_strings := c\<rparr>)
              | Loops \<Rightarrow> Runs_on))"

definition encodeString :: "string \<Rightarrow> unit enc" where
  "encodeString value =
     (if STRING_CACHE_BYPASS_LIMIT < length value then chunked (chunk_write value)
      else bind (cacheString value) emit)"

subsection \<open>Contracts\<close>

definition enc_ok :: "encoder \<Rightarrow> bool" where
  "enc_ok e \<longleftrightarrow> chunk_ok (e_bytes e) \<and> chunk_ok (e_strings e) \<and>
     (\<forall>v entry. map_of (e_map e) v = Some entry \<longrightarrow> entry = string_bytes v)"

definition same_setup :: "encoder \<Rightarrow> encoder \<Rightarrow> bool" where
  "same_setup e e' \<longleftrightarrow> e_limit e' = e_limit e \<and> e_native e' = e_native e \<and> e_count e' = e_count e"

definition out :: "encoder \<Rightarrow> byte list" where
  "out e = ck_used (e_bytes e)"

definition writes_out :: "'a enc \<Rightarrow> 'a \<Rightarrow> byte list \<Rightarrow> bool" where
  "writes_out f a bs \<longleftrightarrow> (\<forall>e. enc_ok e \<longrightarrow>
     (case f e of
        Returns x e' \<Rightarrow> x = a \<and> out e' = out e @ bs \<and> same_setup e e' \<and> enc_ok e'
      | Throws er e' \<Rightarrow> cap_error er \<and> same_setup e e' \<and> enc_ok e'
      | Runs_on \<Rightarrow> False))"


named_theorems enc_rules \<open>contracts of the writers of the encoders\<close>

lemma writes_out_cases:
  assumes "writes_out f a bs" "enc_ok e"
  obtains (returns) e' where "f e = Returns a e'" "out e' = out e @ bs" "same_setup e e'" "enc_ok e'"
    | (throws) er e' where "f e = Throws er e'" "cap_error er" "same_setup e e'" "enc_ok e'"
proof (cases "f e")
  case (Returns x e')
  then show ?thesis using assms that(1) by (auto simp: writes_out_def)
next
  case (Throws er e')
  then show ?thesis using assms that(2) by (auto simp: writes_out_def)
next
  case Runs_on
  then show ?thesis using assms by (auto simp: writes_out_def)
qed

lemma same_setup_refl [simp]: "same_setup e e"
  by (simp add: same_setup_def)

lemma same_setup_trans: "same_setup a b \<Longrightarrow> same_setup b c \<Longrightarrow> same_setup a c"
  by (simp add: same_setup_def)

lemma writes_out_ret [enc_rules]: "writes_out (ret a) a []"
  by (simp add: writes_out_def ret_def)

lemma writes_out_bind [enc_rules]:
  assumes "writes_out f a as" "writes_out (g a) b bs"
  shows "writes_out (bind f g) b (as @ bs)"
  unfolding writes_out_def
proof (intro allI impI)
  fix e assume e: "enc_ok e"
  from assms(1) e show "case bind f g e of
      Returns x e' \<Rightarrow> x = b \<and> out e' = out e @ as @ bs \<and> same_setup e e' \<and> enc_ok e'
    | Throws er e' \<Rightarrow> cap_error er \<and> same_setup e e' \<and> enc_ok e' | Runs_on \<Rightarrow> False"
  proof (cases rule: writes_out_cases)
    case (returns e1)
    from assms(2) returns(4) show ?thesis
      by (cases rule: writes_out_cases)
        (use returns in \<open>auto simp: bind_def intro: same_setup_trans\<close>)
  next
    case (throws er e1)
    then show ?thesis by (simp add: bind_def)
  qed
qed

lemma writes_out_seq [enc_rules]:
  "writes_out f a as \<Longrightarrow> writes_out g b bs \<Longrightarrow> writes_out (seq f g) b (as @ bs)"
  unfolding seq_def by (rule writes_out_bind)

lemma writes_out_chunked:
  assumes "writes f bs"
  shows "writes_out (chunked f) () bs"
  unfolding writes_out_def
proof (intro allI impI)
  fix e assume e: "enc_ok e"
  then have c: "chunk_ok (e_bytes e)" by (simp add: enc_ok_def)
  show "case chunked f e of
      Returns x e' \<Rightarrow> x = () \<and> out e' = out e @ bs \<and> same_setup e e' \<and> enc_ok e'
    | Throws er e' \<Rightarrow> cap_error er \<and> same_setup e e' \<and> enc_ok e' | Runs_on \<Rightarrow> False"
  proof (cases "length (ck_used (e_bytes e)) + length bs \<le> MAX_SIZE")
    case True
    then obtain c' where "f (e_bytes e) = Done c'" "grown (e_bytes e) bs c'"
      using writes_done [OF assms c] by blast
    then show ?thesis using e by (simp add: chunked_def grown_def out_def same_setup_def enc_ok_def)
  next
    case False
    then obtain er c' where "f (e_bytes e) = Raised er c'" "cap_error er" "chunk_ok c'"
      using writes_raised [OF assms c] by blast
    then show ?thesis using e by (simp add: chunked_def same_setup_def enc_ok_def)
  qed
qed

lemma writes_out_emit [enc_rules]: "writes_out (emit bs) () bs"
  unfolding emit_def by (rule writes_out_chunked) (rule writes_put)

lemma writes_out_cacheString [enc_rules]: "writes_out (cacheString v) (string_bytes v) []"
  unfolding writes_out_def
proof (intro allI impI)
  fix e assume e: "enc_ok e"
  then have c: "chunk_ok (e_strings e)" by (simp add: enc_ok_def)
  show "case cacheString v e of
      Returns x e' \<Rightarrow> x = string_bytes v \<and> out e' = out e @ [] \<and> same_setup e e' \<and> enc_ok e'
    | Throws er e' \<Rightarrow> cap_error er \<and> same_setup e e' \<and> enc_ok e' | Runs_on \<Rightarrow> False"
  proof (cases "map_of (e_map e) v")
    case (Some entry)
    then show ?thesis using e by (simp add: cacheString_def enc_ok_def)
  next
    case None
    show ?thesis
    proof (cases "length (ck_used (e_strings e)) + length (string_bytes v) \<le> MAX_SIZE")
      case True
      then obtain c' where "chunk_write v (e_strings e) = Done c'" "grown (e_strings e) (string_bytes v) c'"
        using writes_done [OF writes_string c] by blast
      then show ?thesis using e None
        by (simp add: cacheString_def grown_def out_def same_setup_def enc_ok_def map_of_obj_set Let_def)
    next
      case False
      then obtain er c' where "chunk_write v (e_strings e) = Raised er c'" "cap_error er" "chunk_ok c'"
        using writes_raised [OF writes_string c] by blast
      then show ?thesis using e None by (simp add: cacheString_def same_setup_def enc_ok_def Let_def)
    qed
  qed
qed

lemma writes_out_encodeString [enc_rules]: "writes_out (encodeString s) () (string_bytes s)"
  using writes_out_chunked [OF writes_string] writes_out_bind [OF writes_out_cacheString, of emit, OF writes_out_emit]
  by (simp add: encodeString_def)

subsection \<open>Slots that are filled in later\<close>

lemma bind_position: "bind position g e = g (length (out e)) e"
  by (simp add: bind_def position_def out_def)

lemma on_used_ok:
  assumes "enc_ok e" "length (g (out e)) \<le> length (out e)"
  shows "\<exists>e'. on_used g e = Returns () e' \<and> out e' = g (out e) \<and> same_setup e e' \<and> enc_ok e'"
  using assms by (auto simp: on_used_def out_def same_setup_def enc_ok_def chunk_ok_def)

text \<open>To run \<open>f\<close> from a state and end it with a change of what was written from there on\<close>

lemma writes_out_then_fix:
  assumes "writes_out f a bs"
    and fix_up: "\<And>e1 u. enc_ok e1 \<Longrightarrow> out e1 = u @ bs \<Longrightarrow>
      \<exists>e'. g (length u) a e1 = Returns b e' \<and> out e' = u @ cs \<and> same_setup e1 e' \<and> enc_ok e'"
  shows "writes_out (bind position (\<lambda>off. bind f (g off))) b cs"
  unfolding writes_out_def
proof (intro allI impI)
  fix e assume e: "enc_ok e"
  from assms(1) e show "case bind position (\<lambda>off. bind f (g off)) e of
      Returns x e' \<Rightarrow> x = b \<and> out e' = out e @ cs \<and> same_setup e e' \<and> enc_ok e'
    | Throws er e' \<Rightarrow> cap_error er \<and> same_setup e e' \<and> enc_ok e' | Runs_on \<Rightarrow> False"
  proof (cases rule: writes_out_cases)
    case (returns e1)
    then obtain e' where "g (length (out e)) a e1 = Returns b e'" "out e' = out e @ cs" "same_setup e1 e'" "enc_ok e'"
      using fix_up [of e1 "out e"] by auto
    then show ?thesis using returns unfolding bind_position by (auto simp: bind_def intro: same_setup_trans)
  next
    case (throws er e1)
    then show ?thesis unfolding bind_position by (simp add: bind_def)
  qed
qed

lemma bind_assoc: "bind (bind f g) h = bind f (\<lambda>x. bind (g x) h)"
  by (auto simp: bind_def fun_eq_iff split: result.split)

lemma seq_bind: "seq f (bind g h) = bind (seq f g) h"
  by (simp add: seq_def bind_assoc)

lemma writes_out_counted [enc_rules]:
  assumes "writes_out loop n bs"
  shows "writes_out (counted pre loop) () (pre @ be_bytes 4 (int n) @ bs)"
proof -
  have body: "writes_out (seq (emit (pre @ [0, 0, 0, 0])) loop) n ((pre @ [0, 0, 0, 0]) @ bs)"
    by (rule writes_out_seq [OF writes_out_emit assms])
  have "writes_out (bind position (\<lambda>off. bind (seq (emit (pre @ [0, 0, 0, 0])) loop)
      (\<lambda>count. patch (off + length pre) (shifted4 (int count))))) () (pre @ be_bytes 4 (int n) @ bs)"
  proof (rule writes_out_then_fix [OF body])
    fix e1 u assume e1: "enc_ok e1" "out e1 = u @ (pre @ [0, 0, 0, 0]) @ bs"
    then show "\<exists>e'. patch (length u + length pre) (shifted4 (int n)) e1 = Returns () e' \<and>
        out e' = u @ pre @ be_bytes 4 (int n) @ bs \<and> same_setup e1 e' \<and> enc_ok e'"
      unfolding patch_def shifted4_be
      using on_used_ok [OF e1(1), of "\<lambda>u'. take (length u + length pre) u' @ be_bytes 4 (int n) @
          drop (length u + length pre + length (be_bytes 4 (int n))) u'"] by (simp del: be_bytes.simps)
  qed
  then show ?thesis unfolding counted_def seq_bind by simp
qed


lemma bind_Returns: "f e = Returns a e' \<Longrightarrow> bind f g e = g a e'"
  by (simp add: bind_def)

lemma bind_Throws: "f e = Throws er e' \<Longrightarrow> bind f g e = Throws er e'"
  by (simp add: bind_def)

lemma seq_Returns: "f e = Returns a e' \<Longrightarrow> seq f g e = g e'"
  by (simp add: seq_def bind_Returns)

lemma writes_out_optional_block [enc_rules]:
  assumes "writes_out head () h" "writes_out loop n bs"
  shows "writes_out (optional_block head pre loop) (n \<noteq> 0) (if n = 0 then [] else h @ pre @ be_bytes 4 (int n) @ bs)"
  unfolding writes_out_def
proof (intro allI impI)
  fix e assume e: "enc_ok e"
  let ?fix = "\<lambda>start off count. if count = 0 then seq (rewind start) (ret False)
      else seq (patch (off + length pre) (shifted4 (int count))) (ret True)"
  have body: "writes_out (seq (emit (pre @ [0, 0, 0, 0])) loop) n ((pre @ [0, 0, 0, 0]) @ bs)"
    by (rule writes_out_seq [OF writes_out_emit assms(2)])
  from assms(1) e show "case optional_block head pre loop e of
      Returns x e' \<Rightarrow> x = (n \<noteq> 0) \<and> out e' = out e @ (if n = 0 then [] else h @ pre @ be_bytes 4 (int n) @ bs) \<and>
        same_setup e e' \<and> enc_ok e'
    | Throws er e' \<Rightarrow> cap_error er \<and> same_setup e e' \<and> enc_ok e' | Runs_on \<Rightarrow> False"
  proof (cases rule: writes_out_cases)
    case (throws er e1)
    then show ?thesis unfolding optional_block_def bind_position seq_def by (simp add: bind_Throws)
  next
    case e1: (returns e1)
    have eq: "optional_block head pre loop e =
        bind (seq (emit (pre @ [0, 0, 0, 0])) loop) (?fix (length (out e)) (length (out e1))) e1"
      unfolding optional_block_def bind_position seq_def bind_Returns [where f = head, OF e1(1)]
      by (simp add: bind_assoc)
    from body e1(4) show ?thesis
    proof (cases rule: writes_out_cases)
      case (throws er e2)
      then show ?thesis unfolding eq using e1 by (auto simp: bind_Throws intro: same_setup_trans)
    next
      case e2: (returns e2)
      have written: "out e2 = (out e @ h) @ (pre @ [0, 0, 0, 0]) @ bs" using e2(2) e1(2) by simp
      have undone: "\<exists>e3. rewind (length (out e)) e2 = Returns () e3 \<and> out e3 = out e \<and> same_setup e2 e3 \<and> enc_ok e3"
        unfolding rewind_def using on_used_ok [OF e2(4), of "take (length (out e))"] written by simp
      have "\<exists>e3. patch (length (out e1) + length pre) (shifted4 (int n)) e2 = Returns () e3 \<and>
          out e3 = out e @ h @ pre @ be_bytes 4 (int n) @ bs \<and> same_setup e2 e3 \<and> enc_ok e3"
        unfolding patch_def shifted4_be
        using on_used_ok [OF e2(4), of "\<lambda>u. take (length (out e1) + length pre) u @ be_bytes 4 (int n) @
            drop (length (out e1) + length pre + length (be_bytes 4 (int n))) u"] written e1(2) by (simp del: be_bytes.simps)
      then show ?thesis unfolding eq bind_Returns [where f = "seq (emit (pre @ [0, 0, 0, 0])) loop", OF e2(1)]
        using undone same_setup_trans [OF e1(3) e2(3)]
        by (cases "n = 0") (auto simp: seq_Returns ret_def intro: same_setup_trans)
    qed
  qed
qed

lemma writes_out_with_header [enc_rules]:
  assumes "writes_out body b bs"
  shows "writes_out (with_header h h' body) () ((if b then h' else h) # bs)"
proof -
  have body: "writes_out (seq (emit [h]) body) b ([h] @ bs)"
    by (rule writes_out_seq [OF writes_out_emit assms])
  have "writes_out (bind position (\<lambda>off. bind (seq (emit [h]) body) (\<lambda>b. if b then patch off [h'] else ret ())))
      () ((if b then h' else h) # bs)"
  proof (rule writes_out_then_fix [OF body])
    fix e1 u assume e1: "enc_ok e1" "out e1 = u @ [h] @ bs"
    then show "\<exists>e'. (if b then patch (length u) [h'] else ret ()) e1 = Returns () e' \<and>
        out e' = u @ ((if b then h' else h) # bs) \<and> same_setup e1 e' \<and> enc_ok e'"
      unfolding patch_def using on_used_ok [OF e1(1), of "\<lambda>u'. take (length u) u' @ [h'] @ drop (length u + 1) u'"]
      by (simp add: ret_def)
  qed
  then show ?thesis unfolding with_header_def seq_bind by simp
qed

end
