(* ===== verification/AgentEncoder.thy ===== *)
theory AgentEncoder
  imports EncoderBase
begin

text \<open>
  The encoder of version 0.4 of the trace format (\<open>encode/0.4.js\<close>): keys written ahead of time,
  the span as a map of eleven to fourteen entries whose first part is one block, tags with cached
  strings, span events with typed attributes (or as JSON among the tags), structured tags as
  nested encodings, the payload of all queued traces.

  Objects are values here, so no object occurs twice in a structured tag and the detector of
  circular references never fires.
\<close>

subsection \<open>Keys\<close>

definition buildKey :: "string \<Rightarrow> byte list" where
  "buildKey key = byte_of (int (length (utf8_bytes key)) OR 0xA0) # utf8_bytes key"

definition buildKeyWithPrefix :: "string \<Rightarrow> byte \<Rightarrow> byte list" where
  "buildKeyWithPrefix key tag =
     (byte_of (int (length (utf8_bytes key)) OR 0xA0) # utf8_bytes key) @ [tag]"

definition KEY_TYPE :: "byte list" where "KEY_TYPE = buildKey ''type''"
definition KEY_NAME :: "byte list" where "KEY_NAME = buildKey ''name''"
definition KEY_RESOURCE :: "byte list" where "KEY_RESOURCE = buildKey ''resource''"
definition KEY_SERVICE :: "byte list" where "KEY_SERVICE = buildKey ''service''"
definition KEY_ERROR :: "byte list" where "KEY_ERROR = buildKey ''error''"
definition KEY_START :: "byte list" where "KEY_START = buildKey ''start''"
definition KEY_DURATION :: "byte list" where "KEY_DURATION = buildKey ''duration''"
definition KEY_ERROR_0 :: "byte list" where "KEY_ERROR_0 = KEY_ERROR @ [0x00]"
definition KEY_ERROR_1 :: "byte list" where "KEY_ERROR_1 = KEY_ERROR @ [0x01]"
definition KEY_START_PREFIX :: "byte list" where "KEY_START_PREFIX = buildKeyWithPrefix ''start'' 0xCF"
definition KEY_SPAN_EVENTS :: "byte list" where "KEY_SPAN_EVENTS = buildKey ''span_events''"
definition KEY_META_STRUCT :: "byte list" where "KEY_META_STRUCT = buildKey ''meta_struct''"
definition KEY_TRACE_ID_PREFIX :: "byte list" where "KEY_TRACE_ID_PREFIX = buildKeyWithPrefix ''trace_id'' 0xCF"
definition KEY_SPAN_ID_PREFIX :: "byte list" where "KEY_SPAN_ID_PREFIX = buildKeyWithPrefix ''span_id'' 0xCF"
definition KEY_PARENT_ID_PREFIX :: "byte list" where
  "KEY_PARENT_ID_PREFIX = buildKeyWithPrefix ''parent_id'' 0xCF"
definition KEY_META_PREFIX :: "byte list" where "KEY_META_PREFIX = buildKeyWithPrefix ''meta'' 0xDF"
definition KEY_METRICS_PREFIX :: "byte list" where "KEY_METRICS_PREFIX = buildKeyWithPrefix ''metrics'' 0xDF"
definition KEY_EVENT_TIME :: "byte list" where "KEY_EVENT_TIME = buildKey ''time_unix_nano''"
definition KEY_EVENT_ATTRIBUTES :: "byte list" where "KEY_EVENT_ATTRIBUTES = buildKey ''attributes''"

definition buildAttrPrefix :: "byte \<Rightarrow> string \<Rightarrow> byte list" where
  "buildAttrPrefix typeByte valueKey =
     [0x82, 0xA4, 0x74, 0x79, 0x70, 0x65, typeByte] @ buildKey valueKey"

definition ATTR_PREFIX_STRING :: "byte list" where "ATTR_PREFIX_STRING = buildAttrPrefix 0x00 ''string_value''"
definition ATTR_PREFIX_BOOL :: "byte list" where "ATTR_PREFIX_BOOL = buildAttrPrefix 0x01 ''bool_value''"
definition ATTR_PREFIX_INT :: "byte list" where "ATTR_PREFIX_INT = buildAttrPrefix 0x02 ''int_value''"
definition ATTR_PREFIX_DOUBLE :: "byte list" where "ATTR_PREFIX_DOUBLE = buildAttrPrefix 0x03 ''double_value''"
definition ATTR_PREFIX_ARRAY :: "byte list" where
  "ATTR_PREFIX_ARRAY = buildAttrPrefix 0x04 ''array_value'' @ [0x81] @ buildKey ''values'' @ [0xDD]"
definition ATTR_PAYLOAD_BOOL_TRUE :: "byte list" where "ATTR_PAYLOAD_BOOL_TRUE = ATTR_PREFIX_BOOL @ [0xC3]"
definition ATTR_PAYLOAD_BOOL_FALSE :: "byte list" where "ATTR_PAYLOAD_BOOL_FALSE = ATTR_PREFIX_BOOL @ [0xC2]"

subsection \<open>Events as JSON\<close>

definition escapeJsonString :: "string \<Rightarrow> string" where
  "escapeJsonString value =
     (if list_ex (\<lambda>c. of_char c < (0x20 :: nat) \<or> of_char c = (0x22 :: nat) \<or> of_char c = (0x5C :: nat)) value
      then json_quote value
      else dquote # value @ [dquote])"

definition jsonNumber :: "(jsval \<Rightarrow> string) \<Rightarrow> jsnum \<Rightarrow> string" where
  "jsonNumber str value = (case value of Fin r \<Rightarrow> num_to_string str value | _ \<Rightarrow> ''null'')"

fun stringifyAttributeValue :: "(jsval \<Rightarrow> string) \<Rightarrow> jsval \<Rightarrow> string" where
  "stringifyAttributeValue str (JStr s) = escapeJsonString s"
| "stringifyAttributeValue str (JNum n) = jsonNumber str n"
| "stringifyAttributeValue str (JBool b) = (if b then ''true'' else ''false'')"
| "stringifyAttributeValue str (JArr xs) = ''['' @ join '','' (map (stringifyAttributeValue str) xs) @ '']''"
| "stringifyAttributeValue str _ = ''null''"

definition stringifyAttributes :: "(jsval \<Rightarrow> string) \<Rightarrow> jsobj \<Rightarrow> string" where
  "stringifyAttributes str attributes =
     ''{'' @ join '','' (map (\<lambda>(k, v). escapeJsonString k @ '':'' @ stringifyAttributeValue str v) attributes) @ ''}''"

text \<open>An event whose name is no string goes through \<open>JSON.stringify\<close>, which fails on a bigint.\<close>

definition stringify_event :: "(jsval \<Rightarrow> string) \<Rightarrow> span_event \<Rightarrow> js_error + string" where
  "stringify_event str event =
     (case ev_name event of
        JStr name \<Rightarrow>
          (let result = ''{'' @ [dquote] @ ''name'' @ [dquote] @ '':'' @ escapeJsonString name @
                '','' @ [dquote] @ ''time_unix_nano'' @ [dquote] @ '':'' @ jsonNumber str (eventTimeNano event);
               result = (case ev_attributes event of
                   Some attributes \<Rightarrow>
                     result @ '','' @ [dquote] @ ''attributes'' @ [dquote] @ '':'' @ stringifyAttributes str attributes
                 | None \<Rightarrow> result)
           in ok (result @ ''}''))
      | _ \<Rightarrow>
          try_then (json_value str (JObj [(''name'', ev_name event), (''time_unix_nano'', JNum (eventTimeNano event)),
              (''attributes'', case ev_attributes event of Some attributes \<Rightarrow> JObj attributes | None \<Rightarrow> JUndef)]))
            (\<lambda>t. ok (case t of Some s \<Rightarrow> s | None \<Rightarrow> ''undefined'')))"

fun stringify_events :: "(jsval \<Rightarrow> string) \<Rightarrow> span_event list \<Rightarrow> js_error + string list" where
  "stringify_events str [] = ok []"
| "stringify_events str (ev # evs) =
     try_then (stringify_event str ev) (\<lambda>t. try_then (stringify_events str evs) (\<lambda>ts. ok (t # ts)))"

definition stringifySpanEvents :: "(jsval \<Rightarrow> string) \<Rightarrow> span_event list \<Rightarrow> js_error + string" where
  "stringifySpanEvents str spanEvents =
     try_then (stringify_events str spanEvents) (\<lambda>ts. ok (''['' @ join '','' ts @ '']''))"

definition formatSpanWithLegacyEvents :: "(jsval \<Rightarrow> string) \<Rightarrow> formatted_span \<Rightarrow> js_error + formatted_span" where
  "formatSpanWithLegacyEvents str f =
     (let f = normalizeSpan f
      in case f_span_events f of
           Some evs \<Rightarrow> try_then (stringifySpanEvents str evs) (\<lambda>t. ok ((set_meta ''events'' t f)\<lparr>f_span_events := None\<rparr>))
         | None \<Rightarrow> ok f)"

subsection \<open>Tags\<close>

text \<open>The length is taken back when the guess that a number is small fails.\<close>

definition key_and_small :: "byte list \<Rightarrow> jsnum \<Rightarrow> unit enc" where
  "key_and_small keyEntry n =
     bind position (\<lambda>writeOffset.
       seq (emit (keyEntry @ [0]))
         (if is_fixint n
          then patch (writeOffset + length keyEntry) [case n of Fin r \<Rightarrow> byte_of \<lfloor>r\<rfloor> | _ \<Rightarrow> 0]
          else rewind (writeOffset + length keyEntry)))"

definition meta_entry :: "byte list \<Rightarrow> jsval \<Rightarrow> unit enc" where
  "meta_entry keyEntry entryValue =
     (case entryValue of
        JStr s \<Rightarrow>
          (if STRING_CACHE_BYPASS_LIMIT < length s
           then seq (emit keyEntry) (chunked (chunk_write s))
           else bind (cacheString s) (\<lambda>valueEntry. emit (keyEntry @ valueEntry)))
      | JNum n \<Rightarrow>
          seq (key_and_small keyEntry n) (if is_fixint n then ret () else chunked (writeIntOrFloat n))
      | _ \<Rightarrow> ret ())"

definition string_or_number :: "jsval \<Rightarrow> bool" where
  "string_or_number v = (case v of JStr _ \<Rightarrow> True | JNum _ \<Rightarrow> True | _ \<Rightarrow> False)"

fun meta_entries :: "(string \<times> jsval) list \<Rightarrow> nat \<Rightarrow> nat enc" where
  "meta_entries [] count = ret count"
| "meta_entries ((key, entryValue) # ps) count =
     (if string_or_number entryValue
      then bind (cacheString key) (\<lambda>keyEntry. seq (meta_entry keyEntry entryValue) (meta_entries ps (count + 1)))
      else meta_entries ps count)"

definition encodeMetaEntries :: "byte list \<Rightarrow> jsobj \<Rightarrow> unit enc" where
  "encodeMetaEntries keyPrefix value = counted keyPrefix (meta_entries value 0)"

text \<open>The older form, which other encoders inherit: numbers are always floats.\<close>

fun map_entries :: "(string \<times> jsval) list \<Rightarrow> nat \<Rightarrow> nat enc" where
  "map_entries [] count = ret count"
| "map_entries ((key, entryValue) # ps) count =
     (case entryValue of
        JStr s \<Rightarrow> seq (encodeString key) (seq (encodeString s) (map_entries ps (count + 1)))
      | JNum n \<Rightarrow> seq (encodeString key) (seq (chunked (writeFloat n)) (map_entries ps (count + 1)))
      | _ \<Rightarrow> map_entries ps count)"

definition encodeMap :: "jsobj \<Rightarrow> unit enc" where
  "encodeMap value = counted [0xDF] (map_entries value 0)"

subsection \<open>Structured tags\<close>

definition is_object :: "jsval \<Rightarrow> bool" where
  "is_object v = (case v of
      JArr xs \<Rightarrow> True | JObj ps \<Rightarrow> True | JErr m n st ps \<Rightarrow> True | JBuf bs \<Rightarrow> True | JUrl u \<Rightarrow> True
    | _ \<Rightarrow> False)"

definition in_map :: "jsval \<Rightarrow> bool" where
  "in_map v \<longleftrightarrow> string_or_number v \<or> is_object v \<or> (case v of JBool b \<Rightarrow> True | _ \<Rightarrow> False)"

definition in_array :: "jsval \<Rightarrow> bool" where
  "in_array v \<longleftrightarrow> string_or_number v \<or> is_object v"

definition byte_entries :: "byte list \<Rightarrow> jsobj" where
  "byte_entries bs = map (\<lambda>i. (show_nat i, JNum (int_num (uint (bs ! i))))) [0..<length bs]"

fun number_entries :: "(string \<times> jsval) list \<Rightarrow> nat \<Rightarrow> nat enc" where
  "number_entries [] count = ret count"
| "number_entries ((k, v) # ps) count =
     (case v of
        JNum n \<Rightarrow> seq (encodeString k) (seq (chunked (writeFloat n)) (number_entries ps (count + 1)))
      | _ \<Rightarrow> number_entries ps count)"

fun encodeObject :: "jsval \<Rightarrow> unit enc"
  and encodeObjectAsMap :: "(string \<times> jsval) list \<Rightarrow> nat \<Rightarrow> nat enc"
  and encodeObjectAsArray :: "jsval list \<Rightarrow> nat \<Rightarrow> nat enc"
where
  "encodeObject (JArr xs) = counted [0xDD] (encodeObjectAsArray xs 0)"
| "encodeObject (JObj ps) = counted [0xDF] (encodeObjectAsMap ps 0)"
| "encodeObject (JErr m n st ps) = counted [0xDF] (encodeObjectAsMap ps 0)"
| "encodeObject (JBuf bs) = counted [0xDF] (number_entries (byte_entries bs) 0)"
| "encodeObject (JUrl u) = counted [0xDF] (ret 0)"
| "encodeObject (JStr s) = encodeString s"
| "encodeObject (JNum n) = chunked (writeFloat n)"
| "encodeObject (JBool b) = chunked (writeBoolean b)"
| "encodeObject _ = ret ()"
| "encodeObjectAsMap [] count = ret count"
| "encodeObjectAsMap ((k, v) # ps) count =
     (if in_map v then seq (encodeString k) (seq (encodeObject v) (encodeObjectAsMap ps (count + 1)))
      else encodeObjectAsMap ps count)"
| "encodeObjectAsArray [] count = ret count"
| "encodeObjectAsArray (x # xs) count =
     (if in_array x then seq (encodeObject x) (encodeObjectAsArray xs (count + 1))
      else encodeObjectAsArray xs count)"

definition encodeObjectAsByteArray :: "jsval \<Rightarrow> unit enc" where
  "encodeObjectAsByteArray value =
     bind position (\<lambda>offset.
       bind (seq (emit [0, 0, 0, 0, 0]) (encodeObject value)) (\<lambda>_.
         bind position (\<lambda>now. patch offset (0xC6 # shifted4 (int (now - offset - 5))))))"

text \<open>\<open>Object.keys\<close> of a truthy value that is no array, with the values under the keys\<close>

definition own_entries :: "jsval \<Rightarrow> jsobj" where
  "own_entries v = (case v of
      JObj ps \<Rightarrow> ps
    | JErr m n st ps \<Rightarrow> ps
    | JBuf bs \<Rightarrow> byte_entries bs
    | JStr s \<Rightarrow> map (\<lambda>i. (show_nat i, JStr [s ! i])) [0..<length s]
    | _ \<Rightarrow> [])"

fun struct_entries :: "(string \<times> jsval) list \<Rightarrow> nat \<Rightarrow> nat enc" where
  "struct_entries [] count = ret count"
| "struct_entries ((k, v) # ps) count =
     (if in_array v
      then seq (encodeString k) (seq (encodeObjectAsByteArray v) (struct_entries ps (count + 1)))
      else struct_entries ps count)"

definition encodeMetaStruct :: "jsval \<Rightarrow> unit enc" where
  "encodeMetaStruct value =
     (case value of
        JArr xs \<Rightarrow> chunked (writeMapPrefix 0)
      | _ \<Rightarrow> counted [0xDF] (struct_entries (own_entries value) 0))"


subsection \<open>Span events\<close>

definition emitArrayItem :: "jsval \<Rightarrow> bool enc" where
  "emitArrayItem value =
     (case value of
        JStr s \<Rightarrow> seq (emit ATTR_PREFIX_STRING) (seq (encodeString s) (ret True))
      | JNum n \<Rightarrow>
          seq (emit (if is_int_num n then ATTR_PREFIX_INT else ATTR_PREFIX_DOUBLE))
            (seq (chunked (writeIntOrFloat n)) (ret True))
      | JBool b \<Rightarrow> seq (emit (if b then ATTR_PAYLOAD_BOOL_TRUE else ATTR_PAYLOAD_BOOL_FALSE)) (ret True)
      | _ \<Rightarrow> ret False)"

fun array_items :: "jsval list \<Rightarrow> nat \<Rightarrow> nat enc" where
  "array_items [] count = ret count"
| "array_items (x # xs) count =
     bind (emitArrayItem x) (\<lambda>b. array_items xs (if b then count + 1 else count))"

definition emitArrayAttribute :: "string \<Rightarrow> jsval list \<Rightarrow> bool enc" where
  "emitArrayAttribute key xs =
     optional_block (seq (encodeString key) (emit ATTR_PREFIX_ARRAY)) [] (array_items xs 0)"

definition emitAttribute :: "string \<Rightarrow> jsval \<Rightarrow> bool enc" where
  "emitAttribute key value =
     (case value of
        JStr s \<Rightarrow> seq (encodeString key) (seq (emit ATTR_PREFIX_STRING) (seq (encodeString s) (ret True)))
      | JNum n \<Rightarrow>
          seq (encodeString key)
            (seq (emit (if is_int_num n then ATTR_PREFIX_INT else ATTR_PREFIX_DOUBLE))
              (seq (chunked (writeIntOrFloat n)) (ret True)))
      | JBool b \<Rightarrow>
          seq (encodeString key)
            (seq (emit (if b then ATTR_PAYLOAD_BOOL_TRUE else ATTR_PAYLOAD_BOOL_FALSE)) (ret True))
      | JArr xs \<Rightarrow> emitArrayAttribute key xs
      | _ \<Rightarrow> ret False)"

fun attribute_entries :: "(string \<times> jsval) list \<Rightarrow> nat \<Rightarrow> nat enc" where
  "attribute_entries [] count = ret count"
| "attribute_entries ((k, v) # ps) count =
     bind (emitAttribute k v) (\<lambda>b. attribute_entries ps (if b then count + 1 else count))"

definition encodeAttributesIfAny :: "jsobj \<Rightarrow> bool enc" where
  "encodeAttributesIfAny attributes =
     optional_block (emit KEY_EVENT_ATTRIBUTES) [0xDF] (attribute_entries attributes 0)"

definition span_event_body :: "string \<Rightarrow> span_event \<Rightarrow> bool enc" where
  "span_event_body name event =
     seq (emit KEY_NAME)
       (seq (encodeString name)
         (seq (emit KEY_EVENT_TIME)
           (seq (chunked (writeFloat (eventTimeNano event)))
             (case ev_attributes event of
                Some attributes \<Rightarrow> encodeAttributesIfAny attributes
              | None \<Rightarrow> ret False))))"

fun event_items :: "span_event list \<Rightarrow> nat \<Rightarrow> nat enc" where
  "event_items [] count = ret count"
| "event_items (event # evs) count =
     (case ev_name event of
        JStr name \<Rightarrow> seq (with_header 0x82 0x83 (span_event_body name event)) (event_items evs (count + 1))
      | _ \<Rightarrow> event_items evs count)"

definition encodeSpanEvents :: "span_event list \<Rightarrow> unit enc" where
  "encodeSpanEvents spanEvents = counted [0xDD] (event_items spanEvents 0)"

subsection \<open>Spans\<close>

text \<open>The last eight bytes of the buffer; a byte in front of its start is \<open>undefined\<close>, written as 0.\<close>

definition id_tail :: "ident \<Rightarrow> byte list" where
  "id_tail idBuffer =
     (let start = int (length idBuffer) - 8
      in map (\<lambda>i. if start + int i < 0 then 0 else idBuffer ! nat (start + int i)) [0..<8])"

definition encodeId :: "ident \<Rightarrow> unit enc" where
  "encodeId identifier = emit (0xCF # id_tail identifier)"

definition has_text :: "string option \<Rightarrow> bool" where
  "has_text s \<longleftrightarrow> (case s of Some t \<Rightarrow> t \<noteq> [] | None \<Rightarrow> False)"

definition map_size :: "formatted_span \<Rightarrow> nat" where
  "map_size f =
     11 + (if has_text (f_type f) then 1 else 0) + (if truthy (f_meta_struct f) then 1 else 0) +
     (if f_span_events f \<noteq> None then 1 else 0)"

text \<open>
  The block of the fixed fields. \<open>errorEntry\<close> is there for a flag of 0 or 1; for a start of
  \<open>2 ^ 32\<close> or more the block goes on to the key of the duration.
\<close>

definition error_entry :: "formatted_span \<Rightarrow> byte list option" where
  "error_entry f = (if f_error f = 0 then Some KEY_ERROR_0 else if f_error f = 1 then Some KEY_ERROR_1 else None)"

definition fuse_tail :: "formatted_span \<Rightarrow> bool" where
  "fuse_tail f \<longleftrightarrow> error_entry f \<noteq> None \<and> 0x100000000 \<le> f_start f"

definition fused_part :: "formatted_span \<Rightarrow> byte list" where
  "fused_part f =
     (case error_entry f of
        Some errorEntry \<Rightarrow>
          (if fuse_tail f
           then errorEntry @ KEY_START_PREFIX @ be_bytes 4 (to_uint32 (f_start f div 0x100000000)) @
             be_bytes 4 (to_uint32 (f_start f)) @ KEY_DURATION
           else [])
      | None \<Rightarrow> [])"

definition span_block ::
  "formatted_span \<Rightarrow> ident \<Rightarrow> byte list option \<Rightarrow> byte list \<Rightarrow> byte list \<Rightarrow> byte list \<Rightarrow> byte list" where
  "span_block f span_id typeEntry nameEntry resourceEntry serviceEntry =
     byte_of (0x80 + int (map_size f)) #
     (case typeEntry of Some entry \<Rightarrow> KEY_TYPE @ entry | None \<Rightarrow> []) @
     KEY_TRACE_ID_PREFIX @ id_tail (f_trace_id f) @
     KEY_SPAN_ID_PREFIX @ id_tail span_id @
     KEY_PARENT_ID_PREFIX @ id_tail (f_parent_id f) @
     KEY_NAME @ nameEntry @ KEY_RESOURCE @ resourceEntry @ KEY_SERVICE @ serviceEntry @
     fused_part f"

definition span_tail :: "formatted_span \<Rightarrow> unit enc" where
  "span_tail f =
     (if fuse_tail f then ret ()
      else case error_entry f of
        Some errorEntry \<Rightarrow>
          seq (emit errorEntry)
            (seq (emit KEY_START) (seq (chunked (writeIntOrFloat (int_num (f_start f)))) (emit KEY_DURATION)))
      | None \<Rightarrow>
          seq (emit KEY_ERROR)
            (seq (chunked (writeIntOrFloat (int_num (f_error f))))
              (seq (emit KEY_START)
                (seq (chunked (writeIntOrFloat (int_num (f_start f)))) (emit KEY_DURATION)))))"

definition text_tags :: "string obj \<Rightarrow> jsobj" where
  "text_tags m = map (\<lambda>(k, v). (k, JStr v)) m"

definition span_rest :: "formatted_span \<Rightarrow> unit enc" where
  "span_rest f =
     seq (span_tail f)
       (seq (chunked (writeIntOrFloat (f_duration f)))
         (seq (encodeMetaEntries KEY_META_PREFIX (text_tags (f_meta f)))
           (seq (encodeMetaEntries KEY_METRICS_PREFIX (f_metrics f))
             (seq (case f_span_events f of
                     Some evs \<Rightarrow> seq (emit KEY_SPAN_EVENTS) (encodeSpanEvents evs)
                   | None \<Rightarrow> ret ())
               (if truthy (f_meta_struct f)
                then seq (emit KEY_META_STRUCT) (encodeMetaStruct (f_meta_struct f))
                else ret ())))))"

text \<open>
  One turn of the loop of \<open>_encode\<close>. The service is there after formatting. A span without an
  identifier of its own fails in the middle of the reserved block.
\<close>

definition encode_span :: "formatted_span \<Rightarrow> unit enc" where
  "encode_span f =
     bind (case f_type f of
             Some t \<Rightarrow> if t \<noteq> [] then bind (cacheString t) (\<lambda>entry. ret (Some entry)) else ret None
           | None \<Rightarrow> ret None) (\<lambda>typeEntry.
     bind (cacheString (f_name f)) (\<lambda>nameEntry.
     bind (cacheString (f_resource f)) (\<lambda>resourceEntry.
     bind (cacheString (case f_service f of Some s \<Rightarrow> s | None \<Rightarrow> ''undefined'')) (\<lambda>serviceEntry.
       case f_span_id f of
         Some span_id \<Rightarrow>
           seq (emit (span_block f span_id typeEntry nameEntry resourceEntry serviceEntry)) (span_rest f)
       | None \<Rightarrow>
           seq (emit (replicate (length (span_block f zeroId typeEntry nameEntry resourceEntry serviceEntry)) 0))
             (raise TypeError)))))"

subsection \<open>Traces and payloads\<close>

definition format_for :: "(jsval \<Rightarrow> string) \<Rightarrow> bool \<Rightarrow> formatted_span \<Rightarrow> js_error + formatted_span" where
  "format_for str native f = (if native then ok (normalizeSpan f) else formatSpanWithLegacyEvents str f)"

fun encode_spans :: "(jsval \<Rightarrow> string) \<Rightarrow> bool \<Rightarrow> formatted_span list \<Rightarrow> unit enc" where
  "encode_spans str native [] = ret ()"
| "encode_spans str native (f # fs) =
     bind (of_sum (format_for str native f)) (\<lambda>span. seq (encode_span span) (encode_spans str native fs))"

definition encode_trace :: "(jsval \<Rightarrow> string) \<Rightarrow> formatted_span list \<Rightarrow> unit enc" where
  "encode_trace str trace e =
     seq (chunked (writeArrayPrefix (length trace))) (encode_spans str (e_native e) trace) e"

definition enc_reset :: "unit enc" where
  "enc_reset e =
     bind (cacheString []) (\<lambda>_. ret ())
       (e\<lparr>e_count := 0, e_bytes := chunk_reset (e_bytes e), e_stringCount := 0,
          e_strings := chunk_reset (e_strings e), e_map := []\<rparr>)"

definition SOFT_LIMIT :: nat where "SOFT_LIMIT = 8 * 1024 * 1024"

definition new_AgentEncoder :: "nat \<Rightarrow> bool \<Rightarrow> unit result" where
  "new_AgentEncoder limit native =
     enc_reset \<lparr>e_limit = limit, e_native = native, e_count = 0, e_bytes = new_chunk DEFAULT_MIN_SIZE,
       e_stringCount = 0, e_strings = new_chunk DEFAULT_MIN_SIZE, e_map = []\<rparr>"

text \<open>The value tells the writer to flush: one of the buffers is over the soft limit.\<close>

definition encode :: "(jsval \<Rightarrow> string) \<Rightarrow> formatted_span list \<Rightarrow> bool enc" where
  "encode str trace e =
     (case encode_trace str trace (e\<lparr>e_count := e_count e + 1\<rparr>) of
        Returns _ e' \<Rightarrow>
          Returns (e_limit e' < length (ck_used (e_bytes e')) \<or> e_limit e' < length (ck_used (e_strings e'))) e'
      | Throws er e' \<Rightarrow> if er = OverflowError then seq enc_reset (ret False) e' else Throws er e'
      | Runs_on \<Rightarrow> Runs_on)"

definition writeTraces :: "encoder \<Rightarrow> byte list" where
  "writeTraces e = (0xDD # be_bytes 4 (int (e_count e))) @ ck_used (e_bytes e)"

definition makePayload :: "byte list enc" where
  "makePayload e = seq enc_reset (ret (writeTraces e)) e"

end
