(* ===== verification/AgentWire.thy ===== *)
theory AgentWire
  imports AgentEncoder "HOL-Library.Sublist"
begin

text \<open>
  What the encoder of version 0.4 sends, as values of the format: \<open>span_mp\<close> is the map of a
  span, \<open>trace_mp\<close> the array of a trace. \<open>sends f a vs\<close> says of a writer that it returns \<open>a\<close> and
  that what it appends represents the values \<open>vs\<close>, unless the cap is exceeded. Each writer of
  the encoder has one rule; the payload of a run of \<open>encode\<close> is read back as the traces.
\<close>

definition sends :: "'a enc \<Rightarrow> 'a \<Rightarrow> mp list \<Rightarrow> bool" where
  "sends f a vs \<longleftrightarrow> (\<exists>bs. writes_out f a bs \<and> (length bs \<le> MAX_SIZE \<longrightarrow> wires vs bs))"

named_theorems sends_rules \<open>what the writers of the encoder send\<close>

lemma sends_ret [sends_rules]: "sends (ret a) a []"
  unfolding sends_def by (intro exI [of _ "[]"] conjI impI writes_out_ret ws_nil)

lemma sends_bind:
  assumes "sends f a vs" "sends (g a) b ws"
  shows "sends (bind f g) b (vs @ ws)"
proof -
  obtain bs cs where "writes_out f a bs" "length bs \<le> MAX_SIZE \<longrightarrow> wires vs bs"
    "writes_out (g a) b cs" "length cs \<le> MAX_SIZE \<longrightarrow> wires ws cs"
    using assms unfolding sends_def by blast
  then show ?thesis unfolding sends_def
    by (intro exI [of _ "bs @ cs"] conjI writes_out_bind impI wires_append) simp_all
qed

lemma sends_seq: "sends f () vs \<Longrightarrow> sends g b ws \<Longrightarrow> sends (seq f g) b (vs @ ws)"
  unfolding seq_def by (rule sends_bind)

lemma sends_emit: "(length bs \<le> MAX_SIZE \<Longrightarrow> wires vs bs) \<Longrightarrow> sends (emit bs) () vs"
  unfolding sends_def using writes_out_emit by blast

lemma wires_one: "wire v bs \<Longrightarrow> wires [v] bs"
  using ws_cons [OF _ ws_nil] by fastforce

lemma sends_chunked: "writes f bs \<Longrightarrow> (length bs \<le> MAX_SIZE \<Longrightarrow> wire v bs) \<Longrightarrow> sends (chunked f) () [v]"
  unfolding sends_def using writes_out_chunked wires_one by blast

lemma sends_entry [sends_rules]: "sends (cacheString s) (string_bytes s) []"
  unfolding sends_def by (intro exI [of _ "[]"] conjI impI writes_out_cacheString ws_nil)

lemma sends_string [sends_rules]: "sends (encodeString s) () [MStr s]"
  unfolding sends_def using writes_out_encodeString wires_one wire_string by blast

lemma sends_write [sends_rules]: "sends (chunked (chunk_write s)) () [MStr s]"
  by (rule sends_chunked [OF writes_string wire_string])

lemma sends_float [sends_rules]: "is_js_number n \<Longrightarrow> sends (chunked (writeFloat n)) () [MFloat n]"
  by (rule sends_chunked [OF writes_simple(9)]) (rule w_float)

lemma sends_number [sends_rules]: "sendable n \<Longrightarrow> sends (chunked (writeIntOrFloat n)) () [mp_num n]"
  by (rule sends_chunked [OF writes_int_or_float]) (rule wire_number)

lemma mp_num_int [simp]: "mp_num (int_num i) = MInt (int64 i)"
  by (simp add: mp_num_def int_num_def)

lemma sends_integer [sends_rules]: "sends (chunked (writeIntOrFloat (int_num i))) () [MInt (int64 i)]"
proof (rule sends_chunked [OF writes_int_or_float])
  show "wire (MInt (int64 i)) (int_or_float_bytes (int_num i))"
    using wire_unsigned [of i] wire_signed [of i] by (simp add: int_or_float_bytes_def int_num_def)
qed

lemma sends_boolean [sends_rules]: "sends (chunked (writeBoolean b)) () [MBool b]"
  by (rule sends_chunked [OF writes_simple(2)]) (rule w_bool)

text \<open>Bytes in front that only become a value with what follows\<close>

lemma sends_prefixed:
  assumes "sends g a vs" "\<And>bs. wires vs bs \<Longrightarrow> length bs \<le> MAX_SIZE \<Longrightarrow> wires ws (pre @ bs)"
  shows "sends (seq (emit pre) g) a ws"
proof -
  obtain bs where "writes_out g a bs" "length bs \<le> MAX_SIZE \<longrightarrow> wires vs bs"
    using assms(1) unfolding sends_def by blast
  then show ?thesis unfolding sends_def
    using assms(2) by (intro exI [of _ "pre @ bs"] conjI writes_out_seq [OF writes_out_emit] impI) simp_all
qed

lemma sends_counted:
  assumes "sends loop n vs"
    and "\<And>bs. wires vs bs \<Longrightarrow> length bs \<le> MAX_SIZE \<Longrightarrow> wires ws (pre @ be_bytes 4 (int n) @ bs)"
  shows "sends (counted pre loop) () ws"
proof -
  obtain bs where "writes_out loop n bs" "length bs \<le> MAX_SIZE \<longrightarrow> wires vs bs"
    using assms(1) unfolding sends_def by blast
  then show ?thesis unfolding sends_def
    using assms(2) by (intro exI [of _ "pre @ be_bytes 4 (int n) @ bs"] conjI writes_out_counted impI) simp_all
qed

lemma short_list: "wires vs bs \<Longrightarrow> length bs \<le> MAX_SIZE \<Longrightarrow> length vs < 2 ^ 32"
  using wires_length [of vs bs] by (simp add: MAX_SIZE_def)

lemma wire_map: "wires (flat kvs) bs \<Longrightarrow> length bs \<le> MAX_SIZE \<Longrightarrow> wire (MMap kvs) (0xDF # be_bytes 4 (int (length kvs)) @ bs)"
  using w_map32 [of kvs bs] short_list [of "flat kvs" bs] by simp

lemma wire_array: "wires vs bs \<Longrightarrow> length bs \<le> MAX_SIZE \<Longrightarrow> wire (MArr vs) (0xDD # be_bytes 4 (int (length vs)) @ bs)"
  using w_arr32 [of vs bs] short_list [of vs bs] by simp

lemma sends_counted_map [sends_rules]:
  "sends loop (length kvs) (flat kvs) \<Longrightarrow> sends (counted [0xDF] loop) () [MMap kvs]"
  by (erule sends_counted) (use wire_map wires_one in fastforce)

lemma sends_counted_array [sends_rules]:
  "sends loop (length vs) vs \<Longrightarrow> sends (counted [0xDD] loop) () [MArr vs]"
  by (erule sends_counted) (use wire_array wires_one in fastforce)

subsection \<open>Keys\<close>

lemma length_utf8: "length (utf8_bytes s) \<le> 2 * length s"
  by (induction s) (auto simp: utf8_bytes_def utf8_char_def Let_def)

lemma wire_key: "length k < 16 \<Longrightarrow> wire (MStr k) (buildKey k)"
  using length_utf8 [of k] w_fixstr [of k] by (simp add: buildKey_def fixstr_or)

lemmas key_defs = KEY_TYPE_def KEY_NAME_def KEY_RESOURCE_def KEY_SERVICE_def KEY_ERROR_def KEY_START_def
  KEY_DURATION_def KEY_SPAN_EVENTS_def KEY_META_STRUCT_def KEY_EVENT_TIME_def KEY_EVENT_ATTRIBUTES_def

lemma key_wires:
  "wire (MStr ''type'') KEY_TYPE" "wire (MStr ''name'') KEY_NAME" "wire (MStr ''resource'') KEY_RESOURCE"
  "wire (MStr ''service'') KEY_SERVICE" "wire (MStr ''error'') KEY_ERROR" "wire (MStr ''start'') KEY_START"
  "wire (MStr ''duration'') KEY_DURATION" "wire (MStr ''span_events'') KEY_SPAN_EVENTS"
  "wire (MStr ''meta_struct'') KEY_META_STRUCT" "wire (MStr ''time_unix_nano'') KEY_EVENT_TIME"
  "wire (MStr ''attributes'') KEY_EVENT_ATTRIBUTES"
  unfolding key_defs by (rule wire_key; simp)+

lemma sends_key: "wire (MStr k) bs \<Longrightarrow> sends (emit bs) () [MStr k]"
  by (rule sends_emit) (rule wires_one)


lemma wires_Cons: "wire v a \<Longrightarrow> wires vs b \<Longrightarrow> wires (v # vs) (a @ b)"
  by (rule ws_cons)

lemma flat_simps [simp]: "flat [] = []" "flat ((k, v) # kvs) = k # v # flat kvs" "flat (xs @ ys) = flat xs @ flat ys"
  by (simp_all add: flat_def)

inductive_simps wires_Cons_iff: "wires (v # vs) bs"

inductive_simps wires_Nil_iff [simp]: "wires [] bs"

text \<open>The typed wrapper of an attribute\<close>

definition typed_mp :: "int \<Rightarrow> string \<Rightarrow> mp \<Rightarrow> mp" where
  "typed_mp t key v = MMap [(MStr ''type'', MInt t), (MStr key, v)]"

lemma wire_typed:
  assumes "wire v bs" "length key < 16" "0 \<le> t" "t < 128"
  shows "wire (typed_mp t key v) (buildAttrPrefix (byte_of t) key @ bs)"
proof -
  have "buildKey ''type'' = [0xA4, 0x74, 0x79, 0x70, 0x65]"
    by (simp add: buildKey_def utf8_bytes_def utf8_char_def byte_of_def fixstr_or)
  then have "buildAttrPrefix (byte_of t) key @ bs =
      byte_of (0x80 + int (length [(MStr ''type'', MInt t), (MStr key, v)])) # buildKey ''type'' @ [byte_of t] @ buildKey key @ bs"
    by (simp add: buildAttrPrefix_def byte_of_def)
  moreover have "wires (flat [(MStr ''type'', MInt t), (MStr key, v)]) (buildKey ''type'' @ [byte_of t] @ buildKey key @ bs)"
    unfolding flat_simps using assms
    by (intro wires_Cons wire_key w_fix wires_one) simp_all
  ultimately show ?thesis
    unfolding typed_mp_def using w_fixmap [of "[(MStr ''type'', MInt t), (MStr key, v)]"] by simp
qed

lemma wire_typed_tags:
  "wire v bs \<Longrightarrow> wire (typed_mp 0 ''string_value'' v) (ATTR_PREFIX_STRING @ bs)"
  "wire v bs \<Longrightarrow> wire (typed_mp 2 ''int_value'' v) (ATTR_PREFIX_INT @ bs)"
  "wire v bs \<Longrightarrow> wire (typed_mp 3 ''double_value'' v) (ATTR_PREFIX_DOUBLE @ bs)"
  "wire (typed_mp 1 ''bool_value'' (MBool True)) ATTR_PAYLOAD_BOOL_TRUE"
  "wire (typed_mp 1 ''bool_value'' (MBool False)) ATTR_PAYLOAD_BOOL_FALSE"
  using wire_typed [of v bs "''string_value''" 0] wire_typed [of v bs "''int_value''" 2]
    wire_typed [of v bs "''double_value''" 3] wire_typed [of "MBool True" "[0xC3]" "''bool_value''" 1]
    wire_typed [of "MBool False" "[0xC2]" "''bool_value''" 1] w_bool [of True] w_bool [of False]
  by (simp_all add: ATTR_PREFIX_STRING_def ATTR_PREFIX_INT_def ATTR_PREFIX_DOUBLE_def ATTR_PREFIX_BOOL_def
      ATTR_PAYLOAD_BOOL_TRUE_def ATTR_PAYLOAD_BOOL_FALSE_def byte_of_def)

subsection \<open>Attributes of events\<close>

definition item_mp :: "jsval \<Rightarrow> mp option" where
  "item_mp v = (case v of
      JStr s \<Rightarrow> Some (typed_mp 0 ''string_value'' (MStr s))
    | JNum n \<Rightarrow> Some (if is_int_num n then typed_mp 2 ''int_value'' (mp_num n) else typed_mp 3 ''double_value'' (mp_num n))
    | JBool b \<Rightarrow> Some (typed_mp 1 ''bool_value'' (MBool b))
    | _ \<Rightarrow> None)"

definition attr_mp :: "jsval \<Rightarrow> mp option" where
  "attr_mp v = (case v of
      JArr xs \<Rightarrow>
        (let items = List.map_filter item_mp xs
         in if items = [] then None
            else Some (typed_mp 4 ''array_value'' (MMap [(MStr ''values'', MArr items)])))
    | _ \<Rightarrow> item_mp v)"

definition attrs_mp :: "jsobj \<Rightarrow> (mp \<times> mp) list" where
  "attrs_mp ps = List.map_filter (\<lambda>(k, v). map_option (Pair (MStr k)) (attr_mp v)) ps"

lemma sends_value_of:
  assumes "sends g () [v]" "\<And>bs. wire v bs \<Longrightarrow> wire w (pre @ bs)"
  shows "sends (seq (emit pre) (seq g (ret True))) True [w]"
proof -
  have "sends (seq g (ret True)) True ([v] @ [])" by (rule sends_seq [OF assms(1) sends_ret])
  then show ?thesis
    by (rule sends_prefixed) (use assms(2) wires_one in \<open>auto simp: wires_Cons_iff\<close>)
qed

lemma sends_done: "(wire w bs) \<Longrightarrow> sends (seq (emit bs) (ret True)) True [w]"
  using sends_seq [OF sends_emit sends_ret, of bs "[w]" True] wires_one by auto

text \<open>The typed wrapper alone, as an item of an array or behind its key\<close>

lemma sends_item:
  assumes "doubles_only x"
  shows "sends (emitArrayItem x) (item_mp x \<noteq> None) (case item_mp x of Some m \<Rightarrow> [m] | None \<Rightarrow> [])"
proof (cases x)
  case (JStr s)
  then show ?thesis using sends_value_of [OF sends_string wire_typed_tags(1)]
    by (simp add: emitArrayItem_def item_mp_def)
next
  case (JNum n)
  then have "sends (chunked (writeIntOrFloat n)) () [mp_num n]" using assms by (intro sends_number) (simp add: sendable_def)
  from sends_value_of [OF this wire_typed_tags(2)] sends_value_of [OF this wire_typed_tags(3)]
  show ?thesis using JNum by (simp add: emitArrayItem_def item_mp_def)
next
  case (JBool b)
  then show ?thesis using sends_done [OF wire_typed_tags(4)] sends_done [OF wire_typed_tags(5)]
    by (simp add: emitArrayItem_def item_mp_def)
qed (simp_all add: emitArrayItem_def item_mp_def sends_ret)

lemma map_filter_Cons: "List.map_filter f (x # xs) = (case f x of Some y \<Rightarrow> y # List.map_filter f xs | None \<Rightarrow> List.map_filter f xs)"
  by (simp add: List.map_filter_def split: option.split)

lemma map_filter_Nil [simp]: "List.map_filter f [] = []"
  by (simp add: List.map_filter_def)

lemma sends_items:
  "doubles_items xs \<Longrightarrow>
     sends (array_items xs n) (n + length (List.map_filter item_mp xs)) (List.map_filter item_mp xs)"
proof (induction xs arbitrary: n)
  case Nil
  then show ?case by (simp add: sends_ret)
next
  case (Cons x xs)
  have "sends (array_items xs m) (m + length (List.map_filter item_mp xs)) (List.map_filter item_mp xs)" for m
    using Cons by simp
  moreover have "doubles_only x" using Cons.prems by simp
  ultimately show ?case
    using sends_bind [OF sends_item, of x "\<lambda>b. array_items xs (if b then n + 1 else n)"]
    by (cases "item_mp x") (fastforce simp: map_filter_Cons)+
qed

lemma sends_optional_block:
  assumes "writes_out head () h" "sends loop n vs"
    and "\<And>bs. length h \<le> MAX_SIZE \<Longrightarrow> wires vs bs \<Longrightarrow> length bs \<le> MAX_SIZE \<Longrightarrow>
      wires ws (h @ pre @ be_bytes 4 (int n) @ bs)"
  shows "sends (optional_block head pre loop) (n \<noteq> 0) (if n = 0 then [] else ws)"
proof -
  obtain bs where "writes_out loop n bs" "length bs \<le> MAX_SIZE \<longrightarrow> wires vs bs"
    using assms(2) unfolding sends_def by blast
  then show ?thesis unfolding sends_def
    using assms(1,3)
    by (intro exI [of _ "if n = 0 then [] else h @ pre @ be_bytes 4 (int n) @ bs"] conjI
        writes_out_optional_block impI) auto
qed

lemma wire_array_wrapper:
  assumes "wires vs bs" "length bs \<le> MAX_SIZE"
  shows "wire (typed_mp 4 ''array_value'' (MMap [(MStr ''values'', MArr vs)]))
    (ATTR_PREFIX_ARRAY @ be_bytes 4 (int (length vs)) @ bs)"
proof -
  have "wires (flat [(MStr ''values'', MArr vs)]) (buildKey ''values'' @ 0xDD # be_bytes 4 (int (length vs)) @ bs)"
    unfolding flat_simps using wire_array [OF assms]
    by (intro wires_Cons wire_key wires_one) (simp_all del: be_bytes.simps)
  then have "wire (MMap [(MStr ''values'', MArr vs)])
      (0x81 # buildKey ''values'' @ 0xDD # be_bytes 4 (int (length vs)) @ bs)"
    using w_fixmap [of "[(MStr ''values'', MArr vs)]"] by (simp add: byte_of_def del: be_bytes.simps)
  from wire_typed [OF this, of "''array_value''" 4] show ?thesis
    by (simp add: ATTR_PREFIX_ARRAY_def byte_of_def del: be_bytes.simps)
qed

lemma sends_array_attribute:
  assumes "doubles_items xs"
  shows "sends (emitArrayAttribute key xs) (attr_mp (JArr xs) \<noteq> None)
    (case attr_mp (JArr xs) of Some m \<Rightarrow> [MStr key, m] | None \<Rightarrow> [])"
proof -
  let ?items = "List.map_filter item_mp xs"
  let ?m = "typed_mp 4 ''array_value'' (MMap [(MStr ''values'', MArr ?items)])"
  have "sends (optional_block (seq (encodeString key) (emit ATTR_PREFIX_ARRAY)) [] (array_items xs 0))
      (length ?items \<noteq> 0) (if length ?items = 0 then [] else [MStr key, ?m])"
  proof (rule sends_optional_block)
    show "writes_out (seq (encodeString key) (emit ATTR_PREFIX_ARRAY)) () (string_bytes key @ ATTR_PREFIX_ARRAY)"
      by (rule writes_out_seq [OF writes_out_encodeString writes_out_emit])
    show "sends (array_items xs 0) (length ?items) ?items"
      using sends_items [OF assms, of 0] by simp
    fix bs assume "length (string_bytes key @ ATTR_PREFIX_ARRAY) \<le> MAX_SIZE" "wires ?items bs" "length bs \<le> MAX_SIZE"
    then show "wires [MStr key, ?m] ((string_bytes key @ ATTR_PREFIX_ARRAY) @ [] @ be_bytes 4 (int (length ?items)) @ bs)"
      unfolding append_Nil append_assoc
      by (intro wires_Cons wire_string wires_one wire_array_wrapper) simp_all
  qed
  then show ?thesis by (cases "?items = []") (simp_all add: emitArrayAttribute_def attr_mp_def Let_def)
qed

lemma sends_keyed: "sends g b vs \<Longrightarrow> sends (seq (encodeString key) g) b (MStr key # vs)"
  using sends_seq [OF sends_string] by fastforce

lemma sends_attribute:
  assumes "doubles_only v"
  shows "sends (emitAttribute key v) (attr_mp v \<noteq> None) (case attr_mp v of Some m \<Rightarrow> [MStr key, m] | None \<Rightarrow> [])"
proof -
  have "emitAttribute key v = (case v of
      JArr xs \<Rightarrow> emitArrayAttribute key xs
    | _ \<Rightarrow> if item_mp v \<noteq> None then seq (encodeString key) (emitArrayItem v) else ret False)"
    by (cases v) (simp_all add: emitAttribute_def emitArrayItem_def item_mp_def)
  then show ?thesis
    using sends_array_attribute [of _ key] sends_keyed [OF sends_item [OF assms], of key] assms sends_ret [of False]
    by (cases v) (auto simp: attr_mp_def item_mp_def split: jsval.splits)
qed

lemma attrs_mp_simps [simp]:
  "attrs_mp [] = []"
  "attrs_mp ((k, v) # ps) = (case attr_mp v of Some m \<Rightarrow> (MStr k, m) # attrs_mp ps | None \<Rightarrow> attrs_mp ps)"
  by (simp_all add: attrs_mp_def map_filter_Cons split: option.split)

lemma sends_attributes:
  "doubles_entries ps \<Longrightarrow> sends (attribute_entries ps n) (n + length (attrs_mp ps)) (flat (attrs_mp ps))"
proof (induction ps arbitrary: n)
  case Nil
  then show ?case by (simp add: sends_ret)
next
  case (Cons p ps)
  obtain k v where p: "p = (k, v)" by (cases p)
  have "sends (attribute_entries ps m) (m + length (attrs_mp ps)) (flat (attrs_mp ps))" for m
    using Cons p by simp
  moreover have "doubles_only v" using Cons.prems p by simp
  ultimately show ?case
    using sends_bind [OF sends_attribute, of v "\<lambda>b. attribute_entries ps (if b then n + 1 else n)"] p
    by (cases "attr_mp v") fastforce+
qed

lemma sends_attributes_if_any:
  assumes "doubles_entries ps"
  shows "sends (encodeAttributesIfAny ps) (attrs_mp ps \<noteq> [])
    (if attrs_mp ps = [] then [] else [MStr ''attributes'', MMap (attrs_mp ps)])"
proof -
  have "sends (optional_block (emit KEY_EVENT_ATTRIBUTES) [0xDF] (attribute_entries ps 0))
      (length (attrs_mp ps) \<noteq> 0)
      (if length (attrs_mp ps) = 0 then [] else [MStr ''attributes'', MMap (attrs_mp ps)])"
  proof (rule sends_optional_block [OF writes_out_emit])
    show "sends (attribute_entries ps 0) (length (attrs_mp ps)) (flat (attrs_mp ps))"
      using sends_attributes [OF assms, of 0] by simp
    fix bs assume "wires (flat (attrs_mp ps)) bs" "length bs \<le> MAX_SIZE"
    then show "wires [MStr ''attributes'', MMap (attrs_mp ps)]
        (KEY_EVENT_ATTRIBUTES @ [0xDF] @ be_bytes 4 (int (length (attrs_mp ps))) @ bs)"
      using wire_map by (intro wires_Cons key_wires wires_one) (simp_all del: be_bytes.simps)
  qed
  then show ?thesis by (simp add: encodeAttributesIfAny_def)
qed


subsection \<open>Events\<close>

definition event_entries :: "string \<Rightarrow> span_event \<Rightarrow> (mp \<times> mp) list" where
  "event_entries name ev =
     [(MStr ''name'', MStr name), (MStr ''time_unix_nano'', MFloat (eventTimeNano ev))] @
     (case ev_attributes ev of
        Some ps \<Rightarrow> if attrs_mp ps = [] then [] else [(MStr ''attributes'', MMap (attrs_mp ps))]
      | None \<Rightarrow> [])"

definition event_mp :: "span_event \<Rightarrow> mp option" where
  "event_mp ev = (case ev_name ev of JStr name \<Rightarrow> Some (MMap (event_entries name ev)) | _ \<Rightarrow> None)"

definition event_ok :: "span_event \<Rightarrow> bool" where
  "event_ok ev \<longleftrightarrow> is_js_number (eventTimeNano ev) \<and> pred_option doubles_entries (ev_attributes ev)"

lemma sends_event_body:
  assumes "event_ok ev"
  shows "sends (span_event_body name ev) (length (event_entries name ev) = 3) (flat (event_entries name ev))"
proof -
  let ?attrs = "case ev_attributes ev of Some ps \<Rightarrow> encodeAttributesIfAny ps | None \<Rightarrow> ret False"
  have "sends ?attrs (length (event_entries name ev) = 3) (flat (drop 2 (event_entries name ev)))"
    using assms sends_attributes_if_any sends_ret [of False]
    by (cases "ev_attributes ev") (fastforce simp: event_entries_def event_ok_def)+
  moreover have "sends (chunked (writeFloat (eventTimeNano ev))) () [MFloat (eventTimeNano ev)]"
    using assms by (intro sends_float) (simp add: event_ok_def)
  ultimately have "sends (span_event_body name ev) (length (event_entries name ev) = 3)
      ([MStr ''name''] @ [MStr name] @ [MStr ''time_unix_nano''] @ [MFloat (eventTimeNano ev)] @
       flat (drop 2 (event_entries name ev)))"
    unfolding span_event_body_def by (intro sends_seq sends_key key_wires sends_string)
  then show ?thesis by (simp add: event_entries_def)
qed

lemma sends_with_header:
  assumes "sends body b (flat kvs)" "length kvs < 16"
    "(if b then h' else h) = byte_of (0x80 + int (length kvs))"
  shows "sends (with_header h h' body) () [MMap kvs]"
proof -
  obtain bs where "writes_out body b bs" "length bs \<le> MAX_SIZE \<longrightarrow> wires (flat kvs) bs"
    using assms(1) unfolding sends_def by blast
  then show ?thesis unfolding sends_def
    using assms(2,3) w_fixmap [of kvs bs] wires_one
    by (intro exI [of _ "(if b then h' else h) # bs"] conjI writes_out_with_header impI) auto
qed

lemma sends_event:
  assumes "event_ok ev"
  shows "sends (with_header 0x82 0x83 (span_event_body name ev)) () [MMap (event_entries name ev)]"
proof (rule sends_with_header [OF sends_event_body [OF assms]])
  have "length (event_entries name ev) = 2 \<or> length (event_entries name ev) = 3"
    by (simp add: event_entries_def split: option.split)
  then show "length (event_entries name ev) < 16"
    "(if length (event_entries name ev) = 3 then 0x83 else 0x82) = byte_of (0x80 + int (length (event_entries name ev)))"
    by (auto simp: byte_of_def)
qed

lemma sends_events:
  "list_all event_ok evs \<Longrightarrow>
     sends (event_items evs n) (n + length (List.map_filter event_mp evs)) (List.map_filter event_mp evs)"
proof (induction evs arbitrary: n)
  case Nil
  then show ?case by (simp add: sends_ret)
next
  case (Cons ev evs)
  have IH: "sends (event_items evs m) (m + length (List.map_filter event_mp evs)) (List.map_filter event_mp evs)" for m
    using Cons by simp
  have "sends (seq (with_header 0x82 0x83 (span_event_body name ev)) (event_items evs (n + 1)))
      (n + 1 + length (List.map_filter event_mp evs)) ([MMap (event_entries name ev)] @ List.map_filter event_mp evs)" for name
    using Cons.prems by (intro sends_seq sends_event IH) simp
  then show ?case
    using IH [of n] by (auto simp: event_mp_def [of ev] map_filter_Cons split: jsval.split)
qed

lemma sends_span_events:
  assumes "list_all event_ok evs"
  shows "sends (encodeSpanEvents evs) () [MArr (List.map_filter event_mp evs)]"
  using sends_events [OF assms, of 0] unfolding encodeSpanEvents_def by (intro sends_counted_array) simp

subsection \<open>Tags\<close>

definition tag_mp :: "jsval \<Rightarrow> mp option" where
  "tag_mp v = (case v of JStr s \<Rightarrow> Some (MStr s) | JNum n \<Rightarrow> Some (mp_num n) | _ \<Rightarrow> None)"

definition tags_mp :: "jsobj \<Rightarrow> (mp \<times> mp) list" where
  "tags_mp ps = List.map_filter (\<lambda>(k, v). map_option (Pair (MStr k)) (tag_mp v)) ps"

lemma tags_mp_simps [simp]:
  "tags_mp [] = []"
  "tags_mp ((k, v) # ps) = (case tag_mp v of Some m \<Rightarrow> (MStr k, m) # tags_mp ps | None \<Rightarrow> tags_mp ps)"
  by (simp_all add: tags_mp_def map_filter_Cons split: option.split)

lemma key_and_small_writes:
  "writes_out (key_and_small entry n) () (entry @ (if is_fixint n then int_or_float_bytes n else []))"
proof -
  define off where "off = (\<lambda>o'. o' + length entry)"
  have "writes_out (bind position (\<lambda>o'. bind (emit (entry @ [0]))
      (\<lambda>_. if is_fixint n then patch (o' + length entry) [case n of Fin r \<Rightarrow> byte_of \<lfloor>r\<rfloor> | _ \<Rightarrow> 0]
           else rewind (o' + length entry)))) ()
      (entry @ (if is_fixint n then int_or_float_bytes n else []))"
  proof (rule writes_out_then_fix [OF writes_out_emit])
    fix e1 u assume e1: "enc_ok e1" "out e1 = u @ entry @ [0]"
    have small: "is_fixint n \<Longrightarrow> [case n of Fin r \<Rightarrow> byte_of \<lfloor>r\<rfloor> | _ \<Rightarrow> 0] = int_or_float_bytes n"
      by (cases n) (simp_all add: fixint_bytes is_fixint_def)
    show "\<exists>e'. (if is_fixint n then patch (length u + length entry) [case n of Fin r \<Rightarrow> byte_of \<lfloor>r\<rfloor> | _ \<Rightarrow> 0]
          else rewind (length u + length entry)) e1 = Returns () e' \<and>
        out e' = u @ entry @ (if is_fixint n then int_or_float_bytes n else []) \<and> same_setup e1 e' \<and> enc_ok e'"
    proof (cases "is_fixint n")
      case True
      let ?b = "case n of Fin r \<Rightarrow> byte_of \<lfloor>r\<rfloor> | _ \<Rightarrow> 0"
      show ?thesis
        using on_used_ok [OF e1(1), of "\<lambda>w. take (length u + length entry) w @ [?b] @
            drop (length u + length entry + length [?b]) w"] e1(2) True
        unfolding patch_def small [OF True, symmetric] by simp
    next
      case False
      then show ?thesis
        using on_used_ok [OF e1(1), of "take (length u + length entry)"] e1(2) unfolding rewind_def by simp
    qed
  qed
  then show ?thesis unfolding key_and_small_def seq_def .
qed

definition tag_ok :: "jsval \<Rightarrow> bool" where
  "tag_ok v = (case v of JNum n \<Rightarrow> sendable n | _ \<Rightarrow> True)"

definition tags_ok :: "jsobj \<Rightarrow> bool" where
  "tags_ok ps = list_all (\<lambda>(k, v). tag_ok v) ps"

lemma tags_ok_simps [simp]: "tags_ok []" "tags_ok ((k, v) # ps) \<longleftrightarrow> tag_ok v \<and> tags_ok ps"
  by (simp_all add: tags_ok_def)

lemma sends_meta_entry:
  assumes "string_or_number v" "tag_ok v"
  shows "\<exists>m. tag_mp v = Some m \<and> sends (meta_entry (string_bytes k) v) () [MStr k, m]"
proof (cases v)
  case (JStr s)
  have "sends (seq (emit (string_bytes k)) (chunked (chunk_write s))) () ([MStr k] @ [MStr s])"
    by (intro sends_seq sends_emit sends_write wires_one wire_string)
  moreover have "sends (bind (cacheString s) (\<lambda>entry. emit (string_bytes k @ entry))) () ([] @ [MStr k, MStr s])"
    by (intro sends_bind [OF sends_entry] sends_emit wires_Cons wires_one wire_string) simp_all
  ultimately show ?thesis using JStr by (simp add: meta_entry_def tag_mp_def)
next
  case (JNum n)
  have n: "sendable n" using assms JNum by (simp add: tag_ok_def)
  have "sends (seq (key_and_small (string_bytes k) n) (if is_fixint n then ret () else chunked (writeIntOrFloat n)))
      () [MStr k, mp_num n]"
  proof (cases "is_fixint n")
    case True
    have "writes_out (seq (key_and_small (string_bytes k) n) (ret ())) ()
        ((string_bytes k @ int_or_float_bytes n) @ [])"
      using key_and_small_writes [of "string_bytes k" n] True by (intro writes_out_seq writes_out_ret) simp
    moreover have "wires [MStr k, mp_num n] (string_bytes k @ int_or_float_bytes n)"
      if "length (string_bytes k @ int_or_float_bytes n) \<le> MAX_SIZE"
      using that n by (intro wires_Cons wires_one wire_string wire_number) simp_all
    ultimately show ?thesis unfolding sends_def using True by auto
  next
    case False
    then have "writes_out (key_and_small (string_bytes k) n) () (string_bytes k)"
      using key_and_small_writes [of "string_bytes k" n] by simp
    then have "sends (key_and_small (string_bytes k) n) () [MStr k]"
      unfolding sends_def using wires_one wire_string by blast
    then show ?thesis using False sends_seq [OF _ sends_number [OF n]] by fastforce
  qed
  then show ?thesis using JNum by (simp add: meta_entry_def tag_mp_def)
qed (use assms in \<open>simp_all add: string_or_number_def\<close>)

lemma sends_meta_entries:
  "tags_ok ps \<Longrightarrow> sends (meta_entries ps n) (n + length (tags_mp ps)) (flat (tags_mp ps))"
proof (induction ps arbitrary: n)
  case Nil
  then show ?case by (simp add: sends_ret)
next
  case (Cons p ps)
  obtain k v where p: "p = (k, v)" by (cases p)
  have IH: "sends (meta_entries ps m) (m + length (tags_mp ps)) (flat (tags_mp ps))" for m
    using Cons p by simp
  show ?case
  proof (cases "string_or_number v")
    case True
    then obtain m where m: "tag_mp v = Some m" "sends (meta_entry (string_bytes k) v) () [MStr k, m]"
      using sends_meta_entry [of v k] Cons.prems p by auto
    have "sends (bind (cacheString k) (\<lambda>entry. seq (meta_entry entry v) (meta_entries ps (n + 1))))
        (n + 1 + length (tags_mp ps)) ([] @ [MStr k, m] @ flat (tags_mp ps))"
      by (intro sends_bind [OF sends_entry] sends_seq m(2) IH)
    then show ?thesis using True p m(1) by simp
  next
    case False
    then have "tag_mp v = None" by (simp add: string_or_number_def tag_mp_def split: jsval.splits)
    then show ?thesis using False p IH [of n] by simp
  qed
qed

lemma sends_tags:
  assumes "tags_ok ps" "length k < 16"
  shows "sends (encodeMetaEntries (buildKeyWithPrefix k 0xDF) ps) () [MStr k, MMap (tags_mp ps)]"
proof -
  have "sends (meta_entries ps 0) (length (tags_mp ps)) (flat (tags_mp ps))"
    using sends_meta_entries [OF assms(1), of 0] by simp
  then show ?thesis unfolding encodeMetaEntries_def
  proof (rule sends_counted)
    fix bs assume "wires (flat (tags_mp ps)) bs" "length bs \<le> MAX_SIZE"
    then have "wires [MStr k, MMap (tags_mp ps)] (buildKey k @ (0xDF # be_bytes 4 (int (length (tags_mp ps))) @ bs))"
      using wire_map by (intro wires_Cons wire_key assms(2) wires_one) (simp_all del: be_bytes.simps)
    then show "wires [MStr k, MMap (tags_mp ps)]
        (buildKeyWithPrefix k 0xDF @ be_bytes 4 (int (length (tags_mp ps))) @ bs)"
      by (simp add: buildKeyWithPrefix_def buildKey_def del: be_bytes.simps)
  qed
qed


subsection \<open>Structured tags\<close>

definition number_bytes :: "jsobj \<Rightarrow> byte list" where
  "number_bytes ps = concat (map (\<lambda>(k, v). case v of JNum n \<Rightarrow> string_bytes k @ 0xCB # float64_bytes n | _ \<Rightarrow> []) ps)"

definition count_bytes :: "byte \<Rightarrow> nat \<Rightarrow> byte list \<Rightarrow> byte list" where
  "count_bytes tag n bs = tag # be_bytes 4 (int n) @ bs"

fun object_bytes :: "jsval \<Rightarrow> byte list"
  and object_map_bytes :: "(string \<times> jsval) list \<Rightarrow> byte list"
  and object_array_bytes :: "jsval list \<Rightarrow> byte list"
where
  "object_bytes (JArr xs) = count_bytes 0xDD (length (filter in_array xs)) (object_array_bytes xs)"
| "object_bytes (JObj ps) = count_bytes 0xDF (length (filter (\<lambda>p. in_map (snd p)) ps)) (object_map_bytes ps)"
| "object_bytes (JErr m n st ps) = count_bytes 0xDF (length (filter (\<lambda>p. in_map (snd p)) ps)) (object_map_bytes ps)"
| "object_bytes (JBuf bs) = count_bytes 0xDF (length bs) (number_bytes (byte_entries bs))"
| "object_bytes (JUrl u) = count_bytes 0xDF 0 []"
| "object_bytes (JStr s) = string_bytes s"
| "object_bytes (JNum n) = 0xCB # float64_bytes n"
| "object_bytes (JBool b) = [if b then 0xC3 else 0xC2]"
| "object_bytes _ = []"
| "object_map_bytes [] = []"
| "object_map_bytes ((k, v) # ps) =
     (if in_map v then string_bytes k @ object_bytes v @ object_map_bytes ps else object_map_bytes ps)"
| "object_array_bytes [] = []"
| "object_array_bytes (x # xs) =
     (if in_array x then object_bytes x @ object_array_bytes xs else object_array_bytes xs)"

fun object_mp :: "jsval \<Rightarrow> mp"
  and object_map_mp :: "(string \<times> jsval) list \<Rightarrow> (mp \<times> mp) list"
  and object_array_mp :: "jsval list \<Rightarrow> mp list"
where
  "object_mp (JArr xs) = MArr (object_array_mp xs)"
| "object_mp (JObj ps) = MMap (object_map_mp ps)"
| "object_mp (JErr m n st ps) = MMap (object_map_mp ps)"
| "object_mp (JBuf bs) = MMap (map (\<lambda>i. (MStr (show_nat i), MFloat (int_num (uint (bs ! i))))) [0..<length bs])"
| "object_mp (JUrl u) = MMap []"
| "object_mp (JStr s) = MStr s"
| "object_mp (JNum n) = MFloat n"
| "object_mp (JBool b) = MBool b"
| "object_mp _ = MNil"
| "object_map_mp [] = []"
| "object_map_mp ((k, v) # ps) =
     (if in_map v then (MStr k, object_mp v) # object_map_mp ps else object_map_mp ps)"
| "object_array_mp [] = []"
| "object_array_mp (x # xs) = (if in_array x then object_mp x # object_array_mp xs else object_array_mp xs)"

lemma length_object_mp [simp]:
  "length (object_map_mp ps) = length (filter (\<lambda>p. in_map (snd p)) ps)"
  "length (object_array_mp xs) = length (filter in_array xs)"
  by (induction ps) (auto, induction xs, auto)

lemma writes_number_entries:
  "writes_out (number_entries (map (\<lambda>i. (f i, JNum (g i))) js) n) (n + length js)
     (number_bytes (map (\<lambda>i. (f i, JNum (g i))) js))"
proof (induction js arbitrary: n)
  case Nil
  then show ?case by (simp add: writes_out_ret number_bytes_def)
next
  case (Cons i js)
  have "writes_out (seq (encodeString (f i)) (seq (chunked (writeFloat (g i)))
      (number_entries (map (\<lambda>i. (f i, JNum (g i))) js) (n + 1)))) (n + 1 + length js)
      (string_bytes (f i) @ (0xCB # float64_bytes (g i)) @ number_bytes (map (\<lambda>i. (f i, JNum (g i))) js))"
    by (rule writes_out_seq [OF writes_out_encodeString])
      (rule writes_out_seq [OF writes_out_chunked [OF writes_simple(9)] Cons])
  then show ?case by (simp add: number_bytes_def)
qed

lemma writes_counted: "writes_out loop n bs \<Longrightarrow> writes_out (counted [tag] loop) () (count_bytes tag n bs)"
  using writes_out_counted [of loop n bs "[tag]"] by (simp add: count_bytes_def del: be_bytes.simps)

lemma writes_object:
  "writes_out (encodeObject v) () (object_bytes v)"
  "writes_out (encodeObjectAsMap ps n) (n + length (filter (\<lambda>p. in_map (snd p)) ps)) (object_map_bytes ps)"
  "writes_out (encodeObjectAsArray xs n) (n + length (filter in_array xs)) (object_array_bytes xs)"
proof (induction v and ps and xs arbitrary: and n and n rule: object_bytes_object_map_bytes_object_array_bytes.induct)
  case (4 bs)
  show ?case unfolding encodeObject.simps object_bytes.simps byte_entries_def
    using writes_counted [OF writes_number_entries [where n = 0 and js = "[0..<length bs]"]] by simp
next
  case (11 k v ps)
  then show ?case
    using writes_out_seq [OF writes_out_encodeString writes_out_seq [OF 11(1) 11(2)], of k "n + 1"] by simp
next
  case (13 x xs)
  then show ?case using writes_out_seq [OF 13(1) 13(2), of "n + 1"] by simp
next
  case (1 xs)
  then show ?case using writes_counted [OF 1 [of 0]] by simp
next
  case (2 ps)
  then show ?case using writes_counted [OF 2 [of 0]] by simp
next
  case (3 m n st ps)
  then show ?case using writes_counted [OF 3 [of 0]] by simp
next
  case (5 u)
  then show ?case using writes_counted [OF writes_out_ret] by simp
qed (simp_all add: writes_out_encodeString writes_out_ret writes_out_chunked writes_simple)


lemma byte_is_number: "is_js_number (int_num (uint (b :: byte)))"
proof -
  have "uint b < 256" using uint_lt2p [of b] by simp
  then have "\<bar>uint b\<bar> < 2 ^ 53" by simp
  then show ?thesis using is_double_int [of "uint b"] by (simp add: is_js_number_def int_num_def)
qed

lemma wires_numbers:
  "length (number_bytes (map (\<lambda>i. (f i, JNum (int_num (uint (g i :: byte))))) js)) \<le> MAX_SIZE \<Longrightarrow>
     wires (flat (map (\<lambda>i. (MStr (f i), MFloat (int_num (uint (g i))))) js))
       (number_bytes (map (\<lambda>i. (f i, JNum (int_num (uint (g i))))) js))"
proof (induction js)
  case Nil
  then show ?case by (simp add: number_bytes_def ws_nil)
next
  case (Cons j js)
  have "wires (MStr (f j) # MFloat (int_num (uint (g j))) # flat (map (\<lambda>i. (MStr (f i), MFloat (int_num (uint (g i))))) js))
      (string_bytes (f j) @ (0xCB # float64_bytes (int_num (uint (g j)))) @
       number_bytes (map (\<lambda>i. (f i, JNum (int_num (uint (g i))))) js))"
    using Cons by (intro wires_Cons wire_string w_float byte_is_number) (simp_all add: number_bytes_def)
  then show ?case by (simp add: number_bytes_def)
qed

lemma wire_counted:
  "wires (flat kvs) bs \<Longrightarrow> length bs \<le> MAX_SIZE \<Longrightarrow> length kvs = n \<Longrightarrow> wire (MMap kvs) (count_bytes 0xDF n bs)"
  "wires vs bs \<Longrightarrow> length bs \<le> MAX_SIZE \<Longrightarrow> length vs = n \<Longrightarrow> wire (MArr vs) (count_bytes 0xDD n bs)"
  using wire_map [of kvs bs] wire_array [of vs bs] by (auto simp: count_bytes_def simp del: be_bytes.simps)

lemma length_count_bytes [simp]: "length (count_bytes tag n bs) = 5 + length bs"
  by (simp add: count_bytes_def)

text \<open>What is written of an object is a representation of its value; a member is filtered out before.\<close>

lemma wire_object:
  "length (object_bytes v) \<le> MAX_SIZE \<Longrightarrow> doubles_only v \<Longrightarrow> in_map v \<Longrightarrow> wire (object_mp v) (object_bytes v)"
  "length (object_map_bytes ps) \<le> MAX_SIZE \<Longrightarrow> doubles_entries ps \<Longrightarrow>
     wires (flat (object_map_mp ps)) (object_map_bytes ps)"
  "length (object_array_bytes xs) \<le> MAX_SIZE \<Longrightarrow> doubles_items xs \<Longrightarrow>
     wires (object_array_mp xs) (object_array_bytes xs)"
proof (induction v and ps and xs rule: object_bytes_object_map_bytes_object_array_bytes.induct)
  case (1 xs)
  then show ?case by (auto intro!: wire_counted(2))
next
  case (2 ps)
  then show ?case by (auto intro!: wire_counted(1))
next
  case (3 m n st ps)
  then show ?case by (auto intro!: wire_counted(1))
next
  case (4 bs)
  have "length (number_bytes (byte_entries bs)) \<le> MAX_SIZE" using 4(1) by simp
  then show ?case unfolding object_bytes.simps object_mp.simps byte_entries_def
    by (intro wire_counted(1) wires_numbers) simp_all
next
  case (5 u)
  show ?case using wire_counted(1) [of "[]" "[]" 0] ws_nil by simp
next
  case (8 b)
  show ?case using w_bool [of b] by simp
next
  case (13 x xs)
  then show ?case by (auto intro: ws_cons simp: in_map_def in_array_def)
next
  case (11 k v ps)
  then show ?case by (auto intro!: ws_cons wire_string)
qed (auto intro: wire_string w_float ws_nil simp: in_map_def string_or_number_def is_object_def)

lemma sends_byte_array: "sends (encodeObjectAsByteArray v) () [MBin (object_bytes v)]"
proof -
  have "writes_out (bind position (\<lambda>off. bind (seq (emit [0, 0, 0, 0, 0]) (encodeObject v)) (\<lambda>_.
      bind position (\<lambda>now. patch off (0xC6 # shifted4 (int (now - off - 5))))))) ()
      (count_bytes 0xC6 (length (object_bytes v)) (object_bytes v))"
  proof (rule writes_out_then_fix [OF writes_out_seq [OF writes_out_emit writes_object(1)]])
    fix e1 u assume e1: "enc_ok e1" "out e1 = u @ [0, 0, 0, 0, 0] @ object_bytes v"
    let ?h = "0xC6 # be_bytes 4 (int (length (object_bytes v)))"
    show "\<exists>e'. bind position (\<lambda>now. patch (length u) (0xC6 # shifted4 (int (now - length u - 5)))) e1 = Returns () e' \<and>
        out e' = u @ count_bytes 0xC6 (length (object_bytes v)) (object_bytes v) \<and> same_setup e1 e' \<and> enc_ok e'"
      unfolding bind_position patch_def shifted4_be
      using on_used_ok [OF e1(1), of "\<lambda>w. take (length u) w @ ?h @ drop (length u + length ?h) w"] e1(2)
      by (simp add: count_bytes_def del: be_bytes.simps)
  qed
  moreover have "wire (MBin (object_bytes v)) (count_bytes 0xC6 (length (object_bytes v)) (object_bytes v))"
    if "length (count_bytes 0xC6 (length (object_bytes v)) (object_bytes v)) \<le> MAX_SIZE"
    using that w_bin32 [of "object_bytes v"] by (simp add: count_bytes_def MAX_SIZE_def del: be_bytes.simps)
  ultimately show ?thesis unfolding sends_def encodeObjectAsByteArray_def using wires_one by blast
qed

definition struct_mp :: "jsobj \<Rightarrow> (mp \<times> mp) list" where
  "struct_mp ps = map (\<lambda>(k, v). (MStr k, MBin (object_bytes v))) (filter (\<lambda>(k, v). in_array v) ps)"

lemma sends_struct_entries:
  "sends (struct_entries ps n) (n + length (struct_mp ps)) (flat (struct_mp ps))"
proof (induction ps arbitrary: n)
  case Nil
  then show ?case by (simp add: sends_ret struct_mp_def)
next
  case (Cons p ps)
  obtain k v where p: "p = (k, v)" by (cases p)
  have "sends (seq (encodeString k) (seq (encodeObjectAsByteArray v) (struct_entries ps (n + 1))))
      (n + 1 + length (struct_mp ps)) ([MStr k] @ [MBin (object_bytes v)] @ flat (struct_mp ps))"
    by (intro sends_seq sends_string sends_byte_array Cons)
  then show ?case using p Cons [of n] by (simp add: struct_mp_def)
qed

definition meta_struct_mp :: "jsval \<Rightarrow> mp" where
  "meta_struct_mp v = MMap (case v of JArr xs \<Rightarrow> [] | _ \<Rightarrow> struct_mp (own_entries v))"

lemma sends_meta_struct: "sends (encodeMetaStruct v) () [meta_struct_mp v]"
proof -
  have "sends (counted [0xDF] (struct_entries (own_entries v) 0)) () [MMap (struct_mp (own_entries v))]"
    using sends_struct_entries [of "own_entries v" 0] by (intro sends_counted_map) simp
  moreover have "sends (chunked (writeMapPrefix 0)) () [MMap []]"
    using w_map32 [of "[]" "[]"] ws_nil by (intro sends_chunked [OF writes_simple(5)]) simp
  ultimately show ?thesis by (cases v) (simp_all add: encodeMetaStruct_def meta_struct_mp_def)
qed


subsection \<open>Spans\<close>

definition key_mp :: "string \<Rightarrow> mp \<Rightarrow> mp \<times> mp" where
  "key_mp k v = (MStr k, v)"

definition id_mp :: "ident \<Rightarrow> mp" where
  "id_mp i = MInt (be_val (id_tail i))"

definition fixed_entries :: "formatted_span \<Rightarrow> (mp \<times> mp) list" where
  "fixed_entries f =
     (if has_text (f_type f) then [key_mp ''type'' (MStr (the (f_type f)))] else []) @
     [key_mp ''trace_id'' (id_mp (f_trace_id f)), key_mp ''span_id'' (id_mp (the (f_span_id f))),
      key_mp ''parent_id'' (id_mp (f_parent_id f)), key_mp ''name'' (MStr (f_name f)),
      key_mp ''resource'' (MStr (f_resource f)), key_mp ''service'' (MStr (the (f_service f)))]"

definition time_entries :: "formatted_span \<Rightarrow> (mp \<times> mp) list" where
  "time_entries f =
     [key_mp ''error'' (MInt (int64 (f_error f))), key_mp ''start'' (MInt (int64 (f_start f))),
      key_mp ''duration'' (mp_num (f_duration f))]"

definition tag_entries :: "formatted_span \<Rightarrow> (mp \<times> mp) list" where
  "tag_entries f =
     [key_mp ''meta'' (MMap (tags_mp (text_tags (f_meta f)))), key_mp ''metrics'' (MMap (tags_mp (f_metrics f)))] @
     (case f_span_events f of Some evs \<Rightarrow> [key_mp ''span_events'' (MArr (List.map_filter event_mp evs))] | None \<Rightarrow> []) @
     (if truthy (f_meta_struct f) then [key_mp ''meta_struct'' (meta_struct_mp (f_meta_struct f))] else [])"

definition span_mp :: "formatted_span \<Rightarrow> mp" where
  "span_mp f = MMap (fixed_entries f @ time_entries f @ tag_entries f)"

text \<open>The numbers of a span are numbers of JavaScript, and it has a service and an identifier.\<close>

definition span_ok :: "formatted_span \<Rightarrow> bool" where
  "span_ok f \<longleftrightarrow> f_span_id f \<noteq> None \<and> f_service f \<noteq> None \<and> sendable (f_duration f) \<and>
     tags_ok (f_metrics f) \<and> pred_option (list_all event_ok) (f_span_events f)"

lemma text_tags_ok [simp]: "tags_ok (text_tags m)"
  by (induction m) (auto simp: text_tags_def tag_ok_def)

lemma wire_id: "wire (id_mp i) (0xCF # id_tail i)"
proof -
  have len: "length (id_tail i) = 8" by (simp add: id_tail_def Let_def)
  then have "be_bytes 8 (be_val (id_tail i)) = id_tail i" by (metis be_bytes_be_val)
  moreover have "0 \<le> be_val (id_tail i)" "be_val (id_tail i) < 2 ^ 64"
    using be_val_bound [of "id_tail i"] len by simp_all
  ultimately show ?thesis using w_u64 [of "be_val (id_tail i)"] by (simp add: id_mp_def)
qed

lemma wires_id_key: "length k < 16 \<Longrightarrow> wires vs bs \<Longrightarrow>
  wires (MStr k # id_mp i # vs) (buildKeyWithPrefix k 0xCF @ id_tail i @ bs)"
  using wires_Cons [OF wire_key wires_Cons [OF wire_id], of k vs bs i]
  by (simp add: buildKeyWithPrefix_def buildKey_def)


definition time_keys :: "formatted_span \<Rightarrow> mp list" where
  "time_keys f =
     [MStr ''error'', MInt (int64 (f_error f)), MStr ''start'', MInt (int64 (f_start f)), MStr ''duration'']"

lemma be_bytes_halves: "be_bytes 4 (to_uint32 (v div 0x100000000)) @ be_bytes 4 (to_uint32 v) = be_bytes 8 v"
proof -
  have "be_bytes 4 (to_uint32 w) = be_bytes 4 w" for w
    by (rule be_bytes_cong) (simp add: to_uint32_mod)
  moreover have "be_bytes 8 v = be_bytes 4 (v div 2 ^ 32) @ be_bytes 4 v"
    by (simp add: numeral_eq_Suc zdiv_zmult2_eq [symmetric])
  ultimately show ?thesis by simp
qed

lemma wire_start: "0 \<le> v \<Longrightarrow> wire (MInt (int64 v)) (0xCF # be_bytes 8 v)"
  using w_u64 [of "int64 v"] int64_range [of v] by (simp add: be_bytes_int64 del: be_bytes.simps)

lemma error_entry_wires: "error_entry f = Some e \<Longrightarrow> wires [MStr ''error'', MInt (int64 (f_error f))] e"
proof -
  assume "error_entry f = Some e"
  then consider "f_error f = 0" "e = KEY_ERROR @ [byte_of 0]" | "f_error f = 1" "e = KEY_ERROR @ [byte_of 1]"
    by (auto simp: error_entry_def KEY_ERROR_0_def KEY_ERROR_1_def byte_of_def split: if_splits)
  then show ?thesis
  proof cases
    case 1
    then show ?thesis using wires_Cons [OF key_wires(5) wires_one [OF w_fix, of 0]] by (simp add: int64_def)
  next
    case 2
    then show ?thesis using wires_Cons [OF key_wires(5) wires_one [OF w_fix, of 1]] by (simp add: int64_def)
  qed
qed

lemma fused_wires: "wires (if fuse_tail f then time_keys f else []) (fused_part f)"
proof (cases "fuse_tail f")
  case True
  then obtain e where e: "error_entry f = Some e" "0x100000000 \<le> f_start f" by (auto simp: fuse_tail_def)
  have "wires ([MStr ''error'', MInt (int64 (f_error f))] @ [MStr ''start'', MInt (int64 (f_start f)), MStr ''duration''])
      (e @ KEY_START @ (0xCF # be_bytes 8 (f_start f)) @ KEY_DURATION)"
    using e by (intro wires_append error_entry_wires wires_Cons key_wires wire_start wires_one) simp_all
  moreover have "e @ KEY_START @ (0xCF # be_bytes 8 (f_start f)) @ KEY_DURATION = fused_part f"
    using True e be_bytes_halves [of "f_start f"]
    by (simp add: fused_part_def KEY_START_PREFIX_def KEY_START_def buildKeyWithPrefix_def buildKey_def
        del: be_bytes.simps flip: append_assoc)
  ultimately show ?thesis using True by (simp add: time_keys_def)
next
  case False
  then show ?thesis by (simp add: fused_part_def split: option.split)
qed

lemma sends_span_tail: "sends (span_tail f) () (if fuse_tail f then [] else time_keys f)"
proof -
  have rest: "sends (seq (emit KEY_START) (seq (chunked (writeIntOrFloat (int_num (f_start f)))) (emit KEY_DURATION))) ()
      ([MStr ''start''] @ [MInt (int64 (f_start f))] @ [MStr ''duration''])"
    by (intro sends_seq sends_key key_wires sends_integer)
  have "sends (span_tail f) () ([MStr ''error'', MInt (int64 (f_error f))] @
      [MStr ''start''] @ [MInt (int64 (f_start f))] @ [MStr ''duration''])" if "\<not> fuse_tail f"
  proof (cases "error_entry f")
    case None
    have "sends (seq (emit KEY_ERROR) (seq (chunked (writeIntOrFloat (int_num (f_error f))))
        (seq (emit KEY_START) (seq (chunked (writeIntOrFloat (int_num (f_start f)))) (emit KEY_DURATION))))) ()
        ([MStr ''error''] @ [MInt (int64 (f_error f))] @ [MStr ''start''] @ [MInt (int64 (f_start f))] @ [MStr ''duration''])"
      by (intro sends_seq sends_key key_wires sends_integer rest)
    then show ?thesis using None that by (simp add: span_tail_def)
  next
    case (Some e)
    have "sends (emit e) () [MStr ''error'', MInt (int64 (f_error f))]"
      by (rule sends_emit) (rule error_entry_wires [OF Some])
    from sends_seq [OF this rest] show ?thesis using Some that by (simp add: span_tail_def)
  qed
  then show ?thesis using sends_ret by (auto simp: span_tail_def time_keys_def)
qed

lemma sends_map_block:
  assumes "length b \<le> MAX_SIZE \<Longrightarrow> wires vs b" "sends g () ws" "vs @ ws = flat kvs" "length kvs < 16"
  shows "sends (seq (emit (byte_of (0x80 + int (length kvs)) # b)) g) () [MMap kvs]"
proof -
  obtain bs where "writes_out g () bs" "length bs \<le> MAX_SIZE \<longrightarrow> wires ws bs"
    using assms(2) unfolding sends_def by blast
  moreover from this have "wire (MMap kvs) (byte_of (0x80 + int (length kvs)) # b @ bs)"
    if "length (b @ bs) \<le> MAX_SIZE"
    using that assms w_fixmap [of kvs "b @ bs"] wires_append [of vs b ws bs] by simp
  ultimately show ?thesis unfolding sends_def
    by (intro exI [of _ "(byte_of (0x80 + int (length kvs)) # b) @ bs"] conjI
        writes_out_seq [OF writes_out_emit] impI wires_one) simp_all
qed

lemma sends_span_rest:
  assumes "span_ok f"
  shows "sends (span_rest f) ()
    ((if fuse_tail f then [] else time_keys f) @ [mp_num (f_duration f)] @ flat (tag_entries f))"
proof -
  let ?events = "case f_span_events f of Some evs \<Rightarrow> seq (emit KEY_SPAN_EVENTS) (encodeSpanEvents evs) | None \<Rightarrow> ret ()"
  let ?struct = "if truthy (f_meta_struct f) then seq (emit KEY_META_STRUCT) (encodeMetaStruct (f_meta_struct f)) else ret ()"
  have ok: "sendable (f_duration f)" "tags_ok (f_metrics f)"
    "pred_option (list_all event_ok) (f_span_events f)"
    using assms by (simp_all add: span_ok_def)
  have events: "sends ?events () (case f_span_events f of
      Some evs \<Rightarrow> [MStr ''span_events''] @ [MArr (List.map_filter event_mp evs)] | None \<Rightarrow> [])"
    using ok(3) sends_seq [OF sends_key [OF key_wires(8)] sends_span_events] sends_ret
    by (cases "f_span_events f") auto
  have struct: "sends ?struct () (if truthy (f_meta_struct f)
      then [MStr ''meta_struct''] @ [meta_struct_mp (f_meta_struct f)] else [])"
    using sends_seq [OF sends_key [OF key_wires(9)] sends_meta_struct] sends_ret by auto
  have "sends (span_rest f) () ((if fuse_tail f then [] else time_keys f) @ [mp_num (f_duration f)] @
      [MStr ''meta'', MMap (tags_mp (text_tags (f_meta f)))] @ [MStr ''metrics'', MMap (tags_mp (f_metrics f))] @
      (case f_span_events f of
         Some evs \<Rightarrow> [MStr ''span_events''] @ [MArr (List.map_filter event_mp evs)] | None \<Rightarrow> []) @
      (if truthy (f_meta_struct f) then [MStr ''meta_struct''] @ [meta_struct_mp (f_meta_struct f)] else []))"
    unfolding span_rest_def KEY_META_PREFIX_def KEY_METRICS_PREFIX_def
    by (intro sends_seq sends_span_tail sends_number sends_tags events struct ok) simp_all
  moreover have "flat (tag_entries f) =
      [MStr ''meta'', MMap (tags_mp (text_tags (f_meta f)))] @ [MStr ''metrics'', MMap (tags_mp (f_metrics f))] @
      (case f_span_events f of
         Some evs \<Rightarrow> [MStr ''span_events''] @ [MArr (List.map_filter event_mp evs)] | None \<Rightarrow> []) @
      (if truthy (f_meta_struct f) then [MStr ''meta_struct''] @ [meta_struct_mp (f_meta_struct f)] else [])"
    by (cases "f_span_events f") (simp_all add: tag_entries_def key_mp_def)
  ultimately show ?thesis by simp
qed

lemma fixed_wires:
  assumes "f_span_id f = Some i" "f_service f = Some s"
    and b: "b = (case (if has_text (f_type f) then Some (string_bytes (the (f_type f))) else None) of
        Some entry \<Rightarrow> KEY_TYPE @ entry | None \<Rightarrow> []) @
      KEY_TRACE_ID_PREFIX @ id_tail (f_trace_id f) @ KEY_SPAN_ID_PREFIX @ id_tail i @
      KEY_PARENT_ID_PREFIX @ id_tail (f_parent_id f) @
      KEY_NAME @ string_bytes (f_name f) @ KEY_RESOURCE @ string_bytes (f_resource f) @ KEY_SERVICE @ string_bytes s @ c"
    and "wires vs c" "length b \<le> MAX_SIZE"
  shows "wires (flat (fixed_entries f) @ vs) b"
proof -
  have "wires (MStr ''trace_id'' # id_mp (f_trace_id f) # MStr ''span_id'' # id_mp i #
      MStr ''parent_id'' # id_mp (f_parent_id f) # MStr ''name'' # MStr (f_name f) #
      MStr ''resource'' # MStr (f_resource f) # MStr ''service'' # MStr s # vs)
     (KEY_TRACE_ID_PREFIX @ id_tail (f_trace_id f) @ KEY_SPAN_ID_PREFIX @ id_tail i @
      KEY_PARENT_ID_PREFIX @ id_tail (f_parent_id f) @
      KEY_NAME @ string_bytes (f_name f) @ KEY_RESOURCE @ string_bytes (f_resource f) @ KEY_SERVICE @ string_bytes s @ c)"
    unfolding KEY_TRACE_ID_PREFIX_def KEY_SPAN_ID_PREFIX_def KEY_PARENT_ID_PREFIX_def
    using assms(4,5) b by (intro wires_id_key wires_Cons key_wires wire_string) simp_all
  moreover have "wires (MStr ''type'' # MStr t # ws) (KEY_TYPE @ string_bytes t @ d)"
    if "length (string_bytes t) \<le> MAX_SIZE" "wires ws d" for t ws d
    using that by (intro wires_Cons key_wires wire_string)
  ultimately show ?thesis using assms(1,2,5) b
    by (cases "has_text (f_type f)") (auto simp: fixed_entries_def key_mp_def)
qed

lemma map_size_entries: "map_size f = length (fixed_entries f @ time_entries f @ tag_entries f)"
  by (simp add: map_size_def fixed_entries_def time_entries_def tag_entries_def split: option.split)

lemma map_size_small: "map_size f < 16"
  by (simp add: map_size_def)

lemma sends_span:
  assumes "span_ok f"
  shows "sends (encode_span f) () [span_mp f]"
proof -
  obtain i s where id_service: "f_span_id f = Some i" "f_service f = Some s" using assms by (auto simp: span_ok_def)
  define te where "te = (if has_text (f_type f) then Some (string_bytes (the (f_type f))) else None)"
  let ?block = "span_block f i te (string_bytes (f_name f)) (string_bytes (f_resource f)) (string_bytes s)"
  let ?kvs = "fixed_entries f @ time_entries f @ tag_entries f"
  have "sends (seq (emit ?block) (span_rest f)) () [MMap ?kvs]"
    unfolding span_block_def map_size_entries
  proof (rule sends_map_block)
    show "sends (span_rest f) () ((if fuse_tail f then [] else time_keys f) @ [mp_num (f_duration f)] @ flat (tag_entries f))"
      by (rule sends_span_rest [OF assms])
    show "(flat (fixed_entries f) @ (if fuse_tail f then time_keys f else [])) @
        (if fuse_tail f then [] else time_keys f) @ [mp_num (f_duration f)] @ flat (tag_entries f) = flat ?kvs"
      by (simp add: time_keys_def time_entries_def key_mp_def)
    show "length ?kvs < 16" using map_size_small [of f] by (simp only: map_size_entries)
  qed (rule fixed_wires [OF id_service _ fused_wires], simp_all only: te_def)
  moreover have "sends (case f_type f of
      Some t \<Rightarrow> if t \<noteq> [] then bind (cacheString t) (\<lambda>entry. ret (Some entry)) else ret None
    | None \<Rightarrow> ret None) te []"
    using sends_bind [OF sends_entry sends_ret] sends_ret
    by (cases "f_type f") (auto simp: te_def has_text_def)
  ultimately show ?thesis
    unfolding encode_span_def span_mp_def id_service option.case
    using sends_bind [OF _ sends_bind [OF sends_entry sends_bind [OF sends_entry sends_bind [OF sends_entry]]]]
    by fastforce
qed


subsection \<open>Traces\<close>

fun format_all :: "(jsval \<Rightarrow> string) \<Rightarrow> bool \<Rightarrow> formatted_span list \<Rightarrow> js_error + formatted_span list" where
  "format_all str native [] = ok []"
| "format_all str native (f # fs) =
     try_then (format_for str native f) (\<lambda>g. try_then (format_all str native fs) (\<lambda>gs. ok (g # gs)))"

definition trace_ok :: "(jsval \<Rightarrow> string) \<Rightarrow> bool \<Rightarrow> formatted_span list \<Rightarrow> bool" where
  "trace_ok str native trace =
     (case format_all str native trace of Inl er \<Rightarrow> False | Inr fs \<Rightarrow> list_all span_ok fs)"

definition trace_mp :: "(jsval \<Rightarrow> string) \<Rightarrow> bool \<Rightarrow> formatted_span list \<Rightarrow> mp" where
  "trace_mp str native trace =
     MArr (case format_all str native trace of Inl er \<Rightarrow> [] | Inr fs \<Rightarrow> map span_mp fs)"

lemma sends_spans:
  "format_all str native trace = Inr fs \<Longrightarrow> list_all span_ok fs \<Longrightarrow>
     sends (encode_spans str native trace) () (map span_mp fs)"
proof (induction trace arbitrary: fs)
  case Nil
  then show ?case by (simp add: sends_ret)
next
  case (Cons f trace)
  then obtain g gs where g: "format_for str native f = Inr g" "format_all str native trace = Inr gs" "fs = g # gs"
    by (auto simp: try_then_eq_Inr)
  have "sends (bind (ret g) (\<lambda>span. seq (encode_span span) (encode_spans str native trace))) ()
      ([] @ [span_mp g] @ map span_mp gs)"
    using Cons.prems g by (intro sends_bind [OF sends_ret] sends_seq sends_span Cons.IH) simp_all
  then show ?case using g by (simp add: of_sum_def)
qed

lemma length_format_all: "format_all str native trace = Inr fs \<Longrightarrow> length fs = length trace"
  by (induction trace arbitrary: fs) (auto simp: try_then_eq_Inr)

definition trace_writer :: "(jsval \<Rightarrow> string) \<Rightarrow> bool \<Rightarrow> formatted_span list \<Rightarrow> unit enc" where
  "trace_writer str native trace = seq (chunked (writeArrayPrefix (length trace))) (encode_spans str native trace)"

lemma sends_trace:
  assumes "trace_ok str native trace"
  shows "sends (trace_writer str native trace) () [trace_mp str native trace]"
proof -
  obtain fs where fs: "format_all str native trace = Inr fs" "list_all span_ok fs"
    using assms by (auto simp: trace_ok_def split: sum.splits)
  have "sends (seq (emit (0xDD # be_bytes 4 (int (length fs)))) (encode_spans str native trace)) () [MArr (map span_mp fs)]"
  proof (rule sends_prefixed [OF sends_spans [OF fs]])
    fix bs assume "wires (map span_mp fs) bs" "length bs \<le> MAX_SIZE"
    then show "wires [MArr (map span_mp fs)] ((0xDD # be_bytes 4 (int (length fs))) @ bs)"
      using wires_one [OF wire_array [of "map span_mp fs" bs]] by (simp del: be_bytes.simps)
  qed
  then show ?thesis using fs length_format_all [OF fs(1)]
    by (simp add: trace_writer_def trace_mp_def emit_def writeArrayPrefix_def shifted4_be del: be_bytes.simps)
qed

subsection \<open>The queue of an encoder\<close>

definition queued :: "encoder \<Rightarrow> mp list \<Rightarrow> bool" where
  "queued e ts \<longleftrightarrow> enc_ok e \<and> e_count e = length ts \<and> wires ts (out e)"

lemma enc_ok_max: "enc_ok e \<Longrightarrow> length (out e) \<le> MAX_SIZE"
  by (simp add: enc_ok_def chunk_ok_def out_def)

lemma enc_reset_ok:
  assumes "enc_ok e"
  shows "\<exists>e'. enc_reset e = Returns () e' \<and> queued e' [] \<and> e_limit e' = e_limit e \<and> e_native e' = e_native e"
proof -
  let ?e = "e\<lparr>e_count := 0, e_bytes := chunk_reset (e_bytes e), e_stringCount := 0,
      e_strings := chunk_reset (e_strings e), e_map := []\<rparr>"
  have ok: "enc_ok ?e" using assms by (simp add: enc_ok_def chunk_ok_reset)
  have sb: "string_bytes [] = [0xA0]" by (simp add: string_bytes_def utf8_bytes_def byte_of_def)
  have "chunk_ok (chunk_reset (e_strings e))" using ok by (simp add: enc_ok_def)
  then obtain c where "chunk_write [] (chunk_reset (e_strings e)) = Done c"
    using writes_done [OF writes_string, of "chunk_reset (e_strings e)" "[]"] sb by (auto simp: MAX_SIZE_def)
  then obtain e1 where ret: "cacheString [] ?e = Returns (string_bytes []) e1"
    using writes_out_cacheString [of "[]"] ok unfolding writes_out_def
    by (auto simp: cacheString_def Let_def)
  from writes_out_cacheString ok obtain "out e1 = out ?e" "same_setup ?e e1" "enc_ok e1"
    by (cases rule: writes_out_cases [where f = "cacheString []"]) (use ret in auto)
  then show ?thesis using ret
    by (auto simp: enc_reset_def bind_def ret_def queued_def same_setup_def out_def ws_nil)
qed

definition over_limit :: "encoder \<Rightarrow> bool" where
  "over_limit e \<longleftrightarrow> e_limit e < length (ck_used (e_bytes e)) \<or> e_limit e < length (ck_used (e_strings e))"

text \<open>Encoding queues the trace; when the cap is exceeded the whole queue is dropped.\<close>

lemma encode_queues:
  assumes "queued e ts" "trace_ok str (e_native e) trace"
  shows "(\<exists>e'. encode str trace e = Returns (over_limit e') e' \<and>
        queued e' (ts @ [trace_mp str (e_native e) trace]) \<and> e_limit e' = e_limit e \<and> e_native e' = e_native e \<and>
        (\<exists>e1. encode_trace str trace (e\<lparr>e_count := e_count e + 1\<rparr>) = Returns () e1)) \<or>
    (\<exists>e'. encode str trace e = Returns False e' \<and> queued e' [] \<and> e_limit e' = e_limit e \<and> e_native e' = e_native e \<and>
        (\<exists>e1. encode_trace str trace (e\<lparr>e_count := e_count e + 1\<rparr>) = Throws OverflowError e1)) \<or>
    (\<exists>e'. encode str trace e = Throws RangeError e')"
proof -
  let ?e = "e\<lparr>e_count := e_count e + 1\<rparr>"
  have tw: "encode_trace str trace ?e = trace_writer str (e_native e) trace ?e"
    by (simp add: encode_trace_def trace_writer_def)
  have ok: "enc_ok ?e" "out ?e = out e" using assms(1) by (simp_all add: queued_def enc_ok_def out_def)
  obtain bs where bs: "writes_out (trace_writer str (e_native e) trace) () bs"
    "length bs \<le> MAX_SIZE \<longrightarrow> wires [trace_mp str (e_native e) trace] bs"
    using sends_trace [OF assms(2)] unfolding sends_def by blast
  from bs(1) ok(1) show ?thesis
  proof (cases rule: writes_out_cases)
    case (returns e')
    then have "length bs \<le> MAX_SIZE" using enc_ok_max [of e'] by simp
    then have "wires (ts @ [trace_mp str (e_native e) trace]) (out e')"
      using returns(2) bs(2) ok(2) assms(1) wires_append by (simp add: queued_def)
    then have "queued e' (ts @ [trace_mp str (e_native e) trace])"
      using returns(3,4) assms(1) by (simp add: queued_def same_setup_def)
    then show ?thesis using returns(1,3) tw
      by (simp add: encode_def over_limit_def same_setup_def)
  next
    case (throws er e')
    then obtain e2 where "enc_reset e' = Returns () e2" "queued e2 []" "e_limit e2 = e_limit e" "e_native e2 = e_native e"
      using enc_reset_ok [of e'] by (auto simp: same_setup_def)
    then show ?thesis using throws(1,2) tw
      by (auto simp: encode_def cap_error_def OverflowError_def seq_def bind_def ret_def)
  qed
qed

text \<open>The payload is an array of the queued traces, and the queue is empty afterwards.\<close>

lemma payload_of_queue:
  assumes "queued e ts"
  shows "\<exists>payload e'. makePayload e = Returns payload e' \<and> mp_decode payload = Some (MArr ts) \<and>
    queued e' [] \<and> e_limit e' = e_limit e \<and> e_native e' = e_native e"
proof -
  have "enc_ok e" "wires ts (out e)" "e_count e = length ts" using assms by (simp_all add: queued_def)
  then have "mp_decode (writeTraces e) = Some (MArr ts)"
    using wire_array [of ts "out e"] enc_ok_max by (intro mp_decode_wire) (simp add: writeTraces_def out_def del: be_bytes.simps)
  then show ?thesis using enc_reset_ok [OF \<open>enc_ok e\<close>]
    by (auto simp: makePayload_def seq_def bind_def ret_def)
qed

lemma new_encoder_queued:
  "\<exists>e. new_AgentEncoder limit native = Returns () e \<and> queued e [] \<and> e_limit e = limit \<and> e_native e = native"
proof -
  let ?e = "\<lparr>e_limit = limit, e_native = native, e_count = 0, e_bytes = new_chunk DEFAULT_MIN_SIZE,
       e_stringCount = 0, e_strings = new_chunk DEFAULT_MIN_SIZE, e_map = []\<rparr>"
  have "chunk_ok (new_chunk DEFAULT_MIN_SIZE)"
    by (rule chunk_ok_new) (simp_all add: DEFAULT_MIN_SIZE_def MAX_SIZE_def)
  then have "enc_ok ?e" by (simp add: enc_ok_def)
  from enc_reset_ok [OF this] show ?thesis by (simp add: new_AgentEncoder_def)
qed


fun encode_traces :: "(jsval \<Rightarrow> string) \<Rightarrow> formatted_span list list \<Rightarrow> unit enc" where
  "encode_traces str [] = ret ()"
| "encode_traces str (t # ts) = bind (encode str t) (\<lambda>_. encode_traces str ts)"

text \<open>Encoding several traces keeps the last of them queued, or ends with the error of a too long string.\<close>

lemma encode_traces_queue:
  assumes "queued e (map (trace_mp str native) done)" "e_native e = native"
    "list_all (trace_ok str native) traces"
  shows "(\<exists>e' rest. encode_traces str traces e = Returns () e' \<and> suffix rest (done @ traces) \<and>
      queued e' (map (trace_mp str native) rest)) \<or>
    (\<exists>e'. encode_traces str traces e = Throws RangeError e')"
  using assms
proof (induction traces arbitrary: e "done")
  case Nil
  then show ?case by (auto simp: ret_def)
next
  case (Cons t ts)
  have ok: "trace_ok str (e_native e) t" using Cons.prems by simp
  from encode_queues [OF Cons.prems(1) ok]
  consider b e1 where "encode str t e = Returns b e1" "queued e1 (map (trace_mp str native) (done @ [t]))" "e_native e1 = native"
    | b e1 where "encode str t e = Returns b e1" "queued e1 []" "e_native e1 = native"
    | e1 where "encode str t e = Throws RangeError e1"
    using Cons.prems(2) by auto
  then show ?case
  proof cases
    case (1 b e1)
    then show ?thesis using Cons.IH [of e1 "done @ [t]"] Cons.prems(3) by (simp add: bind_def)
  next
    case (2 b e1)
    have "suffix ts (done @ t # ts)" by (simp add: suffix_def)
    moreover have "(\<exists>e' rest. encode_traces str ts e1 = Returns () e' \<and> suffix rest ts \<and>
        queued e' (map (trace_mp str native) rest)) \<or> (\<exists>e'. encode_traces str ts e1 = Throws RangeError e')"
      using Cons.IH [of e1 "[]"] Cons.prems(3) 2 by simp
    ultimately show ?thesis using 2(1) by (auto simp: bind_def intro: suffix_order.trans)
  next
    case 3
    then show ?thesis by (simp add: bind_def)
  qed
qed

lemma suffix_drop: "suffix rest xs \<Longrightarrow> rest = drop (length xs - length rest) xs"
  by (auto simp: suffix_def)

text \<open>
  C21: A fresh encoder takes any traces; its payload is read back as the maps of their spans, field
  by field, tag by tag, event by event. The payload has the traces the encoder counts, which are
  the last ones (all of them, unless the cap was exceeded on the way). The only error is that of
  a string of four gigabytes.
\<close>

theorem payload_roundtrip:
  assumes "list_all (trace_ok str native) traces"
  shows "\<exists>e0. new_AgentEncoder limit native = Returns () e0 \<and>
    (case encode_traces str traces e0 of
       Returns _ e1 \<Rightarrow>
         e_count e1 \<le> length traces \<and>
         (\<exists>payload e2. makePayload e1 = Returns payload e2 \<and> e_count e2 = 0 \<and>
            mp_decode payload =
              Some (MArr (map (trace_mp str native) (drop (length traces - e_count e1) traces))))
     | Throws er _ \<Rightarrow> er = RangeError
     | Runs_on \<Rightarrow> False)"
proof -
  obtain e0 where e0: "new_AgentEncoder limit native = Returns () e0" "queued e0 (map (trace_mp str native) [])"
    "e_native e0 = native"
    using new_encoder_queued [of limit native] by auto
  from encode_traces_queue [OF e0(2,3) assms] show ?thesis
  proof (elim disjE exE conjE)
    fix e1 rest
    assume e1: "encode_traces str traces e0 = Returns () e1" and rest: "suffix rest ([] @ traces)"
      and q: "queued e1 (map (trace_mp str native) rest)"
    then have count: "e_count e1 = length rest" by (simp add: queued_def)
    have "rest = drop (length traces - length rest) traces" using rest by (intro suffix_drop) simp
    moreover have "length rest \<le> length traces" using suffix_length_le [OF rest] by simp
    ultimately show ?thesis using payload_of_queue [OF q] e0(1) e1 count by (auto simp: queued_def)
  qed (use e0 in auto)
qed

definition demo_span :: formatted_span where
  "demo_span =
     \<lparr>f_trace_id = [0, 0, 0, 0, 0, 0, 0, 7], f_span_id = Some [0, 0, 0, 0, 0, 0, 0, 9], f_parent_id = zeroId,
      f_name = ''web'', f_resource = ''/'', f_service = Some ''shop'', f_type = None, f_error = 1,
      f_meta = [(''k'', ''v'')], f_meta_struct = JUndef, f_metrics = [(''n'', JNum (Fin 300))],
      f_start = 2 ^ 40, f_duration = Fin 5, f_span_events = None\<rparr>"

lemma demo_ok: "trace_ok str True [demo_span]"
  using is_double_int [of 300] is_double_int [of 5]
  by (simp add: trace_ok_def format_for_def span_ok_def demo_span_def normalizeSpan_def Let_def sendable_def tag_ok_def is_js_number_def)

theorem payload_roundtrip_witness:
  "\<exists>e0. new_AgentEncoder 8388608 True = Returns () e0 \<and>
    (case encode_traces (\<lambda>_. []) [[demo_span]] e0 of
       Returns _ e1 \<Rightarrow>
         e_count e1 \<le> length [[demo_span]] \<and>
         (\<exists>payload e2. makePayload e1 = Returns payload e2 \<and> e_count e2 = 0 \<and>
            mp_decode payload =
              Some (MArr (map (trace_mp (\<lambda>_. []) True) (drop (length [[demo_span]] - e_count e1) [[demo_span]]))))
     | Throws er _ \<Rightarrow> er = RangeError
     | Runs_on \<Rightarrow> False)"
proof -
  have "list_all (trace_ok (\<lambda>_. []) True) [[demo_span]]" using demo_ok by simp
  from payload_roundtrip [OF this, of 8388608] show ?thesis .
qed

end
