(* ===== verification/Exporter.thy ===== *)
theory Exporter
  imports AgentWire
begin

text \<open>
  The way of a trace to the agent (\<open>exporters/agent/index.js\<close>, \<open>exporters/common/writer.js\<close>):
  the exporter appends finished traces to its writer, which encodes them; a flush hands the payload
  over to the request. Flushing happens at once (interval 0), when a timer fires, when the encoder
  is over its soft limit, or on demand. Whether requests are accepted (\<open>request.writable\<close>) is an
  argument of every operation that reads it. What \<open>_sendPayload\<close> was given is recorded.

  Callbacks, logs, the notification before the first flush and flushes with a deadline are left
  out.
\<close>

record writer =
  w_encoder :: encoder
  w_sent :: "(byte list \<times> nat) list"

definition drop_queue :: "writer \<Rightarrow> writer outcome" where
  "drop_queue w = (case enc_reset (w_encoder w) of
      Returns _ e \<Rightarrow> Done (w\<lparr>w_encoder := e\<rparr>)
    | Throws er e \<Rightarrow> Raised er (w\<lparr>w_encoder := e\<rparr>)
    | Runs_on \<Rightarrow> Loops)"

definition writer_flush :: "bool \<Rightarrow> writer \<Rightarrow> writer outcome" where
  "writer_flush writable w =
     (let count = e_count (w_encoder w)
      in if \<not> writable then drop_queue w
         else if 0 < count then
           (case makePayload (w_encoder w) of
              Returns payload e \<Rightarrow> Done (w\<lparr>w_encoder := e, w_sent := w_sent w @ [(payload, count)]\<rparr>)
            | Throws er e \<Rightarrow>
                (if er = OverflowError then drop_queue (w\<lparr>w_encoder := e\<rparr>) else Raised er (w\<lparr>w_encoder := e\<rparr>))
            | Runs_on \<Rightarrow> Loops)
         else Done w)"

text \<open>
  \<open>rd 0\<close> is read when a trace is appended, \<open>rd 1\<close> when the encoder asks for a flush, \<open>rd 2\<close> by
  the flush that follows an export.
\<close>

definition writer_append ::
  "(nat \<Rightarrow> bool) \<Rightarrow> (jsval \<Rightarrow> string) \<Rightarrow> formatted_span list \<Rightarrow> writer \<Rightarrow> writer outcome" where
  "writer_append rd str payload w =
     (if \<not> rd 0 then Done w
      else case encode str payload (w_encoder w) of
             Returns over e \<Rightarrow>
               (let w = w\<lparr>w_encoder := e\<rparr> in if over then writer_flush (rd 1) w else Done w)
           | Throws er e \<Rightarrow> Raised er (w\<lparr>w_encoder := e\<rparr>)
           | Runs_on \<Rightarrow> Loops)"

record exporter =
  x_writer :: writer
  x_timer :: bool
  x_flushInterval :: nat

definition on_writer :: "(writer \<Rightarrow> writer outcome) \<Rightarrow> exporter \<Rightarrow> exporter outcome" where
  "on_writer f x = (case f (x_writer x) of
      Done w \<Rightarrow> Done (x\<lparr>x_writer := w\<rparr>)
    | Raised er w \<Rightarrow> Raised er (x\<lparr>x_writer := w\<rparr>)
    | Loops \<Rightarrow> Loops)"

definition new_AgentExporter :: "nat \<Rightarrow> encoder \<Rightarrow> exporter" where
  "new_AgentExporter flushInterval e =
     \<lparr>x_writer = \<lparr>w_encoder = e, w_sent = []\<rparr>, x_timer = False, x_flushInterval = flushInterval\<rparr>"

definition export ::
  "(nat \<Rightarrow> bool) \<Rightarrow> (jsval \<Rightarrow> string) \<Rightarrow> formatted_span list \<Rightarrow> exporter \<Rightarrow> exporter outcome" where
  "export rd str spans =
     and_then (on_writer (writer_append rd str spans))
       (\<lambda>x. if x_flushInterval x = 0 then on_writer (writer_flush (rd 2)) x
            else Done (x\<lparr>x_timer := True\<rparr>))"

text \<open>The callback of the timer, and the flush the application asks for\<close>

definition timer_fires :: "bool \<Rightarrow> exporter \<Rightarrow> exporter outcome" where
  "timer_fires writable = and_then (on_writer (writer_flush writable)) (\<lambda>x. Done (x\<lparr>x_timer := False\<rparr>))"

definition exporter_flush :: "bool \<Rightarrow> exporter \<Rightarrow> exporter outcome" where
  "exporter_flush writable x = on_writer (writer_flush writable) (x\<lparr>x_timer := False\<rparr>)"


subsection \<open>Runs\<close>

datatype x_op = Export "nat \<Rightarrow> bool" "formatted_span list" | Timer bool | Flush bool

definition x_run :: "(jsval \<Rightarrow> string) \<Rightarrow> x_op \<Rightarrow> exporter \<Rightarrow> exporter outcome" where
  "x_run str op = (case op of
      Export rd spans \<Rightarrow> export rd str spans
    | Timer writable \<Rightarrow> timer_fires writable
    | Flush writable \<Rightarrow> exporter_flush writable)"

fun x_runs :: "(jsval \<Rightarrow> string) \<Rightarrow> x_op list \<Rightarrow> exporter \<Rightarrow> exporter outcome" where
  "x_runs str [] = Done"
| "x_runs str (op # ops) = and_then (x_run str op) (x_runs str ops)"

definition x_encoder :: "exporter \<Rightarrow> encoder" where
  "x_encoder x = w_encoder (x_writer x)"

text \<open>
  The traces of a run; \<open>delivered x ds q\<close>: the payloads handed over are read back as the lists
  \<open>ds\<close> of traces, each with its count, and \<open>q\<close> is queued.
\<close>

definition given_traces :: "x_op list \<Rightarrow> formatted_span list list" where
  "given_traces ops = concat (map (\<lambda>op. case op of Export rd spans \<Rightarrow> [spans] | _ \<Rightarrow> []) ops)"

definition delivered :: "writer \<Rightarrow> mp list list \<Rightarrow> mp list \<Rightarrow> bool" where
  "delivered w ds q \<longleftrightarrow>
     list_all2 (\<lambda>(payload, count) d. mp_decode payload = Some (MArr d) \<and> count = length d) (w_sent w) ds \<and>
     queued (w_encoder w) q"

definition same_config :: "writer \<Rightarrow> writer \<Rightarrow> bool" where
  "same_config w w' \<longleftrightarrow> e_limit (w_encoder w') = e_limit (w_encoder w) \<and> e_native (w_encoder w') = e_native (w_encoder w)"

lemma drop_queue_empties:
  assumes "delivered w ds q"
  shows "\<exists>w'. drop_queue w = Done w' \<and> delivered w' ds [] \<and> same_config w w'"
proof -
  have "enc_ok (w_encoder w)" using assms by (simp add: delivered_def queued_def)
  from enc_reset_ok [OF this] show ?thesis
    using assms by (auto simp: drop_queue_def delivered_def same_config_def)
qed

lemma flush_delivers:
  assumes "delivered w ds q"
  shows "\<exists>w'. writer_flush writable w = Done w' \<and> same_config w w' \<and>
    delivered w' (if writable \<and> q \<noteq> [] then ds @ [q] else ds) []"
proof -
  have count: "e_count (w_encoder w) = length q" and q: "queued (w_encoder w) q"
    using assms by (simp_all add: delivered_def queued_def)
  show ?thesis
  proof (cases "writable \<and> q \<noteq> []")
    case True
    obtain payload e' where "makePayload (w_encoder w) = Returns payload e'" "mp_decode payload = Some (MArr q)"
      "queued e' []" "e_limit e' = e_limit (w_encoder w)" "e_native e' = e_native (w_encoder w)"
      using payload_of_queue [OF q] by auto
    then show ?thesis using True assms count
      by (auto simp: writer_flush_def delivered_def same_config_def intro!: list_all2_appendI)
  next
    case False
    then show ?thesis using drop_queue_empties [OF assms] assms count
      by (auto simp: writer_flush_def same_config_def)
  qed
qed


text \<open>What a step may do with the traces: keep all of them, or drop some of the queue or the new one\<close>

definition taken_over :: "(jsval \<Rightarrow> string) \<Rightarrow> formatted_span list \<Rightarrow> encoder \<Rightarrow> bool" where
  "taken_over str trace e =
     (case encode_trace str trace (e\<lparr>e_count := e_count e + 1\<rparr>) of Returns _ e1 \<Rightarrow> True | _ \<Rightarrow> False)"

definition accounts :: "bool \<Rightarrow> writer \<Rightarrow> writer \<Rightarrow> mp list \<Rightarrow> bool" where
  "accounts lossless w w' ts \<longleftrightarrow> same_config w w' \<and>
     (\<forall>ds q. delivered w ds q \<longrightarrow>
       (\<exists>ds' q'. delivered w' ds' q' \<and> subseq (concat ds' @ q') (concat ds @ q @ ts) \<and>
          (lossless \<longrightarrow> concat ds' @ q' = concat ds @ q @ ts)))"

lemma accounts_trans:
  assumes "accounts a w w1 ts" "accounts b w1 w2 us"
  shows "accounts (a \<and> b) w w2 (ts @ us)"
  unfolding accounts_def
proof (intro conjI allI impI)
  show "same_config w w2" using assms by (simp add: accounts_def same_config_def)
  fix ds q assume "delivered w ds q"
  then obtain ds1 q1 where 1: "delivered w1 ds1 q1" "subseq (concat ds1 @ q1) (concat ds @ q @ ts)"
    "a \<longrightarrow> concat ds1 @ q1 = concat ds @ q @ ts"
    using assms(1) unfolding accounts_def by blast
  then obtain ds2 q2 where 2: "delivered w2 ds2 q2" "subseq (concat ds2 @ q2) (concat ds1 @ q1 @ us)"
    "b \<longrightarrow> concat ds2 @ q2 = concat ds1 @ q1 @ us"
    using assms(2) unfolding accounts_def by blast
  have "subseq (concat ds1 @ q1 @ us) (concat ds @ q @ ts @ us)"
    using list_emb_append_mono [OF 1(2), of us us] by simp
  then have "subseq (concat ds2 @ q2) (concat ds @ q @ ts @ us)" by (rule subseq_order.trans [OF 2(2)])
  then show "\<exists>ds' q'. delivered w2 ds' q' \<and> subseq (concat ds' @ q') (concat ds @ q @ ts @ us) \<and>
      (a \<and> b \<longrightarrow> concat ds' @ q' = concat ds @ q @ ts @ us)"
    using 1 2 by (intro exI [of _ ds2] exI [of _ q2]) auto
qed

definition live :: "writer \<Rightarrow> bool" where
  "live w \<longleftrightarrow> (\<exists>ds q. delivered w ds q)"

lemma flush_accounts:
  assumes "live w"
  shows "\<exists>w'. writer_flush writable w = Done w' \<and> live w' \<and> accounts writable w w' [] \<and> e_count (w_encoder w') = 0"
proof -
  obtain ds q where "delivered w ds q" using assms by (auto simp: live_def)
  then obtain w' where w': "writer_flush writable w = Done w'" "same_config w w'"
    "delivered w' (if writable \<and> q \<noteq> [] then ds @ [q] else ds) []"
    using flush_delivers by blast
  have "accounts writable w w' []"
    unfolding accounts_def
  proof (intro conjI allI impI w'(2))
    fix es p assume "delivered w es p"
    then have "delivered w' (if writable \<and> p \<noteq> [] then es @ [p] else es) []"
      using flush_delivers [of w es p writable] w'(1) by auto
    moreover have "subseq (concat (if writable \<and> p \<noteq> [] then es @ [p] else es) @ []) (concat es @ p @ [])"
      by (simp add: subseq_rev_drop_many)
    moreover have "writable \<longrightarrow> concat (if writable \<and> p \<noteq> [] then es @ [p] else es) @ [] = concat es @ p @ []" by simp
    ultimately show "\<exists>ds' q'. delivered w' ds' q' \<and> subseq (concat ds' @ q') (concat es @ p @ []) \<and>
        (writable \<longrightarrow> concat ds' @ q' = concat es @ p @ [])" by blast
  qed
  moreover have "e_count (w_encoder w') = 0" using w'(3) by (simp add: delivered_def queued_def)
  ultimately show ?thesis using w' by (auto simp: live_def)
qed


lemma append_accounts:
  assumes "live w" "trace_ok str (e_native (w_encoder w)) t"
  shows "(\<exists>w'. writer_append rd str t w = Done w' \<and> live w' \<and>
      accounts (rd 0 \<and> rd 1 \<and> taken_over str t (w_encoder w)) w w' [trace_mp str (e_native (w_encoder w)) t]) \<or>
    (\<exists>w'. writer_append rd str t w = Raised RangeError w')"
proof (cases "rd 0")
  case False
  have "accounts False w w [trace_mp str (e_native (w_encoder w)) t]"
    unfolding accounts_def same_config_def
    by (auto intro: subseq_rev_drop_many [OF subseq_order.order_refl] simp flip: append_assoc)
  then show ?thesis using False assms(1) by (auto simp: writer_append_def)
next
  case True
  let ?t = "trace_mp str (e_native (w_encoder w)) t"
  let ?enc = "encode str t (w_encoder w)"
  obtain ds q where d: "delivered w ds q" using assms(1) by (auto simp: live_def)
  have q: "queued (w_encoder w) p" if "delivered w es p" for es p using that by (simp add: delivered_def)
  show ?thesis
  proof (cases ?enc)
    case (Throws er e')
    then have "er = RangeError" using encode_queues [OF q [OF d] assms(2)] by auto
    then show ?thesis using True Throws by (simp add: writer_append_def)
  next
    case Runs_on
    then show ?thesis using encode_queues [OF q [OF d] assms(2)] by auto
  next
    case (Returns over e')
    let ?w = "w\<lparr>w_encoder := e'\<rparr>"
    have after: "(queued e' (p @ [?t]) \<or> queued e' [] \<and> \<not> taken_over str t (w_encoder w)) \<and> same_config w ?w"
      if "delivered w es p" for es p
      using encode_queues [OF q [OF that] assms(2)] Returns
      by (auto simp: taken_over_def same_config_def)
    have acc: "accounts (taken_over str t (w_encoder w)) w ?w [?t]"
      unfolding accounts_def
    proof (intro conjI allI impI)
      show "same_config w ?w" using after d by blast
      fix es p assume es: "delivered w es p"
      from after [OF es] show "\<exists>ds' q'. delivered ?w ds' q' \<and> subseq (concat ds' @ q') (concat es @ p @ [?t]) \<and>
          (taken_over str t (w_encoder w) \<longrightarrow> concat ds' @ q' = concat es @ p @ [?t])"
      proof (elim conjE disjE)
        assume "queued e' (p @ [?t])"
        then show ?thesis using es by (intro exI [of _ es] exI [of _ "p @ [?t]"]) (simp add: delivered_def)
      next
        assume "queued e' []" "\<not> taken_over str t (w_encoder w)"
        then show ?thesis using es
          by (intro exI [of _ es] exI [of _ "[]"]) (simp add: delivered_def subseq_rev_drop_many)
      qed
    qed
    have "live ?w" using acc d unfolding accounts_def live_def by blast
    then obtain w2 where w2: "writer_flush (rd 1) ?w = Done w2" "live w2" "accounts (rd 1) ?w w2 []"
      using flush_accounts [of ?w "rd 1"] by blast
    have weaken: "accounts b w v ts \<Longrightarrow> (a \<longrightarrow> b) \<Longrightarrow> accounts a w v ts" for a b v ts
      unfolding accounts_def by blast
    have "writer_append rd str t w = (if over then Done w2 else Done ?w)"
      using True Returns w2(1) by (simp add: writer_append_def Let_def)
    then show ?thesis
      using acc accounts_trans [OF acc w2(3)] \<open>live ?w\<close> w2(2) True
      by (cases over) (auto intro: weaken)
  qed
qed

definition taken :: "(jsval \<Rightarrow> string) \<Rightarrow> x_op \<Rightarrow> exporter \<Rightarrow> bool" where
  "taken str op x = (case op of
      Export rd t \<Rightarrow> rd 0 \<and> rd 1 \<and> rd 2 \<and> taken_over str t (x_encoder x)
    | Timer writable \<Rightarrow> writable
    | Flush writable \<Rightarrow> writable)"

fun all_taken :: "(jsval \<Rightarrow> string) \<Rightarrow> x_op list \<Rightarrow> exporter \<Rightarrow> bool" where
  "all_taken str [] x = True"
| "all_taken str (op # ops) x =
     (taken str op x \<and> (case x_run str op x of Done x' \<Rightarrow> all_taken str ops x' | _ \<Rightarrow> True))"

text \<open>The timer is set whenever traces wait.\<close>

definition waiting_ok :: "exporter \<Rightarrow> bool" where
  "waiting_ok x \<longleftrightarrow> live (x_writer x) \<and> (0 < e_count (x_encoder x) \<longrightarrow> x_timer x \<and> 0 < x_flushInterval x)"

lemma run_accounts:
  assumes "waiting_ok x" "list_all (trace_ok str (e_native (x_encoder x))) (given_traces [op])"
  shows "(\<exists>x'. x_run str op x = Done x' \<and> waiting_ok x' \<and> x_flushInterval x' = x_flushInterval x \<and>
      accounts (taken str op x) (x_writer x) (x_writer x')
        (map (trace_mp str (e_native (x_encoder x))) (given_traces [op]))) \<or>
    (\<exists>x'. x_run str op x = Raised RangeError x')"
proof -
  have live: "live (x_writer x)" using assms(1) by (simp add: waiting_ok_def)
  show ?thesis
  proof (cases op)
    case (Export rd t)
    have "trace_ok str (e_native (w_encoder (x_writer x))) t"
      using assms(2) Export by (simp add: given_traces_def x_encoder_def)
    from append_accounts [OF live this, of rd] show ?thesis
    proof (elim disjE exE conjE)
      fix w1 assume w1: "writer_append rd str t (x_writer x) = Done w1" "live w1"
        "accounts (rd 0 \<and> rd 1 \<and> taken_over str t (w_encoder (x_writer x))) (x_writer x) w1
          [trace_mp str (e_native (w_encoder (x_writer x))) t]"
      obtain w2 where w2: "writer_flush (rd 2) w1 = Done w2" "live w2" "accounts (rd 2) w1 w2 []" "e_count (w_encoder w2) = 0"
        using flush_accounts [OF w1(2)] by blast
      have weaken: "accounts b w v ts \<Longrightarrow> (a \<longrightarrow> b) \<Longrightarrow> accounts a w v ts" for a b w v ts
        unfolding accounts_def by blast
      have "accounts (taken str op x) (x_writer x) w1 [trace_mp str (e_native (x_encoder x)) t]"
        "accounts (taken str op x) (x_writer x) w2 [trace_mp str (e_native (x_encoder x)) t]"
        using weaken [OF w1(3)] weaken [OF accounts_trans [OF w1(3) w2(3)]] Export
        by (simp_all add: taken_def x_encoder_def)
      then show ?thesis using Export w1(1,2) w2
        by (simp add: x_run_def export_def and_then_def on_writer_def waiting_ok_def x_encoder_def given_traces_def)
    next
      fix w1 assume "writer_append rd str t (x_writer x) = Raised RangeError w1"
      then show ?thesis using Export by (simp add: x_run_def export_def and_then_def on_writer_def)
    qed
  next
    case (Timer writable)
    then show ?thesis using flush_accounts [OF live, of writable]
      by (auto simp: x_run_def timer_fires_def and_then_def on_writer_def waiting_ok_def x_encoder_def given_traces_def taken_def)
  next
    case (Flush writable)
    then show ?thesis using flush_accounts [OF live, of writable]
      by (auto simp: x_run_def exporter_flush_def on_writer_def waiting_ok_def x_encoder_def given_traces_def taken_def)
  qed
qed

lemma given_traces_Nil [simp]: "given_traces [] = []"
  by (simp add: given_traces_def)

lemma given_traces_Cons: "given_traces (op # ops) = given_traces [op] @ given_traces ops"
  by (simp add: given_traces_def)

lemma runs_account:
  assumes "waiting_ok x" "list_all (trace_ok str native) (given_traces ops)" "e_native (x_encoder x) = native"
  shows "(\<exists>x'. x_runs str ops x = Done x' \<and> waiting_ok x' \<and> x_flushInterval x' = x_flushInterval x \<and>
      accounts (all_taken str ops x) (x_writer x) (x_writer x') (map (trace_mp str native) (given_traces ops))) \<or>
    (\<exists>x'. x_runs str ops x = Raised RangeError x')"
  using assms
proof (induction ops arbitrary: x)
  case Nil
  then show ?case by (auto simp: accounts_def same_config_def)
next
  case (Cons op ops)
  have ok: "list_all (trace_ok str (e_native (x_encoder x))) (given_traces [op])"
    "list_all (trace_ok str native) (given_traces ops)"
    using Cons.prems(2,3) by (simp_all add: given_traces_Cons [of op ops])
  from run_accounts [OF Cons.prems(1) ok(1)] show ?case
  proof (elim disjE exE conjE)
    fix x1 assume x1: "x_run str op x = Done x1" "waiting_ok x1" "x_flushInterval x1 = x_flushInterval x"
      and acc: "accounts (taken str op x) (x_writer x) (x_writer x1)
        (map (trace_mp str (e_native (x_encoder x))) (given_traces [op]))"
    have native: "e_native (x_encoder x1) = native"
      using acc Cons.prems(3) by (simp add: accounts_def same_config_def x_encoder_def)
    from Cons.IH [OF x1(2) ok(2) native] show ?thesis
    proof (elim disjE exE conjE)
      fix x2 assume x2: "x_runs str ops x1 = Done x2" "waiting_ok x2" "x_flushInterval x2 = x_flushInterval x1"
        and acc2: "accounts (all_taken str ops x1) (x_writer x1) (x_writer x2) (map (trace_mp str native) (given_traces ops))"
      from accounts_trans [OF acc acc2] show ?thesis
        using x1 x2 Cons.prems(3) by (simp add: and_then_def given_traces_Cons [of op ops])
    next
      fix x2 assume "x_runs str ops x1 = Raised RangeError x2"
      then show ?thesis using x1(1) by (simp add: and_then_def)
    qed
  next
    fix x1 assume "x_run str op x = Raised RangeError x1"
    then show ?thesis by (simp add: and_then_def)
  qed
qed

lemma new_exporter_ok:
  assumes "queued e0 []"
  shows "waiting_ok (new_AgentExporter interval e0)" "delivered (x_writer (new_AgentExporter interval e0)) [] []"
  using assms by (auto simp: waiting_ok_def live_def delivered_def new_AgentExporter_def x_encoder_def queued_def)

text \<open>
  C22: After any exports, timer events and flushes, the payloads handed to the request, read back,
  and the queue hold exported traces in order, each at most once, every payload with its count;
  when requests are accepted throughout and no trace exceeds the cap, they hold all of them.
\<close>

theorem exporter_delivers:
  assumes "list_all (trace_ok str native) (given_traces ops)"
  shows "\<exists>e0. new_AgentEncoder limit native = Returns () e0 \<and>
    (case x_runs str ops (new_AgentExporter interval e0) of
       Done x \<Rightarrow> \<exists>ds q. delivered (x_writer x) ds q \<and>
         subseq (concat ds @ q) (map (trace_mp str native) (given_traces ops)) \<and>
         (all_taken str ops (new_AgentExporter interval e0) \<longrightarrow>
            concat ds @ q = map (trace_mp str native) (given_traces ops))
     | Raised er _ \<Rightarrow> er = RangeError
     | Loops \<Rightarrow> False)"
proof -
  obtain e0 where e0: "new_AgentEncoder limit native = Returns () e0" "queued e0 []" "e_native e0 = native"
    using new_encoder_queued by blast
  let ?x = "new_AgentExporter interval e0"
  have "e_native (x_encoder ?x) = native" using e0(3) by (simp add: new_AgentExporter_def x_encoder_def)
  from runs_account [OF new_exporter_ok(1) [OF e0(2)] assms this] show ?thesis
  proof (elim disjE exE conjE)
    fix x assume x: "x_runs str ops ?x = Done x"
      and acc: "accounts (all_taken str ops ?x) (x_writer ?x) (x_writer x) (map (trace_mp str native) (given_traces ops))"
    show ?thesis
      using acc new_exporter_ok(2) [OF e0(2), of interval] e0(1) x unfolding accounts_def by fastforce
  next
    fix x assume "x_runs str ops ?x = Raised RangeError x"
    then show ?thesis using e0(1) by auto
  qed
qed

theorem exporter_delivers_witness:
  "\<exists>e0. new_AgentEncoder 8388608 True = Returns () e0 \<and>
    (case x_runs (\<lambda>_. []) [Export (\<lambda>_. True) [demo_span], Timer True] (new_AgentExporter 2000 e0) of
       Done x \<Rightarrow> \<exists>ds q. delivered (x_writer x) ds q \<and>
         subseq (concat ds @ q) (map (trace_mp (\<lambda>_. []) True)
           (given_traces [Export (\<lambda>_. True) [demo_span], Timer True])) \<and>
         (all_taken (\<lambda>_. []) [Export (\<lambda>_. True) [demo_span], Timer True] (new_AgentExporter 2000 e0) \<longrightarrow>
            concat ds @ q = map (trace_mp (\<lambda>_. []) True)
              (given_traces [Export (\<lambda>_. True) [demo_span], Timer True]))
     | Raised er _ \<Rightarrow> er = RangeError
     | Loops \<Rightarrow> False)"
proof -
  have "list_all (trace_ok (\<lambda>_. []) True) (given_traces [Export (\<lambda>_. True) [demo_span], Timer True])"
    using demo_ok by (simp add: given_traces_def)
  from exporter_delivers [OF this] show ?thesis .
qed



end
