(* ===== verification/Pipeline.thy ===== *)
theory Pipeline
  imports SpanProcessor Exporter
begin

text \<open>
  From the tags of spans to the wire: what formatting makes of a span whose numbers are numbers of
  JavaScript has the types the encoder relies on, so a chunk the processor exports is a trace the
  exporter delivers. Nothing here models code; the theory composes formatter, processor, encoder
  and exporter.
\<close>

lemma tags_ok_update: "tags_ok m \<Longrightarrow> tag_ok v \<Longrightarrow> tags_ok (AList.update k v m)"
  by (induction m) auto

definition numeric :: "formatted_span \<Rightarrow> bool" where
  "numeric f \<longleftrightarrow> tags_ok (f_metrics f) \<and> f_span_id f \<noteq> None \<and> sendable (f_duration f) \<and>
     pred_option (list_all event_ok) (f_span_events f)"

lemma sendable_simps [simp]:
  "sendable (int_num i)" "sendable NaN" "sendable PInf" "sendable NInf" "sendable (Fin 0)" "sendable (Fin 1)"
  by (simp_all add: sendable_def is_js_number_def is_int_num_def int_num_def)

lemma tag_ok_simps [simp]: "tag_ok (JNum n) = sendable n" "tag_ok (JStr s)" "tag_ok JUndef"
  by (simp_all add: tag_ok_def)

lemma doubles_tag_ok: "doubles_only v \<Longrightarrow> tag_ok v"
  by (cases v) (simp_all add: tag_ok_def sendable_def)

lemma doubles_member: "doubles_entries ps \<Longrightarrow> (k, v) \<in> set ps \<Longrightarrow> doubles_only v"
  by (induction ps) auto

lemma doubles_getp: "doubles_entries ps \<Longrightarrow> doubles_only (getp ps k)"
  using doubles_member by (fastforce simp: getp_def split: option.split dest: map_of_SomeD)

named_theorems numeric_rules \<open>operations of the formatter that keep the metrics numbers\<close>

lemma numeric_set [numeric_rules]:
  "numeric f \<Longrightarrow> numeric (set_meta k s f)"
  "numeric f \<Longrightarrow> tag_ok v \<Longrightarrow> numeric (set_metric k v f)"
  "numeric f \<Longrightarrow> numeric (writeErrorMeta str k v f)"
  by (simp_all add: numeric_def set_meta_def set_metric_def writeErrorMeta_def tags_ok_update)

lemma numeric_fields [numeric_rules, simp]:
  "numeric (f\<lparr>f_error := e\<rparr>) = numeric f" "numeric (f\<lparr>f_resource := r\<rparr>) = numeric f"
  "numeric (f\<lparr>f_service := s\<rparr>) = numeric f" "numeric (f\<lparr>f_type := s\<rparr>) = numeric f"
  by (simp_all add: numeric_def)

lemma numeric_events [numeric_rules]:
  "numeric f \<Longrightarrow> list_all event_ok evs \<Longrightarrow> numeric (f\<lparr>f_span_events := Some evs\<rparr>)"
  by (simp add: numeric_def)

lemma numeric_mixed:
  "doubles_only v \<Longrightarrow> tags_ok (snd st) \<Longrightarrow> tags_ok (snd (addMixedTag str key v nested st))"
proof (induction str key v nested st rule: addMixedTag.induct)
  case (1 str key v nested st)
  have step: "tags_ok (snd (fold (\<lambda>(k, v). addMixedTag str (key @ ''.'' @ k) v True) ps st))"
    if "doubles_entries ps" "\<And>k w s. (k, w) \<in> set ps \<Longrightarrow> doubles_only w \<Longrightarrow> tags_ok (snd s) \<Longrightarrow>
        tags_ok (snd (addMixedTag str (key @ ''.'' @ k) w True s))" for ps
    by (rule fold_preserves [where P = "\<lambda>s. tags_ok (snd s)"])
      (use that 1(4) doubles_member in auto)
  show ?case
  proof (cases v)
    case (JObj ps)
    have "tags_ok (snd (fold (\<lambda>(k, v). addMixedTag str (key @ ''.'' @ k) v True) ps st))" if "\<not> nested"
      by (rule step) (use 1(1) [OF JObj that] 1(3) JObj in auto)
    then show ?thesis using JObj 1(4) by (simp add: addMixedTag.simps)
  next
    case (JErr m n s' ps)
    have "tags_ok (snd (fold (\<lambda>(k, v). addMixedTag str (key @ ''.'' @ k) v True) ps st))" if "\<not> nested"
      by (rule step) (use 1(2) [OF JErr that] 1(3) JErr in auto)
    then show ?thesis using JErr 1(4) by (simp add: addMixedTag.simps)
  next
    case (JNum n)
    then show ?thesis using 1(3,4) doubles_tag_ok [of "JNum n"] by (simp add: addMixedTag.simps tags_ok_update)
  qed (use 1(4) in \<open>simp_all add: addMixedTag.simps tags_ok_update\<close>)
qed

lemma numeric_mixed_tag [numeric_rules]: "numeric f \<Longrightarrow> doubles_only v \<Longrightarrow> numeric (mixed_tag str k v f)"
  using numeric_mixed [of v "(f_meta f, f_metrics f)" str k False]
  by (auto simp: mixed_tag_def numeric_def split: prod.splits)

lemma numeric_on_string [numeric_rules]: "numeric f \<Longrightarrow> (\<And>s. numeric (g s)) \<Longrightarrow> numeric (on_string v g f)"
  by (cases v) (simp_all add: on_string_def)

lemma numeric_default_tag [numeric_rules]: "numeric f \<Longrightarrow> doubles_only v \<Longrightarrow> numeric (default_tag str tag v f)"
  using doubles_tag_ok [of v] by (cases v) (simp_all add: default_tag_def numeric_rules)

lemma numeric_extractError [numeric_rules]: "numeric f \<Longrightarrow> numeric (extractError str e f)"
  by (simp add: extractError_def Let_def numeric_rules)

lemma numeric_extract_tag:
  "doubles_entries tags \<Longrightarrow> numeric f \<Longrightarrow> numeric (extract_tag str name tags tag f)"
  using doubles_getp [of tags tag] unfolding extract_tag_def Let_def
  by (simp add: numeric_rules flag_metric_def)

lemma numeric_chunk_tag: "numeric f \<Longrightarrow> doubles_only (snd kv) \<Longrightarrow> numeric (chunk_tag str kv f)"
  by (cases kv) (auto simp: chunk_tag_def numeric_rules split: jsval.splits)

definition rate_ok :: "rat option \<Rightarrow> bool" where
  "rate_ok r = pred_option (\<lambda>x. sendable (Fin x)) r"

lemma numeric_opt_metric [numeric_rules]: "numeric f \<Longrightarrow> rate_ok r \<Longrightarrow> numeric (opt_metric k r f)"
  by (cases r) (simp_all add: opt_metric_def rate_ok_def numeric_rules)


subsection \<open>A formatted span\<close>

text \<open>
  The numbers of a span: in its tags, those of its trace, the rates of the decisions, the times
  and attributes of its events. (The formatter computes the duration, an integer or no number.)
\<close>

definition sampling_numbers :: "span_sampling \<Rightarrow> bool" where
  "sampling_numbers opt \<longleftrightarrow> sendable (Fin (ss_rate opt)) \<and> pred_option sendable (ss_max opt)"

definition span_numbers :: "heap \<Rightarrow> nat \<Rightarrow> bool" where
  "span_numbers h s \<longleftrightarrow>
     (let c = sp_ctx (h_spans h s); ctx = h_ctxs h c; t = trace_of h c
      in ctx_spanId ctx \<noteq> None \<and> doubles_entries (ctx_tags ctx) \<and> doubles_entries (t_tags t) \<and>
         rate_ok (t_rule_psr t) \<and> rate_ok (t_limit_psr t) \<and> rate_ok (t_agent_psr t) \<and>
         pred_option sampling_numbers (ctx_spanSampling ctx) \<and> list_all event_ok (sp_events (h_spans h s)))"

lemma to_nanos_sendable: "sendable (to_nanos n)"
  by (cases n) (simp_all add: to_nanos_def)

lemma doubles_update: "doubles_entries ps \<Longrightarrow> doubles_only v \<Longrightarrow> doubles_entries (AList.update k v ps)"
  by (induction ps) auto

lemma numeric_parts:
  assumes "span_numbers h s"
  shows "numeric (formatSpan str h s)"
    "numeric f \<Longrightarrow> numeric (extractSpanLinks h s f)"
    "numeric f \<Longrightarrow> numeric (extractSpanEvents h s f)"
    "numeric f \<Longrightarrow> numeric (extractRootTags h s f)"
    "numeric f \<Longrightarrow> numeric (extractChunkTags str h s processTags f)"
    "numeric f \<Longrightarrow> numeric (setSingleSpanIngestionTags (ctx_spanSampling (h_ctxs h (sp_ctx (h_spans h s)))) f)"
proof -
  let ?c = "sp_ctx (h_spans h s)"
  have ok: "ctx_spanId (h_ctxs h ?c) \<noteq> None" "doubles_entries (t_tags (trace_of h ?c))"
    "rate_ok (t_rule_psr (trace_of h ?c))" "rate_ok (t_limit_psr (trace_of h ?c))" "rate_ok (t_agent_psr (trace_of h ?c))"
    "pred_option sampling_numbers (ctx_spanSampling (h_ctxs h ?c))" "list_all event_ok (sp_events (h_spans h s))"
    using assms by (simp_all add: span_numbers_def Let_def)
  show "numeric (formatSpan str h s)"
    using ok(1) by (simp add: numeric_def formatSpan_def Let_def to_nanos_sendable)
  show "numeric f \<Longrightarrow> numeric (extractSpanLinks h s f)"
    by (simp add: extractSpanLinks_def Let_def numeric_rules)
  show "numeric f \<Longrightarrow> numeric (extractSpanEvents h s f)"
    using ok(7) by (simp add: extractSpanEvents_def numeric_rules)
  show "numeric f \<Longrightarrow> numeric (extractRootTags h s f)"
    using ok(3,4,5) by (simp add: extractRootTags_def Let_def numeric_rules)
  show "numeric (setSingleSpanIngestionTags (ctx_spanSampling (h_ctxs h ?c)) f)" if "numeric f"
    using ok(6) that
    by (auto simp: setSingleSpanIngestionTags_def Let_def numeric_rules sampling_numbers_def split: option.splits)
  show "numeric (extractChunkTags str h s processTags f)" if "numeric f"
    unfolding extractChunkTags_def
  proof (rule fold_preserves [where P = numeric])
    show "numeric (chunk_tag str kv g)" if "kv \<in> set (t_tags (trace_of h ?c))" "numeric g" for kv g
      using that ok(2) doubles_member [of _ "fst kv" "snd kv"] by (intro numeric_chunk_tag) auto
  qed (use that in \<open>auto simp: numeric_rules split: option.splits\<close>)
qed

lemma span_numbers_base: "span_numbers h s \<Longrightarrow> span_numbers (base_tagged s' h) s"
  by (auto simp: span_numbers_def base_tagged_def Let_def ctx_setTag_def doubles_update)

lemma numeric_closing [numeric_rules]: "numeric f \<Longrightarrow> numeric (closing_tags pid sampling trace ctx f)"
  by (simp add: closing_tags_def Let_def numeric_rules split: option.splits)

lemma span_format_numeric:
  assumes "span_format str pid s isFirst processTags (es, h) = Inr (es', h', f)" "span_numbers h s"
  shows "numeric f"
proof -
  let ?c = "sp_ctx (h_spans h s)"
  let ?f = "extractRootTags h s (extractSpanEvents h s (extractSpanLinks h s (formatSpan str h s)))"
  let ?g = "if isFirst then extractChunkTags str h s processTags ?f else ?f"
  have g: "numeric ?g" using numeric_parts [OF assms(2)] by simp
  have r: "sf_extractTags str pid s (es, h, ?g) = Inr (es', h', f)"
    using assms(1) by (simp add: span_format_def Let_def)
  have h': "h' = base_tagged s h" by (rule sf_extractTags_ok(1) [OF r])
  have tags: "doubles_entries (ctx_tags (h_ctxs h' ?c))"
    using span_numbers_base [OF assms(2), of s] base_tagged_life [of h s]
    by (simp add: h' span_numbers_def Let_def same_life_def)
  let ?k = "getp (ctx_tags (h_ctxs h ?c)) ''span.kind''"
  let ?m = "if truthy ?k \<and> ?k \<noteq> JStr ''internal'' then set_metric MEASURED (JNum (Fin 1)) ?g else ?g"
  have m: "numeric ?m" using g by (simp add: numeric_rules)
  have "numeric (fold (extract_tag str (ctx_name (h_ctxs h ?c)) (ctx_tags (h_ctxs h' ?c)))
      (tag_names (ctx_tags (h_ctxs h' ?c))) ?m)"
    by (rule fold_preserves [where P = numeric]) (use m numeric_extract_tag [OF tags] in auto)
  then have "numeric (closing_tags pid (sampling_of h ?c) (trace_of h ?c) (h_ctxs h ?c)
      (setSingleSpanIngestionTags (ctx_spanSampling (h_ctxs h ?c))
        (fold (extract_tag str (ctx_name (h_ctxs h ?c)) (ctx_tags (h_ctxs h' ?c)))
          (tag_names (ctx_tags (h_ctxs h' ?c))) ?m)))"
    by (intro numeric_closing numeric_parts(6) [OF assms(2)])
  moreover have "f = closing_tags pid (sampling_of h ?c) (trace_of h ?c) (h_ctxs h ?c)
      (setSingleSpanIngestionTags (ctx_spanSampling (h_ctxs h ?c))
        (fold (extract_tag str (ctx_name (h_ctxs h ?c)) (ctx_tags (h_ctxs h' ?c)))
          (tag_names (ctx_tags (h_ctxs h' ?c))) ?m))"
    using r by (auto simp: sf_extractTags_def Let_def try_then_eq_Inr split: if_splits)
  ultimately show ?thesis by simp
qed


subsection \<open>A chunk\<close>

lemma tags_ok_filter: "tags_ok m \<Longrightarrow> tags_ok (filter P m)"
  by (induction m) auto

lemma tags_ok_put_some: "tags_ok m \<Longrightarrow> pred_option tag_ok v \<Longrightarrow> tags_ok (put_some k v m)"
  by (cases v) (simp_all add: put_some_def tags_ok_update)

lemma tags_ok_getp: "tags_ok m \<Longrightarrow> tag_ok (getp m k)"
  by (induction m) (auto simp: getp_def)

lemma tags_ok_otel:
  assumes "tags_ok (f_metrics f)"
  shows "tags_ok (snd (otel_parts new_URL f))"
proof -
  have n: "pred_option tag_ok (map_option (\<lambda>n. JNum (int_num n)) x)" for x by (cases x) simp_all
  show ?thesis using assms n
    by (auto simp: otel_parts_def otel_server_def otel_client_def Let_def tags_ok_put_some tags_ok_filter
        tags_ok_update tags_ok_getp split: option.split)
qed

lemma numeric_otel [numeric_rules]: "numeric f \<Longrightarrow> numeric (applyHttpOtelSemantics new_URL f)"
  using tags_ok_otel [of f new_URL]
  by (simp add: numeric_def applyHttpOtelSemantics_def otel_rename_def Let_def split: option.split)

lemma format_chunk_numeric:
  "format_chunk cfg env isFirst ss w = (w', Inr (active, formatted)) \<Longrightarrow>
   list_all (span_numbers (w_heap w)) ss \<Longrightarrow> list_all numeric formatted"
proof (induction ss arbitrary: isFirst w w' active formatted)
  case Nil
  then show ?case by simp
next
  case (Cons s ss)
  show ?case
  proof (cases "sp_duration (h_spans (w_heap w) s) = None")
    case True
    obtain w2 r2 where rec: "format_chunk cfg env isFirst ss w = (w2, r2)" by (cases "format_chunk cfg env isFirst ss w")
    then obtain a where "r2 = Inr (a, formatted)" using True Cons.prems by (auto simp: try_then_eq_Inr)
    then show ?thesis using Cons.IH [of isFirst w w2 a formatted] rec Cons.prems(2) by simp
  next
    case False
    show ?thesis
    proof (cases "span_format (e_str env) (e_pid env) s isFirst (tc_processTags cfg) (w_es w, w_heap w)")
      case (Inl e)
      then show ?thesis using False Cons.prems(1) by auto
    next
      case (Inr r)
      obtain es h f where r: "r = (es, h, f)" by (cases r)
      obtain d where d: "sp_duration (h_spans (w_heap w) s) = Some d" using False by auto
      let ?f = "if tc_apm cfg then f else set_metric APM_TRACING_ENABLED_KEY (JNum (Fin 0)) f"
      let ?g = "if tc_otel cfg then applyHttpOtelSemantics (e_url env) ?f else ?f"
      define w1 where "w1 = w\<lparr>w_es := es, w_heap := h, w_stats :=
        (if tc_stats cfg then w_stats w @ [?f] else w_stats w)\<rparr>"
      obtain w2 r2 where rec: "format_chunk cfg env False ss w1 = (w2, r2)" by (cases "format_chunk cfg env False ss w1")
      then have "(w', Inr (active, formatted)) = (w2, try_then r2 (\<lambda>(active, formatted). ok (active, ?g # formatted)))"
        using d Inr r Cons.prems(1) by (simp add: Let_def w1_def)
      then obtain fs where fs: "r2 = Inr (active, fs)" "formatted = ?g # fs" by (cases r2) auto
      have f: "numeric f"
        using span_format_numeric [OF Inr [unfolded r]] Cons.prems(2) by simp
      have "h = base_tagged s (w_heap w)" using span_format_heap Inr [unfolded r] by metis
      then have "list_all (span_numbers (w_heap w1)) ss"
        using Cons.prems(2) span_numbers_base by (auto simp: w1_def list_all_iff)
      then have "list_all numeric fs" using Cons.IH [of False w1 w2 active fs] rec fs by simp
      then show ?thesis using fs f by (auto simp: numeric_rules)
    qed
  qed
qed

lemma numeric_span_ok: "numeric f \<Longrightarrow> span_ok (normalizeSpan f)"
  by (auto simp: numeric_def span_ok_def normalizeSpan_fields(1))

lemma format_all_native: "format_all str True fs = Inr (map normalizeSpan fs)"
  by (induction fs) (simp_all add: format_for_def)


definition demo_finished :: heap where
  "demo_finished = (one_span_heap [(''n'', JNum (Fin 300)), (''k'', JStr ''v'')])
     \<lparr>h_spans := (\<lambda>_. (h_spans (one_span_heap []) 0)\<lparr>sp_duration := Some (Fin 5)\<rparr>)\<rparr>"


end
