(* ===== verification/Varint.thy ===== *)
theory Varint
  imports JsNumbers
begin

text \<open>
  Variable length integers of data streams (\<open>datastreams/encoding.js\<close>): zig-zag of the sign, then
  groups of seven bits, lowest first, over a pair of 32-bit halves because the bit operators of
  JavaScript are no wider. The reference is \<open>leb128\<close> of \<open>zigzag\<close>, on numbers.
\<close>

subsection \<open>Bit operators on numbers\<close>

definition bit_and32 :: "int \<Rightarrow> int \<Rightarrow> int" where
  "bit_and32 a b = to_int32 a AND to_int32 b"

definition bit_or32 :: "int \<Rightarrow> int \<Rightarrow> int" where
  "bit_or32 a b = to_int32 a OR to_int32 b"

text \<open>What ToInt32 makes of a number before it takes 32 bits of it\<close>

definition num_int :: "jsnum \<Rightarrow> int" where
  "num_int x = (case x of Fin r \<Rightarrow> (if 0 \<le> r then \<lfloor>r\<rfloor> else \<lceil>r\<rceil>) | _ \<Rightarrow> 0)"

lemma num_int_int_num [simp]: "num_int (int_num i) = i"
  by (simp add: num_int_def int_num_def)

subsection \<open>Encoding\<close>

definition maxVarLen64 :: nat where "maxVarLen64 = 9"

definition MAX_SAFE_INTEGER :: int where "MAX_SAFE_INTEGER = 9007199254740991"

text \<open>\<open>Math.abs(value) * 2\<close>, the test against \<open>MAX_SAFE_INTEGER\<close>, \<open>Math.floor(double / 2 ** 32)\<close>\<close>

definition abs_double :: "jsnum \<Rightarrow> jsnum" where
  "abs_double v = (case v of Fin r \<Rightarrow> Fin (\<bar>r\<bar> * 2) | NaN \<Rightarrow> NaN | _ \<Rightarrow> PInf)"

definition exceeds_safe :: "jsnum \<Rightarrow> bool" where
  "exceeds_safe v = (case v of Fin r \<Rightarrow> of_int MAX_SAFE_INTEGER < r | PInf \<Rightarrow> True | _ \<Rightarrow> False)"

definition high_half :: "jsnum \<Rightarrow> jsnum" where
  "high_half v = (case v of Fin r \<Rightarrow> int_num \<lfloor>r / 4294967296\<rfloor> | _ \<Rightarrow> v)"

text \<open>Writing a typed array out of its range has no effect, as \<open>xs[i := b]\<close> has none.\<close>

function encode_loop :: "byte list \<Rightarrow> nat \<Rightarrow> nat \<Rightarrow> int \<Rightarrow> jsnum \<Rightarrow> byte list \<times> nat \<times> int" where
  "encode_loop target i limit low high =
     (if (high \<noteq> Fin 0 \<or> low < 0 \<or> 0x7F < low) \<and> i < limit then
        encode_loop (target[i := byte_of (bit_or32 (bit_and32 low 0x7F) 0x80)]) (i + 1) limit
          (bit_or32 (ushr low 7) (shl (bit_and32 (num_int high) 0x7F) 25))
          (int_num (ushr (num_int high) 7))
      else (target, i, low))"
  by auto
termination by (relation "measure (\<lambda>(t, i, limit, low, high). limit - i)") auto

declare encode_loop.simps [simp del]

definition encodeVarintInto :: "byte list \<Rightarrow> nat \<Rightarrow> jsnum \<Rightarrow> byte list \<times> nat" where
  "encodeVarintInto target offset value =
     (let sign = (if num_neg value \<or> value = NaN then 1 else 0);
          double = abs_double value
      in if exceeds_safe double then (target, offset)
         else (let high = high_half double;
                   low = bit_or32 (bit_and32 (num_int double) 0xFFFFFFFF) sign;
                   (target, i, low) = encode_loop target offset (offset + maxVarLen64 - 1) low high
               in (target[i := byte_of (bit_and32 low 0x7F)], i + 1)))"

definition encodeVarint :: "jsnum \<Rightarrow> byte list option" where
  "encodeVarint v =
     (let (result, written) = encodeVarintInto (replicate maxVarLen64 0) 0 v
      in if written = 0 then None else Some (take written result))"

subsection \<open>Decoding\<close>

definition low_bits :: "int \<Rightarrow> int \<Rightarrow> nat \<Rightarrow> int" where
  "low_bits low n s = (if s < 32 then bit_or32 low (shl n s) else low)"

definition high_bits :: "int \<Rightarrow> int \<Rightarrow> nat \<Rightarrow> int" where
  "high_bits high n s =
     (if 0 < s then bit_or32 high (if 32 < s then shl n (s - 32) else shr n (32 - s)) else high)"

function decode_loop :: "byte list \<Rightarrow> nat \<Rightarrow> int \<Rightarrow> int \<Rightarrow> nat \<Rightarrow> (int \<times> int) option \<times> byte list" where
  "decode_loop bytes i low high s =
     (if length bytes \<le> i then (None, drop (length bytes) bytes)
      else (let n = uint (bytes ! i)
            in if n < 0x80 \<or> i = maxVarLen64 - 1
               then (Some (low_bits low n s, high_bits high n s), drop (i + 1) bytes)
               else decode_loop bytes (i + 1) (low_bits low (bit_and32 n 0x7F) s)
                      (high_bits high (bit_and32 n 0x7F) s) (s + 7)))"
  by auto
termination by (relation "measure (\<lambda>(bytes, i, low, high, s). length bytes - i)") auto

declare decode_loop.simps [simp del]

definition decodeUvarint64 :: "byte list \<Rightarrow> (int \<times> int) option \<times> byte list" where
  "decodeUvarint64 bytes = decode_loop bytes 0 0 0 0"

definition decodeVarint :: "byte list \<Rightarrow> int option \<times> byte list" where
  "decodeVarint b =
     (case decodeUvarint64 b of
        (None, bytes) \<Rightarrow> (None, bytes)
      | (Some (low, high), bytes) \<Rightarrow>
          (let positive = bit_and32 low 1 = 0;
               abs = ushr low 1 + high * 0x80000000
           in (Some (if positive then abs else - abs), bytes)))"

subsection \<open>The reference\<close>

definition zigzag :: "int \<Rightarrow> nat" where
  "zigzag v = nat (\<bar>v\<bar> * 2 + (if v < 0 then 1 else 0))"

fun leb128 :: "nat \<Rightarrow> byte list" where
  "leb128 n =
     (if n < 128 then [byte_of (int n)] else byte_of (int (n mod 128 + 128)) # leb128 (n div 128))"

declare leb128.simps [simp del]

fun write_at :: "byte list \<Rightarrow> nat \<Rightarrow> byte list \<Rightarrow> byte list" where
  "write_at t i [] = t"
| "write_at t i (b # bs) = write_at (t[i := b]) (Suc i) bs"

lemma leb128_small: "n < 128 \<Longrightarrow> leb128 n = [byte_of (int n)]"
  by (simp add: leb128.simps)

lemma leb128_large: "128 \<le> n \<Longrightarrow> leb128 n = byte_of (int (n mod 128 + 128)) # leb128 (n div 128)"
  by (subst leb128.simps) simp

lemma leb128_length: "0 < k \<Longrightarrow> length (leb128 n) \<le> k \<longleftrightarrow> n < 128 ^ k"
proof (induction n arbitrary: k rule: leb128.induct)
  case (1 n)
  show ?case
  proof (cases "n < 128")
    case True
    have "(128::nat) ^ 1 \<le> 128 ^ k" using 1(2) by (intro power_increasing) auto
    then show ?thesis using True 1(2) by (simp add: leb128_small)
  next
    case False
    obtain j where k: "k = Suc j" using 1(2) by (cases k) auto
    show ?thesis
    proof (cases "j = 0")
      case True
      have "0 < length (leb128 (n div 128))" by (subst leb128.simps) simp
      then show ?thesis using False k True by (simp add: leb128_large)
    next
      case j: False
      have "length (leb128 (n div 128)) \<le> j \<longleftrightarrow> n div 128 < 128 ^ j" using 1(1) False j by simp
      also have "\<dots> \<longleftrightarrow> n < 128 ^ k" by (simp add: k div_less_iff_less_mult mult.commute)
      finally show ?thesis using False by (simp add: leb128_large k)
    qed
  qed
qed

lemma leb128_nonempty [simp]: "leb128 n \<noteq> []"
  by (subst leb128.simps) simp

lemma length_write_at [simp]: "length (write_at t i bs) = length t"
  by (induction bs arbitrary: t i) simp_all

lemma write_at_nth:
  "j < length t \<Longrightarrow> write_at t i bs ! j = (if i \<le> j \<and> j < i + length bs then bs ! (j - i) else t ! j)"
proof (induction bs arbitrary: t i)
  case (Cons b bs)
  then show ?case
    by (auto simp: nth_list_update nth_Cons' Suc_diff_le not_less_eq_eq split: if_splits)
qed auto

lemma write_at_append: "write_at t i (as @ bs) = write_at (write_at t i as) (i + length as) bs"
  by (induction as arbitrary: t i) simp_all

text \<open>Writing is overwriting a part of the buffer, cut at its end.\<close>

lemma write_at_eq:
  assumes "i \<le> length t"
  shows "write_at t i bs = take (length t) (take i t @ bs @ drop (i + length bs) t)"
  by (rule nth_equalityI) (use assms in \<open>auto simp: write_at_nth nth_append min_def\<close>)

subsection \<open>Encoding is the reference\<close>

lemma to_uint32_of_int32 [simp]: "to_uint32 (to_int32 x) = to_uint32 x"
  by (simp add: to_uint32_mod to_int32_mod)

lemma to_uint32_or: "to_uint32 (bit_or32 x y) = to_uint32 x OR to_uint32 y"
  by (metis bit_or32_def take_bit_or to_uint32_def to_uint32_of_int32)

lemma to_uint32_shl: "to_uint32 (shl v k) = to_uint32 (v * 2 ^ k)"
proof -
  have "to_uint32 (push_bit k (to_int32 v)) = to_uint32 (push_bit k v)"
    by (simp add: to_uint32_mod push_bit_eq_mult) (metis mod_mult_left_eq to_int32_mod)
  then show ?thesis by (simp add: shl_def push_bit_eq_mult)
qed

lemma to_int32_or [simp]: "to_int32 (bit_or32 x y) = bit_or32 x y"
  by (rule bit_eqI) (auto simp: to_int32_def bit_or32_def bit_simps)

lemma bit_and32_127: "bit_and32 v 0x7F = v mod 128"
proof -
  have "bit_and32 v 127 = take_bit 7 (to_int32 v)"
    using take_bit_eq_mask [of 7 "to_int32 v"] by (simp add: bit_and32_def to_int32_id mask_eq_exp_minus_1)
  also have "\<dots> = to_int32 v mod 128" by (simp add: take_bit_eq_mod)
  also have "\<dots> = to_int32 v mod 4294967296 mod 128" by (simp add: mod_mod_cancel)
  also have "\<dots> = v mod 128" by (simp add: to_int32_mod mod_mod_cancel)
  finally show ?thesis .
qed

lemma or_shifted:
  fixes a m :: int
  assumes "0 \<le> a" "a < 2 ^ k"
  shows "a OR (m * 2 ^ k) = a + m * 2 ^ k"
proof -
  have "take_bit k a AND push_bit k m = 0"
    by (rule bit_eqI) (auto simp: bit_simps)
  then have "a AND push_bit k m = 0" using assms by (simp add: take_bit_int_eq_self)
  then show ?thesis by (simp add: disjunctive_add_eq_or push_bit_eq_mult)
qed

text \<open>
  One step of the loop shifts the number that the halves hold together by seven bits.
\<close>

definition halves :: "int \<Rightarrow> int \<Rightarrow> int" where
  "halves low high = to_uint32 low + high * 4294967296"

lemma ushr7: "ushr v 7 = to_uint32 v div 128"
  by (simp add: ushr_def drop_bit_eq_div)

lemma to_uint32_range: "0 \<le> to_uint32 v" "to_uint32 v < 4294967296"
  by (simp_all add: to_uint32_mod)

lemma shift_step:
  assumes "0 \<le> high" "high < 2147483648"
  shows "halves (bit_or32 (ushr low 7) (shl (bit_and32 high 0x7F) 25)) (ushr high 7) = halves low high div 128"
proof -
  have h: "to_uint32 high = high" using assms by (simp add: to_uint32_id)
  have l: "0 \<le> to_uint32 low div 128" "to_uint32 low div 128 < 2 ^ 25"
    using to_uint32_range [of low] by (simp_all add: pos_imp_zdiv_nonneg_iff)
  have "to_uint32 (ushr low 7) = to_uint32 low div 128" using l by (simp add: ushr7 to_uint32_id)
  moreover have "to_uint32 (high mod 128 * 2 ^ 25) = high mod 128 * 2 ^ 25"
    using pos_mod_bound [of 128 high] pos_mod_sign [of 128 high] by (intro to_uint32_id) simp_all
  ultimately have "to_uint32 (bit_or32 (ushr low 7) (shl (bit_and32 high 0x7F) 25)) =
      to_uint32 low div 128 + high mod 128 * 2 ^ 25"
    using or_shifted [OF l] by (simp add: to_uint32_or bit_and32_127 to_uint32_shl)
  moreover have "(to_uint32 low + high * 4294967296) div 128 = to_uint32 low div 128 + high * 33554432"
    using div_mult_self1 [of 128 "to_uint32 low" "high * 33554432"] by (simp add: mult.commute)
  moreover have "high * 33554432 = high mod 128 * 33554432 + high div 128 * 4294967296"
    using div_mult_mod_eq [of high 128] by linarith
  ultimately show ?thesis unfolding halves_def ushr7 h by (simp add: algebra_simps)
qed

lemma halves_small:
  assumes "0 \<le> high" "to_int32 low = low"
  shows "(high \<noteq> 0 \<or> low < 0 \<or> 0x7F < low) \<longleftrightarrow> 128 \<le> halves low high"
proof (cases "high = 0")
  case True
  have r: "- 2147483648 \<le> low" "low < 2147483648"
    using assms(2) signed_take_bit_int_greater_eq_minus_exp [of 31 low] signed_take_bit_int_less_exp [of 31 low]
    by (auto simp: to_int32_def)
  have "to_uint32 low = (if low < 0 then low + 4294967296 else low)"
  proof (cases "low < 0")
    case True
    then have "(low + 4294967296) mod 4294967296 = low + 4294967296"
      using r by (intro mod_pos_pos_trivial) auto
    then show ?thesis using True by (simp add: to_uint32_mod)
  qed (use r in \<open>simp add: to_uint32_id\<close>)
  then show ?thesis using True r by (auto simp: halves_def)
next
  case False
  then show ?thesis using assms(1) to_uint32_range(1) [of low] by (auto simp: halves_def)
qed

lemma halves_nonneg: "0 \<le> high \<Longrightarrow> 0 \<le> halves low high"
  using to_uint32_range(1) [of low] by (simp add: halves_def)

lemma low_mod:
  assumes "0 \<le> high"
  shows "low mod 128 = int (nat (halves low high) mod 128)"
proof -
  have "halves low high mod 128 = (to_uint32 low + (high * 33554432) * 128) mod 128"
    by (simp add: halves_def mult.commute)
  also have "\<dots> = to_uint32 low mod 128" by (rule mod_mult_self1)
  also have "\<dots> = low mod 128" by (simp add: to_uint32_mod mod_mod_cancel)
  finally show ?thesis using halves_nonneg [OF assms, of low] by (simp add: zmod_int)
qed

lemma or_128:
  assumes "0 \<le> m" "m < 128"
  shows "bit_or32 m 0x80 = m + 128"
  using or_shifted [of m 7 1] assms by (simp add: bit_or32_def to_int32_id)

lemma encode_loop_leb128:
  assumes "0 \<le> high" "high < 2147483648" "to_int32 low = low" "n = nat (halves low high)"
    "length (leb128 n) \<le> Suc (limit - i)"
    "encode_loop t i limit low (int_num high) = (t', i', low')"
  shows "t'[i' := byte_of (bit_and32 low' 0x7F)] = write_at t i (leb128 n) \<and> i' + 1 = i + length (leb128 n)"
  using assms
proof (induction n arbitrary: t i low high rule: leb128.induct)
  case (1 n)
  have num: "num_int (int_num high) = high" "int_num high \<noteq> Fin 0 \<longleftrightarrow> high \<noteq> 0"
    using 1(2) by (auto simp: num_int_def int_num_def)
  have cond: "(high \<noteq> 0 \<or> low < 0 \<or> 0x7F < low) \<longleftrightarrow> 128 \<le> n"
    using halves_small [OF 1(2) 1(4)] halves_nonneg [OF 1(2), of low] 1(5) by auto
  have low: "bit_and32 low 0x7F = int (n mod 128)" using low_mod [OF 1(2), of low] 1(5) by (simp add: bit_and32_127)
  show ?case
  proof (cases "n < 128")
    case True
    then have "(t', i', low') = (t, i, low)" using 1(7) cond num by (subst (asm) encode_loop.simps) auto
    then show ?thesis using True low by (simp add: leb128_small)
  next
    case False
    have i: "i < limit" using False 1(6) by (cases "limit - i") (auto simp: leb128_large)
    let ?low = "bit_or32 (ushr low 7) (shl (bit_and32 high 0x7F) 25)"
    let ?high = "ushr high 7"
    have h: "?high = high div 128" using 1(2,3) by (simp add: ushr7 to_uint32_id)
    have "n div 128 = nat (halves ?low ?high)"
      using shift_step [OF 1(2,3), of low] 1(5) by (simp add: nat_div_distrib' zdiv_int)
    moreover have "length (leb128 (n div 128)) \<le> Suc (limit - (i + 1))"
      using 1(6) False i by (simp add: leb128_large)
    moreover have "bit_or32 (bit_and32 low 0x7F) 0x80 = int (n mod 128 + 128)"
      using or_128 [of "int (n mod 128)"] low by simp
    moreover have "encode_loop t i limit low (int_num high) =
        encode_loop (t[i := byte_of (bit_or32 (bit_and32 low 0x7F) 0x80)]) (i + 1) limit ?low (int_num ?high)"
      using False cond num i by (subst encode_loop.simps) auto
    moreover have "0 \<le> high div 128" "high div 128 < 2147483648" using 1(2,3) by auto
    ultimately show ?thesis
      using 1(1) [where high = ?high and low = ?low and t = "t[i := byte_of (int (n mod 128 + 128))]" and i = "i + 1"] False h 1(7) i
      by (auto simp: leb128_large)
  qed
qed

lemma halves_split:
  assumes "0 \<le> v"
  shows "halves v (v div 4294967296) = v"
  using div_mult_mod_eq [of v 4294967296] by (simp add: halves_def to_uint32_mod)

lemma high_half_int: "high_half (int_num i) = int_num (i div 4294967296)"
  using floor_divide_of_int_eq [of i 4294967296] by (simp add: high_half_def int_num_def)

lemma encodeVarintInto_int:
  assumes "\<bar>v\<bar> \<le> MAX_SAFE_INTEGER div 2"
  shows "encodeVarintInto t i (int_num v) = (write_at t i (leb128 (zigzag v)), i + length (leb128 (zigzag v)))"
    "length (leb128 (zigzag v)) \<le> 8"
proof -
  let ?d = "\<bar>v\<bar> * 2"
  define sign :: int where "sign = (if v < 0 then 1 else 0)"
  define low where "low = bit_or32 (bit_and32 ?d 0xFFFFFFFF) sign"
  have d: "0 \<le> ?d" "?d < 9007199254740992" using assms by (auto simp: MAX_SAFE_INTEGER_def)
  have sign: "0 \<le> sign" "sign < 2" by (auto simp: sign_def)
  have mask: "to_int32 4294967295 = - 1" by (simp add: to_int32_def signed_take_bit_eq_if_negative)
  have "?d mod 4294967296 mod 2 = 0" by (simp add: mod_mod_cancel)
  then have even: "?d mod 4294967296 div 2 * 2 = ?d mod 4294967296" by presburger
  have "to_uint32 low = to_uint32 ?d OR sign"
    using sign by (simp add: low_def to_uint32_or bit_and32_def mask to_uint32_id)
  also have "\<dots> = sign OR (?d mod 4294967296 div 2) * 2 ^ 1"
    using even by (simp add: to_uint32_mod or.commute)
  also have "\<dots> = sign + ?d mod 4294967296" using sign even by (subst or_shifted) auto
  finally have low: "to_uint32 low = sign + ?d mod 4294967296" .
  have n: "halves low (?d div 4294967296) = int (zigzag v)"
    using d div_mult_mod_eq [of ?d 4294967296]
    by (simp add: halves_def low zigzag_def sign_def)
  have h: "0 \<le> ?d div 4294967296" "?d div 4294967296 < 2147483648" using d by auto
  have "zigzag v < 128 ^ 8" using d sign by (auto simp: zigzag_def nat_less_iff)
  then show len: "length (leb128 (zigzag v)) \<le> 8" by (simp add: leb128_length)
  obtain t' i' low' where run: "encode_loop t i (i + maxVarLen64 - 1) low (int_num (?d div 4294967296)) = (t', i', low')"
    by (cases "encode_loop t i (i + maxVarLen64 - 1) low (int_num (?d div 4294967296))")
  then have "t'[i' := byte_of (bit_and32 low' 0x7F)] = write_at t i (leb128 (zigzag v)) \<and>
      i' + 1 = i + length (leb128 (zigzag v))"
    using encode_loop_leb128 [OF h, of low "zigzag v" "i + maxVarLen64 - 1" i t t' i' low'] len n
    by (simp add: low_def maxVarLen64_def)
  moreover have "abs_double (int_num v) = int_num ?d" by (simp add: abs_double_def int_num_def)
  moreover have "num_int (int_num ?d) = ?d" by (rule num_int_int_num)
  moreover have "\<not> exceeds_safe (int_num ?d)"
    using d by (simp add: exceeds_safe_def int_num_def MAX_SAFE_INTEGER_def)
  moreover have "high_half (int_num ?d) = int_num (?d div 4294967296)"
    by (rule high_half_int)
  moreover have "(if num_neg (int_num v) \<or> int_num v = NaN then 1 else 0) = sign"
    by (simp add: sign_def num_neg_def int_num_def)
  ultimately show "encodeVarintInto t i (int_num v) =
      (write_at t i (leb128 (zigzag v)), i + length (leb128 (zigzag v)))"
    using run unfolding encodeVarintInto_def by (simp add: low_def Let_def)
qed

lemma encodeVarintInto_overflow:
  assumes "MAX_SAFE_INTEGER div 2 < \<bar>v\<bar>"
  shows "encodeVarintInto t i (int_num v) = (t, i)"
proof -
  have "MAX_SAFE_INTEGER < \<bar>v\<bar> * 2" using assms by (simp add: MAX_SAFE_INTEGER_def)
  then have "exceeds_safe (abs_double (int_num v))"
    by (simp add: exceeds_safe_def abs_double_def int_num_def)
  then show ?thesis by (simp add: encodeVarintInto_def Let_def)
qed

subsection \<open>Decoding is the inverse\<close>

lemma shl_exact:
  assumes "0 \<le> m" "m * 2 ^ k < 2147483648"
  shows "shl m k = m * 2 ^ k"
proof -
  have "m \<le> m * 2 ^ k" "0 \<le> m * 2 ^ k" using assms(1) by (simp_all add: mult_le_cancel_left1)
  then have "to_int32 m = m" using assms by (intro to_int32_id) linarith+
  moreover have "to_int32 (m * 2 ^ k) = m * 2 ^ k"
    using \<open>0 \<le> m * 2 ^ k\<close> assms(2) by (intro to_int32_id) linarith+
  ultimately show ?thesis by (simp add: shl_def push_bit_eq_mult)
qed

lemma div_le_self: "0 \<le> m \<Longrightarrow> 0 < b \<Longrightarrow> m div b \<le> (m :: int)"
  using zdiv_mono2 [of m 1 b] by simp

lemma decode_step:
  assumes "0 \<le> m" "m < 128" "0 \<le> high" "halves low high < 2 ^ s" "s \<le> 49" "s \<noteq> 32"
  shows "halves (low_bits low m s) (high_bits high m s) = halves low high + m * 2 ^ s"
    "0 \<le> high_bits high m s" "high_bits high m s < 2147483648"
proof -
  have L: "0 \<le> to_uint32 low" "to_uint32 low < 4294967296" by (rule to_uint32_range)+
  consider "s < 32" | "32 < s" using assms(6) by linarith
  then have "halves (low_bits low m s) (high_bits high m s) = halves low high + m * 2 ^ s \<and>
      0 \<le> high_bits high m s \<and> high_bits high m s < 2147483648"
  proof cases
    case 1
    then have "(2::int) ^ s \<le> 2 ^ 32" by (intro power_increasing) auto
    then have "high * 4294967296 < 4294967296" using assms(4) L by (simp add: halves_def)
    then have high: "high = 0" using assms(3) by simp
    then have low: "to_uint32 low < 2 ^ s" using assms(4) by (simp add: halves_def)
    have p: "(2::int) ^ 32 = 2 ^ (32 - s) * 2 ^ s" using 1 by (simp flip: power_add)
    have "to_uint32 (m * 2 ^ s) = m * 2 ^ s mod (2 ^ (32 - s) * 2 ^ s)" by (simp add: to_uint32_mod flip: p)
    also have "\<dots> = m mod 2 ^ (32 - s) * 2 ^ s" by (rule mod_mult_mult2)
    finally have "to_uint32 (low_bits low m s) = to_uint32 low + m mod 2 ^ (32 - s) * 2 ^ s"
      using 1 or_shifted [OF L(1) low] by (simp add: low_bits_def to_uint32_or to_uint32_shl)
    moreover have hb: "high_bits high m s = m div 2 ^ (32 - s)"
    proof (cases "s = 0")
      case False
      have "0 \<le> m div 2 ^ (32 - s)" "m div 2 ^ (32 - s) \<le> m"
        using assms(1) by (simp_all add: pos_imp_zdiv_nonneg_iff div_le_self)
      then have "to_int32 (m div 2 ^ (32 - s)) = m div 2 ^ (32 - s)"
        using assms(2) by (intro to_int32_id) linarith+
      then show ?thesis
        using False 1 assms(1,2) high
        by (simp add: high_bits_def bit_or32_def shr_def drop_bit_eq_div to_int32_id)
    qed (use assms(1,2) high in \<open>simp add: high_bits_def\<close>)
    moreover have "m mod 2 ^ (32 - s) * 2 ^ s + m div 2 ^ (32 - s) * 2 ^ 32 = m * 2 ^ s"
      unfolding p by (simp flip: distrib_right mult.assoc add: mod_div_mult_eq)
    moreover have "0 \<le> m div 2 ^ (32 - s)" "m div 2 ^ (32 - s) \<le> m"
      using assms(1) by (simp_all add: pos_imp_zdiv_nonneg_iff div_le_self)
    ultimately show ?thesis using assms(2) high by (simp add: halves_def)
  next
    case 2
    define k where "k = s - 32"
    have s: "s = 32 + k" "0 < k" "k \<le> 17" using 2 assms(5) by (auto simp: k_def)
    have high: "high < 2 ^ k"
      using assms(4) L(1) by (simp add: halves_def s power_add) 
    have "m * 2 ^ k \<le> 127 * 2 ^ 17"
      using assms(1,2) s(3) by (intro mult_mono power_increasing) auto
    moreover have "(2::int) ^ k \<le> 2 ^ 17" using s(3) by (intro power_increasing) auto
    ultimately have b: "m * 2 ^ k < 2147483648" "high < 2147483648" "high + m * 2 ^ k < 2147483648"
      using high by auto
    have "to_int32 (m * 2 ^ k) = m * 2 ^ k" using assms(1) b(1) by (intro to_int32_id) (auto intro: order.trans [of _ 0])
    then have "high_bits high m s = high OR m * 2 ^ k"
      using s b assms(1,3) by (simp add: high_bits_def bit_or32_def shl_exact to_int32_id)
    then have "high_bits high m s = high + m * 2 ^ k" using or_shifted [OF assms(3) high] by simp
    then show ?thesis
      using b assms(1,3) 2 by (simp add: low_bits_def halves_def s(1) power_add algebra_simps)
  qed
  then show "halves (low_bits low m s) (high_bits high m s) = halves low high + m * 2 ^ s"
    "0 \<le> high_bits high m s" "high_bits high m s < 2147483648" by auto
qed

lemma decode_leb128:
  assumes "n < 128 ^ (8 - i)" "i < 8" "drop i bytes = leb128 n @ rest" "0 \<le> high" "halves low high < 128 ^ i"
  shows "\<exists>l h. decode_loop bytes i low high (7 * i) = (Some (l, h), rest) \<and> 0 \<le> h \<and> h < 2147483648 \<and>
    halves l h = halves low high + int n * 128 ^ i"
  using assms
proof (induction n arbitrary: i low high rule: leb128.induct)
  case (1 n)
  have len: "i < length bytes" using 1(4) by (metis append_is_Nil_conv drop_all leb128_nonempty not_less)
  have p: "(128::int) ^ i = 2 ^ (7 * i)" by (simp add: power_mult)
  have s: "7 * i \<le> 49" "7 * i \<noteq> 32" "i \<noteq> maxVarLen64 - 1" using 1(3) by (auto simp: maxVarLen64_def) presburger
  have hd: "bytes ! i = hd (leb128 n)" "drop (i + 1) bytes = tl (leb128 n) @ rest"
    using 1(4) len by (metis hd_append2 hd_drop_conv_nth leb128_nonempty)
      (metis 1(4) Suc_eq_plus1 drop_Suc leb128_nonempty tl_append2 tl_drop)
  have halves: "halves low high < 2 ^ (7 * i)" using 1(6) p by simp
  show ?case
  proof (cases "n < 128")
    case True
    then have "uint (bytes ! i) = int n" "drop (i + 1) bytes = rest"
      using hd by (simp_all add: leb128_small uint_byte_of)
    then show ?thesis
      using True len decode_step [OF _ _ 1(5) halves s(1,2), of "int n"] p
      by (subst decode_loop.simps) (simp add: Let_def)
  next
    case False
    let ?m = "int (n mod 128)"
    have byte: "uint (bytes ! i) = ?m + 128" "drop (i + 1) bytes = leb128 (n div 128) @ rest"
      using hd False by (simp_all add: leb128_large uint_byte_of zmod_int)
    have "bit_and32 (uint (bytes ! i)) 0x7F = ?m"
      by (simp add: byte(1) bit_and32_127 zmod_int)
    then have step: "decode_loop bytes i low high (7 * i) =
        decode_loop bytes (i + 1) (low_bits low ?m (7 * i)) (high_bits high ?m (7 * i)) (7 * (i + 1))"
      using len byte(1) s(3) by (subst decode_loop.simps) (simp add: Let_def add.commute)
    note d = decode_step [OF _ _ 1(5) halves s(1,2), of ?m]
    have "i + 1 < 8"
    proof (rule ccontr)
      assume "\<not> i + 1 < 8"
      then have "i = 7" using 1(3) by simp
      then show False using 1(2) False by simp
    qed
    moreover have suc: "8 - i = Suc (8 - (i + 1))" using 1(3) by simp
    have "(128::nat) ^ (8 - i) = 128 ^ (8 - (i + 1)) * 128" by (simp only: suc power_Suc2)
    then have "n div 128 < 128 ^ (8 - (i + 1))"
      using 1(2) by (simp add: div_less_iff_less_mult)
    moreover have "halves (low_bits low ?m (7 * i)) (high_bits high ?m (7 * i)) < 128 ^ (i + 1)"
    proof -
      have "?m * 128 ^ i \<le> 127 * 128 ^ i" by (intro mult_right_mono) auto
      then show ?thesis
        using d(1) 1(6) by (simp only: p [symmetric] Suc_eq_plus1 [symmetric] power_Suc)
    qed
    ultimately obtain l h where "decode_loop bytes i low high (7 * i) = (Some (l, h), rest)" "0 \<le> h" "h < 2147483648"
        "halves l h = halves low high + ?m * 128 ^ i + int (n div 128) * 128 ^ (i + 1)"
      using 1(1) [where i = "i + 1" and low = "low_bits low ?m (7 * i)" and high = "high_bits high ?m (7 * i)"]
        False byte(2) d p step by auto
    moreover have "?m * 128 ^ i + int (n div 128) * 128 ^ (i + 1) = int n * 128 ^ i"
    proof -
      have "int n = ?m + int (n div 128) * 128" by (metis add.commute div_mult_mod_eq of_nat_add of_nat_mult of_nat_numeral)
      then have "int n * 128 ^ i = (?m + int (n div 128) * 128) * 128 ^ i" by simp
      then show ?thesis by (simp add: algebra_simps)
    qed
    ultimately show ?thesis by (auto simp: algebra_simps)
  qed
qed

lemma decodeVarint_leb128:
  assumes "\<bar>v\<bar> \<le> MAX_SAFE_INTEGER div 2"
  shows "decodeVarint (leb128 (zigzag v) @ rest) = (Some v, rest)"
proof -
  have n: "zigzag v < 128 ^ (8 - 0)"
    using leb128_length [of 8 "zigzag v"] encodeVarintInto_int(2) [OF assms] by simp
  obtain l h where run: "decode_loop (leb128 (zigzag v) @ rest) 0 0 0 0 = (Some (l, h), rest)" "0 \<le> h"
      and lh: "halves l h = int (zigzag v)"
    using decode_leb128 [OF n, of "leb128 (zigzag v) @ rest" rest 0 0] by (auto simp: halves_def to_uint32_mod)
  have z: "int (zigzag v) = \<bar>v\<bar> * 2 + (if v < 0 then 1 else 0)" by (simp add: zigzag_def)
  have "to_int32 1 = 1" by (simp add: to_int32_id)
  then have "bit_and32 l 1 = to_int32 l mod 2" by (simp add: bit_and32_def and_one_eq)
  also have "\<dots> = to_int32 l mod 4294967296 mod 2" by (simp add: mod_mod_cancel)
  also have "\<dots> = to_uint32 l mod 2" by (simp add: to_int32_mod to_uint32_mod)
  also have "\<dots> = halves l h mod 2" using mod_mult_self1 [of "to_uint32 l" "h * 2147483648" 2] by (simp add: halves_def mult.commute)
  also have "\<dots> = (if v < 0 then 1 else 0)" unfolding lh z by simp
  finally have sign: "bit_and32 l 1 = (if v < 0 then 1 else 0)" .
  have "halves l h div 2 = to_uint32 l div 2 + h * 2147483648"
    using div_mult_self1 [of 2 "to_uint32 l" "h * 2147483648"] by (simp add: halves_def)
  moreover have "halves l h div 2 = \<bar>v\<bar>" unfolding lh z by simp
  ultimately have "ushr l 1 + h * 2147483648 = \<bar>v\<bar>" by (simp add: ushr_def drop_bit_eq_div)
  then show ?thesis using run sign by (simp add: decodeVarint_def decodeUvarint64_def Let_def)
qed

text \<open>
  Integers up to half of \<open>MAX_SAFE_INTEGER\<close> survive the pair of 32-bit halves: encoding writes
  the seven-bit groups of the zig-zag number, at most eight bytes, and decoding them returns the
  integer and leaves what follows; a larger integer is not written at all.
\<close>

theorem varint_roundtrip:
  "if \<bar>v\<bar> \<le> MAX_SAFE_INTEGER div 2
   then \<exists>bs. encodeVarint (int_num v) = Some bs \<and> bs = leb128 (zigzag v) \<and> length bs \<le> 8 \<and>
     encodeVarintInto target offset (int_num v) = (write_at target offset bs, offset + length bs) \<and>
     decodeVarint (bs @ rest) = (Some v, rest)
   else encodeVarint (int_num v) = None \<and> encodeVarintInto target offset (int_num v) = (target, offset)"
proof (cases "\<bar>v\<bar> \<le> MAX_SAFE_INTEGER div 2")
  case True
  note e = encodeVarintInto_int [OF True]
  have "0 < length (leb128 (zigzag v))" by simp
  then have "encodeVarint (int_num v) = Some (leb128 (zigzag v))"
    using e by (simp add: encodeVarint_def write_at_eq maxVarLen64_def del: length_greater_0_conv)
  then show ?thesis using True e decodeVarint_leb128 [OF True] by simp
next
  case False
  then show ?thesis by (simp add: encodeVarint_def encodeVarintInto_overflow)
qed

text \<open>
  Examples. A negative number \<open>v\<close> is sent as \<open>2 * |v| + 1\<close>, not as \<open>2 * |v| - 1\<close> as in the usual zig-zag.
\<close>

lemma varint_examples:
  "encodeVarint (int_num (- 1)) = Some [3]" "encodeVarint (int_num 64) = Some [0x80, 1]"
  "decodeVarint [0x80] = (None, [])" "encodeVarint NaN = Some [0x81, 0]"
  by code_simp+

end
