(* ===== verification/JsBase64.thy ===== *)
theory JsBase64
  imports JsStrings JsNumbers
begin

text \<open>
  The encodings of Node's \<open>Buffer\<close> that the code uses as text: \<open>buf.toString('base64')\<close> with
  padding, and \<open>Buffer.from(s, 'base64')\<close>, which also reads the URL-safe alphabet and skips
  characters outside of both, with the round trip.
\<close>

definition b64_alphabet :: string where
  "b64_alphabet = ''ABCDEFGHIJKLMNOPQRSTUVWXYZabcdefghijklmnopqrstuvwxyz0123456789+/''"

definition b64_char :: "nat \<Rightarrow> char" where
  "b64_char n = b64_alphabet ! n"

definition b64_val :: "char \<Rightarrow> nat option" where
  "b64_val c =
     (let n = of_char c :: nat
      in if 65 \<le> n \<and> n \<le> 90 then Some (n - 65)
         else if 97 \<le> n \<and> n \<le> 122 then Some (n - 71)
         else if 48 \<le> n \<and> n \<le> 57 then Some (n + 4)
         else if n = 43 \<or> n = 45 then Some 62
         else if n = 47 \<or> n = 95 then Some 63
         else None)"

fun to_base64 :: "byte list \<Rightarrow> string" where
  "to_base64 (a # b # c # bs) =
     (let a = unat a; b = unat b; c = unat c
      in b64_char (a div 4) # b64_char (a mod 4 * 16 + b div 16) # b64_char (b mod 16 * 4 + c div 64) #
         b64_char (c mod 64) # to_base64 bs)"
| "to_base64 [a, b] =
     (let a = unat a; b = unat b
      in [b64_char (a div 4), b64_char (a mod 4 * 16 + b div 16), b64_char (b mod 16 * 4), CHR ''='' ])"
| "to_base64 [a] =
     (let a = unat a in [b64_char (a div 4), b64_char (a mod 4 * 16), CHR ''='', CHR ''='' ])"
| "to_base64 [] = []"

fun sextets_bytes :: "nat list \<Rightarrow> byte list" where
  "sextets_bytes (p # q # r # s # ns) =
     of_nat (p * 4 + q div 16) # of_nat (q mod 16 * 16 + r div 4) # of_nat (r mod 4 * 64 + s) # sextets_bytes ns"
| "sextets_bytes [p, q, r] = [of_nat (p * 4 + q div 16), of_nat (q mod 16 * 16 + r div 4)]"
| "sextets_bytes [p, q] = [of_nat (p * 4 + q div 16)]"
| "sextets_bytes ns = []"

definition from_base64 :: "string \<Rightarrow> byte list" where
  "from_base64 s = sextets_bytes (List.map_filter b64_val s)"

lemma b64_val_char:
  assumes "n < 64"
  shows "b64_val (b64_char n) = Some n"
proof -
  have vals: "map b64_val b64_alphabet = map Some [0..<64]"
    by (simp add: b64_alphabet_def b64_val_def upt_rec)
  then have "length b64_alphabet = 64" by (metis length_map length_upt diff_zero)
  then show ?thesis using assms arg_cong [OF vals, of "\<lambda>xs. xs ! n"] by (simp add: b64_char_def)
qed

lemma b64_val_pad [simp]: "b64_val (CHR ''='') = None"
  by (simp add: b64_val_def)

lemma of_nat_unat_byte [simp]: "(of_nat (unat b) :: byte) = b"
  by simp

lemma length_to_base64: "length (to_base64 bs) = (length bs + 2) div 3 * 4"
proof (induction bs rule: to_base64.induct)
  case (1 a b c bs)
  have "(length (a # b # c # bs) + 2) div 3 = Suc ((length bs + 2) div 3)" by simp
  then show ?case using 1 by (simp add: Let_def)
qed (simp_all add: Let_def)

lemma base64_roundtrip [simp]: "from_base64 (to_base64 bs) = bs"
proof -
  have u: "unat b < 256" for b :: byte using unsigned_less [of b] by simp
  have "unat a div 4 < 64" "unat a mod 4 < 4" "unat a div 16 < 16" "unat a mod 16 < 16" "unat a div 64 < 4" for a :: byte
    using u [of a] by (simp_all add: div_less_iff_less_mult)
  note parts = this
  have lt: "unat a div 4 < 64" "unat a mod 4 * 16 + unat b div 16 < 64" "unat b mod 16 * 4 + unat c div 64 < 64"
      "unat c mod 64 < 64" "unat a mod 4 * 16 < 64" "unat b mod 16 * 4 < 64" for a b c :: byte
    using parts(1,2) [of a] parts(3,4) [of b] parts(5) [of c] by simp_all
  have base: "(k * 16 + y) div 16 = k" "(k * 16 + y) mod 16 = y" if "y < 16" for k y :: nat
    using that by simp_all
  have base4: "(k * 4 + y) div 4 = k" "(k * 4 + y) mod 4 = y" if "y < 4" for k y :: nat
    using that by simp_all
  have join: "unat a div 4 * 4 + (unat a mod 4 * 16 + unat b div 16) div 16 = unat a"
      "(unat a mod 4 * 16 + unat b div 16) mod 16 * 16 + (unat b mod 16 * 4 + unat c div 64) div 4 = unat b"
      "(unat b mod 16 * 4 + unat c div 64) mod 4 * 64 + unat c mod 64 = unat c" for a b c :: byte
    by (simp_all only: base [OF parts(3)] base4 [OF parts(5)] div_mult_mod_eq)
  have ends: "unat b mod 16 * 4 div 4 = unat b mod 16" "unat a mod 4 * 16 div 16 = unat a mod 4" for a b :: byte
    by simp_all
  note step = to_base64.simps Let_def List.map_filter_simps b64_val_char lt b64_val_pad option.case
    sextets_bytes.simps join ends of_nat_unat_byte
  show ?thesis
    unfolding from_base64_def
  proof (induction bs rule: to_base64.induct)
    case (1 a b c bs)
    have "sextets_bytes (List.map_filter b64_val (to_base64 bs)) = bs" using 1 by blast
    then show ?case by (simp only: step)
  next
    case (2 a b)
    show ?case by (simp only: step base [OF parts(3)] div_mult_mod_eq)
  next
    case (3 a)
    show ?case by (simp only: step div_mult_mod_eq)
  qed (simp add: List.map_filter_simps)
qed

end
