(* ===== verification/Pathway.thy ===== *)
theory Pathway
  imports Varint JsBase64 Carrier Msgpack "HOL-Library.Char_ord" "HOL-Library.List_Lexorder"
begin

text \<open>
  Pathway contexts of data streams (\<open>datastreams/pathway.js\<close>): the hash of the path a message took
  and its two times, in twenty bytes, as base64 in a carrier; and the hash of the next step. SHA-256
  and the vendored cache are arguments. A buffer is its identity and its bytes, because later code
  compares buffers and keys maps by identity. Times are nanoseconds.
\<close>

type_synonym hash_buffer = "nat \<times> byte list"

record dsm_context =
  dc_hash :: hash_buffer
  dc_pathwayStartNs :: rat
  dc_edgeStartNs :: rat
  dc_prev :: "(string option \<times> hash_buffer \<times> rat) option"

subsection \<open>The hash of a step\<close>

text \<open>
  \<open>buf.toString()\<close> of a buffer and writing that text as UTF-8 again: what is no UTF-8 becomes the
  replacement character, one for each longest start of a character.
\<close>

definition utf8_lead :: "nat \<Rightarrow> nat \<times> nat \<times> nat" where
  "utf8_lead n =
     (if 0xC2 \<le> n \<and> n \<le> 0xDF then (1, 0x80, 0xBF)
      else if n = 0xE0 then (2, 0xA0, 0xBF)
      else if n = 0xED then (2, 0x80, 0x9F)
      else if 0xE1 \<le> n \<and> n \<le> 0xEF then (2, 0x80, 0xBF)
      else if n = 0xF0 then (3, 0x90, 0xBF)
      else if n = 0xF4 then (3, 0x80, 0x8F)
      else if 0xF1 \<le> n \<and> n \<le> 0xF3 then (3, 0x80, 0xBF)
      else (0, 0, 0))"

fun utf8_tail :: "nat \<Rightarrow> nat \<Rightarrow> nat \<Rightarrow> byte list \<Rightarrow> nat" where
  "utf8_tail (Suc k) lo hi (b # bs) =
     (if lo \<le> unat b \<and> unat b \<le> hi then Suc (utf8_tail k 0x80 0xBF bs) else 0)"
| "utf8_tail _ lo hi _ = 0"

definition utf8_step :: "byte \<Rightarrow> byte list \<Rightarrow> bool \<times> nat" where
  "utf8_step b bs =
     (let (need, lo, hi) = utf8_lead (unat b); k = utf8_tail need lo hi bs
      in if unat b < 0x80 then (True, 0) else (0 < need \<and> k = need, k))"

function utf8_lossy :: "byte list \<Rightarrow> byte list" where
  "utf8_lossy [] = []"
| "utf8_lossy (b # bs) =
     (if fst (utf8_step b bs) then b # take (snd (utf8_step b bs)) bs else [0xEF, 0xBF, 0xBD]) @
     utf8_lossy (drop (snd (utf8_step b bs)) bs)"
  by pat_completeness auto
termination by (relation "measure length") auto

text \<open>
  The cache is asked with the text of all inputs. \<open>edgeTags.sort()\<close> sorts the array of the caller,
  so the sorted tags are a result.
\<close>

definition shaHash :: "(byte list \<Rightarrow> byte list) \<Rightarrow> byte list \<Rightarrow> byte list" where
  "shaHash sha256 checkpointString = take 8 (sha256 checkpointString)"

definition manual_checkpoint :: string where
  "manual_checkpoint = ''manual_checkpoint:true''"

definition propagation_part :: "nat option \<Rightarrow> string" where
  "propagation_part v =
     (case v of None \<Rightarrow> [] | Some n \<Rightarrow> if n = 0 then [] else CHR '':'' # show_radix 16 n)"

text \<open>The text the hash is taken of, and the key of the cache, as the bytes of its UTF-8\<close>

definition hash_input :: "string \<Rightarrow> string option \<Rightarrow> string list \<Rightarrow> string" where
  "hash_input service env tags =
     service @ (case env of None \<Rightarrow> ''undefined'' | Some e \<Rightarrow> e) @ concat (filter (\<lambda>t. t \<noteq> manual_checkpoint) tags)"

definition cache_key :: "string \<Rightarrow> string option \<Rightarrow> string list \<Rightarrow> byte list \<Rightarrow> nat option \<Rightarrow> byte list" where
  "cache_key service env tags parentHash propagationHash =
     utf8_bytes (hash_input service env tags) @ utf8_lossy parentHash @ utf8_bytes (propagation_part propagationHash)"

definition hash_value ::
    "(byte list \<Rightarrow> byte list) \<Rightarrow> string \<Rightarrow> string option \<Rightarrow> string list \<Rightarrow> byte list \<Rightarrow> nat option \<Rightarrow> byte list" where
  "hash_value sha256 service env tags parentHash propagationHash =
     (let currentHash = shaHash sha256 (utf8_bytes (hash_input service env tags @ propagation_part propagationHash));
          buf = take 16 (currentHash @ parentHash @ replicate 16 0)
      in shaHash sha256 (utf8_lossy buf))"

record 'c hash_env =
  he_sha256 :: "byte list \<Rightarrow> byte list"
  he_get :: "'c \<Rightarrow> byte list \<Rightarrow> hash_buffer option \<times> 'c"
  he_set :: "'c \<Rightarrow> byte list \<Rightarrow> hash_buffer \<Rightarrow> 'c"

text \<open>The state is the cache and the identity of the next buffer.\<close>

definition computeHash ::
    "'c hash_env \<Rightarrow> string \<Rightarrow> string option \<Rightarrow> string list \<Rightarrow> byte list \<Rightarrow> nat option \<Rightarrow> 'c \<times> nat \<Rightarrow>
     string list \<times> hash_buffer \<times> 'c \<times> nat" where
  "computeHash he service env edgeTags parentHash propagationHash s =
     (let tags = sort edgeTags;
          key = cache_key service env tags parentHash propagationHash;
          (c, next) = s;
          (found, c) = he_get he c key
      in case found of
           Some buf \<Rightarrow> (tags, buf, c, next)
         | None \<Rightarrow>
             (let buf = (next, hash_value (he_sha256 he) service env tags parentHash propagationHash)
              in (tags, buf, he_set he c key buf, next + 1)))"

subsection \<open>Twenty bytes\<close>

definition PATHWAY_CONTEXT_BYTES :: nat where "PATHWAY_CONTEXT_BYTES = 20"

text \<open>\<open>Math.round(ns / 1e6)\<close>\<close>

definition in_ms :: "rat \<Rightarrow> int" where
  "in_ms ns = math_round (ns / 1000000)"

text \<open>\<open>scratch\<close> is the buffer all calls share; it is returned as the call leaves it.\<close>

definition encodePathwayContext :: "byte list \<Rightarrow> dsm_context \<Rightarrow> byte list \<times> byte list" where
  "encodePathwayContext scratch ctx =
     (let hash = snd (dc_hash ctx);
          scratch = write_at scratch 0 hash;
          offset = min (length hash) (length scratch);
          (scratch, offset) = encodeVarintInto scratch offset (int_num (in_ms (dc_pathwayStartNs ctx)));
          (scratch, offset) = encodeVarintInto scratch offset (int_num (in_ms (dc_edgeStartNs ctx)));
          scratch = (if PATHWAY_CONTEXT_BYTES \<le> offset then scratch
                     else write_at scratch offset (replicate (PATHWAY_CONTEXT_BYTES - offset) 0))
      in (scratch, take PATHWAY_CONTEXT_BYTES scratch))"

definition encodePathwayContextBase64 :: "byte list \<Rightarrow> dsm_context \<Rightarrow> byte list \<times> string" where
  "encodePathwayContextBase64 scratch ctx =
     (let (scratch, bytes) = encodePathwayContext scratch ctx in (scratch, to_base64 bytes))"

text \<open>
  \<open>ident\<close> is the identity of the buffer that holds the hash. Absent results, \<open>null\<close> or
  \<open>undefined\<close>, are \<open>None\<close>.
\<close>

definition decodePathwayContext :: "nat \<Rightarrow> byte list \<Rightarrow> dsm_context option" where
  "decodePathwayContext ident pathwayContext =
     (if length pathwayContext < 8 then None
      else case decodeVarint (drop 8 pathwayContext) of
             (None, _) \<Rightarrow> None
           | (Some pathwayStartMs, encodedTimeSincePrev) \<Rightarrow>
               (case decodeVarint encodedTimeSincePrev of
                  (None, _) \<Rightarrow> None
                | (Some edgeStartMs, _) \<Rightarrow>
                    Some \<lparr>dc_hash = (ident, take 8 pathwayContext),
                      dc_pathwayStartNs = of_int pathwayStartMs * 1000000, dc_edgeStartNs = of_int edgeStartMs * 1000000,
                      dc_prev = None\<rparr>))"

text \<open>
  A buffer is read as text first; its bytes above 127 become characters that base64 skips, as the
  characters of the same code here are.
\<close>

definition decodePathwayContextBase64 :: "nat \<Rightarrow> jsval \<Rightarrow> dsm_context option" where
  "decodePathwayContextBase64 ident pathwayContext =
     (case pathwayContext of
        JStr s \<Rightarrow> if length s < 8 then None else decodePathwayContext ident (from_base64 s)
      | JBuf bs \<Rightarrow> if length bs < 8 then None
                   else decodePathwayContext ident (from_base64 (map (\<lambda>b. char_of (unat b)) bs))
      | _ \<Rightarrow> None)"

subsection \<open>The codec of carriers\<close>

definition dsm_encode :: "byte list \<Rightarrow> dsm_context option \<Rightarrow> carrier option \<Rightarrow> byte list \<times> carrier option" where
  "dsm_encode scratch ctx c =
     (case ctx of
        None \<Rightarrow> (scratch, None)
      | Some ctx \<Rightarrow>
          (let c = (case c of None \<Rightarrow> [] | Some c \<Rightarrow> c);
               (scratch, text) = encodePathwayContextBase64 scratch ctx
           in (scratch, Some (field_write dsmBase64Header text c))))"

definition dsm_decode :: "nat \<Rightarrow> carrier option \<Rightarrow> dsm_context option" where
  "dsm_decode ident c =
     (case c of
        None \<Rightarrow> None
      | Some c \<Rightarrow>
          if field_has dsmBase64Header c then
            (let encoded = readDsmBase64 c
             in if encoded \<noteq> JUndef then decodePathwayContextBase64 ident encoded else None)
          else if field_has dsmBinaryHeader c then
            (let encoded = readDsmBinary c;
                 ctx = (case encoded of JBuf bs \<Rightarrow> decodePathwayContext ident bs | _ \<Rightarrow> None)
             in if ctx = None \<and> encoded \<noteq> JUndef then decodePathwayContextBase64 ident encoded else ctx)
          else None)"

subsection \<open>Round trip\<close>

lemma write_at_short:
  assumes "length a = i" "i + length bs \<le> length t"
  shows "write_at (write_at t 0 a) i bs = write_at t 0 (a @ bs)"
  using write_at_append [of t 0 a bs] assms by simp

text \<open>The bytes of a context: its hash and the two integers, cut and filled to twenty.\<close>

definition pathway_bytes :: "dsm_context \<Rightarrow> byte list" where
  "pathway_bytes ctx =
     take 20 (snd (dc_hash ctx) @ leb128 (zigzag (in_ms (dc_pathwayStartNs ctx))) @
       leb128 (zigzag (in_ms (dc_edgeStartNs ctx))) @ replicate 20 0)"

definition safe_times :: "dsm_context \<Rightarrow> bool" where
  "safe_times ctx \<longleftrightarrow> \<bar>in_ms (dc_pathwayStartNs ctx)\<bar> \<le> MAX_SAFE_INTEGER div 2 \<and>
     \<bar>in_ms (dc_edgeStartNs ctx)\<bar> \<le> MAX_SAFE_INTEGER div 2"

lemma encodePathwayContext_bytes:
  assumes "length scratch = 20" "length (snd (dc_hash ctx)) \<le> 20" "safe_times ctx"
  shows "encodePathwayContext scratch ctx = (pathway_bytes ctx, pathway_bytes ctx)"
proof -
  let ?h = "snd (dc_hash ctx)"
  let ?a = "leb128 (zigzag (in_ms (dc_pathwayStartNs ctx)))" and ?b = "leb128 (zigzag (in_ms (dc_edgeStartNs ctx)))"
  let ?o = "length ?h + length ?a + length ?b"
  have e: "encodeVarintInto t i (int_num (in_ms (dc_pathwayStartNs ctx))) = (write_at t i ?a, i + length ?a)"
      "encodeVarintInto t i (int_num (in_ms (dc_edgeStartNs ctx))) = (write_at t i ?b, i + length ?b)" for t i
    using assms(3) encodeVarintInto_int(1) by (auto simp: safe_times_def)
  have w: "write_at (write_at (write_at scratch 0 ?h) (length ?h) ?a) (length ?h + length ?a) ?b =
      write_at scratch 0 (?h @ ?a @ ?b)"
    using write_at_append [of scratch 0 ?h "?a @ ?b"] write_at_append [of _ "length ?h" ?a ?b] by simp
  have all: "write_at scratch 0 bs = take 20 (bs @ drop (length bs) scratch)" for bs
    using assms(1) by (simp add: write_at_eq)
  have "(if 20 \<le> ?o then write_at scratch 0 (?h @ ?a @ ?b)
      else write_at (write_at scratch 0 (?h @ ?a @ ?b)) ?o (replicate (20 - ?o) 0)) = pathway_bytes ctx"
  proof (cases "20 \<le> ?o")
    case True
    then show ?thesis by (simp add: all pathway_bytes_def)
  next
    case False
    have "write_at (write_at scratch 0 (?h @ ?a @ ?b)) ?o (replicate (20 - ?o) 0) =
        write_at scratch 0 ((?h @ ?a @ ?b) @ replicate (20 - ?o) 0)"
      using write_at_append [of scratch 0 "?h @ ?a @ ?b" "replicate (20 - ?o) 0"] by (simp add: add.assoc)
    then show ?thesis using False by (simp add: all pathway_bytes_def assms(1))
  qed
  moreover have "length (pathway_bytes ctx) = 20" by (simp add: pathway_bytes_def)
  ultimately show ?thesis
    using assms(1,2) by (simp add: encodePathwayContext_def Let_def e w PATHWAY_CONTEXT_BYTES_def min_absorb1 split: if_splits)
qed

lemma decodeVarint_cut:
  assumes "k < length (leb128 n)" "length (leb128 n) \<le> 8"
  shows "fst (decodeVarint (take k (leb128 n))) = None"
proof -
  have "fst (decode_loop bytes i low high s) = None"
    if "drop i bytes = take k (leb128 n)" "k < length (leb128 n)" "i + length (leb128 n) \<le> 8"
    for bytes i low high s k n
    using that
  proof (induction n arbitrary: i low high s k rule: leb128.induct)
    case (1 n)
    show ?case
    proof (cases k)
      case 0
      then have "length bytes \<le> i" using 1(2) by simp
      then show ?thesis by (subst decode_loop.simps) simp
    next
      case (Suc j)
      have big: "\<not> n < 128" using 1(3) Suc by (auto simp: leb128_small)
      then have d: "drop i bytes = byte_of (int (n mod 128 + 128)) # take j (leb128 (n div 128))"
        using 1(2) Suc by (simp add: leb128_large)
      then have i: "i < length bytes" "bytes ! i = byte_of (int (n mod 128 + 128))"
          "drop (i + 1) bytes = take j (leb128 (n div 128))"
        by (metis drop_all list.distinct(1) not_less)
          (metis d hd_drop_conv_nth drop_all list.distinct(1) list.sel(1) not_less,
           metis d Suc_eq_plus1 drop_Suc list.sel(3) tl_drop)
      have "uint (bytes ! i) = int (n mod 128) + 128" by (simp add: i(2) uint_byte_of zmod_int)
      moreover have "i \<noteq> maxVarLen64 - 1" using 1(4) big by (auto simp: maxVarLen64_def leb128_large)
      moreover have "fst (decode_loop bytes (i + 1) low' high' s') = None" for low' high' s'
        using 1(1) [OF big i(3)] 1(3,4) Suc big by (auto simp: leb128_large)
      ultimately show ?thesis using i(1) by (subst decode_loop.simps) (simp add: Let_def)
    qed
  qed
  from this [of 0 "take k (leb128 n)" k n 0 0 0] assms
  have "fst (decode_loop (take k (leb128 n)) 0 0 0 0) = None" by simp
  then show ?thesis
    by (cases "decode_loop (take k (leb128 n)) 0 0 0 0") (simp add: decodeVarint_def decodeUvarint64_def)
qed

text \<open>The context that reading the bytes should give: times in whole milliseconds\<close>

definition rounded_context :: "nat \<Rightarrow> dsm_context \<Rightarrow> dsm_context" where
  "rounded_context ident ctx =
     \<lparr>dc_hash = (ident, snd (dc_hash ctx)),
      dc_pathwayStartNs = of_int (in_ms (dc_pathwayStartNs ctx)) * 1000000,
      dc_edgeStartNs = of_int (in_ms (dc_edgeStartNs ctx)) * 1000000, dc_prev = None\<rparr>"

definition times_fit :: "dsm_context \<Rightarrow> bool" where
  "times_fit ctx \<longleftrightarrow> length (leb128 (zigzag (in_ms (dc_pathwayStartNs ctx)))) +
     length (leb128 (zigzag (in_ms (dc_edgeStartNs ctx)))) \<le> 12"

lemma decode_pathway_bytes:
  assumes "length (snd (dc_hash ctx)) = 8" "safe_times ctx"
  shows "decodePathwayContext ident (pathway_bytes ctx) =
    (if times_fit ctx then Some (rounded_context ident ctx) else None)"
proof -
  let ?h = "snd (dc_hash ctx)"
  let ?a = "leb128 (zigzag (in_ms (dc_pathwayStartNs ctx)))" and ?b = "leb128 (zigzag (in_ms (dc_edgeStartNs ctx)))"
  have safe: "\<bar>in_ms (dc_pathwayStartNs ctx)\<bar> \<le> MAX_SAFE_INTEGER div 2" "\<bar>in_ms (dc_edgeStartNs ctx)\<bar> \<le> MAX_SAFE_INTEGER div 2"
    using assms(2) by (auto simp: safe_times_def)
  have len: "length ?a \<le> 8" "length ?b \<le> 8" using encodeVarintInto_int(2) safe by auto
  let ?rest = "take (12 - length ?a) (?b @ replicate 20 0)"
  have "take 8 (pathway_bytes ctx) = ?h" "drop 8 (pathway_bytes ctx) = ?a @ ?rest"
    using assms(1) len by (simp_all add: pathway_bytes_def take_append drop_take)
  moreover have "length (pathway_bytes ctx) = 20" by (simp add: pathway_bytes_def)
  moreover have "decodeVarint (?a @ ?rest) = (Some (in_ms (dc_pathwayStartNs ctx)), ?rest)"
    using decodeVarint_leb128 [OF safe(1)] by simp
  moreover have "fst (decodeVarint ?rest) = (if times_fit ctx then Some (in_ms (dc_edgeStartNs ctx)) else None)"
  proof (cases "times_fit ctx")
    case True
    then have "?rest = ?b @ take (12 - length ?a - length ?b) (replicate 20 0)" by (simp add: times_fit_def)
    then show ?thesis using True decodeVarint_leb128 [OF safe(2)] by simp
  next
    case False
    then have "?rest = take (12 - length ?a) ?b" "12 - length ?a < length ?b"
      using len by (simp_all add: times_fit_def)
    then show ?thesis using False decodeVarint_cut len(2) by simp
  qed
  ultimately show ?thesis
    by (cases "decodeVarint ?rest") (auto simp: decodePathwayContext_def rounded_context_def)
qed

lemma times_fit_iff:
  assumes "\<bar>in_ms (dc_pathwayStartNs ctx)\<bar> < 2 ^ 41" "\<bar>in_ms (dc_edgeStartNs ctx)\<bar> < 2 ^ 41"
  shows "times_fit ctx"
proof -
  have "length (leb128 (zigzag v)) \<le> 6" if "\<bar>v\<bar> < 2 ^ 41" for v
  proof -
    have "zigzag v < 128 ^ 6" using that by (auto simp: zigzag_def nat_less_iff)
    then show ?thesis by (simp add: leb128_length)
  qed
  from this [OF assms(1)] this [OF assms(2)] show ?thesis by (simp add: times_fit_def)
qed

lemma times_too_late:
  assumes "2 ^ 41 \<le> in_ms (dc_pathwayStartNs ctx)" "2 ^ 41 \<le> in_ms (dc_edgeStartNs ctx)"
  shows "\<not> times_fit ctx"
proof -
  have "6 < length (leb128 (zigzag v))" if "2 ^ 41 \<le> v" for v
  proof -
    have "\<not> zigzag v < 128 ^ 6" using that by (auto simp: zigzag_def)
    then show ?thesis using leb128_length [of 6 "zigzag v"] by simp
  qed
  from this [OF assms(1)] this [OF assms(2)] show ?thesis by (simp add: times_fit_def)
qed

lemma dsm_codec:
  assumes "length scratch = 20" "length (snd (dc_hash ctx)) = 8" "safe_times ctx"
  shows "dsm_encode scratch (Some ctx) (Some c) =
      (pathway_bytes ctx, Some (field_write dsmBase64Header (to_base64 (pathway_bytes ctx)) c))"
    "length (to_base64 (pathway_bytes ctx)) = 28"
    "dsm_decode ident (Some (field_write dsmBase64Header (to_base64 (pathway_bytes ctx)) c)) =
      (if times_fit ctx then Some (rounded_context ident ctx) else None)"
proof -
  have len: "length (pathway_bytes ctx) = 20" by (simp add: pathway_bytes_def)
  show "dsm_encode scratch (Some ctx) (Some c) =
      (pathway_bytes ctx, Some (field_write dsmBase64Header (to_base64 (pathway_bytes ctx)) c))"
    using encodePathwayContext_bytes [OF assms(1) _ assms(3)] assms(2)
    by (simp add: dsm_encode_def encodePathwayContextBase64_def Let_def)
  show len28: "length (to_base64 (pathway_bytes ctx)) = 28" by (simp add: length_to_base64 len)
  show "dsm_decode ident (Some (field_write dsmBase64Header (to_base64 (pathway_bytes ctx)) c)) =
      (if times_fit ctx then Some (rounded_context ident ctx) else None)"
    by (simp add: dsm_decode_def field_has_def field_write_def readDsmBase64_def readLastPathway_def is_pathway_def
        decodePathwayContextBase64_def decode_pathway_bytes [OF assms(2,3)] getp_set len28)
qed

text \<open>
  C28: A pathway context travels through a carrier: what the codec reads is the hash and both times,
  rounded to milliseconds, whatever an earlier call left in the shared buffer, and the text has 28
  characters. That holds while the times are below \<open>2^41\<close> milliseconds; from then on (September
  2039) the second time no longer fits into the twenty bytes and the reader gets no context at all.
\<close>

theorem pathway_roundtrip:
  assumes "length scratch = 20" "length (snd (dc_hash ctx)) = 8" "safe_times ctx"
  shows "\<exists>text. length text = 28 \<and>
    dsm_encode scratch (Some ctx) (Some c) = (pathway_bytes ctx, Some (field_write dsmBase64Header text c)) \<and>
    (\<bar>in_ms (dc_pathwayStartNs ctx)\<bar> < 2 ^ 41 \<and> \<bar>in_ms (dc_edgeStartNs ctx)\<bar> < 2 ^ 41 \<longrightarrow>
       dsm_decode ident (Some (field_write dsmBase64Header text c)) = Some (rounded_context ident ctx)) \<and>
    (2 ^ 41 \<le> in_ms (dc_pathwayStartNs ctx) \<and> 2 ^ 41 \<le> in_ms (dc_edgeStartNs ctx) \<longrightarrow>
       dsm_decode ident (Some (field_write dsmBase64Header text c)) = None)"
  using dsm_codec [OF assms] times_fit_iff times_too_late by fastforce

definition demo_pathway :: "rat \<Rightarrow> dsm_context" where
  "demo_pathway ms =
     \<lparr>dc_hash = (7, [1, 2, 3, 4, 5, 6, 7, 8]), dc_pathwayStartNs = ms * 1000000, dc_edgeStartNs = ms * 1000000, dc_prev = None\<rparr>"

theorem pathway_roundtrip_witness:
  "(\<exists>text. length text = 28 \<and>
     dsm_decode 0 (Some (field_write dsmBase64Header text [])) = Some (rounded_context 0 (demo_pathway 1735689600000))) \<and>
   (\<exists>text. length text = 28 \<and>
     dsm_encode (replicate 20 0) (Some (demo_pathway 2199023255552)) (Some []) =
       (pathway_bytes (demo_pathway 2199023255552), Some (field_write dsmBase64Header text [])) \<and>
     dsm_decode 0 (Some (field_write dsmBase64Header text [])) = None)"
proof -
  have ms: "in_ms (dc_pathwayStartNs (demo_pathway (of_int i))) = i" "in_ms (dc_edgeStartNs (demo_pathway (of_int i))) = i" for i
    by (simp_all add: demo_pathway_def in_ms_def math_round_def) linarith+
  have safe: "safe_times (demo_pathway (of_int i))" if "\<bar>i\<bar> \<le> 4503599627370495" for i
    using that by (simp add: safe_times_def ms MAX_SAFE_INTEGER_def)
  have hash: "length (snd (dc_hash (demo_pathway r))) = 8" for r by (simp add: demo_pathway_def)
  show ?thesis
    using pathway_roundtrip [of "replicate 20 0" "demo_pathway (of_int 1735689600000)" "[]" 0]
      pathway_roundtrip [of "replicate 20 0" "demo_pathway (of_int 2199023255552)" "[]" 0]
      safe [of 1735689600000] safe [of 2199023255552] hash ms [of 1735689600000] ms [of 2199023255552]
    by simp blast
qed

end
