(* ===== verification/DataStreams.thy ===== *)
theory DataStreams
  imports Pathway
begin

text \<open>
  The processor of data streams (\<open>datastreams/processor.js\<close>): statistics of checkpoints in buckets of
  ten seconds, backlogs of consumers, transactions in a binary format, and the context that the next
  step of a pathway starts from. The sketches of the vendored library are an argument with their
  three operations. A \<open>Map\<close> is the list of its entries; the one of checkpoints is keyed by the
  identity of the hash buffer. What goes to the writer is collected in \<open>ds_sent\<close>.
\<close>

subsection \<open>Points, backlogs\<close>

record 'k sketch_ops =
  sk_new :: 'k
  sk_accept :: "rat \<Rightarrow> 'k \<Rightarrow> 'k"
  sk_proto :: "'k \<Rightarrow> jsval"

record 'k stats_point =
  pt_hash :: int
  pt_parentHash :: int
  pt_edgeTags :: "string list"
  pt_edgeLatency :: 'k
  pt_pathwayLatency :: 'k
  pt_payloadSize :: 'k

text \<open>\<open>readBigUInt64LE\<close>; hashes have eight bytes.\<close>

definition le64 :: "byte list \<Rightarrow> int" where
  "le64 bs = be_val (rev (take 8 bs))"

definition ENTRY_PARENT_HASH :: hash_buffer where
  "ENTRY_PARENT_HASH = (0, replicate 8 0)"

record checkpoint =
  cp_currentTimestamp :: int
  cp_parentHash :: hash_buffer
  cp_hash :: hash_buffer
  cp_edgeTags :: "string list"
  cp_edgeLatencyNs :: rat
  cp_pathwayLatencyNs :: rat
  cp_payloadSize :: rat

definition new_StatsPoint :: "'k sketch_ops \<Rightarrow> hash_buffer \<Rightarrow> hash_buffer \<Rightarrow> string list \<Rightarrow> 'k stats_point" where
  "new_StatsPoint ops hash parentHash edgeTags =
     \<lparr>pt_hash = le64 (snd hash), pt_parentHash = le64 (snd parentHash), pt_edgeTags = edgeTags,
      pt_edgeLatency = sk_new ops, pt_pathwayLatency = sk_new ops, pt_payloadSize = sk_new ops\<rparr>"

definition addLatencies :: "'k sketch_ops \<Rightarrow> checkpoint \<Rightarrow> 'k stats_point \<Rightarrow> 'k stats_point" where
  "addLatencies ops cp p =
     p\<lparr>pt_edgeLatency := sk_accept ops (cp_edgeLatencyNs cp / 1000000000) (pt_edgeLatency p),
       pt_pathwayLatency := sk_accept ops (cp_pathwayLatencyNs cp / 1000000000) (pt_pathwayLatency p),
       pt_payloadSize := sk_accept ops (cp_payloadSize cp) (pt_payloadSize p)\<rparr>"

record backlog =
  bl_tags :: "string list"
  bl_offset :: jsnum

text \<open>The data of a backlog without its \<open>offset\<close> property; the hash is the text of the tags.\<close>

definition new_Backlog :: "(jsval \<Rightarrow> string) \<Rightarrow> jsnum \<Rightarrow> jsobj \<Rightarrow> backlog" where
  "new_Backlog str offset tags =
     \<lparr>bl_tags = map (\<lambda>k. k @ '':'' @ js_string str (getp tags k)) (sort (map fst tags)), bl_offset = offset\<rparr>"

definition bl_hash :: "backlog \<Rightarrow> string" where
  "bl_hash b = join '','' (bl_tags b)"

definition num_gt :: "jsnum \<Rightarrow> jsnum \<Rightarrow> bool" where
  "num_gt a b = (case (a, b) of
      (Fin x, Fin y) \<Rightarrow> y < x
    | (PInf, Fin _) \<Rightarrow> True
    | (PInf, NInf) \<Rightarrow> True
    | (Fin _, NInf) \<Rightarrow> True
    | _ \<Rightarrow> False)"

subsection \<open>Names of checkpoints\<close>

record registry =
  rg_nameToId :: "(string \<times> nat) list"
  rg_nextId :: nat
  rg_entryBuffers :: "byte list list"
  rg_encodedKeysCache :: "byte list option"

definition new_registry :: registry where
  "new_registry = \<lparr>rg_nameToId = [], rg_nextId = 1, rg_entryBuffers = [], rg_encodedKeysCache = None\<rparr>"

text \<open>\<open>buf.write(name, 0, n, 'utf8')\<close>: as many whole characters as fit into \<open>n\<close> bytes\<close>

fun utf8_fit :: "nat \<Rightarrow> string \<Rightarrow> byte list" where
  "utf8_fit n [] = []"
| "utf8_fit n (c # cs) =
     (if length (utf8_char c) \<le> n then utf8_char c @ utf8_fit (n - length (utf8_char c)) cs else [])"

definition registry_entry :: "nat \<Rightarrow> string \<Rightarrow> byte list" where
  "registry_entry ident name =
     (let nameBuf = utf8_fit 255 name in byte_of (int ident) # byte_of (int (length nameBuf)) # nameBuf)"

definition getId :: "string \<Rightarrow> registry \<Rightarrow> nat option \<times> registry" where
  "getId name r =
     (case map_of (rg_nameToId r) name of
        Some existing \<Rightarrow> (Some existing, r)
      | None \<Rightarrow>
          if 254 < rg_nextId r then (None, r)
          else (Some (rg_nextId r),
                r\<lparr>rg_nextId := rg_nextId r + 1,
                  rg_nameToId := AList.update name (rg_nextId r) (rg_nameToId r),
                  rg_entryBuffers := rg_entryBuffers r @ [registry_entry (rg_nextId r) name],
                  rg_encodedKeysCache := None\<rparr>))"

definition encodedKeys :: "registry \<Rightarrow> byte list \<times> registry" where
  "encodedKeys r =
     (case rg_encodedKeysCache r of
        Some keys \<Rightarrow> (keys, r)
      | None \<Rightarrow> (let keys = concat (rg_entryBuffers r) in (keys, r\<lparr>rg_encodedKeysCache := Some keys\<rparr>)))"

subsection \<open>Buckets\<close>

record 'k bucket =
  bk_checkpoints :: "(nat \<times> 'k stats_point) list"
  bk_backlogs :: "(string \<times> backlog) list"
  bk_transactionChunks :: "byte list list"

definition new_StatsBucket :: "'k bucket" where
  "new_StatsBucket = \<lparr>bk_checkpoints = [], bk_backlogs = [], bk_transactionChunks = []\<rparr>"

definition bk_transactions :: "'k bucket \<Rightarrow> byte list option" where
  "bk_transactions b = (if bk_transactionChunks b = [] then None else Some (concat (bk_transactionChunks b)))"

text \<open>The point is shared with the map, so what is done to it (\<open>f\<close>) happens in the bucket.\<close>

definition forCheckpoint ::
    "'k sketch_ops \<Rightarrow> checkpoint \<Rightarrow> ('k stats_point \<Rightarrow> 'k stats_point) \<Rightarrow> 'k bucket \<Rightarrow> 'k stats_point \<times> 'k bucket" where
  "forCheckpoint ops cp f b =
     (let point = (case map_of (bk_checkpoints b) (fst (cp_hash cp)) of
            Some p \<Rightarrow> f p
          | None \<Rightarrow> f (new_StatsPoint ops (cp_hash cp) (cp_parentHash cp) (cp_edgeTags cp)))
      in (point, b\<lparr>bk_checkpoints := AList.update (fst (cp_hash cp)) point (bk_checkpoints b)\<rparr>))"

definition addTransaction :: "byte list \<Rightarrow> 'k bucket \<Rightarrow> 'k bucket" where
  "addTransaction bytes b = b\<lparr>bk_transactionChunks := bk_transactionChunks b @ [bytes]\<rparr>"

definition forBacklog :: "(jsval \<Rightarrow> string) \<Rightarrow> jsnum \<Rightarrow> jsobj \<Rightarrow> 'k bucket \<Rightarrow> backlog \<times> 'k bucket" where
  "forBacklog str offset tags b =
     (let backlog = new_Backlog str offset tags
      in case map_of (bk_backlogs b) (bl_hash backlog) of
           Some existing \<Rightarrow>
             if num_gt (bl_offset existing) (bl_offset backlog) then (existing, b)
             else (backlog, b\<lparr>bk_backlogs := AList.update (bl_hash backlog) backlog (bk_backlogs b)\<rparr>)
         | None \<Rightarrow> (backlog, b\<lparr>bk_backlogs := AList.update (bl_hash backlog) backlog (bk_backlogs b)\<rparr>))"

type_synonym 'k buckets = "(int \<times> 'k bucket) list"

definition forTime :: "int \<Rightarrow> 'k buckets \<Rightarrow> 'k buckets" where
  "forTime time bs = (if has_own bs time then bs else AList.update time new_StatsBucket bs)"

subsection \<open>Sampling of schemas\<close>

definition SAMPLE_INTERVAL_MILLIS :: int where "SAMPLE_INTERVAL_MILLIS = 30 * 1000"

record schema_sampler =
  ss_weight :: nat
  ss_lastSampleMs :: int

definition new_SchemaSampler :: schema_sampler where
  "new_SchemaSampler = \<lparr>ss_weight = 0, ss_lastSampleMs = 0\<rparr>"

definition trySample :: "int \<Rightarrow> schema_sampler \<Rightarrow> nat \<times> schema_sampler" where
  "trySample currentTimeMs s =
     (if ss_lastSampleMs s + SAMPLE_INTERVAL_MILLIS \<le> currentTimeMs
      then (ss_weight s, s\<lparr>ss_lastSampleMs := currentTimeMs, ss_weight := 0\<rparr>) else (0, s))"

definition canSample :: "int \<Rightarrow> schema_sampler \<Rightarrow> bool \<times> schema_sampler" where
  "canSample currentTimeMs s =
     (ss_lastSampleMs s + SAMPLE_INTERVAL_MILLIS \<le> currentTimeMs, s\<lparr>ss_weight := ss_weight s + 1\<rparr>)"

subsection \<open>The processor\<close>

record enc_point =
  en_Hash :: int
  en_ParentHash :: int
  en_EdgeTags :: "string list"
  en_EdgeLatency :: jsval
  en_PathwayLatency :: jsval
  en_PayloadSize :: jsval

record enc_bucket =
  eb_Start :: int
  eb_Duration :: int
  eb_Stats :: "enc_point list"
  eb_Backlogs :: "(string list \<times> jsnum) list"
  eb_Transactions :: "(byte list \<times> byte list) option" \<comment> \<open>with \<open>TransactionCheckpointIds\<close>\<close>

record ('k, 'c) ds_env =
  de_ops :: "'k sketch_ops"
  de_hash :: "'c hash_env"
  de_str :: "jsval \<Rightarrow> string"

record ('k, 'c) dsm =
  ds_enabled :: bool
  ds_service :: string
  ds_env :: "string option"
  ds_flushInterval :: int
  ds_buckets :: "'k buckets"
  ds_registry :: registry
  ds_samplers :: "(string \<times> schema_sampler) list"
  ds_cache :: "'c \<times> nat"
  ds_sent :: "enc_bucket list list"

definition bucketSizeNs :: int where "bucketSizeNs = 10000000000"

definition new_DataStreamsProcessor :: "bool \<Rightarrow> string option \<Rightarrow> string option \<Rightarrow> int \<Rightarrow> 'c \<Rightarrow> ('k, 'c) dsm" where
  "new_DataStreamsProcessor enabled service env flushInterval cache =
     \<lparr>ds_enabled = enabled,
      ds_service = (case service of Some (c # cs) \<Rightarrow> c # cs | _ \<Rightarrow> ''unnamed-nodejs-service''),
      ds_env = env, ds_flushInterval = flushInterval, ds_buckets = [], ds_registry = new_registry, ds_samplers = [],
      ds_cache = (cache, 1), ds_sent = []\<rparr>"

text \<open>The remainder \<open>%\<close> has the sign of the dividend.\<close>

definition js_rem :: "int \<Rightarrow> int \<Rightarrow> int" where
  "js_rem a b = (if 0 \<le> a then a mod b else - ((- a) mod b))"

definition bucket_time :: "int \<Rightarrow> int" where
  "bucket_time timestamp = timestamp - js_rem timestamp bucketSizeNs"

text \<open>\<open>bucketFromTimestamp\<close> and what its caller does to the bucket\<close>

definition in_bucket :: "int \<Rightarrow> ('k bucket \<Rightarrow> 'a \<times> 'k bucket) \<Rightarrow> ('k, 'c) dsm \<Rightarrow> 'a \<times> ('k, 'c) dsm" where
  "in_bucket timestamp f d =
     (let bucketTime = bucket_time timestamp;
          bs = forTime bucketTime (ds_buckets d);
          (x, b) = f (case map_of bs bucketTime of Some b \<Rightarrow> b | None \<Rightarrow> new_StatsBucket)
      in (x, d\<lparr>ds_buckets := AList.update bucketTime b bs\<rparr>))"

definition encode_point :: "'k sketch_ops \<Rightarrow> 'k stats_point \<Rightarrow> enc_point" where
  "encode_point ops p =
     \<lparr>en_Hash = pt_hash p, en_ParentHash = pt_parentHash p, en_EdgeTags = pt_edgeTags p,
      en_EdgeLatency = sk_proto ops (pt_edgeLatency p), en_PathwayLatency = sk_proto ops (pt_pathwayLatency p),
      en_PayloadSize = sk_proto ops (pt_payloadSize p)\<rparr>"

definition serialize_bucket :: "'k sketch_ops \<Rightarrow> byte list \<Rightarrow> int \<times> 'k bucket \<Rightarrow> enc_bucket" where
  "serialize_bucket ops registrySnapshot entry =
     (let (timeNs, b) = entry
      in \<lparr>eb_Start = timeNs, eb_Duration = bucketSizeNs,
          eb_Stats = map (encode_point ops \<circ> snd) (bk_checkpoints b),
          eb_Backlogs = map (\<lambda>(_, bl). (bl_tags bl, bl_offset bl)) (bk_backlogs b),
          eb_Transactions = map_option (\<lambda>t. (t, registrySnapshot)) (bk_transactions b)\<rparr>)"

definition serializeBuckets :: "'k sketch_ops \<Rightarrow> ('k, 'c) dsm \<Rightarrow> enc_bucket list \<times> ('k, 'c) dsm" where
  "serializeBuckets ops d =
     (let (registrySnapshot, r) = encodedKeys (ds_registry d)
      in (map (serialize_bucket ops registrySnapshot) (ds_buckets d), d\<lparr>ds_registry := r, ds_buckets := []\<rparr>))"

definition onInterval :: "'k sketch_ops \<Rightarrow> ('k, 'c) dsm \<Rightarrow> ('k, 'c) dsm" where
  "onInterval ops d =
     (let (Stats, d) = serializeBuckets ops d
      in if Stats = [] then d else d\<lparr>ds_sent := ds_sent d @ [Stats]\<rparr>)"

definition flush_if_due :: "'k sketch_ops \<Rightarrow> ('k, 'c) dsm \<Rightarrow> ('k, 'c) dsm" where
  "flush_if_due ops d = (if ds_flushInterval d = 0 then onInterval ops d else d)"

text \<open>The tags that are set on the span, when there is one, are a result.\<close>

definition recordCheckpoint ::
    "'k sketch_ops \<Rightarrow> checkpoint \<Rightarrow> ('k, 'c) dsm \<Rightarrow> (string \<times> string) list \<times> ('k, 'c) dsm" where
  "recordCheckpoint ops cp d =
     (if \<not> ds_enabled d then ([], d)
      else (let (statsPoint, d) = in_bucket (cp_currentTimestamp cp) (forCheckpoint ops cp (addLatencies ops cp)) d
            in ([(''pathway.hash'', show_int (pt_hash statsPoint))], flush_if_due ops d)))"

text \<open>
  From where the next step counts: the parent, both start times and the closest step of the opposite
  direction. Comparing with the entry hash compares identities. A missing parent, which only a
  checkpoint without tags can have, makes the hash throw.
\<close>

definition next_from ::
    "rat \<Rightarrow> string option \<Rightarrow> dsm_context option \<Rightarrow> hash_buffer option \<times> rat \<times> rat \<times> hash_buffer \<times> rat" where
  "next_from nowNs direction ctx =
     (case ctx of
        None \<Rightarrow> (Some ENTRY_PARENT_HASH, nowNs, nowNs, ENTRY_PARENT_HASH, nowNs)
      | Some c \<Rightarrow>
          (let previousDirection = (case dc_prev c of None \<Rightarrow> None | Some (d, _, _) \<Rightarrow> d);
               oppositeHash = (case dc_prev c of None \<Rightarrow> ENTRY_PARENT_HASH | Some (_, h, _) \<Rightarrow> h);
               oppositeStart = (case dc_prev c of None \<Rightarrow> nowNs | Some (_, _, t) \<Rightarrow> if t = 0 then nowNs else t)
           in if direction = previousDirection then
                (case dc_prev c of
                   None \<Rightarrow> (None, dc_pathwayStartNs c, dc_edgeStartNs c, oppositeHash, oppositeStart)
                 | Some (_, h, t) \<Rightarrow>
                     if fst h = fst ENTRY_PARENT_HASH then (Some h, nowNs, nowNs, oppositeHash, oppositeStart)
                     else (Some h, dc_pathwayStartNs c, t, oppositeHash, oppositeStart))
              else (Some (dc_hash c), dc_pathwayStartNs c, dc_edgeStartNs c, dc_hash c, dc_edgeStartNs c)))"

definition PATHWAY_FIELD_BYTES :: nat where "PATHWAY_FIELD_BYTES = 55"

definition checkpoint_of ::
    "('k, 'c) ds_env \<Rightarrow> int \<Rightarrow> nat option \<Rightarrow> string list \<Rightarrow> dsm_context option \<Rightarrow> rat \<Rightarrow> rat \<Rightarrow> ('k, 'c) dsm \<Rightarrow>
     (checkpoint \<times> dsm_context \<times> 'c \<times> nat) option" where
  "checkpoint_of env now propagation edgeTags ctx payloadSize pathwayContextSize d =
     (let nowNs = now * 1000000;
          direction = (case edgeTags of [] \<Rightarrow> None | t # _ \<Rightarrow> Some t);
          (parentHash, pathwayStartNs, edgeStartNs, closestHash, closestStart) =
            next_from (of_int nowNs) direction ctx
      in case parentHash of
           None \<Rightarrow> None
         | Some parentHash \<Rightarrow>
             (let (edgeTags, hash, cache) =
                    computeHash (de_hash env) (ds_service d) (ds_env d) edgeTags (snd parentHash) propagation (ds_cache d);
                  context = \<lparr>dc_hash = hash, dc_pathwayStartNs = pathwayStartNs, dc_edgeStartNs = of_int nowNs,
                    dc_prev = Some (direction, closestHash, closestStart)\<rparr>;
                  checkpoint = \<lparr>cp_currentTimestamp = nowNs, cp_parentHash = parentHash, cp_hash = hash,
                    cp_edgeTags = edgeTags, cp_edgeLatencyNs = of_int nowNs - edgeStartNs,
                    cp_pathwayLatencyNs = of_int nowNs - pathwayStartNs,
                    cp_payloadSize =
                      (if direction = Some ''direction:out'' then payloadSize + pathwayContextSize else payloadSize)\<rparr>
              in Some (checkpoint, context, cache)))"

definition setCheckpoint ::
    "('k, 'c) ds_env \<Rightarrow> int \<Rightarrow> nat option \<Rightarrow> string list \<Rightarrow> dsm_context option \<Rightarrow> rat \<Rightarrow> rat \<Rightarrow> ('k, 'c) dsm \<Rightarrow>
     (js_error + dsm_context option \<times> (string \<times> string) list) \<times> ('k, 'c) dsm" where
  "setCheckpoint env now propagation edgeTags ctx payloadSize pathwayContextSize d =
     (if \<not> ds_enabled d then (ok (None, []), d)
      else case checkpoint_of env now propagation edgeTags ctx payloadSize pathwayContextSize d of
             None \<Rightarrow> (throw TypeError, d)
           | Some (checkpoint, context, cache) \<Rightarrow>
               (let (spanTags, d) = recordCheckpoint (de_ops env) checkpoint (d\<lparr>ds_cache := cache\<rparr>)
                in (ok (Some context, spanTags), d)))"

definition recordOffset ::
    "('k, 'c) ds_env \<Rightarrow> int \<Rightarrow> jsnum \<Rightarrow> jsobj \<Rightarrow> ('k, 'c) dsm \<Rightarrow> backlog option \<times> ('k, 'c) dsm" where
  "recordOffset env timestamp offset tags d =
     (if \<not> ds_enabled d then (None, d)
      else (let (backlog, d) = in_bucket timestamp (forBacklog (de_str env) offset tags) d
            in (Some backlog, flush_if_due (de_ops env) d)))"

text \<open>The timestamp of the caller's object is replaced by the current time.\<close>

definition setOffset :: "('k, 'c) ds_env \<Rightarrow> int \<Rightarrow> jsnum \<Rightarrow> jsobj \<Rightarrow> ('k, 'c) dsm \<Rightarrow> ('k, 'c) dsm" where
  "setOffset env now offset tags d =
     (if \<not> ds_enabled d then d
      else snd (recordOffset env (now * 1000000) offset (AList.delete ''timestamp'' tags) d))"

text \<open>\<open>writeBigInt64BE\<close> throws outside of 64 bits, after the name was registered.\<close>

definition transaction_entry :: "nat \<Rightarrow> int \<Rightarrow> string \<Rightarrow> byte list" where
  "transaction_entry checkpointId timestampNs transactionId =
     (let idBytes = take 255 (utf8_bytes transactionId)
      in byte_of (int checkpointId) # be_bytes 8 timestampNs @ byte_of (int (length idBytes)) # idBytes)"

definition ds_trackTransaction ::
    "('k, 'c) ds_env \<Rightarrow> int \<Rightarrow> string \<Rightarrow> string \<Rightarrow> ('k, 'c) dsm \<Rightarrow>
     (js_error + (string \<times> string) list) \<times> ('k, 'c) dsm" where
  "ds_trackTransaction env now transactionId checkpointName d =
     (if \<not> ds_enabled d then (ok [], d)
      else
        (let (checkpointId, r) = getId checkpointName (ds_registry d);
             d = d\<lparr>ds_registry := r\<rparr>
         in case checkpointId of
              None \<Rightarrow> (ok [], d)
            | Some ident \<Rightarrow>
                (let timestampNs = now * 1000000
                 in if timestampNs < - (2 ^ 63) \<or> 2 ^ 63 \<le> timestampNs then (throw RangeError, d)
                    else
                      (let (_, d) = in_bucket timestampNs
                             (\<lambda>b. ((), addTransaction (transaction_entry ident timestampNs transactionId) b)) d;
                           d = flush_if_due (de_ops env) d
                       in (ok [(''dsm.transaction.id'', transactionId), (''dsm.transaction.checkpoint'', checkpointName)], d)))))"

definition sampler_of :: "string \<Rightarrow> ('k, 'c) dsm \<Rightarrow> schema_sampler" where
  "sampler_of topic d = (case map_of (ds_samplers d) topic of Some s \<Rightarrow> s | None \<Rightarrow> new_SchemaSampler)"

definition trySampleSchema :: "int \<Rightarrow> string \<Rightarrow> ('k, 'c) dsm \<Rightarrow> nat \<times> ('k, 'c) dsm" where
  "trySampleSchema now topic d =
     (let (weight, s) = trySample now (sampler_of topic d)
      in (weight, d\<lparr>ds_samplers := AList.update topic s (ds_samplers d)\<rparr>))"

definition canSampleSchema :: "int \<Rightarrow> string \<Rightarrow> ('k, 'c) dsm \<Rightarrow> bool \<times> ('k, 'c) dsm" where
  "canSampleSchema now topic d =
     (let (can, s) = canSample now (sampler_of topic d)
      in (can, d\<lparr>ds_samplers := AList.update topic s (ds_samplers d)\<rparr>))"

subsection \<open>Checkpoints by hand\<close>

text \<open>
  \<open>datastreams/checkpointer.js\<close> and \<open>manager.js\<close>: the context of the current execution is the
  argument \<open>current\<close> and a result; the shared buffer of the codec is \<open>scratch\<close>.
\<close>

definition manager_setCheckpoint ::
    "('k, 'c) ds_env \<Rightarrow> int \<Rightarrow> nat option \<Rightarrow> string list \<Rightarrow> rat \<Rightarrow> rat \<Rightarrow> dsm_context option \<Rightarrow> ('k, 'c) dsm \<Rightarrow>
     (js_error + dsm_context option \<times> (string \<times> string) list) \<times> ('k, 'c) dsm" where
  "manager_setCheckpoint env now propagation edgeTags payloadSize pathwayContextSize current d =
     setCheckpoint env now propagation edgeTags current payloadSize pathwayContextSize d"

definition manager_decode :: "carrier option \<Rightarrow> ('k, 'c) dsm \<Rightarrow> dsm_context option \<times> ('k, 'c) dsm" where
  "manager_decode c d =
     (let (cache, next) = ds_cache d in (dsm_decode next c, d\<lparr>ds_cache := (cache, next + 1)\<rparr>))"

definition setProduceCheckpoint ::
    "('k, 'c) ds_env \<Rightarrow> int \<Rightarrow> nat option \<Rightarrow> byte list \<Rightarrow> string \<Rightarrow> string \<Rightarrow> carrier \<Rightarrow> dsm_context option \<Rightarrow>
     ('k, 'c) dsm \<Rightarrow> (js_error + carrier \<times> dsm_context option \<times> byte list) \<times> ('k, 'c) dsm" where
  "setProduceCheckpoint env now propagation scratch type target c current d =
     (if \<not> ds_enabled d then (ok (c, current, scratch), d)
      else
        (let (r, d) = setCheckpoint env now propagation
               [''direction:out'', ''type:'' @ type, ''topic:'' @ target, manual_checkpoint] current 0
               (of_nat PATHWAY_FIELD_BYTES) d
         in (try_then r (\<lambda>(ctx, _).
               (let (scratch, injected) = dsm_encode scratch ctx (Some c)
                in ok (case injected of None \<Rightarrow> c | Some c \<Rightarrow> c, ctx, scratch))), d)))"

definition setConsumeCheckpoint ::
    "('k, 'c) ds_env \<Rightarrow> int \<Rightarrow> nat option \<Rightarrow> string \<Rightarrow> string \<Rightarrow> carrier option \<Rightarrow> bool \<Rightarrow> dsm_context option \<Rightarrow>
     ('k, 'c) dsm \<Rightarrow> (js_error + dsm_context option) \<times> ('k, 'c) dsm" where
  "setConsumeCheckpoint env now propagation type source c manualCheckpoint current d =
     (if \<not> ds_enabled d then (ok current, d)
      else
        (let (parentCtx, d) = manager_decode c d;
             tags = [''direction:in'', ''type:'' @ type, ''topic:'' @ source] @
               (if manualCheckpoint then [manual_checkpoint] else []);
             (r, d) = setCheckpoint env now propagation tags parentCtx 0 (of_nat PATHWAY_FIELD_BYTES) d
         in (try_then r (\<lambda>(ctx, _). ok ctx), d)))"

subsection \<open>Sizes of messages\<close>

text \<open>\<open>datastreams/size.js\<close>: an array of numbers counts as the buffer it would make.\<close>

fun getSizeOrZero :: "jsval \<Rightarrow> nat"
  and items_size :: "jsval list \<Rightarrow> nat"
  and getHeadersSize :: "(string \<times> jsval) list \<Rightarrow> nat"
where
  "getSizeOrZero (JStr s) = length (utf8_bytes s)"
| "getSizeOrZero (JBuf bs) = length bs"
| "getSizeOrZero (JArr xs) =
     (case xs of JNum _ # _ \<Rightarrow> length xs | _ \<Rightarrow> items_size xs)"
| "getSizeOrZero (JObj ps) = getHeadersSize ps"
| "getSizeOrZero (JErr m n st ps) = getHeadersSize ps"
| "getSizeOrZero v = 0"
| "items_size [] = 0"
| "items_size (x # xs) = getSizeOrZero x + items_size xs"
| "getHeadersSize [] = 0"
| "getHeadersSize ((k, v) # ps) = length (utf8_bytes k) + getSizeOrZero v + getHeadersSize ps"

text \<open>\<open>headers\<close> may be \<open>undefined\<close>.\<close>

definition headers_size :: "(string \<times> jsval) list option \<Rightarrow> nat" where
  "headers_size headers = (case headers of None \<Rightarrow> 0 | Some ps \<Rightarrow> getHeadersSize ps)"

definition getMessageSize :: "jsval \<Rightarrow> jsval \<Rightarrow> (string \<times> jsval) list option \<Rightarrow> nat" where
  "getMessageSize k value headers = getSizeOrZero k + getSizeOrZero value + headers_size headers"

definition getAmqpMessageSize :: "jsval \<Rightarrow> (string \<times> jsval) list option \<Rightarrow> nat" where
  "getAmqpMessageSize content headers = getSizeOrZero content + headers_size headers"

text \<open>
  The constant is what the codec adds to a JSON object: a comma, the quoted name, a colon and the
  quoted text of the context.
\<close>

lemma pathway_field_bytes:
  assumes "length scratch = 20" "length (snd (dc_hash ctx)) = 8" "safe_times ctx"
  shows "dsm_encode scratch (Some ctx) (Some []) = (pathway_bytes ctx, Some [(dsmBase64Header, JStr text)]) \<Longrightarrow>
    length ('','' @ [CHR 0x22] @ dsmBase64Header @ [CHR 0x22] @ '':'' @ [CHR 0x22] @ text @ [CHR 0x22]) = PATHWAY_FIELD_BYTES"
  using dsm_codec(1,2) [OF assms] by (auto simp: field_write_def dsmBase64Header_def PATHWAY_FIELD_BYTES_def)

subsection \<open>An instance for examples\<close>

text \<open>A cache that keeps everything, sketches that keep all values\<close>

type_synonym demo_cache = "(byte list \<times> hash_buffer) list"

definition demo_hash :: "demo_cache hash_env" where
  "demo_hash =
     \<lparr>he_sha256 = (\<lambda>bs. replicate 32 (of_nat (length bs))), he_get = (\<lambda>c k. (map_of c k, c)),
      he_set = (\<lambda>c k b. AList.update k b c)\<rparr>"

definition demo_ds :: "(rat list, demo_cache) ds_env" where
  "demo_ds =
     \<lparr>de_ops = \<lparr>sk_new = [], sk_accept = (\<lambda>x xs. xs @ [x]), sk_proto = (\<lambda>_. JNull)\<rparr>, de_hash = demo_hash, de_str = (\<lambda>_. [])\<rparr>"

definition demo_dsm :: "(rat list, demo_cache) dsm" where
  "demo_dsm = new_DataStreamsProcessor True (Some ''svc'') None 10000 []"

lemma demo_dsm_sel [simp]: "ds_enabled demo_dsm" "ds_cache demo_dsm = ([], 1)" "ds_flushInterval demo_dsm = 10000"
    "ds_buckets demo_dsm = []" "ds_registry demo_dsm = new_registry"
  by (simp_all add: demo_dsm_def new_DataStreamsProcessor_def)

end
