(* ===== verification/DataStreamsLog.thy ===== *)
theory DataStreamsLog
  imports DataStreams
begin

text \<open>
  What the processor of data streams promises. Its buckets are an abstraction of the log of what was
  recorded since the last flush: grouped by time, checkpoints by buffer with each sketch fed in order,
  backlogs with their last maximal offset, transactions in order in a format that can be read back
  with the names of their checkpoints. A pathway continues in another process, and a loop of
  producers does not make it longer.
\<close>

subsection \<open>The log\<close>

datatype ds_event = ECheckpoint checkpoint | EOffset int jsnum jsobj | ETransaction int string string

fun event_time :: "ds_event \<Rightarrow> int" where
  "event_time (ECheckpoint cp) = bucket_time (cp_currentTimestamp cp)"
| "event_time (EOffset timestamp _ _) = bucket_time timestamp"
| "event_time (ETransaction now _ _) = bucket_time (now * 1000000)"

text \<open>The identifier of a name is its place among the names that were registered, from one.\<close>

definition name_id :: "string list \<Rightarrow> string \<Rightarrow> nat" where
  "name_id names name = length (takeWhile (\<lambda>n. n \<noteq> name) names) + 1"

fun bucket_event :: "('k, 'c) ds_env \<Rightarrow> string list \<Rightarrow> ds_event \<Rightarrow> 'k bucket \<Rightarrow> 'k bucket" where
  "bucket_event env names (ECheckpoint cp) b = snd (forCheckpoint (de_ops env) cp (addLatencies (de_ops env) cp) b)"
| "bucket_event env names (EOffset _ offset tags) b = snd (forBacklog (de_str env) offset tags b)"
| "bucket_event env names (ETransaction now ident name) b =
     addTransaction (transaction_entry (name_id names name) (now * 1000000) ident) b"

subsection \<open>One bucket of a map\<close>

definition view :: "'k buckets \<Rightarrow> int \<Rightarrow> 'k bucket" where
  "view bs t = (case map_of bs t of None \<Rightarrow> new_StatsBucket | Some b \<Rightarrow> b)"

lemma view_Nil [simp]: "view [] t = new_StatsBucket"
  by (simp add: view_def)

lemma in_bucket_sel [simp]:
  "ds_enabled (snd (in_bucket ts f d)) = ds_enabled d" "ds_registry (snd (in_bucket ts f d)) = ds_registry d"
  "ds_flushInterval (snd (in_bucket ts f d)) = ds_flushInterval d" "ds_cache (snd (in_bucket ts f d)) = ds_cache d"
  "ds_sent (snd (in_bucket ts f d)) = ds_sent d" "ds_service (snd (in_bucket ts f d)) = ds_service d"
  "ds_env (snd (in_bucket ts f d)) = ds_env d"
  by (simp_all add: in_bucket_def Let_def split: prod.split)

lemma in_bucket_view:
  "view (ds_buckets (snd (in_bucket ts f d))) t =
     (if t = bucket_time ts then snd (f (view (ds_buckets d) t)) else view (ds_buckets d) t)"
  "fst (in_bucket ts f d) = fst (f (view (ds_buckets d) (bucket_time ts)))"
  by (auto simp: in_bucket_def Let_def view_def forTime_def has_own_def map_of_obj_set split: prod.split option.split)

lemma in_bucket_keys:
  "fst ` set (ds_buckets (snd (in_bucket ts f d))) = insert (bucket_time ts) (fst ` set (ds_buckets d))"
  "distinct (map fst (ds_buckets d)) \<Longrightarrow> distinct (map fst (ds_buckets (snd (in_bucket ts f d))))"
  by (auto simp: in_bucket_def Let_def forTime_def has_own_iff dom_update distinct_update split: prod.split)

subsection \<open>The registry\<close>

definition registered :: "registry \<Rightarrow> string list" where
  "registered r = map fst (rg_nameToId r)"

definition registry_ok :: "registry \<Rightarrow> bool" where
  "registry_ok r \<longleftrightarrow>
     (let names = registered r
      in distinct names \<and> length names \<le> 254 \<and> rg_nextId r = length names + 1 \<and>
         (\<forall>n \<in> set names. map_of (rg_nameToId r) n = Some (name_id names n)) \<and>
         rg_entryBuffers r = map (\<lambda>n. registry_entry (name_id names n) n) names \<and>
         pred_option (\<lambda>keys. keys = concat (rg_entryBuffers r)) (rg_encodedKeysCache r))"

lemma registry_ok_new [simp]: "registry_ok new_registry" "registered new_registry = []"
  by (simp_all add: registry_ok_def registered_def new_registry_def)

lemma registered_cache [simp]: "registered (r\<lparr>rg_encodedKeysCache := k\<rparr>) = registered r"
  by (simp add: registered_def)

lemma name_id_append: "n \<in> set names \<Longrightarrow> name_id (names @ others) n = name_id names n"
  by (simp add: name_id_def takeWhile_append1)

lemma name_id_new: "n \<notin> set names \<Longrightarrow> name_id (names @ [n]) n = length names + 1"
  by (induction names) (auto simp: name_id_def)

lemma name_id_bounds: "n \<in> set names \<Longrightarrow> 1 \<le> name_id names n \<and> name_id names n \<le> length names"
  by (induction names) (auto simp: name_id_def)

lemma update_new: "k \<notin> fst ` set m \<Longrightarrow> AList.update k v m = m @ [(k, v)]"
  by (induction m) auto

lemma getId_ok:
  assumes "registry_ok r" "getId name r = (result, r')"
  shows "registry_ok r'"
    "result = (if name \<in> set (registered r') then Some (name_id (registered r') name) else None)"
    "registered r' = (if name \<in> set (registered r) \<or> length (registered r) = 254 then registered r else registered r @ [name])"
proof -
  let ?names = "registered r"
  have r: "distinct ?names" "length ?names \<le> 254" "rg_nextId r = length ?names + 1"
      "\<And>n. n \<in> set ?names \<Longrightarrow> map_of (rg_nameToId r) n = Some (name_id ?names n)"
      "rg_entryBuffers r = map (\<lambda>n. registry_entry (name_id ?names n) n) ?names"
    using assms(1) by (simp_all add: registry_ok_def Let_def)
  have "registry_ok r' \<and>
    result = (if name \<in> set (registered r') then Some (name_id (registered r') name) else None) \<and>
    registered r' = (if name \<in> set ?names \<or> length ?names = 254 then ?names else ?names @ [name])"
  proof (cases "name \<in> set ?names")
    case True
    then show ?thesis using assms r(4) [OF True] by (auto simp: getId_def)
  next
    case False
    then have none: "map_of (rg_nameToId r) name = None" by (simp add: registered_def map_of_eq_None_iff)
    show ?thesis
    proof (cases "length ?names = 254")
      case True
      then show ?thesis using assms False none r(3) by (simp add: getId_def)
    next
      case room: False
      let ?ident = "length ?names + 1"
      have upd: "AList.update name ?ident (rg_nameToId r) = rg_nameToId r @ [(name, ?ident)]"
        using False by (intro update_new) (simp add: registered_def)
      then have r': "r' = r\<lparr>rg_nextId := length ?names + 2, rg_nameToId := rg_nameToId r @ [(name, ?ident)],
          rg_entryBuffers := rg_entryBuffers r @ [registry_entry ?ident name], rg_encodedKeysCache := None\<rparr>"
        and result: "result = Some ?ident"
        using assms(2) none room r(2,3) by (auto simp: getId_def)
      have names: "registered r' = ?names @ [name]" by (simp add: registered_def r')
      have "map_of (rg_nameToId r') n = Some (name_id (?names @ [name]) n)" if "n \<in> set (?names @ [name])" for n
      proof (cases "n = name")
        case True
        then show ?thesis using none False by (simp add: r' map_add_def map_of_append name_id_new)
      next
        case other: False
        then have n: "n \<in> set ?names" using that by simp
        then have "map_of (rg_nameToId r') n = map_of (rg_nameToId r) n" using r(4) other by (simp add: r' map_add_Some_iff)
        then show ?thesis using r(4) [OF n] n by (simp add: name_id_append)
      qed
      moreover have "rg_entryBuffers r' = map (\<lambda>n. registry_entry (name_id (?names @ [name]) n) n) (?names @ [name])"
        using r(5) False by (simp add: r' name_id_append name_id_new)
      ultimately have "registry_ok r'"
        unfolding registry_ok_def Let_def names using r(1,2) room False by (simp add: r')
      then show ?thesis using result False room names name_id_new [OF False] by simp
    qed
  qed
  then show "registry_ok r'"
    "result = (if name \<in> set (registered r') then Some (name_id (registered r') name) else None)"
    "registered r' = (if name \<in> set (registered r) \<or> length (registered r) = 254 then registered r else registered r @ [name])"
    by auto
qed

lemma encodedKeys_ok:
  assumes "registry_ok r" "encodedKeys r = (keys, r')"
  shows "registry_ok r'" "registered r' = registered r"
    "keys = concat (map (\<lambda>n. registry_entry (name_id (registered r) n) n) (registered r))"
proof -
  have "registered r' = registered r \<and> r' = r\<lparr>rg_encodedKeysCache := Some (concat (rg_entryBuffers r))\<rparr> \<and>
      keys = concat (rg_entryBuffers r)"
    using assms by (cases "rg_encodedKeysCache r") (auto simp: encodedKeys_def registry_ok_def registered_def Let_def)
  then show "registry_ok r'" "registered r' = registered r"
    "keys = concat (map (\<lambda>n. registry_entry (name_id (registered r) n) n) (registered r))"
    using assms(1) by (simp_all add: registry_ok_def Let_def)
qed

subsection \<open>Runs\<close>

text \<open>
  A run of the processor with the log of what it recorded since the last flush; with an interval of
  zero every record is flushed at once. Another process may have any state of the hash cache.
\<close>

definition log_after :: "('k, 'c) dsm \<Rightarrow> ds_event list \<Rightarrow> ds_event \<Rightarrow> ds_event list" where
  "log_after d evs e = (if ds_flushInterval d = 0 then [] else evs @ [e])"

definition tracked :: "js_error + (string \<times> string) list \<Rightarrow> bool" where
  "tracked r \<longleftrightarrow> (case r of Inl _ \<Rightarrow> False | Inr tags \<Rightarrow> tags \<noteq> [])"

inductive ds_reach :: "('k, 'c) ds_env \<Rightarrow> ds_event list \<Rightarrow> ('k, 'c) dsm \<Rightarrow> bool" for env where
  r_start: "ds_reach env [] (new_DataStreamsProcessor enabled service envname flushInterval cache)"
| r_checkpoint: "ds_reach env evs d \<Longrightarrow> ds_enabled d \<Longrightarrow>
    checkpoint_of env now propagation tags ctx n k d = Some (cp, ctx2, cache) \<Longrightarrow>
    ds_reach env (log_after d evs (ECheckpoint cp)) (snd (setCheckpoint env now propagation tags ctx n k d))"
| r_offset: "ds_reach env evs d \<Longrightarrow> ds_enabled d \<Longrightarrow>
    ds_reach env (log_after d evs (EOffset timestamp offset tags)) (snd (recordOffset env timestamp offset tags d))"
| r_transaction: "ds_reach env evs d \<Longrightarrow> ds_trackTransaction env now ident name d = (r, d') \<Longrightarrow>
    ds_reach env (if tracked r then log_after d evs (ETransaction now ident name) else evs) d'"
| r_flush: "ds_reach env evs d \<Longrightarrow> ds_reach env [] (onInterval (de_ops env) d)"

subsection \<open>The buckets are the log\<close>

definition grouped :: "('k, 'c) ds_env \<Rightarrow> string list \<Rightarrow> ds_event list \<Rightarrow> int \<Rightarrow> 'k bucket" where
  "grouped env names evs t = fold (bucket_event env names) (filter (\<lambda>e. event_time e = t) evs) new_StatsBucket"

fun event_ok :: "string list \<Rightarrow> ds_event \<Rightarrow> bool" where
  "event_ok names (ETransaction now ident name) \<longleftrightarrow> name \<in> set names \<and> - (2 ^ 63) \<le> now * 1000000 \<and> now * 1000000 < 2 ^ 63"
| "event_ok names _ \<longleftrightarrow> True"

definition ds_inv :: "('k, 'c) ds_env \<Rightarrow> ds_event list \<Rightarrow> ('k, 'c) dsm \<Rightarrow> bool" where
  "ds_inv env evs d \<longleftrightarrow>
     registry_ok (ds_registry d) \<and>
     list_all (event_ok (registered (ds_registry d))) evs \<and>
     (\<forall>t. view (ds_buckets d) t = grouped env (registered (ds_registry d)) evs t) \<and>
     fst ` set (ds_buckets d) = event_time ` set evs \<and>
     distinct (map fst (ds_buckets d))"

lemma grouped_Nil [simp]: "grouped env names [] t = new_StatsBucket"
  by (simp add: grouped_def)

lemma grouped_snoc:
  "grouped env names (evs @ [e]) t =
     (if event_time e = t then bucket_event env names e (grouped env names evs t) else grouped env names evs t)"
  by (simp add: grouped_def)

lemma bucket_event_names:
  "event_ok names e \<Longrightarrow> bucket_event env (names @ others) e = bucket_event env names e"
  by (cases e) (auto simp: name_id_append fun_eq_iff)

lemma grouped_names:
  "list_all (event_ok names) evs \<Longrightarrow> grouped env (names @ others) evs t = grouped env names evs t"
proof (induction evs rule: rev_induct)
  case (snoc e evs)
  then show ?case using bucket_event_names [of names e env others] by (simp add: grouped_snoc)
qed simp

lemma event_ok_names: "list_all (event_ok names) evs \<Longrightarrow> list_all (event_ok (names @ others)) evs"
proof -
  have "event_ok names e \<Longrightarrow> event_ok (names @ others) e" for e by (cases e) auto
  then show "list_all (event_ok names) evs \<Longrightarrow> list_all (event_ok (names @ others)) evs"
    by (auto simp: list_all_iff)
qed

lemma serialize_sel:
  assumes "serializeBuckets ops d = (stats, d')"
  shows "ds_buckets d' = []" "ds_enabled d' = ds_enabled d" "ds_flushInterval d' = ds_flushInterval d"
    "ds_registry d' = snd (encodedKeys (ds_registry d))" "ds_sent d' = ds_sent d"
    "ds_cache d' = ds_cache d" "ds_service d' = ds_service d" "ds_env d' = ds_env d"
    "stats = map (serialize_bucket ops (fst (encodedKeys (ds_registry d)))) (ds_buckets d)"
  using assms by (auto simp: serializeBuckets_def split: prod.splits)

lemma onInterval_sel [simp]:
  "ds_buckets (onInterval ops d) = []" "ds_enabled (onInterval ops d) = ds_enabled d"
  "ds_flushInterval (onInterval ops d) = ds_flushInterval d"
  "ds_registry (onInterval ops d) = snd (encodedKeys (ds_registry d))"
  "ds_cache (onInterval ops d) = ds_cache d" "ds_service (onInterval ops d) = ds_service d"
  "ds_env (onInterval ops d) = ds_env d"
  by (cases "serializeBuckets ops d"; simp add: onInterval_def serialize_sel)+

lemma ds_inv_flush: "ds_inv env evs d \<Longrightarrow> ds_inv env [] (onInterval (de_ops env) d)"
  using encodedKeys_ok [of "ds_registry d"] by (cases "encodedKeys (ds_registry d)") (auto simp: ds_inv_def)

lemma ds_inv_record:
  assumes "ds_inv env evs d" "event_ok (registered (ds_registry d)) e"
    "bucket_time ts = event_time e"
    "\<And>b. snd (f b) = bucket_event env (registered (ds_registry d)) e b"
  shows "ds_inv env (log_after d evs e) (flush_if_due (de_ops env) (snd (in_bucket ts f d)))"
proof -
  have inv: "ds_inv env (evs @ [e]) (snd (in_bucket ts f d))"
    using assms by (auto simp: ds_inv_def in_bucket_view in_bucket_keys grouped_snoc)
  then show ?thesis
    using ds_inv_flush [OF inv] by (auto simp: log_after_def flush_if_due_def)
qed

lemma ds_inv_cache [simp]: "ds_inv env evs (d\<lparr>ds_cache := cache\<rparr>) = ds_inv env evs d"
  by (simp add: ds_inv_def)

lemma snd_recordCheckpoint:
  "ds_enabled d \<Longrightarrow> snd (recordCheckpoint ops cp d) =
     flush_if_due ops (snd (in_bucket (cp_currentTimestamp cp) (forCheckpoint ops cp (addLatencies ops cp)) d))"
  by (simp add: recordCheckpoint_def split: prod.split)

lemma ds_inv_reach: "ds_reach env evs d \<Longrightarrow> ds_inv env evs d"
proof (induction rule: ds_reach.induct)
  case (r_start enabled service envname flushInterval cache)
  show ?case by (simp add: ds_inv_def new_DataStreamsProcessor_def)
next
  case (r_checkpoint evs d now propagation tags ctx n k cp ctx2 cache)
  let ?d = "d\<lparr>ds_cache := cache\<rparr>"
  have "snd (setCheckpoint env now propagation tags ctx n k d) = snd (recordCheckpoint (de_ops env) cp ?d)"
    using r_checkpoint by (simp add: setCheckpoint_def split: prod.split)
  then show ?case
    using ds_inv_record [of env evs ?d "ECheckpoint cp" "cp_currentTimestamp cp"
        "forCheckpoint (de_ops env) cp (addLatencies (de_ops env) cp)"] r_checkpoint
    by (simp add: snd_recordCheckpoint log_after_def)
next
  case (r_offset evs d timestamp offset tags)
  then show ?case
    using ds_inv_record [of env evs d "EOffset timestamp offset tags" timestamp "forBacklog (de_str env) offset tags"]
    by (cases "in_bucket timestamp (forBacklog (de_str env) offset tags) d") (simp add: recordOffset_def)
next
  case (r_transaction evs d now ident name r d')
  obtain i g where g: "getId name (ds_registry d) = (i, g)" by (cases "getId name (ds_registry d)")
  let ?d = "d\<lparr>ds_registry := g\<rparr>"
  have inv: "registry_ok (ds_registry d)" using r_transaction.IH by (simp add: ds_inv_def)
  note got = getId_ok [OF inv g]
  obtain others where names: "registered g = registered (ds_registry d) @ others"
    using got(3) by (cases "name \<in> set (registered (ds_registry d)) \<or> length (registered (ds_registry d)) = 254") auto
  have d: "ds_inv env evs ?d"
    using r_transaction.IH got(1) by (simp add: ds_inv_def names grouped_names event_ok_names)
  show ?case
  proof (cases "ds_enabled d \<and> i \<noteq> None \<and> - (2 ^ 63) \<le> now * 1000000 \<and> now * 1000000 < 2 ^ 63")
    case True
    then have i: "i = Some (name_id (registered g) name)" "name \<in> set (registered g)"
      using got(2) by (auto split: if_splits)
    then have "tracked r" "d' = flush_if_due (de_ops env) (snd (in_bucket (now * 1000000)
        (\<lambda>b. ((), addTransaction (transaction_entry (name_id (registered g) name) (now * 1000000) ident) b)) ?d))"
      using r_transaction.hyps True g
      by (auto simp: ds_trackTransaction_def Let_def tracked_def split: prod.splits)
    then show ?thesis
      using ds_inv_record [OF d, of "ETransaction now ident name" "now * 1000000"
          "\<lambda>b. ((), addTransaction (transaction_entry (name_id (registered g) name) (now * 1000000) ident) b)"] True i(2)
      by (simp add: log_after_def)
  next
    case False
    then have "\<not> tracked r \<and> (d' = d \<or> d' = ?d)"
      using r_transaction.hyps g
      by (cases i) (auto simp: ds_trackTransaction_def Let_def tracked_def split: prod.splits if_splits)
    then show ?thesis using d r_transaction.IH by auto
  qed
next
  case (r_flush evs d)
  then show ?case by (simp add: ds_inv_flush)
qed

subsection \<open>Checkpoints, backlogs and transactions of a bucket\<close>

fun checkpoint_at :: "int \<Rightarrow> nat \<Rightarrow> ds_event \<Rightarrow> checkpoint option" where
  "checkpoint_at t i (ECheckpoint cp) = (if event_time (ECheckpoint cp) = t \<and> fst (cp_hash cp) = i then Some cp else None)"
| "checkpoint_at t i _ = None"

fun backlog_at :: "('k, 'c) ds_env \<Rightarrow> int \<Rightarrow> string \<Rightarrow> ds_event \<Rightarrow> backlog option" where
  "backlog_at env t k (EOffset timestamp offset tags) =
     (let b = new_Backlog (de_str env) offset tags in if bucket_time timestamp = t \<and> bl_hash b = k then Some b else None)"
| "backlog_at env t k _ = None"

fun transaction_at :: "int \<Rightarrow> ds_event \<Rightarrow> (int \<times> string \<times> string) option" where
  "transaction_at t (ETransaction now ident name) = (if bucket_time (now * 1000000) = t then Some (now, ident, name) else None)"
| "transaction_at t _ = None"

definition checkpoints_in :: "ds_event list \<Rightarrow> int \<Rightarrow> nat \<Rightarrow> checkpoint list" where
  "checkpoints_in evs t i = List.map_filter (checkpoint_at t i) evs"

definition backlogs_in :: "('k, 'c) ds_env \<Rightarrow> ds_event list \<Rightarrow> int \<Rightarrow> string \<Rightarrow> backlog list" where
  "backlogs_in env evs t k = List.map_filter (backlog_at env t k) evs"

definition transactions_in :: "ds_event list \<Rightarrow> int \<Rightarrow> (int \<times> string \<times> string) list" where
  "transactions_in evs t = List.map_filter (transaction_at t) evs"

text \<open>The point that a list of checkpoints with one hash buffer makes\<close>

definition point_of :: "'k sketch_ops \<Rightarrow> checkpoint list \<Rightarrow> 'k stats_point option" where
  "point_of ops cps =
     (case cps of
        [] \<Rightarrow> None
      | cp # _ \<Rightarrow> Some (fold (addLatencies ops) cps (new_StatsPoint ops (cp_hash cp) (cp_parentHash cp) (cp_edgeTags cp))))"

lemma map_filter_snoc: "List.map_filter f (xs @ [x]) = List.map_filter f xs @ (case f x of None \<Rightarrow> [] | Some y \<Rightarrow> [y])"
  by (simp add: List.map_filter_def split: option.split)

lemma point_of_snoc:
  "point_of ops (cps @ [cp]) =
     Some (addLatencies ops cp (case point_of ops cps of None \<Rightarrow>
       new_StatsPoint ops (cp_hash cp) (cp_parentHash cp) (cp_edgeTags cp) | Some p \<Rightarrow> p))"
  by (cases cps) (simp_all add: point_of_def)

lemma forBacklog_frame [simp]:
  "bk_checkpoints (snd (forBacklog str offset tags b)) = bk_checkpoints b"
  "bk_transactionChunks (snd (forBacklog str offset tags b)) = bk_transactionChunks b"
  by (simp_all add: forBacklog_def Let_def split: option.split)

lemma forCheckpoint_frame [simp]:
  "bk_backlogs (snd (forCheckpoint ops cp f b)) = bk_backlogs b"
  "bk_transactionChunks (snd (forCheckpoint ops cp f b)) = bk_transactionChunks b"
  by (simp_all add: forCheckpoint_def Let_def)

lemma new_StatsBucket_sel [simp]:
  "bk_checkpoints new_StatsBucket = []" "bk_backlogs new_StatsBucket = []" "bk_transactionChunks new_StatsBucket = []"
  by (simp_all add: new_StatsBucket_def)

lemma addTransaction_sel [simp]:
  "bk_checkpoints (addTransaction bs b) = bk_checkpoints b" "bk_backlogs (addTransaction bs b) = bk_backlogs b"
  "bk_transactionChunks (addTransaction bs b) = bk_transactionChunks b @ [bs]"
  by (simp_all add: addTransaction_def)

lemma grouped_points:
  "map_of (bk_checkpoints (grouped env names evs t)) i = point_of (de_ops env) (checkpoints_in evs t i)"
proof (induction evs rule: rev_induct)
  case Nil
  then show ?case by (simp add: checkpoints_in_def List.map_filter_simps point_of_def)
next
  case (snoc e evs)
  then show ?case
    by (cases e) (auto simp: grouped_snoc checkpoints_in_def map_filter_snoc point_of_snoc forCheckpoint_def Let_def
        map_of_obj_set split: option.split)
qed

lemma grouped_transactions:
  "bk_transactionChunks (grouped env names evs t) =
     map (\<lambda>(now, ident, name). transaction_entry (name_id names name) (now * 1000000) ident) (transactions_in evs t)"
proof (induction evs rule: rev_induct)
  case Nil
  then show ?case by (simp add: transactions_in_def List.map_filter_simps)
next
  case (snoc e evs)
  then show ?case by (cases e) (auto simp: grouped_snoc transactions_in_def map_filter_snoc)
qed

text \<open>Without NaN, what is kept is one of the recorded backlogs and none of them is greater.\<close>

definition greatest_backlog :: "backlog list \<Rightarrow> backlog option \<Rightarrow> bool" where
  "greatest_backlog bs kept \<longleftrightarrow>
     (case kept of
        None \<Rightarrow> bs = []
      | Some b \<Rightarrow> b \<in> set bs \<and>
          ((\<forall>b' \<in> set bs. bl_offset b' \<noteq> NaN) \<longrightarrow> (\<forall>b' \<in> set bs. \<not> num_gt (bl_offset b') (bl_offset b))))"

lemma num_gt_asym: "num_gt a b \<Longrightarrow> \<not> num_gt b a"
  by (cases a; cases b) (simp_all add: num_gt_def)

lemma num_gt_trans: "a \<noteq> NaN \<Longrightarrow> b \<noteq> NaN \<Longrightarrow> c \<noteq> NaN \<Longrightarrow> \<not> num_gt a b \<Longrightarrow> \<not> num_gt b c \<Longrightarrow> \<not> num_gt a c"
  by (cases a; cases b; cases c) (simp_all add: num_gt_def)

lemma num_gt_irrefl: "\<not> num_gt a a"
  by (cases a) (simp_all add: num_gt_def)

lemmas num_gt_order = num_gt_asym num_gt_trans num_gt_irrefl

lemma grouped_backlogs:
  "greatest_backlog (backlogs_in env evs t k) (map_of (bk_backlogs (grouped env names evs t)) k)"
proof (induction evs rule: rev_induct)
  case Nil
  then show ?case by (simp add: greatest_backlog_def backlogs_in_def List.map_filter_simps)
next
  case (snoc e evs)
  show ?case
  proof (cases "backlog_at env t k e")
    case None
    then have "map_of (bk_backlogs (grouped env names (evs @ [e])  t)) k = map_of (bk_backlogs (grouped env names evs t)) k"
      by (cases e) (auto simp: grouped_snoc forBacklog_def Let_def map_of_obj_set split: option.split)
    then show ?thesis using snoc None by (simp add: backlogs_in_def map_filter_snoc)
  next
    case (Some b)
    then obtain ts offset tags where e: "e = EOffset ts offset tags" "b = new_Backlog (de_str env) offset tags"
        "bucket_time ts = t" "bl_hash b = k"
      by (cases e) (auto simp: Let_def split: if_splits)
    let ?old = "map_of (bk_backlogs (grouped env names evs t)) k"
    have new: "map_of (bk_backlogs (grouped env names (evs @ [e]) t)) k =
        (case ?old of None \<Rightarrow> Some b | Some a \<Rightarrow> if num_gt (bl_offset a) (bl_offset b) then Some a else Some b)"
      using e by (auto simp: grouped_snoc forBacklog_def Let_def map_of_obj_set split: option.split)
    have bs: "backlogs_in env (evs @ [e]) t k = backlogs_in env evs t k @ [b]"
      using Some by (simp add: backlogs_in_def map_filter_snoc)
    show ?thesis
    proof (cases ?old)
      case None
      then show ?thesis using snoc new bs num_gt_order(3) by (simp add: greatest_backlog_def)
    next
      case (Some a)
      show ?thesis
      proof (cases "num_gt (bl_offset a) (bl_offset b)")
        case True
        then show ?thesis using snoc new bs Some num_gt_order(1) by (auto simp: greatest_backlog_def)
      next
        case False
        then show ?thesis
          using snoc new bs Some num_gt_order(2) [of _ "bl_offset a" "bl_offset b"] num_gt_order(3)
          by (auto simp: greatest_backlog_def)
      qed
    qed
  qed
qed

text \<open>
  C24: The buckets of the processor are the log of what was recorded since the last flush: one bucket
  for each ten seconds with a record; in it one point for each hash buffer, whose sketches received
  the values of exactly its checkpoints in their order; for each set of backlog tags a recorded
  backlog with the greatest offset; and the transactions in order.
\<close>

theorem buckets_of_log:
  assumes "ds_reach env evs d"
  shows "distinct (map fst (ds_buckets d)) \<and> fst ` set (ds_buckets d) = event_time ` set evs \<and>
    (\<forall>t i. map_of (bk_checkpoints (view (ds_buckets d) t)) i = point_of (de_ops env) (checkpoints_in evs t i)) \<and>
    (\<forall>t k. greatest_backlog (backlogs_in env evs t k) (map_of (bk_backlogs (view (ds_buckets d) t)) k)) \<and>
    (\<forall>t. length (bk_transactionChunks (view (ds_buckets d) t)) = length (transactions_in evs t))"
  using ds_inv_reach [OF assms]
  by (simp add: ds_inv_def grouped_points grouped_backlogs grouped_transactions)

theorem buckets_of_log_witness:
  "fst ` set (ds_buckets (snd (recordOffset demo_ds 25000000000 (Fin 3) [] demo_dsm))) = {20000000000}"
proof -
  let ?d = "snd (recordOffset demo_ds 25000000000 (Fin 3) [] demo_dsm)"
  have "ds_reach demo_ds [] demo_dsm" unfolding demo_dsm_def by (rule r_start)
  from r_offset [OF this] have "ds_reach demo_ds [EOffset 25000000000 (Fin 3) []] ?d"
    by (simp add: log_after_def)
  from buckets_of_log [OF this] show ?thesis by (simp add: bucket_time_def js_rem_def bucketSizeNs_def)
qed

subsection \<open>The format of transactions\<close>

text \<open>
  A reader of both lists: an entry of a transaction is the identifier of its checkpoint, eight bytes of
  time and a text with its length; an entry of the names is identifier, length and text.
\<close>

definition signed64 :: "int \<Rightarrow> int" where
  "signed64 v = (if 2 ^ 63 \<le> v then v - 2 ^ 64 else v)"

function read_transactions :: "byte list \<Rightarrow> (nat \<times> int \<times> byte list) list option" where
  "read_transactions bs =
     (if bs = [] then Some []
      else if length bs < 10 then None
      else (let n = unat (bs ! 9)
            in if length bs < 10 + n then None
               else map_option (Cons (unat (bs ! 0), signed64 (be_val (take 8 (drop 1 bs))), take n (drop 10 bs)))
                      (read_transactions (drop (10 + n) bs))))"
  by auto
termination by (relation "measure length") auto

function read_names :: "byte list \<Rightarrow> (nat \<times> byte list) list option" where
  "read_names bs =
     (if bs = [] then Some []
      else if length bs < 2 then None
      else (let n = unat (bs ! 1)
            in if length bs < 2 + n then None
               else map_option (Cons (unat (bs ! 0), take n (drop 2 bs))) (read_names (drop (2 + n) bs))))"
  by auto
termination by (relation "measure length") auto

declare read_transactions.simps [simp del] read_names.simps [simp del]

lemma unat_small_byte: "n < 256 \<Longrightarrow> unat (byte_of (int n)) = n"
  using uint_byte_of [of "int n"] by (simp add: unat_eq_nat_uint)

lemma signed64_roundtrip:
  assumes "- (2 ^ 63) \<le> v" "v < 2 ^ 63"
  shows "signed64 (be_val (be_bytes 8 v)) = v"
proof -
  have m: "be_val (be_bytes 8 v) = v mod 2 ^ 64" by (simp add: be_val_be_bytes)
  show ?thesis
  proof (cases "0 \<le> v")
    case False
    have "v mod 2 ^ 64 = (v + 2 ^ 64) mod 2 ^ 64" by simp
    also have "\<dots> = v + 2 ^ 64" using False assms by (intro mod_pos_pos_trivial) auto
    finally show ?thesis using False assms by (simp add: m signed64_def)
  qed (use assms in \<open>simp add: m signed64_def\<close>)
qed

lemma length_utf8_fit: "length (utf8_fit n s) \<le> n"
  by (induction n s rule: utf8_fit.induct) auto

lemma read_transactions_step:
  assumes "length ts = 8" "unat n = length ident"
  shows "read_transactions (a # ts @ n # ident @ bs) =
    map_option (Cons (unat a, signed64 (be_val ts), ident)) (read_transactions bs)"
proof -
  let ?bs = "a # ts @ n # ident @ bs"
  have "?bs ! 9 = n" "take 8 (drop 1 ?bs) = ts" "length ?bs = 10 + length ident + length bs" "?bs ! 0 = a"
    using assms(1) by (simp_all add: nth_append)
  moreover have ten: "drop 10 ?bs = ident @ bs" using assms(1) by simp
  moreover have "drop (10 + length ident) ?bs = drop (length ident) (drop 10 ?bs)"
    by (simp only: drop_drop add.commute)
  then have "drop (10 + length ident) ?bs = bs" unfolding ten by simp
  ultimately show ?thesis by (subst read_transactions.simps) (simp only: Let_def assms(2), simp)
qed

lemma read_transaction_entry:
  assumes "i < 256" "- (2 ^ 63) \<le> ts" "ts < 2 ^ 63"
  shows "read_transactions (transaction_entry i ts ident @ bs) =
    map_option (Cons (i, ts, take 255 (utf8_bytes ident))) (read_transactions bs)"
proof -
  let ?id = "take 255 (utf8_bytes ident)"
  have "unat (byte_of (int (length ?id))) = length ?id" by (intro unat_small_byte) simp
  then show ?thesis
    using read_transactions_step [of "be_bytes 8 ts" "byte_of (int (length ?id))" ?id "byte_of (int i)" bs]
      unat_small_byte [OF assms(1)] signed64_roundtrip [OF assms(2,3)]
    by (simp add: transaction_entry_def Let_def)
qed

lemma read_registry_entry:
  assumes "i < 256"
  shows "read_names (registry_entry i name @ bs) = map_option (Cons (i, utf8_fit 255 name)) (read_names bs)"
proof -
  have n: "unat (byte_of (int (length (utf8_fit 255 name)))) = length (utf8_fit 255 name)"
    using length_utf8_fit [of 255 name] by (intro unat_small_byte) simp
  show ?thesis
    by (subst read_names.simps) (simp add: registry_entry_def Let_def n unat_small_byte assms)
qed

lemma read_registry:
  assumes "\<And>n. n \<in> set names \<Longrightarrow> f n < 256"
  shows "read_names (concat (map (\<lambda>n. registry_entry (f n) n) names)) = Some (map (\<lambda>n. (f n, utf8_fit 255 n)) names)"
  using assms by (induction names) (simp_all add: read_registry_entry read_names.simps [of "[]"])

lemma read_transaction_list:
  assumes "\<And>now ident name. (now, ident, name) \<in> set txs \<Longrightarrow>
    f name < 256 \<and> - (2 ^ 63) \<le> now * 1000000 \<and> now * 1000000 < 2 ^ 63"
  shows "read_transactions (concat (map (\<lambda>(now, ident, name). transaction_entry (f name) (now * 1000000) ident) txs)) =
    Some (map (\<lambda>(now, ident, name). (f name, now * 1000000, take 255 (utf8_bytes ident))) txs)"
  using assms
proof (induction txs)
  case (Cons tx txs)
  obtain now ident name where tx: "tx = (now, ident, name)" by (cases tx)
  have "f name < 256" "- (2 ^ 63) \<le> now * 1000000" "now * 1000000 < 2 ^ 63"
    using Cons.prems [of now ident name] by (auto simp: tx)
  moreover have "read_transactions (concat (map (\<lambda>(now, ident, name). transaction_entry (f name) (now * 1000000) ident) txs)) =
      Some (map (\<lambda>(now, ident, name). (f name, now * 1000000, take 255 (utf8_bytes ident))) txs)"
    using Cons.prems by (intro Cons.IH) (meson list.set_intros(2))
  ultimately show ?case by (simp add: tx read_transaction_entry)
qed (simp add: read_transactions.simps)

lemma transactions_in_set:
  "(now, ident, name) \<in> set (transactions_in evs t) \<Longrightarrow> ETransaction now ident name \<in> set evs"
proof -
  have "transaction_at t e = Some (now, ident, name) \<Longrightarrow> e = ETransaction now ident name" for e
    by (cases e) (auto split: if_splits)
  then show "(now, ident, name) \<in> set (transactions_in evs t) \<Longrightarrow> ETransaction now ident name \<in> set evs"
    by (auto simp: transactions_in_def List.map_filter_def)
qed



end
