(* ===== verification/DataStreamsHop.thy ===== *)
theory DataStreamsHop
  imports DataStreams
begin

text \<open>
  How a pathway grows. The vendored cache of hashes is only assumed to give back what was put under a
  key; then every hash is that of inputs with the same key. Steps in one direction all count from the
  last step of the other one, so a loop of producers does not lengthen the pathway, and a context that
  one process produced is the parent of the step that another process records when it consumes it.
\<close>

subsection \<open>The cache\<close>

text \<open>The pairs a cache holds: reading finds one of them, writing adds at most one.\<close>

definition lru_ok :: "'c hash_env \<Rightarrow> ('c \<Rightarrow> (byte list \<times> hash_buffer) set) \<Rightarrow> bool" where
  "lru_ok he holds \<longleftrightarrow>
     (\<forall>c k. holds (snd (he_get he c k)) \<subseteq> holds c \<and> (\<forall>b. fst (he_get he c k) = Some b \<longrightarrow> (k, b) \<in> holds c)) \<and>
     (\<forall>c k b. holds (he_set he c k b) \<subseteq> insert (k, b) (holds c))"

definition hash_for :: "'c hash_env \<Rightarrow> byte list \<Rightarrow> byte list \<Rightarrow> bool" where
  "hash_for he k v \<longleftrightarrow> (\<exists>service env tags parent propagation.
     k = cache_key service env tags parent propagation \<and>
     v = hash_value (he_sha256 he) service env tags parent propagation)"

definition cache_inv :: "'c hash_env \<Rightarrow> ('c \<Rightarrow> (byte list \<times> hash_buffer) set) \<Rightarrow> 'c \<times> nat \<Rightarrow> bool" where
  "cache_inv he holds s \<longleftrightarrow>
     0 < snd s \<and> (\<forall>k b. (k, b) \<in> holds (fst s) \<longrightarrow> 0 < fst b \<and> fst b < snd s \<and> hash_for he k (snd b))"

lemma hash_forI:
  "hash_for he (cache_key service env tags parent propagation) (hash_value (he_sha256 he) service env tags parent propagation)"
  unfolding hash_for_def by blast

lemma computeHash_ok:
  assumes "lru_ok he holds" "cache_inv he holds s"
    "computeHash he service env tags parent propagation s = (tags', buf, s')"
  shows "cache_inv he holds s'" "tags' = sort tags" "0 < fst buf"
    "hash_for he (cache_key service env (sort tags) parent propagation) (snd buf)"
proof -
  obtain c n where s: "s = (c, n)" by (cases s)
  let ?k = "cache_key service env (sort tags) parent propagation"
  obtain r c1 where get: "he_get he c ?k = (r, c1)" by (cases "he_get he c ?k")
  have sub: "holds c1 \<subseteq> holds c" and found: "r = Some b \<Longrightarrow> (?k, b) \<in> holds c" for b
    using assms(1) get unfolding lru_ok_def by (metis fst_conv snd_conv)+
  have "cache_inv he holds s' \<and> tags' = sort tags \<and> 0 < fst buf \<and> hash_for he ?k (snd buf)"
  proof (cases r)
    case (Some b)
    then have "s' = (c1, n)" "tags' = sort tags" "buf = b"
      using assms(3) by (simp_all add: computeHash_def s get Let_def)
    then show ?thesis using found [OF Some] sub assms(2) by (cases b) (auto simp: cache_inv_def s)
  next
    case None
    let ?b = "(n, hash_value (he_sha256 he) service env (sort tags) parent propagation)"
    have out: "s' = (he_set he c1 ?k ?b, n + 1)" "tags' = sort tags" "buf = ?b"
      using assms(3) None by (auto simp: computeHash_def s get Let_def)
    have held: "holds (he_set he c1 ?k ?b) \<subseteq> insert (?k, ?b) (holds c)"
      using assms(1) sub unfolding lru_ok_def by blast
    have "hash_for he ?k (snd ?b)" by (simp add: hash_forI)
    then show ?thesis using out held assms(2) by (fastforce simp: cache_inv_def s)
  qed
  then show "cache_inv he holds s'" "tags' = sort tags" "0 < fst buf" "hash_for he ?k (snd buf)" by auto
qed

lemma hash_for_length: "hash_for he k v \<Longrightarrow> (\<And>bs. 8 \<le> length (he_sha256 he bs)) \<Longrightarrow> length v = 8"
  by (auto simp: hash_for_def hash_value_def shaHash_def Let_def min_absorb2)

subsection \<open>One step\<close>

lemma checkpoint_of_parts:
  assumes "checkpoint_of env now propagation tags ctx n k d = Some (cp, ctx', cache)"
    "next_from (of_int (now * 1000000)) (case tags of [] \<Rightarrow> None | t # _ \<Rightarrow> Some t) ctx = (parent, ps, es, ch, cs)"
  shows "parent = Some (cp_parentHash cp)" "cp_hash cp = dc_hash ctx'" "cp_currentTimestamp cp = now * 1000000"
    "cp_edgeLatencyNs cp = of_int (now * 1000000) - es" "cp_pathwayLatencyNs cp = of_int (now * 1000000) - ps"
    "dc_pathwayStartNs ctx' = ps" "dc_edgeStartNs ctx' = of_int (now * 1000000)"
    "dc_prev ctx' = Some (case tags of [] \<Rightarrow> None | t # _ \<Rightarrow> Some t, ch, cs)"
    "\<exists>tags'. computeHash (de_hash env) (ds_service d) (ds_env d) tags (snd (cp_parentHash cp)) propagation (ds_cache d) =
       (tags', dc_hash ctx', cache)"
  using assms unfolding checkpoint_of_def Let_def by (auto split: option.splits prod.splits)

definition prev_direction :: "dsm_context \<Rightarrow> string option" where
  "prev_direction c = (case dc_prev c of None \<Rightarrow> None | Some (d, _, _) \<Rightarrow> d)"

lemma next_from_turn:
  "Some dir \<noteq> prev_direction c \<Longrightarrow>
     next_from nowNs (Some dir) (Some c) = (Some (dc_hash c), dc_pathwayStartNs c, dc_edgeStartNs c, dc_hash c, dc_edgeStartNs c)"
  by (auto simp: next_from_def prev_direction_def Let_def split: option.splits prod.splits)

lemma next_from_same:
  "dc_prev c = Some (Some dir, h, t) \<Longrightarrow>
     next_from nowNs (Some dir) (Some c) =
       (if fst h = 0 then (Some h, nowNs, nowNs, h, if t = 0 then nowNs else t)
        else (Some h, dc_pathwayStartNs c, t, h, if t = 0 then nowNs else t))"
  by (simp add: next_from_def Let_def ENTRY_PARENT_HASH_def)

subsection \<open>Steps in one direction\<close>

text \<open>
  Any number of steps in one direction from a context, with any tags, times and states of the process.
\<close>

inductive chain :: "('k, 'c) ds_env \<Rightarrow> string \<Rightarrow> dsm_context option \<Rightarrow> checkpoint list \<Rightarrow> dsm_context option \<Rightarrow> bool"
  for env dir start where
  c_start: "chain env dir start [] start"
| c_step: "chain env dir start cps ctx \<Longrightarrow>
    checkpoint_of env now propagation (dir # tags) ctx n k d = Some (cp, ctx', cache) \<Longrightarrow>
    chain env dir start (cps @ [cp]) (Some ctx')"

lemma chain_fresh:
  "chain env dir None cps ctx \<Longrightarrow>
     list_all (\<lambda>cp. cp_parentHash cp = ENTRY_PARENT_HASH \<and> cp_edgeLatencyNs cp = 0 \<and> cp_pathwayLatencyNs cp = 0) cps \<and>
     (case ctx of None \<Rightarrow> cps = [] | Some c \<Rightarrow> \<exists>t. dc_prev c = Some (Some dir, ENTRY_PARENT_HASH, t))"
proof (induction rule: chain.induct)
  case c_start
  then show ?case by simp
next
  case (c_step cps ctx now propagation tags n k d cp ctx' cache)
  show ?case
  proof (cases ctx)
    case None
    then have "next_from (of_int (now * 1000000)) (Some dir) ctx =
        (Some ENTRY_PARENT_HASH, of_int (now * 1000000), of_int (now * 1000000), ENTRY_PARENT_HASH, of_int (now * 1000000))"
      by (simp add: next_from_def)
    then show ?thesis using checkpoint_of_parts [OF c_step.hyps(2)] c_step.IH by simp
  next
    case (Some c)
    then obtain t where t: "dc_prev c = Some (Some dir, ENTRY_PARENT_HASH, t)" using c_step.IH by auto
    have "fst ENTRY_PARENT_HASH = 0" by (simp add: ENTRY_PARENT_HASH_def)
    then have "next_from nowNs (Some dir) ctx =
        (Some ENTRY_PARENT_HASH, nowNs, nowNs, ENTRY_PARENT_HASH, if t = 0 then nowNs else t)" for nowNs
      using next_from_same [OF t, of nowNs] Some by simp
    then show ?thesis using checkpoint_of_parts [OF c_step.hyps(2)] c_step.IH by simp
  qed
qed

lemma chain_after:
  assumes "chain env dir (Some c) cps ctx" "Some dir \<noteq> prev_direction c" "0 < fst (dc_hash c)"
  shows "list_all (\<lambda>cp. cp_parentHash cp = dc_hash c \<and>
      cp_pathwayLatencyNs cp = of_int (cp_currentTimestamp cp) - dc_pathwayStartNs c) cps \<and>
    (\<exists>c'. ctx = Some c' \<and> dc_pathwayStartNs c' = dc_pathwayStartNs c \<and>
      (if cps = [] then c' = c else \<exists>t. dc_prev c' = Some (Some dir, dc_hash c, t)))"
  using assms(1)
proof (induction rule: chain.induct)
  case c_start
  then show ?case by simp
next
  case (c_step cps ctx now propagation tags n k d cp ctx' cache)
  then obtain c1 where c1: "ctx = Some c1" "dc_pathwayStartNs c1 = dc_pathwayStartNs c"
      "if cps = [] then c1 = c else \<exists>t. dc_prev c1 = Some (Some dir, dc_hash c, t)" by auto
  note parts = checkpoint_of_parts [OF c_step.hyps(2)]
  show ?case
  proof (cases "cps = []")
    case True
    then show ?thesis using parts next_from_turn [OF assms(2)] c1 c_step.IH by simp
  next
    case False
    then obtain t where t: "dc_prev c1 = Some (Some dir, dc_hash c, t)" using c1(3) by auto
    show ?thesis
      using parts next_from_same [OF t] assms(3) c1(1,2) c_step.IH by simp
  qed
qed


lemma in_ms_whole: "in_ms (of_int (v * 1000000)) = v"
proof -
  have "\<lfloor>of_int v + 1 / 2 :: rat\<rfloor> = v" by linarith
  then show ?thesis by (simp add: in_ms_def math_round_def)
qed

lemma setCheckpoint_Inr:
  assumes "setCheckpoint env now propagation tags ctx n k d = (Inr (Some c, spanTags), d')"
  obtains cp cache where "checkpoint_of env now propagation tags ctx n k d = Some (cp, c, cache)"
    "d' = snd (recordCheckpoint (de_ops env) cp (d\<lparr>ds_cache := cache\<rparr>))"
  using assms by (auto simp: setCheckpoint_def split: if_splits option.splits prod.splits)

text \<open>
  C26: A pathway continues in the next process. What one process injects when it produces and another
  reads when it consumes, after any other work of either, makes a step there whose parent is the hash
  of the producing step, whose edge latency is the time between the two and whose pathway is
  measured from the start the producer knew, in milliseconds.
\<close>

theorem pathway_crosses_processes:
  assumes "setProduceCheckpoint env1 now1 prop1 scratch ty1 target c current d1 = (Inr (c', Some ctx1, scratch'), d1')"
    "setConsumeCheckpoint env2 now2 prop2 ty2 source (Some c') manual other d2 = (Inr (Some ctx2), d2')"
    "ds_enabled d1" "ds_enabled d2" "length scratch = 20"
    "lru_ok (de_hash env1) holds" "cache_inv (de_hash env1) holds (ds_cache d1)"
    "\<And>bs. 8 \<le> length (he_sha256 (de_hash env1) bs)"
    "\<bar>in_ms (dc_pathwayStartNs ctx1)\<bar> < 2 ^ 41" "\<bar>now1\<bar> < 2 ^ 41"
  shows "\<exists>cp cache. d2' = snd (recordCheckpoint (de_ops env2) cp (d2\<lparr>ds_cache := cache\<rparr>)) \<and>
    cp_hash cp = dc_hash ctx2 \<and> snd (cp_parentHash cp) = snd (dc_hash ctx1) \<and>
    cp_edgeLatencyNs cp = of_int ((now2 - now1) * 1000000) \<and>
    cp_pathwayLatencyNs cp = of_int (now2 * 1000000) - of_int (in_ms (dc_pathwayStartNs ctx1)) * 1000000 \<and>
    dc_pathwayStartNs ctx2 = of_int (in_ms (dc_pathwayStartNs ctx1)) * 1000000"
proof -
  let ?tags1 = "[''direction:out'', ''type:'' @ ty1, ''topic:'' @ target, manual_checkpoint]"
  obtain r1 d1'' where set1: "setCheckpoint env1 now1 prop1 ?tags1 current 0 (of_nat PATHWAY_FIELD_BYTES) d1 = (r1, d1'')"
    by (cases "setCheckpoint env1 now1 prop1 ?tags1 current 0 (of_nat PATHWAY_FIELD_BYTES) d1")
  obtain spanTags where r1: "r1 = Inr (Some ctx1, spanTags)"
      and enc: "dsm_encode scratch (Some ctx1) (Some c) = (scratch', Some c')"
    using assms(1,3) set1
    by (cases r1) (auto simp: setProduceCheckpoint_def Let_def dsm_encode_def split: prod.splits option.splits)
  obtain cp1 cache1 where cp1: "checkpoint_of env1 now1 prop1 ?tags1 current 0 (of_nat PATHWAY_FIELD_BYTES) d1 =
      Some (cp1, ctx1, cache1)"
    using setCheckpoint_Inr set1 r1 by metis
  obtain parent ps es ch cs where nf: "next_from (of_int (now1 * 1000000)) (Some ''direction:out'') current = (parent, ps, es, ch, cs)"
    by (metis prod_cases5)
  note parts1 = checkpoint_of_parts [OF cp1, of parent ps es ch cs]
  obtain tags' where "computeHash (de_hash env1) (ds_service d1) (ds_env d1) ?tags1 (snd (cp_parentHash cp1)) prop1 (ds_cache d1) =
      (tags', dc_hash ctx1, cache1)"
    using parts1(9) nf by auto
  then have "length (snd (dc_hash ctx1)) = 8"
    using computeHash_ok(4) [OF assms(6,7)] hash_for_length assms(8) by blast
  moreover have edge: "dc_edgeStartNs ctx1 = of_int (now1 * 1000000)" using parts1(7) nf by simp
  have ms: "in_ms (dc_edgeStartNs ctx1) = now1" unfolding edge by (rule in_ms_whole)
  then have "safe_times ctx1" using assms(9,10) by (simp add: safe_times_def MAX_SAFE_INTEGER_def)
  ultimately have codec: "dsm_encode scratch (Some ctx1) (Some c) =
        (pathway_bytes ctx1, Some (field_write dsmBase64Header (to_base64 (pathway_bytes ctx1)) c))"
      "dsm_decode (snd (ds_cache d2)) (Some (field_write dsmBase64Header (to_base64 (pathway_bytes ctx1)) c)) =
        Some (rounded_context (snd (ds_cache d2)) ctx1)"
    using dsm_codec [OF assms(5)] times_fit_iff [of ctx1] assms(9,10) ms by auto
  then have c': "c' = field_write dsmBase64Header (to_base64 (pathway_bytes ctx1)) c" using enc by simp
  let ?ctx = "rounded_context (snd (ds_cache d2)) ctx1"
  let ?tags2 = "[''direction:in'', ''type:'' @ ty2, ''topic:'' @ source] @ (if manual then [manual_checkpoint] else [])"
  let ?d2 = "d2\<lparr>ds_cache := (fst (ds_cache d2), snd (ds_cache d2) + 1)\<rparr>"
  have "manager_decode (Some c') d2 = (Some ?ctx, ?d2)"
    using codec(2) by (cases "ds_cache d2") (simp add: manager_decode_def c')
  then obtain r2 where "setCheckpoint env2 now2 prop2 ?tags2 (Some ?ctx) 0 (of_nat PATHWAY_FIELD_BYTES) ?d2 = (r2, d2')"
      "try_then r2 (\<lambda>(ctx, _). ok ctx) = Inr (Some ctx2)"
    using assms(2,4) by (auto simp: setConsumeCheckpoint_def Let_def split: prod.splits)
  then obtain spanTags2 where "setCheckpoint env2 now2 prop2 ?tags2 (Some ?ctx) 0 (of_nat PATHWAY_FIELD_BYTES) ?d2 =
      (Inr (Some ctx2, spanTags2), d2')"
    by (auto simp: try_then_eq_Inr)
  then obtain cp cache where cp: "checkpoint_of env2 now2 prop2 ?tags2 (Some ?ctx) 0 (of_nat PATHWAY_FIELD_BYTES) ?d2 =
      Some (cp, ctx2, cache)" and d2': "d2' = snd (recordCheckpoint (de_ops env2) cp (?d2\<lparr>ds_cache := cache\<rparr>))"
    by (rule setCheckpoint_Inr)
  have "Some ''direction:in'' \<noteq> prev_direction ?ctx" by (simp add: rounded_context_def prev_direction_def)
  note parts = checkpoint_of_parts [OF cp] next_from_turn [OF this]
  have step: "cp_parentHash cp = dc_hash ?ctx" "cp_edgeLatencyNs cp = of_int (now2 * 1000000) - dc_edgeStartNs ?ctx"
    "cp_pathwayLatencyNs cp = of_int (now2 * 1000000) - dc_pathwayStartNs ?ctx"
    "dc_pathwayStartNs ctx2 = dc_pathwayStartNs ?ctx" "cp_hash cp = dc_hash ctx2"
    using parts by simp_all
  have "snd (cp_parentHash cp) = snd (dc_hash ctx1)"
    "cp_edgeLatencyNs cp = of_int ((now2 - now1) * 1000000)"
    "cp_pathwayLatencyNs cp = of_int (now2 * 1000000) - of_int (in_ms (dc_pathwayStartNs ctx1)) * 1000000"
    "dc_pathwayStartNs ctx2 = of_int (in_ms (dc_pathwayStartNs ctx1)) * 1000000"
    using step by (simp_all add: rounded_context_def ms algebra_simps)
  moreover have "d2' = snd (recordCheckpoint (de_ops env2) cp (d2\<lparr>ds_cache := cache\<rparr>))" using d2' by simp
  ultimately show ?thesis using step(5) by blast
qed

subsection \<open>Examples\<close>

lemma demo_lru: "lru_ok demo_hash set"
proof -
  have "set (AList.update k b c) \<subseteq> insert (k, b) (set c)" for k :: "byte list" and b :: hash_buffer and c
    by (induction c) auto
  then show ?thesis by (auto simp: lru_ok_def demo_hash_def dest: map_of_SomeD)
qed

lemma checkpoint_of_total:
  assumes "next_from (of_int (now * 1000000)) (Some dir) ctx = (Some h, ps, es, ch, cs)"
  shows "\<exists>cp c cache. checkpoint_of env now propagation (dir # tags) ctx n k d = Some (cp, c, cache) \<and>
    dc_pathwayStartNs c = ps \<and> cp_currentTimestamp cp = now * 1000000 \<and> dc_prev c = Some (Some dir, ch, cs)"
  using assms by (auto simp: checkpoint_of_def Let_def split: prod.split)

lemma next_from_None:
  "next_from nowNs dir None = (Some ENTRY_PARENT_HASH, nowNs, nowNs, ENTRY_PARENT_HASH, nowNs)"
  by (simp add: next_from_def)


lemma setProduce_total:
  assumes "ds_enabled d"
  shows "\<exists>c' ctx scratch' d'. setProduceCheckpoint env now pr scratch ty target c None d = (Inr (c', Some ctx, scratch'), d') \<and>
    dc_pathwayStartNs ctx = of_int (now * 1000000)"
proof -
  let ?tags = "[''type:'' @ ty, ''topic:'' @ target, manual_checkpoint]"
  obtain cp ctx cache where "checkpoint_of env now pr (''direction:out'' # ?tags) None 0 (of_nat PATHWAY_FIELD_BYTES) d =
      Some (cp, ctx, cache)" "dc_pathwayStartNs ctx = of_int (now * 1000000)"
    using checkpoint_of_total [OF next_from_None, of env now pr "''direction:out''" ?tags 0 "of_nat PATHWAY_FIELD_BYTES" d] by auto
  then show ?thesis
    using assms by (simp add: setProduceCheckpoint_def setCheckpoint_def dsm_encode_def split: prod.split)
qed

lemma setConsume_total:
  assumes "ds_enabled d"
  shows "\<exists>ctx d'. setConsumeCheckpoint env now pr ty source (Some c) manual current d = (Inr (Some ctx), d')"
proof -
  let ?tags = "[''type:'' @ ty, ''topic:'' @ source] @ (if manual then [manual_checkpoint] else [])"
  obtain r d1 where dec: "manager_decode (Some c) d = (r, d1)" by (cases "manager_decode (Some c) d")
  then have on: "ds_enabled d1" using assms by (auto simp: manager_decode_def split: prod.splits)
  have "dc_prev x = None" if "decodePathwayContext i bs = Some x" for i bs x
    using that by (auto simp: decodePathwayContext_def split: if_splits prod.splits option.splits)
  then have "dc_prev x = None" if "dsm_decode i c = Some x" for i c x
    using that by (auto simp: dsm_decode_def decodePathwayContextBase64_def Let_def split: option.splits if_splits jsval.splits)
  then have "prev_direction x = None" if "r = Some x" for x
    using dec that by (auto simp: manager_decode_def prev_direction_def split: prod.splits)
  then obtain h ps es ch cs where "next_from (of_int (now * 1000000)) (Some ''direction:in'') r = (Some h, ps, es, ch, cs)"
    by (cases r) (auto simp: next_from_None next_from_turn)
  from checkpoint_of_total [OF this, of env pr ?tags 0 "of_nat PATHWAY_FIELD_BYTES" d1]
  obtain cp ctx cache where "checkpoint_of env now pr (''direction:in'' # ?tags) r 0 (of_nat PATHWAY_FIELD_BYTES) d1 =
      Some (cp, ctx, cache)" by auto
  then show ?thesis using assms on dec by (simp add: setConsumeCheckpoint_def setCheckpoint_def split: prod.split)
qed

theorem pathway_crosses_processes_witness:
  "\<exists>c' ctx1 ctx2 s d1 d2. setProduceCheckpoint demo_ds 1000 None (replicate 20 0) ''kafka'' ''t'' [] None demo_dsm =
       (Inr (c', Some ctx1, s), d1) \<and>
     setConsumeCheckpoint demo_ds 1250 None ''kafka'' ''t'' (Some c') True None demo_dsm = (Inr (Some ctx2), d2) \<and>
     dc_pathwayStartNs ctx2 = 1000000000"
proof -
  obtain c' ctx1 s d1 where p: "setProduceCheckpoint demo_ds 1000 None (replicate 20 0) ''kafka'' ''t'' [] None demo_dsm =
      (Inr (c', Some ctx1, s), d1)" "dc_pathwayStartNs ctx1 = of_int (1000 * 1000000)"
    using setProduce_total [of demo_dsm demo_ds 1000 None "replicate 20 0" "''kafka''" "''t''" "[]"] by auto
  obtain ctx2 d2 where q: "setConsumeCheckpoint demo_ds 1250 None ''kafka'' ''t'' (Some c') True None demo_dsm = (Inr (Some ctx2), d2)"
    using setConsume_total [of demo_dsm demo_ds 1250 None "''kafka''" "''t''" c' True None] by auto
  have h: "de_hash demo_ds = demo_hash" by (simp add: demo_ds_def)
  have ms: "in_ms (dc_pathwayStartNs ctx1) = 1000" unfolding p(2) by (rule in_ms_whole)
  have inv: "cache_inv demo_hash set (ds_cache demo_dsm)" by (simp add: cache_inv_def)
  have sha: "8 \<le> length (he_sha256 demo_hash bs)" for bs by (simp add: demo_hash_def)
  have "dc_pathwayStartNs ctx2 = of_int (in_ms (dc_pathwayStartNs ctx1)) * 1000000"
    using pathway_crosses_processes [OF p(1) q, of set] demo_lru inv sha ms by (auto simp: h)
  then show ?thesis using p(1) q by (auto simp: ms)
qed

end
