(* ===== verification/PropagationHash.thy ===== *)
theory PropagationHash
  imports JsBase64 Msgpack
begin

text \<open>
  The hash that correlates process and container (\<open>propagation-hash/index.js\<close>) and its 64-bit FNV
  (\<open>datastreams/fnv.js\<close>). The reference is the same hash on 64-bit words. The manager caches the hash
  and two texts of it; the invariant says the caches agree with a fresh computation.
\<close>

subsection \<open>FNV\<close>

definition FNV_64_PRIME :: int where "FNV_64_PRIME = 0x100000001B3"
definition FNV1_64_INIT :: int where "FNV1_64_INIT = 0xCBF29CE484222325"

text \<open>The loop over bytes; bigints have no width, so the code takes the remainder.\<close>

fun fnv :: "byte list \<Rightarrow> int \<Rightarrow> int \<Rightarrow> int \<Rightarrow> int" where
  "fnv [] hval fnvPrime fnvSize = hval"
| "fnv (b # bs) hval fnvPrime fnvSize = fnv bs (((hval * fnvPrime) mod fnvSize) XOR uint b) fnvPrime fnvSize"

definition fnv64 :: "string \<Rightarrow> int" where
  "fnv64 s = fnv (utf8_bytes s) FNV1_64_INIT FNV_64_PRIME (2 ^ 64)"

text \<open>The two orders of multiplication and exclusive or, on words\<close>

definition fnv1_word :: "byte list \<Rightarrow> 64 word" where
  "fnv1_word bs = foldl (\<lambda>h b. (h * word_of_int FNV_64_PRIME) XOR ucast b) (word_of_int FNV1_64_INIT) bs"

definition fnv1a_word :: "byte list \<Rightarrow> 64 word" where
  "fnv1a_word bs = foldl (\<lambda>h b. (h XOR ucast b) * word_of_int FNV_64_PRIME) (word_of_int FNV1_64_INIT) bs"

lemma fnv_word:
  "fnv bs (uint (h :: 64 word)) FNV_64_PRIME (2 ^ 64) =
     uint (foldl (\<lambda>h b. (h * word_of_int FNV_64_PRIME) XOR ucast b) h bs)"
proof (induction bs arbitrary: h)
  case (Cons b bs)
  have "uint (h * word_of_int FNV_64_PRIME) = uint h * FNV_64_PRIME mod 2 ^ 64"
    by (simp add: uint_word_arith_bintrs take_bit_eq_mod FNV_64_PRIME_def unsigned_of_int)
  moreover have "uint (ucast b :: 64 word) = uint b"
    using uint_bounded [of b] by (simp add: unsigned_ucast_eq take_bit_int_eq_self)
  ultimately have "uint ((h * word_of_int FNV_64_PRIME) XOR ucast b) = (uint h * FNV_64_PRIME mod 2 ^ 64) XOR uint b"
    by (simp only: unsigned_xor_eq)
  with Cons [of "(h * word_of_int FNV_64_PRIME) XOR ucast b"] show ?case by simp
qed simp

lemma fnv64_word: "fnv64 s = uint (fnv1_word (utf8_bytes s))"
  using fnv_word [of "utf8_bytes s" "word_of_int FNV1_64_INIT"]
  by (simp add: fnv64_def fnv1_word_def FNV1_64_INIT_def)

lemma fnv64_range: "0 \<le> fnv64 s" "fnv64 s < 2 ^ 64"
  using uint_bounded [of "fnv1_word (utf8_bytes s)"] by (simp_all add: fnv64_word)

subsection \<open>The manager\<close>

record prop_hash =
  ph_enabled :: bool
  ph_containerTagsHash :: "string option"
  ph_cachedHash :: "int option"
  ph_cachedHashString :: "string option"
  ph_cachedHashBase64 :: "string option"

definition ph_invalidateCache :: "prop_hash \<Rightarrow> prop_hash" where
  "ph_invalidateCache p = p\<lparr>ph_cachedHash := None, ph_cachedHashString := None, ph_cachedHashBase64 := None\<rparr>"

definition updateContainerTagsHash :: "string \<Rightarrow> prop_hash \<Rightarrow> prop_hash" where
  "updateContainerTagsHash h p =
     (if Some h \<noteq> ph_containerTagsHash p then ph_invalidateCache (p\<lparr>ph_containerTagsHash := Some h\<rparr>) else p)"

text \<open>\<open>serialized\<close> are the process tags as one text.\<close>

definition ph_input :: "string \<Rightarrow> prop_hash \<Rightarrow> string" where
  "ph_input serialized p = serialized @ (case ph_containerTagsHash p of None \<Rightarrow> [] | Some h \<Rightarrow> h)"

definition ph_computeHash :: "string \<Rightarrow> prop_hash \<Rightarrow> prop_hash" where
  "ph_computeHash serialized p =
     (let input = ph_input serialized p
      in if input = [] then ph_invalidateCache p
         else p\<lparr>ph_cachedHash := Some (fnv64 input), ph_cachedHashString := None, ph_cachedHashBase64 := None\<rparr>)"

text \<open>A bigint zero is falsy: it is computed again.\<close>

definition getHash :: "string \<Rightarrow> prop_hash \<Rightarrow> int option \<times> prop_hash" where
  "getHash serialized p =
     (if \<not> ph_enabled p then (None, p)
      else (case ph_cachedHash p of
              Some h \<Rightarrow> if h \<noteq> 0 then (Some h, p)
                        else (let p = ph_computeHash serialized p in (ph_cachedHash p, p))
            | None \<Rightarrow> (let p = ph_computeHash serialized p in (ph_cachedHash p, p))))"

definition getHashString :: "string \<Rightarrow> prop_hash \<Rightarrow> string option \<times> prop_hash" where
  "getHashString serialized p =
     (let (hash, p) = getHash serialized p
      in case hash of
           None \<Rightarrow> (None, p)
         | Some h \<Rightarrow>
             if h = 0 then (None, p)
             else (case ph_cachedHashString p of
                     Some s \<Rightarrow> if s \<noteq> [] then (Some s, p)
                               else (Some (show_radix 16 (nat h)), p\<lparr>ph_cachedHashString := Some (show_radix 16 (nat h))\<rparr>)
                   | None \<Rightarrow> (Some (show_radix 16 (nat h)), p\<lparr>ph_cachedHashString := Some (show_radix 16 (nat h))\<rparr>)))"

definition getHashBase64 :: "string \<Rightarrow> prop_hash \<Rightarrow> string option \<times> prop_hash" where
  "getHashBase64 serialized p =
     (let (hash, p) = getHash serialized p
      in case hash of
           None \<Rightarrow> (None, p)
         | Some h \<Rightarrow>
             if h = 0 then (None, p)
             else (let fresh = to_base64 (be_bytes 8 h)
                   in case ph_cachedHashBase64 p of
                        Some s \<Rightarrow> if s \<noteq> [] then (Some s, p) else (Some fresh, p\<lparr>ph_cachedHashBase64 := Some fresh\<rparr>)
                      | None \<Rightarrow> (Some fresh, p\<lparr>ph_cachedHashBase64 := Some fresh\<rparr>)))"

subsection \<open>The caches agree with a fresh computation\<close>

definition fresh_hash :: "string \<Rightarrow> prop_hash \<Rightarrow> int option" where
  "fresh_hash serialized p = (let i = ph_input serialized p in if i = [] then None else Some (fnv64 i))"

definition caches_ok :: "string \<Rightarrow> prop_hash \<Rightarrow> bool" where
  "caches_ok serialized p \<longleftrightarrow>
     pred_option (\<lambda>h. fresh_hash serialized p = Some h) (ph_cachedHash p) \<and>
     pred_option (\<lambda>s. \<exists>h. ph_cachedHash p = Some h \<and> s = show_radix 16 (nat h)) (ph_cachedHashString p) \<and>
     pred_option (\<lambda>s. \<exists>h. ph_cachedHash p = Some h \<and> s = to_base64 (be_bytes 8 h)) (ph_cachedHashBase64 p)"

inductive ph_step :: "string \<Rightarrow> prop_hash \<Rightarrow> prop_hash \<Rightarrow> bool" for serialized where
  ph_update: "ph_step serialized p (updateContainerTagsHash h p)"
| ph_hash: "ph_step serialized p (snd (getHash serialized p))"
| ph_string: "ph_step serialized p (snd (getHashString serialized p))"
| ph_base64: "ph_step serialized p (snd (getHashBase64 serialized p))"

definition new_prop_hash :: "bool \<Rightarrow> prop_hash" where
  "new_prop_hash enabled =
     \<lparr>ph_enabled = enabled, ph_containerTagsHash = None, ph_cachedHash = None, ph_cachedHashString = None,
      ph_cachedHashBase64 = None\<rparr>"

lemma ph_computeHash_ok:
  "caches_ok serialized (ph_computeHash serialized p)"
  "ph_cachedHash (ph_computeHash serialized p) = fresh_hash serialized p"
  "fresh_hash serialized (ph_computeHash serialized p) = fresh_hash serialized p"
  "ph_enabled (ph_computeHash serialized p) = ph_enabled p"
  by (auto simp: caches_ok_def ph_computeHash_def ph_invalidateCache_def fresh_hash_def ph_input_def Let_def)

lemma getHash_cases:
  assumes "getHash serialized p = (r, p')"
  obtains (off) "\<not> ph_enabled p" "r = None" "p' = p"
  | (cached) h where "ph_enabled p" "ph_cachedHash p = Some h" "r = Some h" "p' = p"
  | (computed) "ph_enabled p" "p' = ph_computeHash serialized p" "r = ph_cachedHash p'"
  using assms by (auto simp: getHash_def Let_def split: if_splits option.splits)

lemma getHash_ok:
  assumes "caches_ok serialized p" "getHash serialized p = (r, p')"
  shows "caches_ok serialized p'" "r = (if ph_enabled p then fresh_hash serialized p else None)"
    "ph_enabled p \<Longrightarrow> ph_cachedHash p' = fresh_hash serialized p"
proof -
  from assms(2) have "caches_ok serialized p' \<and> r = (if ph_enabled p then fresh_hash serialized p else None) \<and>
      (ph_enabled p \<longrightarrow> ph_cachedHash p' = fresh_hash serialized p)"
    by (cases rule: getHash_cases) (use assms(1) ph_computeHash_ok [of serialized p] in \<open>auto simp: caches_ok_def\<close>)
  then show "caches_ok serialized p'" "r = (if ph_enabled p then fresh_hash serialized p else None)"
    "ph_enabled p \<Longrightarrow> ph_cachedHash p' = fresh_hash serialized p" by auto
qed

lemma caches_ok_texts:
  assumes "caches_ok serialized p" "ph_cachedHash p = Some h"
  shows "caches_ok serialized (p\<lparr>ph_cachedHashString := Some (show_radix 16 (nat h))\<rparr>)"
    "caches_ok serialized (p\<lparr>ph_cachedHashBase64 := Some (to_base64 (be_bytes 8 h))\<rparr>)"
    "pred_option (\<lambda>s. s = show_radix 16 (nat h)) (ph_cachedHashString p)"
    "pred_option (\<lambda>s. s = to_base64 (be_bytes 8 h)) (ph_cachedHashBase64 p)"
  using assms by (auto simp: caches_ok_def fresh_hash_def ph_input_def)

definition hex_of :: "int \<Rightarrow> string option" where
  "hex_of h = (if h = 0 then None else Some (show_radix 16 (nat h)))"

definition base64_of :: "int \<Rightarrow> string option" where
  "base64_of h = (if h = 0 then None else Some (to_base64 (be_bytes 8 h)))"

lemma to_base64_8_nonempty: "to_base64 (be_bytes 8 h) \<noteq> []"
  using length_to_base64 [of "be_bytes 8 h"] by auto

lemma getHash_texts_ok:
  assumes "caches_ok serialized p"
  shows "fst (getHashString serialized p) = (if ph_enabled p then Option.bind (fresh_hash serialized p) hex_of else None)"
    "fst (getHashBase64 serialized p) = (if ph_enabled p then Option.bind (fresh_hash serialized p) base64_of else None)"
    "caches_ok serialized (snd (getHashString serialized p))"
    "caches_ok serialized (snd (getHashBase64 serialized p))"
proof -
  obtain r q where g: "getHash serialized p = (r, q)" by (cases "getHash serialized p")
  note got = getHash_ok [OF assms g]
  have "fst (getHashString serialized p) = (if ph_enabled p then Option.bind (fresh_hash serialized p) hex_of else None) \<and>
    fst (getHashBase64 serialized p) = (if ph_enabled p then Option.bind (fresh_hash serialized p) base64_of else None) \<and>
    caches_ok serialized (snd (getHashString serialized p)) \<and>
    caches_ok serialized (snd (getHashBase64 serialized p))"
  proof (cases r)
    case None
    then show ?thesis using got by (auto simp: getHashString_def getHashBase64_def g split: if_splits)
  next
    case (Some h)
    then have on: "ph_enabled p" "fresh_hash serialized p = Some h" "ph_cachedHash q = Some h"
      using got by (auto split: if_splits)
    note texts = caches_ok_texts [OF got(1) on(3)]
    have "getHashString serialized p = (hex_of h, q) \<or>
        getHashString serialized p = (hex_of h, q\<lparr>ph_cachedHashString := Some (show_radix 16 (nat h))\<rparr>)"
      using texts(3) Some by (cases "ph_cachedHashString q") (simp_all add: getHashString_def g hex_of_def)
    moreover have "getHashBase64 serialized p = (base64_of h, q) \<or>
        getHashBase64 serialized p = (base64_of h, q\<lparr>ph_cachedHashBase64 := Some (to_base64 (be_bytes 8 h))\<rparr>)"
      using texts(4) Some
      by (cases "ph_cachedHashBase64 q") (simp_all add: getHashBase64_def g base64_of_def Let_def to_base64_8_nonempty)
    ultimately show ?thesis using on texts(1,2) got(1) by auto
  qed
  then show "fst (getHashString serialized p) = (if ph_enabled p then Option.bind (fresh_hash serialized p) hex_of else None)"
    "fst (getHashBase64 serialized p) = (if ph_enabled p then Option.bind (fresh_hash serialized p) base64_of else None)"
    "caches_ok serialized (snd (getHashString serialized p))"
    "caches_ok serialized (snd (getHashBase64 serialized p))" by auto
qed

lemma caches_ok_update: "caches_ok serialized p \<Longrightarrow> caches_ok serialized (updateContainerTagsHash h p)"
  by (simp add: updateContainerTagsHash_def ph_invalidateCache_def caches_ok_def)

lemma caches_ok_step: "ph_step serialized p q \<Longrightarrow> caches_ok serialized p \<Longrightarrow> caches_ok serialized q"
proof (induction rule: ph_step.induct)
  case (ph_hash p)
  then show ?case using getHash_ok(1) [of serialized p] by (cases "getHash serialized p") auto
qed (simp_all add: caches_ok_update getHash_texts_ok)

lemma caches_ok_reachable:
  "(ph_step serialized)\<^sup>*\<^sup>* (new_prop_hash enabled) p \<Longrightarrow> caches_ok serialized p"
proof (induction rule: rtranclp_induct)
  case base
  then show ?case by (simp add: caches_ok_def new_prop_hash_def)
qed (rule caches_ok_step)



text \<open>The order matters: FNV-1 and FNV-1a differ from one byte on.\<close>

lemma fnv1_not_fnv1a: "fnv1_word [97] \<noteq> fnv1a_word [97]"
  by (simp add: fnv1_word_def fnv1a_word_def FNV_64_PRIME_def FNV1_64_INIT_def)

end
