(* ===== verification/RcScheduler.thy ===== *)
theory RcScheduler
  imports Prelude
begin

text \<open>
  The scheduler of remote configuration (\<open>remote_config/scheduler.js\<close>) with what drives it: products
  that are subscribed and unsubscribed (\<open>remote_config/index.js\<close>), timers that fire and polls that end.
  \<open>setTimeout\<close> is a list of live timers, \<open>clearTimeout\<close> removes one. A poll that was started calls
  \<open>runAfterDelay\<close> when it ends, whether or not the scheduler was stopped since.
\<close>

record scheduler =
  sc_timer :: "nat option"
  sc_live :: "nat list"
  sc_polls :: nat
  sc_next :: nat

definition new_Scheduler :: scheduler where
  "new_Scheduler = \<lparr>sc_timer = None, sc_live = [], sc_polls = 0, sc_next = 1\<rparr>"

text \<open>The interval only decides when the timer fires.\<close>

definition runAfterDelay :: "scheduler \<Rightarrow> scheduler" where
  "runAfterDelay s = s\<lparr>sc_timer := Some (sc_next s), sc_live := sc_next s # sc_live s, sc_next := sc_next s + 1\<rparr>"

definition sc_start :: "scheduler \<Rightarrow> scheduler" where
  "sc_start s = (if sc_timer s \<noteq> None then s else runAfterDelay s)"

definition sc_stop :: "scheduler \<Rightarrow> scheduler" where
  "sc_stop s =
     s\<lparr>sc_live := (case sc_timer s of None \<Rightarrow> sc_live s | Some t \<Rightarrow> removeAll t (sc_live s)), sc_timer := None\<rparr>"

text \<open>A timer that fires calls \<open>poll\<close>; the response calls the callback.\<close>

definition sc_fire :: "nat \<Rightarrow> scheduler \<Rightarrow> scheduler" where
  "sc_fire t s = s\<lparr>sc_live := removeAll t (sc_live s), sc_polls := sc_polls s + 1\<rparr>"

definition sc_poll_ends :: "scheduler \<Rightarrow> scheduler" where
  "sc_poll_ends s = runAfterDelay (s\<lparr>sc_polls := sc_polls s - 1\<rparr>)"

subsection \<open>Subscriptions\<close>

record subscriptions =
  su_products :: "string list"
  su_scheduler :: scheduler

definition add_product :: "string \<Rightarrow> string list \<Rightarrow> string list" where
  "add_product p ps = (if p \<in> set ps then ps else ps @ [p])"

definition subscribeProducts :: "string list \<Rightarrow> subscriptions \<Rightarrow> subscriptions" where
  "subscribeProducts products s =
     (let hadProducts = su_products s \<noteq> [];
          s = s\<lparr>su_products := fold add_product products (su_products s)\<rparr>
      in if \<not> hadProducts \<and> su_products s \<noteq> [] then s\<lparr>su_scheduler := sc_start (su_scheduler s)\<rparr> else s)"

definition unsubscribeProducts :: "string list \<Rightarrow> subscriptions \<Rightarrow> subscriptions" where
  "unsubscribeProducts products s =
     (let hadProducts = su_products s \<noteq> [];
          s = s\<lparr>su_products := fold removeAll products (su_products s)\<rparr>
      in if hadProducts \<and> su_products s = [] then s\<lparr>su_scheduler := sc_stop (su_scheduler s)\<rparr> else s)"

text \<open>
  The steps of the system. The flag says whether a step stopped the scheduler while a poll was under way.
\<close>

inductive su_step :: "subscriptions \<Rightarrow> bool \<Rightarrow> subscriptions \<Rightarrow> bool" where
  su_subscribe: "su_step s False (subscribeProducts ps s)"
| su_unsubscribe: "su_step s (su_products s \<noteq> [] \<and> fold removeAll ps (su_products s) = [] \<and> 0 < sc_polls (su_scheduler s))
    (unsubscribeProducts ps s)"
| su_fires: "t \<in> set (sc_live (su_scheduler s)) \<Longrightarrow> su_step s False (s\<lparr>su_scheduler := sc_fire t (su_scheduler s)\<rparr>)"
| su_poll_ends: "0 < sc_polls (su_scheduler s) \<Longrightarrow> su_step s False (s\<lparr>su_scheduler := sc_poll_ends (su_scheduler s)\<rparr>)"

inductive_cases su_stepE: "su_step s b s'"

definition no_subscriptions :: subscriptions where
  "no_subscriptions = \<lparr>su_products = [], su_scheduler = new_Scheduler\<rparr>"

text \<open>A run with the number of stops that met a poll\<close>

inductive su_run :: "nat \<Rightarrow> subscriptions \<Rightarrow> bool" where
  run_start: "su_run 0 no_subscriptions"
| run_step: "su_run n s \<Longrightarrow> su_step s b s' \<Longrightarrow> su_run (n + of_bool b) s'"

definition poll_loops :: "subscriptions \<Rightarrow> nat" where
  "poll_loops s = length (sc_live (su_scheduler s)) + sc_polls (su_scheduler s)"

subsection \<open>One poll at a time\<close>

definition sched_wf :: "scheduler \<Rightarrow> bool" where
  "sched_wf s \<longleftrightarrow> distinct (sc_live s) \<and> (\<forall>t \<in> set (sc_live s). t < sc_next s)"

lemma length_removeAll_distinct:
  "distinct xs \<Longrightarrow> x \<in> set xs \<Longrightarrow> Suc (length (removeAll x xs)) = length xs"
  by (induction xs) (auto simp: removeAll_id)

definition su_inv :: "nat \<Rightarrow> subscriptions \<Rightarrow> bool" where
  "su_inv n s \<longleftrightarrow>
     (let sc = su_scheduler s
      in sched_wf sc \<and>
         (\<forall>t. sc_timer sc = Some t \<longrightarrow> t \<in> set (sc_live sc) \<or> 0 < sc_polls sc) \<and>
         (su_products s \<noteq> [] \<longrightarrow> sc_timer sc \<noteq> None) \<and>
         poll_loops s \<le> n + of_bool (su_products s \<noteq> []))"

lemma sched_wf_run [simp]: "sched_wf s \<Longrightarrow> sched_wf (runAfterDelay s)"
  by (auto simp: sched_wf_def runAfterDelay_def)

lemma runAfterDelay_sel [simp]:
  "sc_timer (runAfterDelay s) = Some (sc_next s)" "sc_next s \<in> set (sc_live (runAfterDelay s))"
  "length (sc_live (runAfterDelay s)) = Suc (length (sc_live s))" "sc_polls (runAfterDelay s) = sc_polls s"
  by (simp_all add: runAfterDelay_def)

lemma su_inv_subscribe:
  assumes "su_inv n s"
  shows "su_inv n (subscribeProducts ps s)"
proof (cases "su_products s = [] \<and> fold add_product ps (su_products s) \<noteq> [] \<and> sc_timer (su_scheduler s) = None")
  case True
  then show ?thesis
    using assms by (simp add: su_inv_def subscribeProducts_def sc_start_def poll_loops_def Let_def)
next
  case False
  let ?new = "fold add_product ps (su_products s)"
  have grow: "su_products s \<noteq> [] \<Longrightarrow> ?new \<noteq> []"
    by (rule fold_invariant [where Q = "\<lambda>_. True"]) (auto simp: add_product_def)
  then have eq: "subscribeProducts ps s = s\<lparr>su_products := ?new\<rparr>"
    using False by (auto simp: subscribeProducts_def sc_start_def Let_def)
  have "(of_bool (su_products s \<noteq> []) :: nat) \<le> of_bool (?new \<noteq> [])" using grow by simp
  moreover have "poll_loops s \<le> n + of_bool (su_products s \<noteq> [])" using assms by (simp only: su_inv_def Let_def)
  ultimately have "poll_loops s \<le> n + of_bool (?new \<noteq> [])" by linarith
  moreover have "?new \<noteq> [] \<Longrightarrow> sc_timer (su_scheduler s) \<noteq> None"
    using assms False by (auto simp: su_inv_def Let_def)
  ultimately show ?thesis using assms by (simp add: eq su_inv_def poll_loops_def Let_def)
qed

lemma su_inv_unsubscribe:
  assumes "su_inv n s"
  shows "su_inv (n + of_bool (su_products s \<noteq> [] \<and> fold removeAll ps (su_products s) = [] \<and> 0 < sc_polls (su_scheduler s)))
    (unsubscribeProducts ps s)"
proof (cases "su_products s \<noteq> [] \<and> fold removeAll ps (su_products s) = []")
  case gone: True
  let ?sc = "su_scheduler s"
  obtain t where t: "sc_timer ?sc = Some t" using assms gone by (auto simp: su_inv_def Let_def)
  have wf: "distinct (sc_live ?sc)" "\<forall>t \<in> set (sc_live ?sc). t < sc_next ?sc"
    using assms by (auto simp: su_inv_def sched_wf_def Let_def)
  have "length (removeAll t (sc_live ?sc)) + sc_polls ?sc \<le> n + of_bool (0 < sc_polls ?sc)"
  proof (cases "t \<in> set (sc_live ?sc)")
    case True
    then show ?thesis
      using length_removeAll_distinct [OF wf(1) True] assms gone by (auto simp: su_inv_def poll_loops_def Let_def)
  next
    case False
    then have "0 < sc_polls ?sc" using assms t by (auto simp: su_inv_def Let_def)
    then show ?thesis using False assms gone by (simp add: su_inv_def poll_loops_def Let_def removeAll_id)
  qed
  then show ?thesis
    using gone t wf by (auto simp: su_inv_def unsubscribeProducts_def sc_stop_def poll_loops_def sched_wf_def Let_def
        distinct_removeAll)
next
  case False
  then have "unsubscribeProducts ps s = s\<lparr>su_products := fold removeAll ps (su_products s)\<rparr>"
    by (auto simp: unsubscribeProducts_def Let_def)
  moreover have "fold removeAll ps [] = ([] :: string list)" by (induction ps) auto
  then have "fold removeAll ps (su_products s) = [] \<longleftrightarrow> su_products s = []" using False by auto
  ultimately show ?thesis using assms by (simp add: su_inv_def poll_loops_def Let_def)
qed

lemma su_inv_step: "su_step s b s' \<Longrightarrow> su_inv n s \<Longrightarrow> su_inv (n + of_bool b) s'"
proof (induction rule: su_step.induct)
  case (su_subscribe s ps)
  then show ?case by (simp add: su_inv_subscribe)
next
  case (su_unsubscribe s ps)
  then show ?case by (rule su_inv_unsubscribe)
next
  case (su_fires t s)
  let ?sc = "su_scheduler s"
  have "distinct (sc_live ?sc)" using su_fires(2) by (simp add: su_inv_def sched_wf_def Let_def)
  then show ?case
    using su_fires length_removeAll_distinct [of "sc_live ?sc" t]
    by (auto simp: su_inv_def sc_fire_def poll_loops_def sched_wf_def Let_def distinct_removeAll)
next
  case (su_poll_ends s)
  have "sched_wf (su_scheduler s\<lparr>sc_polls := sc_polls (su_scheduler s) - 1\<rparr>)"
    using su_poll_ends by (simp add: su_inv_def sched_wf_def Let_def)
  then show ?case
    using su_poll_ends by (auto simp: su_inv_def sc_poll_ends_def runAfterDelay_def poll_loops_def sched_wf_def Let_def)
qed

lemma su_inv_run: "su_run n s \<Longrightarrow> su_inv n s"
proof (induction rule: su_run.induct)
  case run_start
  then show ?case by (simp add: su_inv_def no_subscriptions_def new_Scheduler_def sched_wf_def poll_loops_def)
next
  case (run_step n s b s')
  then show ?case by (simp add: su_inv_step)
qed

text \<open>One more stop that meets a poll can leave one more poll loop behind.\<close>

definition subscribed_to :: "nat \<Rightarrow> subscriptions \<Rightarrow> bool" where
  "subscribed_to n s \<longleftrightarrow> su_run n s \<and> su_products s = [''P''] \<and> sc_polls (su_scheduler s) = 0 \<and>
     (\<exists>t ts. sc_live (su_scheduler s) = t # ts \<and> length ts = n \<and> sc_timer (su_scheduler s) = Some t) \<and>
     sched_wf (su_scheduler s)"

lemma subscribed_first: "subscribed_to 0 (subscribeProducts [''P''] no_subscriptions)"
proof -
  have "su_run (0 + of_bool False) (subscribeProducts [''P''] no_subscriptions)"
    by (rule run_step [OF run_start su_subscribe])
  then show ?thesis
    by (simp add: subscribed_to_def subscribeProducts_def no_subscriptions_def new_Scheduler_def sc_start_def
        runAfterDelay_def add_product_def sched_wf_def)
qed

lemma subscribed_again:
  assumes "subscribed_to n s"
  shows "\<exists>s'. subscribed_to (Suc n) s'"
proof -
  obtain t ts where t: "sc_live (su_scheduler s) = t # ts" "length ts = n" "sc_timer (su_scheduler s) = Some t"
      and s: "su_run n s" "su_products s = [''P'']" "sc_polls (su_scheduler s) = 0" "sched_wf (su_scheduler s)"
    using assms by (auto simp: subscribed_to_def)
  have fresh: "t \<notin> set ts" "\<forall>x \<in> set ts. x < sc_next (su_scheduler s)" "distinct ts"
    using s(4) t(1) by (auto simp: sched_wf_def)
  define s1 where "s1 = s\<lparr>su_scheduler := sc_fire t (su_scheduler s)\<rparr>"
  define s2 where "s2 = unsubscribeProducts [''P''] s1"
  define s3 where "s3 = subscribeProducts [''P''] s2"
  define s4 where "s4 = s3\<lparr>su_scheduler := sc_poll_ends (su_scheduler s3)\<rparr>"
  have s1: "su_products s1 = [''P'']" "sc_polls (su_scheduler s1) = 1" "sc_live (su_scheduler s1) = ts"
      "sc_timer (su_scheduler s1) = Some t" "sc_next (su_scheduler s1) = sc_next (su_scheduler s)"
    using s t fresh by (simp_all add: s1_def sc_fire_def removeAll_id)
  have s2: "su_products s2 = []" "sc_polls (su_scheduler s2) = 1" "sc_live (su_scheduler s2) = ts"
      "sc_timer (su_scheduler s2) = None" "sc_next (su_scheduler s2) = sc_next (su_scheduler s)"
    using s1 fresh by (simp_all add: s2_def unsubscribeProducts_def sc_stop_def Let_def removeAll_id)
  have s3: "su_products s3 = [''P'']" "sc_polls (su_scheduler s3) = 1"
      "sc_live (su_scheduler s3) = sc_next (su_scheduler s) # ts" "sc_next (su_scheduler s3) = Suc (sc_next (su_scheduler s))"
    using s2 by (simp_all add: s3_def subscribeProducts_def sc_start_def runAfterDelay_def add_product_def Let_def)
  have "su_run (n + of_bool False) s1" unfolding s1_def by (rule run_step [OF s(1) su_fires]) (simp add: t)
  then have "su_run n s1" by simp
  from run_step [OF this su_unsubscribe [of s1 "[''P'']"]] have "su_run (Suc n) s2" using s1 by (simp add: s2_def)
  from run_step [OF this su_subscribe] have "su_run (Suc n) s3" by (simp add: s3_def)
  from run_step [OF this su_poll_ends] have "su_run (Suc n) s4" using s3 by (simp add: s4_def)
  then have "subscribed_to (Suc n) s4"
    using s3 t(2) fresh s(4) by (auto simp: subscribed_to_def s4_def sc_poll_ends_def runAfterDelay_def sched_wf_def)
  then show ?thesis by blast
qed

lemma subscribed_any: "\<exists>s. subscribed_to n s"
  by (induction n) (use subscribed_first subscribed_again in blast)+

text \<open>
  C35: While a product is subscribed polling goes on. There is at most one poll loop, a waiting timer or
  a request under way, and none without a subscription, except that each time the scheduler was
  stopped during a request one more loop may run; nothing but stopping more often than that keeps
  the number down: it takes every value, since the end of the request starts a timer although the
  scheduler was stopped.
\<close>

theorem poll_loops_bounded:
  assumes "su_run n s"
  shows "(su_products s \<noteq> [] \<longrightarrow> 1 \<le> poll_loops s) \<and> poll_loops s \<le> n + of_bool (su_products s \<noteq> []) \<and>
    (\<exists>s'. su_run n s' \<and> poll_loops s' = n + 1)"
proof -
  have "su_inv n s" using assms by (rule su_inv_run)
  moreover have "1 \<le> poll_loops s" if "su_products s \<noteq> []"
    using \<open>su_inv n s\<close> that by (auto simp: su_inv_def poll_loops_def Let_def Suc_le_eq)
  moreover obtain s' where "subscribed_to n s'" using subscribed_any by blast
  ultimately show ?thesis by (auto simp: su_inv_def subscribed_to_def poll_loops_def Let_def)
qed

theorem poll_loops_bounded_witness:
  "poll_loops (subscribeProducts [''P''] no_subscriptions) = 1"
proof -
  have "su_run 0 (subscribeProducts [''P''] no_subscriptions)"
    using run_step [OF run_start su_subscribe [of no_subscriptions "[''P'']"]] by simp
  moreover have "su_products (subscribeProducts [''P''] no_subscriptions) \<noteq> []"
    by (simp add: subscribeProducts_def no_subscriptions_def add_product_def Let_def)
  ultimately show ?thesis using poll_loops_bounded [of 0 "subscribeProducts [''P''] no_subscriptions"] by simp
qed

end
