(* ===== verification/RemoteConfig.thy ===== *)
theory RemoteConfig
  imports RcScheduler JsValues JsBase64 Identifier
begin

text \<open>
  The client of remote configuration (\<open>remote_config/index.js\<close>): capabilities, subscriptions,
  handlers, and what a response of the agent does to the applied configurations. Configurations are
  objects that are shared by the map of applied ones, the transaction and late acknowledgements, so
  they live in a heap. What handlers do is an argument: the acknowledgements they give, and how they
  end; calls of handlers are recorded in \<open>rc_calls\<close>. Responses have the documented shape. Reading
  JSON is an argument.
\<close>

subsection \<open>Capabilities\<close>

text \<open>\<open>Buffer.from(s, 'hex')\<close> reads pairs of digits as long as there are any.\<close>

fun from_hex :: "string \<Rightarrow> byte list" where
  "from_hex (a # b # s) =
     (if digit_in 16 a \<and> digit_in 16 b then byte_of (int (digits_val 16 [a, b])) # from_hex s else [])"
| "from_hex _ = []"

definition DEFAULT_CAPABILITY :: string where
  "DEFAULT_CAPABILITY = to_base64 [0]"

definition new_capabilities :: "string \<Rightarrow> int \<Rightarrow> bool \<Rightarrow> js_error + string" where
  "new_capabilities capabilities bits value =
     (let hex = hex_string (from_base64 capabilities)
      in if hex = [] then throw SyntaxErr
         else (let num = int (digits_val 16 hex);
                   num = (if value then num OR bits else num AND NOT bits);
                   str = (if num < 0 then ''-'' @ show_radix 16 (nat (- num)) else show_radix 16 (nat num));
                   str = (if odd (length str) then CHR ''0'' # str else str)
               in ok (to_base64 (from_hex str))))"

subsection \<open>Configurations and their state\<close>

definition UNACKNOWLEDGED :: nat where "UNACKNOWLEDGED = 1"
definition ACKNOWLEDGED :: nat where "ACKNOWLEDGED = 2"
definition APPLY_ERROR :: nat where "APPLY_ERROR = 3"

record rc_conf =
  cf_path :: string
  cf_product :: string
  cf_id :: string
  cf_version :: jsnum
  cf_apply_state :: nat
  cf_apply_error :: string
  cf_length :: jsnum
  cf_hashes :: "(string \<times> string) list"
  cf_file :: jsval

datatype rc_action = Unapply | Apply | Modify

text \<open>
  How a handler ends: it returns after some calls of its \<open>ack\<close> callback (with an error, or without),
  returns a promise, or throws after such calls.
\<close>

datatype handler_result = Returns "string option list" | Promises | Throws "string option list" string

record rc_handler =
  hd_length :: nat
  hd_source :: string
  hd_run :: "rc_action \<Rightarrow> jsval \<Rightarrow> string \<Rightarrow> handler_result"

datatype batch_call = BatchAck string | BatchError string "string option"

type_synonym rc_view = "rc_conf list \<times> rc_conf list \<times> rc_conf list"

record batch_handler =
  bh_products :: "string list"
  bh_run :: "rc_view \<Rightarrow> batch_call list \<times> string option"

record rc =
  rc_subs :: subscriptions
  rc_handlers :: "(string \<times> rc_handler) list"
  rc_batch :: "(nat \<times> batch_handler) list"
  rc_confs :: "nat \<Rightarrow> rc_conf"
  rc_next :: nat
  rc_applied :: "(string \<times> nat) list"
  rc_targets_version :: jsnum
  rc_backend_state :: string
  rc_has_error :: bool
  rc_error :: string
  rc_capabilities :: string
  rc_cached :: "(string \<times> jsnum \<times> (string \<times> string) list) list"
  rc_calls :: "(rc_action \<times> string \<times> jsval \<times> string) list"

definition new_RemoteConfig :: rc where
  "new_RemoteConfig =
     \<lparr>rc_subs = no_subscriptions, rc_handlers = [], rc_batch = [],
      rc_confs = (\<lambda>_. \<lparr>cf_path = [], cf_product = [], cf_id = [], cf_version = Fin 0, cf_apply_state = UNACKNOWLEDGED,
        cf_apply_error = [], cf_length = Fin 0, cf_hashes = [], cf_file = JNull\<rparr>),
      rc_next = 0, rc_applied = [], rc_targets_version = Fin 0, rc_backend_state = [], rc_has_error = False, rc_error = [],
      rc_capabilities = DEFAULT_CAPABILITY, rc_cached = [], rc_calls = []\<rparr>"

definition updateCapabilities :: "int \<Rightarrow> bool \<Rightarrow> rc \<Rightarrow> js_error + rc" where
  "updateCapabilities bits value st =
     try_then (new_capabilities (rc_capabilities st) bits value) (\<lambda>c. ok (st\<lparr>rc_capabilities := c\<rparr>))"

definition setProductHandler :: "string \<Rightarrow> rc_handler \<Rightarrow> rc \<Rightarrow> rc" where
  "setProductHandler product handler st =
     st\<lparr>rc_handlers := AList.update product handler (rc_handlers st),
        rc_subs := subscribeProducts [product] (rc_subs st)\<rparr>"

definition removeProductHandler :: "string \<Rightarrow> rc \<Rightarrow> rc" where
  "removeProductHandler product st =
     st\<lparr>rc_handlers := AList.delete product (rc_handlers st),
        rc_subs := unsubscribeProducts [product] (rc_subs st)\<rparr>"

text \<open>Batch handlers are keyed by the identity of the function.\<close>

definition setBatchHandler :: "string list \<Rightarrow> nat \<Rightarrow> (rc_view \<Rightarrow> batch_call list \<times> string option) \<Rightarrow> rc \<Rightarrow> rc" where
  "setBatchHandler products h run st =
     st\<lparr>rc_batch := AList.update h \<lparr>bh_products = products, bh_run = run\<rparr> (rc_batch st)\<rparr>"

definition removeBatchHandler :: "nat \<Rightarrow> rc \<Rightarrow> rc" where
  "removeBatchHandler h st = st\<lparr>rc_batch := AList.delete h (rc_batch st)\<rparr>"

text \<open>The getter of the state that is sent\<close>

definition config_states :: "rc \<Rightarrow> (string \<times> jsnum \<times> string \<times> nat \<times> string) list" where
  "config_states st =
     map (\<lambda>(_, r). let c = rc_confs st r in (cf_id c, cf_version c, cf_product c, cf_apply_state c, cf_apply_error c))
       (rc_applied st)"

subsection \<open>Calling a handler\<close>

definition includes_text :: "string \<Rightarrow> string \<Rightarrow> bool" where
  "includes_text part s \<longleftrightarrow> list_ex (\<lambda>i. starts_with part (drop i s)) [0..<length s + 1]"

text \<open>\<open>source.slice(0, source.indexOf(')'))\<close> loses the last character when there is no parenthesis.\<close>

definition supportsAckCallback :: "rc_handler \<Rightarrow> bool" where
  "supportsAckCallback h =
     (if 4 \<le> hd_length h then True
      else if hd_length h \<noteq> 0 then
        includes_text ''...'' (case index_of (CHR '')'') (hd_source h) of
            Some i \<Rightarrow> take i (hd_source h)
          | None \<Rightarrow> butlast (hd_source h))
      else False)"

definition set_conf :: "nat \<Rightarrow> (rc_conf \<Rightarrow> rc_conf) \<Rightarrow> rc \<Rightarrow> rc" where
  "set_conf r f st = st\<lparr>rc_confs := (rc_confs st)(r := f (rc_confs st r))\<rparr>"

definition conf_error :: "string \<Rightarrow> rc_conf \<Rightarrow> rc_conf" where
  "conf_error e c = c\<lparr>cf_apply_state := APPLY_ERROR, cf_apply_error := e\<rparr>"

definition conf_ack :: "rc_conf \<Rightarrow> rc_conf" where
  "conf_ack c = c\<lparr>cf_apply_state := ACKNOWLEDGED\<rparr>"

definition ack_callback :: "nat \<Rightarrow> string option \<Rightarrow> rc \<Rightarrow> rc" where
  "ack_callback r err st =
     (case err of
        Some e \<Rightarrow> set_conf r (conf_error e) st
      | None \<Rightarrow> if cf_apply_state (rc_confs st r) \<noteq> APPLY_ERROR then set_conf r conf_ack st else st)"

text \<open>The callbacks of a promise, which settles later\<close>

definition promise_settles :: "nat \<Rightarrow> string option \<Rightarrow> rc \<Rightarrow> rc" where
  "promise_settles r err st =
     (case err of None \<Rightarrow> set_conf r conf_ack st | Some e \<Rightarrow> set_conf r (conf_error e) st)"

definition callHandlerFor :: "rc_action \<Rightarrow> nat \<Rightarrow> rc \<Rightarrow> rc" where
  "callHandlerFor action r st =
     (let item = rc_confs st r
      in if cf_apply_state item \<noteq> UNACKNOWLEDGED \<and> action \<noteq> Unapply then st
         else case map_of (rc_handlers st) (cf_product item) of
                None \<Rightarrow> st
              | Some h \<Rightarrow>
                  (let st = st\<lparr>rc_calls := rc_calls st @ [(action, cf_product item, cf_file item, cf_id item)]\<rparr>
                   in if supportsAckCallback h then
                        (case hd_run h action (cf_file item) (cf_id item) of
                           Returns acks \<Rightarrow> fold (ack_callback r) acks st
                         | Promises \<Rightarrow> st
                         | Throws acks e \<Rightarrow> set_conf r (conf_error e) (fold (ack_callback r) acks st))
                      else
                        (case hd_run h action (cf_file item) (cf_id item) of
                           Returns _ \<Rightarrow> set_conf r conf_ack st
                         | Promises \<Rightarrow> st
                         | Throws _ e \<Rightarrow> set_conf r (conf_error e) st)))"

definition dispatch_item :: "rc_action \<Rightarrow> string list \<Rightarrow> nat \<Rightarrow> rc \<Rightarrow> rc" where
  "dispatch_item action handledPaths r st =
     (let path = cf_path (rc_confs st r);
          st = (if path \<notin> set handledPaths then callHandlerFor action r st else st)
      in if action = Unapply then st\<lparr>rc_applied := AList.delete path (rc_applied st)\<rparr>
         else st\<lparr>rc_applied := AList.update path r (rc_applied st)\<rparr>)"

definition dispatch :: "nat list \<Rightarrow> rc_action \<Rightarrow> string list \<Rightarrow> rc \<Rightarrow> rc" where
  "dispatch items action handledPaths st = fold (dispatch_item action handledPaths) items st"

subsection \<open>A transaction\<close>

type_synonym outcomes = "(string \<times> nat \<times> string) list"

text \<open>\<open>ack\<close> and \<open>error\<close> of a transaction: the paths handled and the outcomes so far\<close>

fun batch_outcome :: "batch_call \<Rightarrow> string list \<times> outcomes \<Rightarrow> string list \<times> outcomes" where
  "batch_outcome (BatchAck path) (handled, outcomes) =
     (handled @ [path], AList.update path (ACKNOWLEDGED, []) outcomes)"
| "batch_outcome (BatchError path err) (handled, outcomes) =
     (handled @ [path], AList.update path (APPLY_ERROR, case err of None \<Rightarrow> ''Error'' | Some e \<Rightarrow> e) outcomes)"

definition filterTransactionByProducts :: "string list \<Rightarrow> rc_view \<Rightarrow> rc_view" where
  "filterTransactionByProducts products v =
     (let keep = filter (\<lambda>c. cf_product c \<in> set products); (u, a, m) = v in (keep u, keep a, keep m))"

text \<open>A batch handler that throws ends the update.\<close>

fun run_batch ::
    "(nat \<times> batch_handler) list \<Rightarrow> rc_view \<Rightarrow> string list \<times> outcomes \<Rightarrow> string + (string list \<times> outcomes)" where
  "run_batch [] v acc = Inr acc"
| "run_batch ((_, h) # hs) v acc =
     (let w = filterTransactionByProducts (bh_products h) v
      in if w = ([], [], []) then run_batch hs v acc
         else (case bh_run h w of
                 (_, Some e) \<Rightarrow> Inl e
               | (calls, None) \<Rightarrow> run_batch hs v (fold batch_outcome calls acc)))"

definition applyOutcomes :: "(string \<times> nat) list \<Rightarrow> outcomes \<Rightarrow> rc \<Rightarrow> rc" where
  "applyOutcomes byPath outcomes st =
     fold (\<lambda>(path, state, err) st.
        case map_of byPath path of
          None \<Rightarrow> st
        | Some r \<Rightarrow> set_conf r (\<lambda>c. c\<lparr>cf_apply_state := state, cf_apply_error := err\<rparr>) st) outcomes st"

subsection \<open>A response\<close>

record rc_meta =
  mt_hashes :: "(string \<times> string) list"
  mt_length :: jsnum
  mt_version :: jsnum

record rc_targets =
  tg_targets :: "(string \<times> rc_meta) list"
  tg_version :: jsnum
  tg_opaque :: string

record rc_response =
  rs_client_configs :: "string list"
  rs_targets :: "string option"
  rs_target_files :: "(string \<times> string) list" \<comment> \<open>path and raw content\<close>

text \<open>Errors are the text that is reported.\<close>

record rc_env =
  re_response :: "string \<Rightarrow> string + rc_response"
  re_targets :: "byte list \<Rightarrow> string + rc_targets option"
  re_file :: "byte list \<Rightarrow> string + jsval"

definition read_targets :: "rc_env \<Rightarrow> string option \<Rightarrow> string + rc_targets option" where
  "read_targets env s =
     (case s of None \<Rightarrow> Inr None | Some t \<Rightarrow> if t = [] then Inr None else re_targets env (from_base64 t))"

definition read_file :: "rc_env \<Rightarrow> string \<Rightarrow> string + jsval" where
  "read_file env raw = (if raw = [] then Inr JNull else re_file env (from_base64 raw))"

text \<open>
  \<open>/^(?:datadog\/\d+|employee)\/([^/]+)\/([^/]+)\/[^/]+$/\<close>
\<close>

definition parseConfigPath :: "string \<Rightarrow> (string \<times> string) option" where
  "parseConfigPath path =
     (case split_on (CHR ''/'') path of
        [a, product, ident, name] \<Rightarrow>
          if a = ''employee'' \<and> product \<noteq> [] \<and> ident \<noteq> [] \<and> name \<noteq> [] then Some (product, ident) else None
      | [a, n, product, ident, name] \<Rightarrow>
          if a = ''datadog'' \<and> n \<noteq> [] \<and> list_all (digit_in 10) n \<and> product \<noteq> [] \<and> ident \<noteq> [] \<and> name \<noteq> []
          then Some (product, ident) else None
      | _ \<Rightarrow> None)"

definition new_conf :: "rc_conf \<Rightarrow> rc \<Rightarrow> nat \<times> rc" where
  "new_conf c st = (rc_next st, st\<lparr>rc_confs := (rc_confs st)(rc_next st := c), rc_next := rc_next st + 1\<rparr>)"

text \<open>
  The loop over the configurations of the response: the new objects in their order, each with whether
  it replaces an applied one. An error ends it; then the objects are garbage.
\<close>

fun plan_changes ::
    "rc_env \<Rightarrow> rc_targets \<Rightarrow> (string \<times> string) list \<Rightarrow> string list \<Rightarrow> rc \<Rightarrow> string + (bool \<times> nat) list \<times> rc" where
  "plan_changes env targets files [] st = Inr ([], st)"
| "plan_changes env targets files (path # paths) st =
     (case map_of (tg_targets targets) path of
        None \<Rightarrow> Inl (''Error: Unable to find target for path '' @ path)
      | Some meta \<Rightarrow>
          (let current = map_of (rc_applied st) path
           in if (case current of None \<Rightarrow> False
                  | Some r \<Rightarrow> map_of (cf_hashes (rc_confs st r)) ''sha256'' = map_of (mt_hashes meta) ''sha256'')
              then plan_changes env targets files paths st
              else (case map_of files path of
                  None \<Rightarrow> Inl (''Error: Unable to find file for path '' @ path)
                | Some raw \<Rightarrow>
                    (case parseConfigPath path of
                       None \<Rightarrow> Inl (''Error: Unable to parse path '' @ path)
                     | Some (product, ident) \<Rightarrow>
                         (case read_file env raw of
                            Inl e \<Rightarrow> Inl e
                          | Inr content \<Rightarrow>
                              (let (r, st) = new_conf
                                     \<lparr>cf_path = path, cf_product = product, cf_id = ident, cf_version = mt_version meta,
                                      cf_apply_state = UNACKNOWLEDGED, cf_apply_error = [], cf_length = mt_length meta,
                                      cf_hashes = mt_hashes meta, cf_file = content\<rparr> st
                               in case plan_changes env targets files paths st of
                                    Inl e \<Rightarrow> Inl e
                                  | Inr (plan, st) \<Rightarrow> Inr ((current \<noteq> None, r) # plan, st)))))))"

definition cached_files :: "rc \<Rightarrow> (string \<times> jsnum \<times> (string \<times> string) list) list" where
  "cached_files st =
     map (\<lambda>(_, r). (cf_path (rc_confs st r), cf_length (rc_confs st r), cf_hashes (rc_confs st r))) (rc_applied st)"

definition apply_changes :: "nat list \<Rightarrow> (bool \<times> nat) list \<Rightarrow> rc \<Rightarrow> (string + unit) \<times> rc" where
  "apply_changes toUnapply plan st =
     (let toApply = map snd (filter (\<lambda>(replaces, _). \<not> replaces) plan);
          toModify = map snd (filter fst plan)
      in if toUnapply = [] \<and> toApply = [] \<and> toModify = [] then (Inr (), st)
         else (case run_batch (rc_batch st)
                      (map (rc_confs st) toUnapply, map (rc_confs st) toApply, map (rc_confs st) toModify) ([], []) of
                 Inl e \<Rightarrow> (Inl e, st)
               | Inr (handled, outcomes) \<Rightarrow>
                   (let byPath = fold (\<lambda>r m. AList.update (cf_path (rc_confs st r)) r m) (toUnapply @ map snd plan) [];
                        st = applyOutcomes byPath outcomes st;
                        st = dispatch toUnapply Unapply handled st;
                        st = dispatch toApply Apply handled st;
                        st = dispatch toModify Modify handled st
                    in (Inr (), st\<lparr>rc_cached := cached_files st\<rparr>))))"

definition parseConfig :: "rc_env \<Rightarrow> rc_response \<Rightarrow> rc \<Rightarrow> (string + unit) \<times> rc" where
  "parseConfig env response st =
     (let clientConfigs = rs_client_configs response;
          toUnapply = filter (\<lambda>r. cf_path (rc_confs st r) \<notin> set clientConfigs) (map snd (rc_applied st))
      in case read_targets env (rs_targets response) of
           Inl e \<Rightarrow> (Inl e, st)
         | Inr None \<Rightarrow> apply_changes toUnapply [] st
         | Inr (Some targets) \<Rightarrow>
             (case plan_changes env targets (rs_target_files response) clientConfigs st of
                Inl e \<Rightarrow> (Inl e, st)
              | Inr (plan, st) \<Rightarrow>
                  apply_changes toUnapply plan
                    (st\<lparr>rc_targets_version := tg_version targets, rc_backend_state := tg_opaque targets\<rparr>)))"

text \<open>What the answer of the agent does: no answer for an error, and its status\<close>

definition poll_answer :: "rc_env \<Rightarrow> nat \<Rightarrow> string option \<Rightarrow> rc \<Rightarrow> rc" where
  "poll_answer env statusCode answer st =
     (if statusCode = 404 then st
      else (case answer of
              None \<Rightarrow> st
            | Some text \<Rightarrow>
                (let st = (if rc_has_error st then st\<lparr>rc_has_error := False, rc_error := []\<rparr> else st)
                 in if text = [] \<or> text = ''{}'' then st
                    else (case re_response env text of
                            Inl e \<Rightarrow> st\<lparr>rc_has_error := True, rc_error := e\<rparr>
                          | Inr response \<Rightarrow>
                              (case parseConfig env response st of
                                 (Inl e, st) \<Rightarrow> st\<lparr>rc_has_error := True, rc_error := e\<rparr>
                               | (Inr _, st) \<Rightarrow> st)))))"

end
