(* ===== verification/RemoteConfigLaws.thy ===== *)
theory RemoteConfigLaws
  imports RemoteConfig
begin

text \<open>
  What the client of remote configuration promises: a response that is accepted makes exactly its
  configurations the applied ones and announces the differences in order; a response that is not
  leaves them alone; what is reported to the agent is what is applied; capabilities are a set of
  bits.
\<close>

subsection \<open>Parts of a configuration that never change\<close>

definition conf_key :: "rc_conf \<Rightarrow> string \<times> string \<times> string \<times> jsnum \<times> jsnum \<times> (string \<times> string) list \<times> jsval" where
  "conf_key c = (cf_path c, cf_product c, cf_id c, cf_version c, cf_length c, cf_hashes c, cf_file c)"

definition same_items :: "rc \<Rightarrow> rc \<Rightarrow> bool" where
  "same_items st st' \<longleftrightarrow>
     (\<forall>r. conf_key (rc_confs st' r) = conf_key (rc_confs st r)) \<and> rc_next st' = rc_next st \<and>
     rc_handlers st' = rc_handlers st \<and> rc_batch st' = rc_batch st \<and> rc_cached st' = rc_cached st \<and>
     rc_targets_version st' = rc_targets_version st \<and> rc_capabilities st' = rc_capabilities st \<and>
     rc_has_error st' = rc_has_error st"

lemma same_items_refl [simp]: "same_items st st"
  by (simp add: same_items_def)

lemma same_items_trans: "same_items a b \<Longrightarrow> same_items b c \<Longrightarrow> same_items a c"
  by (simp add: same_items_def)

lemma same_items_key:
  assumes "same_items st st'"
  shows "cf_path (rc_confs st' r) = cf_path (rc_confs st r)" "cf_product (rc_confs st' r) = cf_product (rc_confs st r)"
    "cf_hashes (rc_confs st' r) = cf_hashes (rc_confs st r)" "cf_file (rc_confs st' r) = cf_file (rc_confs st r)"
    "cf_id (rc_confs st' r) = cf_id (rc_confs st r)" "cf_length (rc_confs st' r) = cf_length (rc_confs st r)"
  using assms by (auto simp: same_items_def conf_key_def)

lemma same_items_set_conf:
  "(\<And>c. conf_key (f c) = conf_key c) \<Longrightarrow> same_items st (set_conf r f st)"
  by (simp add: same_items_def set_conf_def)

lemma conf_key_changes [simp]:
  "conf_key (conf_ack c) = conf_key c" "conf_key (conf_error e c) = conf_key c"
  "conf_key (c\<lparr>cf_apply_state := x, cf_apply_error := y\<rparr>) = conf_key c"
  by (simp_all add: conf_key_def conf_ack_def conf_error_def)

text \<open>
  An operation on one object: the others, the map of applied ones and the calls stay, and it is
  left as it is or has an outcome.
\<close>

definition settled :: "rc_conf \<Rightarrow> bool" where
  "settled c \<longleftrightarrow> cf_apply_state c = ACKNOWLEDGED \<or> cf_apply_state c = APPLY_ERROR"

lemma settled_changes [simp]: "settled (conf_ack c)" "settled (conf_error e c)"
  by (simp_all add: settled_def conf_ack_def conf_error_def)

definition touches :: "nat \<Rightarrow> rc \<Rightarrow> rc \<Rightarrow> bool" where
  "touches r st st' \<longleftrightarrow> same_items st st' \<and> rc_applied st' = rc_applied st \<and> rc_calls st' = rc_calls st \<and>
     (\<forall>q. rc_confs st' q = rc_confs st q \<or> q = r \<and> settled (rc_confs st' q))"

lemma touches_refl [simp]: "touches r st st"
  by (simp add: touches_def)

lemma touches_trans: "touches r a b \<Longrightarrow> touches r b c \<Longrightarrow> touches r a c"
  unfolding touches_def by (metis same_items_trans)

lemma touches_set_conf:
  "(\<And>c. conf_key (f c) = conf_key c) \<Longrightarrow> (\<And>c. settled (f c)) \<Longrightarrow> touches r st (set_conf r f st)"
  using same_items_set_conf [of f st r] by (simp add: touches_def) (simp add: set_conf_def)

lemma touches_ack: "touches r st (ack_callback r err st)"
  by (auto simp: ack_callback_def intro: touches_set_conf split: option.split)

lemma touches_acks: "touches r st (fold (ack_callback r) acks st)"
  by (induction acks arbitrary: st) (auto intro: touches_trans [OF touches_ack])

lemma touches_settle: "touches r st (promise_settles r err st)"
  by (auto simp: promise_settles_def intro: touches_set_conf split: option.split)

subsection \<open>Dispatching\<close>

text \<open>The call that an item causes, unless its path was handled by a batch or nobody handles its product\<close>

definition announced :: "rc_action \<Rightarrow> string list \<Rightarrow> rc \<Rightarrow> nat \<Rightarrow> (rc_action \<times> string \<times> jsval \<times> string) list" where
  "announced action handled st r =
     (let c = rc_confs st r
      in if cf_path c \<notin> set handled \<and> map_of (rc_handlers st) (cf_product c) \<noteq> None
         then [(action, cf_product c, cf_file c, cf_id c)] else [])"

lemma announced_same: "same_items st st' \<Longrightarrow> announced action handled st' = announced action handled st"
  by (intro ext) (simp add: announced_def Let_def same_items_key, simp add: same_items_def)

lemma callHandlerFor_effect:
  assumes "action = Unapply \<or> cf_apply_state (rc_confs st r) = UNACKNOWLEDGED"
  shows "\<exists>st1. touches r st st1 \<and> callHandlerFor action r st = st1\<lparr>rc_calls := rc_calls st @ announced action [] st r\<rparr>"
proof -
  let ?c = "rc_confs st r"
  let ?st = "\<lambda>h. st\<lparr>rc_calls := rc_calls st @ [(action, cf_product ?c, cf_file ?c, cf_id ?c)]\<rparr>"
  show ?thesis
  proof (cases "map_of (rc_handlers st) (cf_product ?c)")
    case None
    then have "callHandlerFor action r st = st\<lparr>rc_calls := rc_calls st @ announced action [] st r\<rparr>"
      by (simp add: callHandlerFor_def announced_def Let_def)
    then show ?thesis using touches_refl by blast
  next
    case (Some h)
    let ?st = "st\<lparr>rc_calls := rc_calls st @ [(action, cf_product ?c, cf_file ?c, cf_id ?c)]\<rparr>"
    have "touches r ?st (callHandlerFor action r st)"
      using assms Some
      by (auto simp: callHandlerFor_def Let_def intro!: touches_set_conf touches_acks
          intro: touches_trans [OF touches_acks touches_set_conf] split: handler_result.split)
    then have "touches r st ((callHandlerFor action r st)\<lparr>rc_calls := rc_calls st\<rparr>)"
      "rc_calls (callHandlerFor action r st) = rc_calls st @ announced action [] st r"
      using Some by (auto simp: touches_def same_items_def announced_def Let_def)
    then show ?thesis by (metis rc.surjective rc.update_convs(13))
  qed
qed

lemma dispatch_item_effect:
  assumes "action = Unapply \<or> cf_path (rc_confs st r) \<in> set handled \<or> cf_apply_state (rc_confs st r) = UNACKNOWLEDGED"
  shows "\<exists>st1. touches r st st1 \<and> dispatch_item action handled r st =
    st1\<lparr>rc_calls := rc_calls st @ announced action handled st r,
        rc_applied := (if action = Unapply then AList.delete (cf_path (rc_confs st r)) (rc_applied st)
                       else AList.update (cf_path (rc_confs st r)) r (rc_applied st))\<rparr>"
proof (cases "cf_path (rc_confs st r) \<in> set handled")
  case True
  then show ?thesis
    by (intro exI [of _ st]) (simp add: dispatch_item_def announced_def Let_def)
next
  case False
  then obtain st1 where "touches r st st1"
      "callHandlerFor action r st = st1\<lparr>rc_calls := rc_calls st @ announced action [] st r\<rparr>"
    using callHandlerFor_effect assms by blast
  then show ?thesis
    using False by (intro exI [of _ st1]) (auto simp: dispatch_item_def announced_def touches_def Let_def)
qed

definition record_item :: "rc_action \<Rightarrow> rc \<Rightarrow> nat \<Rightarrow> (string \<times> nat) list \<Rightarrow> (string \<times> nat) list" where
  "record_item action st r m =
     (if action = Unapply then AList.delete (cf_path (rc_confs st r)) m else AList.update (cf_path (rc_confs st r)) r m)"

lemma record_item_same: "same_items st st' \<Longrightarrow> record_item action st' = record_item action st"
  by (intro ext) (simp add: record_item_def same_items_key)

text \<open>Objects outside a list stay, those in it stay or are settled.\<close>

definition settles :: "nat list \<Rightarrow> rc \<Rightarrow> rc \<Rightarrow> bool" where
  "settles rs st st' \<longleftrightarrow>
     (\<forall>q. rc_confs st' q = rc_confs st q \<or> q \<in> set rs \<and> settled (rc_confs st' q))"

lemma settles_refl [simp]: "settles rs st st"
  by (simp add: settles_def)

lemma settles_trans: "settles rs a b \<Longrightarrow> settles qs b c \<Longrightarrow> settles (rs @ qs) a c"
  unfolding settles_def set_append by (metis UnI1 UnI2)

lemma dispatch_effect:
  assumes "distinct rs"
    "\<And>r. r \<in> set rs \<Longrightarrow> action = Unapply \<or> cf_path (rc_confs st r) \<in> set handled \<or> cf_apply_state (rc_confs st r) = UNACKNOWLEDGED"
  shows "same_items st (dispatch rs action handled st) \<and> settles rs st (dispatch rs action handled st) \<and>
    rc_calls (dispatch rs action handled st) = rc_calls st @ concat (map (announced action handled st) rs) \<and>
    rc_applied (dispatch rs action handled st) = fold (record_item action st) rs (rc_applied st)"
  using assms
proof (induction rs arbitrary: st)
  case Nil
  then show ?case by (simp add: dispatch_def)
next
  case (Cons r rs)
  obtain st1 where st1: "touches r st st1"
    and step: "dispatch_item action handled r st =
      st1\<lparr>rc_calls := rc_calls st @ announced action handled st r, rc_applied := record_item action st r (rc_applied st)\<rparr>"
    using dispatch_item_effect [of action st r handled] Cons.prems(2) [of r] by (auto simp: record_item_def)
  let ?d = "dispatch_item action handled r st"
  have d: "same_items st ?d" "settles [r] st ?d" using st1 by (auto simp: step touches_def same_items_def settles_def)
  have other: "rc_confs ?d q = rc_confs st q" if "q \<in> set rs" for q
    using d(2) that Cons.prems(1) by (auto simp: settles_def)
  have eq: "dispatch (r # rs) action handled st = dispatch rs action handled ?d" by (simp add: dispatch_def)
  have IH: "same_items ?d (dispatch rs action handled ?d) \<and> settles rs ?d (dispatch rs action handled ?d) \<and>
    rc_calls (dispatch rs action handled ?d) = rc_calls ?d @ concat (map (announced action handled ?d) rs) \<and>
    rc_applied (dispatch rs action handled ?d) = fold (record_item action ?d) rs (rc_applied ?d)"
    using Cons.prems by (intro Cons.IH) (simp_all add: other)
  have "rc_calls ?d = rc_calls st @ announced action handled st r"
    "rc_applied ?d = record_item action st r (rc_applied st)" by (simp_all add: step)
  moreover have "announced action handled ?d = announced action handled st" "record_item action ?d = record_item action st"
    using d(1) by (auto simp: announced_same record_item_same)
  ultimately show ?case
    using IH d settles_trans [OF d(2), of rs "dispatch rs action handled ?d"] same_items_trans [OF d(1)] by (simp add: eq)
qed

subsection \<open>Outcomes of batch handlers\<close>

definition outcomes_ok :: "string list \<times> outcomes \<Rightarrow> bool" where
  "outcomes_ok acc \<longleftrightarrow> fst ` set (snd acc) = set (fst acc) \<and>
     (\<forall>(p, state, e) \<in> set (snd acc). state = ACKNOWLEDGED \<or> state = APPLY_ERROR)"

lemma outcomes_ok_step: "outcomes_ok acc \<Longrightarrow> outcomes_ok (batch_outcome c acc)"
proof (cases acc)
  case (Pair handled outcomes)
  assume "outcomes_ok acc"
  then show ?thesis
    unfolding Pair
    by (cases c) (auto simp: outcomes_ok_def dom_update simp flip: image_def dest!: set_update_cases)
qed

lemma outcomes_ok_run: "run_batch hs v acc = Inr acc' \<Longrightarrow> outcomes_ok acc \<Longrightarrow> outcomes_ok acc'"
proof (induction hs arbitrary: acc)
  case (Cons h hs)
  have "outcomes_ok (fold batch_outcome calls acc)" for calls
    using Cons.prems(2) by (induction calls arbitrary: acc) (auto simp: outcomes_ok_step)
  then show ?case
    using Cons.prems(1) Cons.IH [of acc] Cons.prems(2) Cons.IH
    by (cases h) (auto simp: Let_def split: if_splits prod.splits option.splits)
qed simp

text \<open>Only objects whose path was handled get an outcome.\<close>

lemma applyOutcomes_effect:
  assumes "\<forall>(p, state, e) \<in> set outcomes. state = ACKNOWLEDGED \<or> state = APPLY_ERROR"
    "\<And>p r. map_of byPath p = Some r \<Longrightarrow> cf_path (rc_confs st r) = p"
  shows "same_items st (applyOutcomes byPath outcomes st) \<and> rc_applied (applyOutcomes byPath outcomes st) = rc_applied st \<and>
    rc_calls (applyOutcomes byPath outcomes st) = rc_calls st \<and>
    (\<forall>q. rc_confs (applyOutcomes byPath outcomes st) q = rc_confs st q \<or>
       cf_path (rc_confs st q) \<in> fst ` set outcomes \<and> settled (rc_confs (applyOutcomes byPath outcomes st) q))"
  using assms
proof (induction outcomes arbitrary: st)
  case Nil
  then show ?case by (simp add: applyOutcomes_def)
next
  case (Cons o' outcomes)
  obtain path state e where o': "o' = (path, state, e)" by (cases o')
  define st1 where "st1 = (case map_of byPath path of None \<Rightarrow> st
    | Some r \<Rightarrow> set_conf r (\<lambda>c. c\<lparr>cf_apply_state := state, cf_apply_error := e\<rparr>) st)"
  have keep: "same_items st st1 \<and> rc_applied st1 = rc_applied st \<and> rc_calls st1 = rc_calls st"
    by (auto simp: st1_def same_items_set_conf split: option.split) (simp_all add: set_conf_def)
  have here: "rc_confs st1 q = rc_confs st q \<or> cf_path (rc_confs st q) = path \<and> settled (rc_confs st1 q)" for q
    using Cons.prems by (auto simp: st1_def set_conf_def settled_def o' split: option.split)
  have eq: "applyOutcomes byPath (o' # outcomes) st = applyOutcomes byPath outcomes st1"
    by (simp add: applyOutcomes_def st1_def o')
  have path: "cf_path (rc_confs st1 q) = cf_path (rc_confs st q)" for q using keep by (simp add: same_items_key)
  have IH: "same_items st1 (applyOutcomes byPath outcomes st1) \<and>
    rc_applied (applyOutcomes byPath outcomes st1) = rc_applied st1 \<and>
    rc_calls (applyOutcomes byPath outcomes st1) = rc_calls st1 \<and>
    (\<forall>q. rc_confs (applyOutcomes byPath outcomes st1) q = rc_confs st1 q \<or>
       cf_path (rc_confs st1 q) \<in> fst ` set outcomes \<and> settled (rc_confs (applyOutcomes byPath outcomes st1) q))"
    using Cons.prems by (intro Cons.IH) (simp_all add: path)
  have "rc_confs (applyOutcomes byPath outcomes st1) q = rc_confs st q \<or>
       cf_path (rc_confs st q) \<in> fst ` set (o' # outcomes) \<and> settled (rc_confs (applyOutcomes byPath outcomes st1) q)" for q
  proof -
    have "rc_confs (applyOutcomes byPath outcomes st1) q = rc_confs st1 q \<or>
       cf_path (rc_confs st q) \<in> fst ` set outcomes \<and> settled (rc_confs (applyOutcomes byPath outcomes st1) q)"
      using IH path by auto
    then show ?thesis using here [of q] by (auto simp: o')
  qed
  then show ?case using IH keep same_items_trans [of st st1] by (simp add: eq)
qed

subsection \<open>The plan of a response\<close>

text \<open>The object that a response has for a path\<close>

definition wanted_conf :: "rc_env \<Rightarrow> rc_targets \<Rightarrow> (string \<times> string) list \<Rightarrow> string \<Rightarrow> rc_conf option" where
  "wanted_conf env targets files path =
     (case (map_of (tg_targets targets) path, map_of files path, parseConfigPath path) of
        (Some meta, Some raw, Some (product, ident)) \<Rightarrow>
          (case read_file env raw of
             Inl e \<Rightarrow> None
           | Inr content \<Rightarrow>
               Some \<lparr>cf_path = path, cf_product = product, cf_id = ident, cf_version = mt_version meta,
                     cf_apply_state = UNACKNOWLEDGED, cf_apply_error = [], cf_length = mt_length meta,
                     cf_hashes = mt_hashes meta, cf_file = content\<rparr>)
      | _ \<Rightarrow> None)"

lemma wanted_confD:
  assumes "wanted_conf env targets files path = Some c"
  shows "cf_path c = path" "cf_apply_state c = UNACKNOWLEDGED"
    "parseConfigPath path = Some (cf_product c, cf_id c)"
    "\<exists>meta. map_of (tg_targets targets) path = Some meta \<and> cf_hashes c = mt_hashes meta"
  using assms by (auto simp: wanted_conf_def split: option.splits sum.splits)

definition up_to_date :: "rc_targets \<Rightarrow> rc \<Rightarrow> string \<Rightarrow> bool" where
  "up_to_date targets st path \<longleftrightarrow>
     (case (map_of (rc_applied st) path, map_of (tg_targets targets) path) of
        (Some r, Some meta) \<Rightarrow> map_of (cf_hashes (rc_confs st r)) ''sha256'' = map_of (mt_hashes meta) ''sha256''
      | _ \<Rightarrow> False)"

definition refs_old :: "rc \<Rightarrow> bool" where
  "refs_old st \<longleftrightarrow> (\<forall>r \<in> snd ` set (rc_applied st). r < rc_next st)"

lemma refs_oldD: "refs_old st \<Longrightarrow> map_of (rc_applied st) path = Some r \<Longrightarrow> r < rc_next st"
  using map_of_SomeD by (force simp: refs_old_def)

lemma up_to_date_new_conf:
  assumes "refs_old st"
  shows "up_to_date targets (snd (new_conf c st)) path = up_to_date targets st path"
  using refs_oldD [OF assms, of path] by (auto simp: up_to_date_def new_conf_def split: option.split)

lemma plan_changes_spec:
  assumes "plan_changes env targets files paths st = Inr (plan, st')" "refs_old st"
  shows "st' = st\<lparr>rc_confs := rc_confs st', rc_next := rc_next st + length plan\<rparr> \<and>
    (\<forall>q < rc_next st. rc_confs st' q = rc_confs st q) \<and>
    map snd plan = [rc_next st..<rc_next st + length plan] \<and>
    map (\<lambda>(replaces, r). (replaces, Some (rc_confs st' r))) plan =
      map (\<lambda>p. (map_of (rc_applied st) p \<noteq> None, wanted_conf env targets files p))
        (filter (\<lambda>p. \<not> up_to_date targets st p) paths)"
  using assms
proof (induction paths arbitrary: st plan)
  case Nil
  then show ?case by auto
next
  case (Cons path paths)
  from Cons.prems obtain meta where meta: "map_of (tg_targets targets) path = Some meta"
    by (auto split: option.splits)
  show ?case
  proof (cases "up_to_date targets st path")
    case True
    then have "plan_changes env targets files paths st = Inr (plan, st')"
      using Cons.prems(1) meta by (auto simp: up_to_date_def split: option.splits)
    then show ?thesis using Cons.IH Cons.prems(2) True by simp
  next
    case False
    then have "\<not> (case map_of (rc_applied st) path of None \<Rightarrow> False
        | Some r \<Rightarrow> map_of (cf_hashes (rc_confs st r)) ''sha256'' = map_of (mt_hashes meta) ''sha256'')"
      using meta by (auto simp: up_to_date_def split: option.splits)
    then obtain c plan2 where c: "wanted_conf env targets files path = Some c"
      and rest: "plan_changes env targets files paths (snd (new_conf c st)) = Inr (plan2, st')"
      and plan: "plan = (map_of (rc_applied st) path \<noteq> None, rc_next st) # plan2"
      using Cons.prems(1) meta
      by (auto simp: wanted_conf_def Let_def new_conf_def split: option.splits sum.splits prod.splits)
    let ?st = "snd (new_conf c st)"
    have new: "refs_old ?st" "rc_next ?st = Suc (rc_next st)" "rc_applied ?st = rc_applied st"
        "rc_confs ?st (rc_next st) = c" "\<forall>q < rc_next st. rc_confs ?st q = rc_confs st q"
        "?st = st\<lparr>rc_confs := rc_confs ?st, rc_next := Suc (rc_next st)\<rparr>"
      using Cons.prems(2) by (auto simp: new_conf_def refs_old_def)
    have up: "up_to_date targets ?st p = up_to_date targets st p" for p
      using up_to_date_new_conf [OF Cons.prems(2)] by simp
    from Cons.IH [OF rest new(1)] have IH:
      "st' = ?st\<lparr>rc_confs := rc_confs st', rc_next := rc_next ?st + length plan2\<rparr>"
      "\<forall>q < rc_next ?st. rc_confs st' q = rc_confs ?st q"
      "map snd plan2 = [rc_next ?st..<rc_next ?st + length plan2]"
      "map (\<lambda>(replaces, r). (replaces, Some (rc_confs st' r))) plan2 =
         map (\<lambda>p. (map_of (rc_applied st) p \<noteq> None, wanted_conf env targets files p))
           (filter (\<lambda>p. \<not> up_to_date targets st p) paths)"
      by (simp_all add: up new(3))
    have "st' = st\<lparr>rc_confs := rc_confs st', rc_next := rc_next st + length plan\<rparr>"
      by (subst IH(1), subst new(6)) (simp add: plan new(2))
    moreover have "rc_confs st' (rc_next st) = c" "\<forall>q < rc_next st. rc_confs st' q = rc_confs st q"
      using IH(2) new by auto
    moreover have "map snd plan = [rc_next st..<rc_next st + length plan]"
      using IH(3) by (simp add: plan new(2) upt_rec)
    ultimately show ?thesis using IH(4) False c by (simp add: plan)
  qed
qed

lemma plan_changes_targets:
  "plan_changes env targets files paths st = Inr (plan, st') \<Longrightarrow> p \<in> set paths \<Longrightarrow> map_of (tg_targets targets) p \<noteq> None"
proof (induction paths arbitrary: st plan)
  case (Cons path paths)
  then show ?case by (auto simp: Let_def split: option.splits if_splits sum.splits prod.splits)
qed simp

subsection \<open>An update\<close>

lemma by_path_paths:
  "map_of (fold (\<lambda>r m. AList.update (cf_path (confs r)) r m) rs m0) p = Some r \<Longrightarrow>
   (\<And>p r. map_of m0 p = Some r \<Longrightarrow> cf_path (confs r) = p) \<Longrightarrow> cf_path (confs r) = p"
proof (induction rs arbitrary: m0)
  case (Cons x rs)
  show ?case
    by (rule Cons.IH [of "AList.update (cf_path (confs x)) x m0"])
      (use Cons.prems in \<open>auto simp: update_conv split: if_splits\<close>)
qed simp

definition toApply_of :: "(bool \<times> nat) list \<Rightarrow> nat list" where
  "toApply_of plan = map snd (filter (\<lambda>(replaces, _). \<not> replaces) plan)"

definition toModify_of :: "(bool \<times> nat) list \<Rightarrow> nat list" where
  "toModify_of plan = map snd (filter fst plan)"

lemma set_plan_parts:
  "set (toApply_of plan) \<subseteq> snd ` set plan" "set (toModify_of plan) \<subseteq> snd ` set plan"
  by (force simp: toApply_of_def toModify_of_def)+

lemma plan_parts_distinct:
  assumes "distinct (map snd plan)"
  shows "distinct (toApply_of plan)" "distinct (toModify_of plan)" "set (toApply_of plan) \<inter> set (toModify_of plan) = {}"
proof -
  have "distinct plan" "inj_on snd (set plan)" using assms by (auto simp: distinct_map)
  then show "distinct (toApply_of plan)" "distinct (toModify_of plan)"
    by (auto simp: toApply_of_def toModify_of_def distinct_map intro: inj_on_subset)
  show "set (toApply_of plan) \<inter> set (toModify_of plan) = {}"
    using \<open>inj_on snd (set plan)\<close> by (auto simp: toApply_of_def toModify_of_def inj_on_def) (metis prod.inject snd_conv)
qed

definition record_all :: "rc \<Rightarrow> nat list \<Rightarrow> (bool \<times> nat) list \<Rightarrow> (string \<times> nat) list \<Rightarrow> (string \<times> nat) list" where
  "record_all st toUnapply plan m =
     fold (record_item Modify st) (toModify_of plan)
       (fold (record_item Apply st) (toApply_of plan) (fold (record_item Unapply st) toUnapply m))"

definition announced_all :: "string list \<Rightarrow> rc \<Rightarrow> nat list \<Rightarrow> (bool \<times> nat) list \<Rightarrow> (rc_action \<times> string \<times> jsval \<times> string) list" where
  "announced_all handled st toUnapply plan =
     concat (map (announced Unapply handled st) toUnapply) @
     concat (map (announced Apply handled st) (toApply_of plan)) @
     concat (map (announced Modify handled st) (toModify_of plan))"

lemma settles_same: "settles rs a b \<Longrightarrow> q \<notin> set rs \<Longrightarrow> rc_confs b q = rc_confs a q"
  by (auto simp: settles_def)

lemma dispatches_effect:
  assumes "distinct toUnapply" "distinct (map snd plan)"
    "\<And>r. r \<in> snd ` set plan \<Longrightarrow> r \<notin> set toUnapply \<and>
       (cf_path (rc_confs st r) \<in> set handled \<or> cf_apply_state (rc_confs st r) = UNACKNOWLEDGED)"
    "st3 = dispatch (toModify_of plan) Modify handled (dispatch (toApply_of plan) Apply handled (dispatch toUnapply Unapply handled st))"
  shows "same_items st st3 \<and> (\<forall>q. rc_confs st3 q = rc_confs st q \<or> settled (rc_confs st3 q)) \<and>
    rc_calls st3 = rc_calls st @ announced_all handled st toUnapply plan \<and>
    rc_applied st3 = record_all st toUnapply plan (rc_applied st)"
proof -
  note parts = plan_parts_distinct [OF assms(2)] set_plan_parts [of plan]
  define st1 where "st1 = dispatch toUnapply Unapply handled st"
  define st2 where "st2 = dispatch (toApply_of plan) Apply handled st1"
  have st3: "st3 = dispatch (toModify_of plan) Modify handled st2" by (simp add: assms(4) st1_def st2_def)
  have 1: "same_items st st1 \<and> settles toUnapply st st1 \<and>
      rc_calls st1 = rc_calls st @ concat (map (announced Unapply handled st) toUnapply) \<and>
      rc_applied st1 = fold (record_item Unapply st) toUnapply (rc_applied st)"
    unfolding st1_def by (rule dispatch_effect) (use assms in auto)
  have same1: "rc_confs st1 r = rc_confs st r" if "r \<in> snd ` set plan" for r
    using 1 assms(3) [OF that] settles_same by blast
  have 2: "same_items st1 st2 \<and> settles (toApply_of plan) st1 st2 \<and>
      rc_calls st2 = rc_calls st1 @ concat (map (announced Apply handled st1) (toApply_of plan)) \<and>
      rc_applied st2 = fold (record_item Apply st1) (toApply_of plan) (rc_applied st1)"
    unfolding st2_def
  proof (rule dispatch_effect)
    fix r assume "r \<in> set (toApply_of plan)"
    then have "r \<in> snd ` set plan" using parts by blast
    then show "Apply = Unapply \<or> cf_path (rc_confs st1 r) \<in> set handled \<or> cf_apply_state (rc_confs st1 r) = UNACKNOWLEDGED"
      using assms(3) same1 by simp
  qed (rule parts)
  have 3: "same_items st2 st3 \<and> settles (toModify_of plan) st2 st3 \<and>
      rc_calls st3 = rc_calls st2 @ concat (map (announced Modify handled st2) (toModify_of plan)) \<and>
      rc_applied st3 = fold (record_item Modify st2) (toModify_of plan) (rc_applied st2)"
    unfolding st3
  proof (rule dispatch_effect)
    fix r assume r: "r \<in> set (toModify_of plan)"
    then have "r \<in> snd ` set plan" "r \<notin> set (toApply_of plan)" using parts by blast+
    then show "Modify = Unapply \<or> cf_path (rc_confs st2 r) \<in> set handled \<or> cf_apply_state (rc_confs st2 r) = UNACKNOWLEDGED"
      using assms(3) same1 2 settles_same [of "toApply_of plan" st1 st2 r] by simp
  qed (rule parts)
  have s2: "same_items st st2" and s3: "same_items st st3" using 1 2 3 same_items_trans by blast+
  have "settles (toUnapply @ toApply_of plan @ toModify_of plan) st st3"
    using settles_trans [of toUnapply st st1 "toApply_of plan @ toModify_of plan" st3]
      settles_trans [of "toApply_of plan" st1 st2 "toModify_of plan" st3] 1 2 3 by blast
  then have "rc_confs st3 q = rc_confs st q \<or> settled (rc_confs st3 q)" for q by (auto simp: settles_def)
  moreover have "announced action handled st1 = announced action handled st" "announced action handled st2 = announced action handled st"
      "record_item action st1 = record_item action st" "record_item action st2 = record_item action st" for action
    using 1 s2 by (auto simp: announced_same record_item_same)
  ultimately show ?thesis
    using 1 2 3 s3 by (simp add: announced_all_def record_all_def)
qed

lemma apply_changes_error: "apply_changes toUnapply plan st = (Inl e, st') \<Longrightarrow> st' = st"
  by (auto simp: apply_changes_def Let_def split: if_splits sum.splits prod.splits)

lemma apply_changes_effect:
  assumes "apply_changes toUnapply plan st = (Inr (), st')" "rc_cached st = cached_files st"
    "distinct toUnapply" "distinct (map snd plan)"
    "\<And>r. r \<in> snd ` set plan \<Longrightarrow> r \<notin> set toUnapply \<and> cf_apply_state (rc_confs st r) = UNACKNOWLEDGED"
  shows "\<exists>handled st3. (rc_batch st = [] \<longrightarrow> handled = []) \<and> st' = st3\<lparr>rc_cached := cached_files st3\<rparr> \<and> same_items st st3 \<and>
    (\<forall>q. rc_confs st3 q = rc_confs st q \<or> settled (rc_confs st3 q)) \<and>
    rc_calls st3 = rc_calls st @ announced_all handled st toUnapply plan \<and>
    rc_applied st3 = record_all st toUnapply plan (rc_applied st)"
proof (cases "toUnapply = [] \<and> toApply_of plan = [] \<and> toModify_of plan = []")
  case True
  then have "st' = st" using assms(1) by (simp add: apply_changes_def toApply_of_def toModify_of_def)
  moreover have "st = st\<lparr>rc_cached := cached_files st\<rparr>" using assms(2) by simp
  ultimately show ?thesis
    using True by (intro exI [of _ "[]"] exI [of _ st]) (simp add: announced_all_def record_all_def)
next
  case False
  let ?view = "(map (rc_confs st) toUnapply, map (rc_confs st) (toApply_of plan), map (rc_confs st) (toModify_of plan))"
  let ?byPath = "fold (\<lambda>r m. AList.update (cf_path (rc_confs st r)) r m) (toUnapply @ map snd plan) []"
  obtain handled outcomes where run: "run_batch (rc_batch st) ?view ([], []) = Inr (handled, outcomes)"
    using assms(1) False
    by (auto simp: apply_changes_def Let_def toApply_of_def toModify_of_def split: if_splits sum.splits prod.splits)
  define st1 where "st1 = applyOutcomes ?byPath outcomes st"
  define st3 where "st3 = dispatch (toModify_of plan) Modify handled
    (dispatch (toApply_of plan) Apply handled (dispatch toUnapply Unapply handled st1))"
  have st': "st' = st3\<lparr>rc_cached := cached_files st3\<rparr>"
    using assms(1) False run
    by (simp add: apply_changes_def Let_def toApply_of_def toModify_of_def st3_def st1_def split: if_splits)
  have ok: "fst ` set outcomes = set handled"
      "\<forall>(p, state, e) \<in> set outcomes. state = ACKNOWLEDGED \<or> state = APPLY_ERROR"
    using outcomes_ok_run [OF run] by (auto simp: outcomes_ok_def)
  have 1: "same_items st st1 \<and> rc_applied st1 = rc_applied st \<and> rc_calls st1 = rc_calls st \<and>
      (\<forall>q. rc_confs st1 q = rc_confs st q \<or> cf_path (rc_confs st q) \<in> fst ` set outcomes \<and> settled (rc_confs st1 q))"
    unfolding st1_def by (rule applyOutcomes_effect [OF ok(2)]) (erule by_path_paths, simp)
  have "same_items st1 st3 \<and> (\<forall>q. rc_confs st3 q = rc_confs st1 q \<or> settled (rc_confs st3 q)) \<and>
    rc_calls st3 = rc_calls st1 @ announced_all handled st1 toUnapply plan \<and>
    rc_applied st3 = record_all st1 toUnapply plan (rc_applied st1)"
  proof (rule dispatches_effect [OF assms(3,4) _ st3_def])
    fix r assume "r \<in> snd ` set plan"
    then have r: "r \<notin> set toUnapply" "cf_apply_state (rc_confs st r) = UNACKNOWLEDGED" using assms(5) by blast+
    have "rc_confs st1 r = rc_confs st r \<or> cf_path (rc_confs st r) \<in> set handled" using 1 ok(1) by blast
    then show "r \<notin> set toUnapply \<and>
       (cf_path (rc_confs st1 r) \<in> set handled \<or> cf_apply_state (rc_confs st1 r) = UNACKNOWLEDGED)"
      using r same_items_key(1) [of st st1 r] 1 by auto
  qed
  moreover have "announced_all handled st1 = announced_all handled st" "record_all st1 = record_all st"
    using 1 by (auto simp: announced_all_def record_all_def announced_same record_item_same intro!: ext)
  moreover have "rc_confs st3 q = rc_confs st q \<or> settled (rc_confs st3 q)"
    if "\<forall>q. rc_confs st3 q = rc_confs st1 q \<or> settled (rc_confs st3 q)" for q
    using that 1 by metis
  moreover have "rc_batch st = [] \<longrightarrow> handled = []" using run by auto
  ultimately show ?thesis
    using 1 same_items_trans [of st st1 st3] by (intro exI [of _ handled] exI [of _ st3]) (simp add: st')
qed

lemma record_deletes:
  "map_of (fold (record_item Unapply st) rs m) p = (if p \<in> (\<lambda>r. cf_path (rc_confs st r)) ` set rs then None else map_of m p)"
  by (induction rs arbitrary: m) (auto simp: record_item_def delete_conv')

lemma record_updates:
  assumes "action \<noteq> Unapply"
  shows "(\<exists>r \<in> set rs. cf_path (rc_confs st r) = p \<and> map_of (fold (record_item action st) rs m) p = Some r) \<or>
    (p \<notin> (\<lambda>r. cf_path (rc_confs st r)) ` set rs \<and> map_of (fold (record_item action st) rs m) p = map_of m p)"
  using assms by (induction rs rule: rev_induct) (auto simp: record_item_def update_conv)

lemma record_all_lookup:
  "(\<exists>r \<in> snd ` set plan. cf_path (rc_confs st r) = p \<and> map_of (record_all st toUnapply plan m) p = Some r) \<or>
   (p \<notin> (\<lambda>r. cf_path (rc_confs st r)) ` snd ` set plan \<and> map_of (record_all st toUnapply plan m) p =
      (if p \<in> (\<lambda>r. cf_path (rc_confs st r)) ` set toUnapply then None else map_of m p))"
proof -
  have split: "snd ` set plan = set (toApply_of plan) \<union> set (toModify_of plan)"
    by (force simp: toApply_of_def toModify_of_def)
  let ?m = "fold (record_item Unapply st) toUnapply m"
  let ?n = "fold (record_item Apply st) (toApply_of plan) ?m"
  show ?thesis
    unfolding split record_all_def
    using record_updates [of Modify "toModify_of plan" st p ?n] record_updates [of Apply "toApply_of plan" st p ?m]
      record_deletes [of st toUnapply m p] by auto
qed

lemma record_all_distinct: "distinct (map fst m) \<Longrightarrow> distinct (map fst (record_all st toUnapply plan m))"
proof -
  have "distinct (map fst m) \<Longrightarrow> distinct (map fst (fold (record_item action st) rs m))" for action rs m
    by (induction rs arbitrary: m) (auto simp: record_item_def distinct_update distinct_delete)
  then show "distinct (map fst m) \<Longrightarrow> ?thesis" by (simp add: record_all_def)
qed

subsection \<open>The state between responses\<close>

definition rc_wf :: "rc \<Rightarrow> bool" where
  "rc_wf st \<longleftrightarrow> distinct (map fst (rc_applied st)) \<and>
     (\<forall>(p, r) \<in> set (rc_applied st). cf_path (rc_confs st r) = p \<and> r < rc_next st \<and>
        parseConfigPath p = Some (cf_product (rc_confs st r), cf_id (rc_confs st r))) \<and>
     rc_cached st = cached_files st \<and>
     (\<forall>q < rc_next st. cf_apply_state (rc_confs st q) = UNACKNOWLEDGED \<or> settled (rc_confs st q))"

lemma rc_wf_memD:
  assumes "rc_wf st" "(p, r) \<in> set (rc_applied st)"
  shows "cf_path (rc_confs st r) = p" "r < rc_next st"
    "parseConfigPath p = Some (cf_product (rc_confs st r), cf_id (rc_confs st r))"
  using assms unfolding rc_wf_def by fast+

lemmas rc_wfD = rc_wf_memD [OF _ map_of_SomeD]

lemma rc_wf_refs_old: "rc_wf st \<Longrightarrow> refs_old st"
  by (auto simp: rc_wf_def refs_old_def)

lemma cached_files_same:
  "(\<And>p r. (p, r) \<in> set (rc_applied st) \<Longrightarrow> conf_key (rc_confs st' r) = conf_key (rc_confs st r)) \<Longrightarrow>
   rc_applied st' = rc_applied st \<Longrightarrow> cached_files st' = cached_files st"
  by (auto simp: cached_files_def conf_key_def)

definition toUnapply_of :: "rc \<Rightarrow> string list \<Rightarrow> nat list" where
  "toUnapply_of st clients = filter (\<lambda>r. cf_path (rc_confs st r) \<notin> set clients) (map snd (rc_applied st))"

lemma toUnapply_old: "rc_wf st \<Longrightarrow> r \<in> set (toUnapply_of st clients) \<Longrightarrow> r < rc_next st"
  by (auto simp: rc_wf_def toUnapply_of_def)

lemma toUnapply_distinct: "rc_wf st \<Longrightarrow> distinct (toUnapply_of st clients)"
proof -
  assume wf: "rc_wf st"
  have "map fst (rc_applied st) = map (\<lambda>r. cf_path (rc_confs st r)) (map snd (rc_applied st))"
    using wf by (auto simp: rc_wf_def)
  then have "distinct (map snd (rc_applied st))" using wf by (metis distinct_map rc_wf_def)
  then show ?thesis by (simp add: toUnapply_of_def)
qed

text \<open>What a response has to bring in, by path\<close>

definition plan_for :: "rc_env \<Rightarrow> rc_response \<Rightarrow> rc \<Rightarrow> (bool \<times> rc_conf option) list" where
  "plan_for env response st =
     (case read_targets env (rs_targets response) of
        Inr (Some targets) \<Rightarrow>
          map (\<lambda>p. (map_of (rc_applied st) p \<noteq> None, wanted_conf env targets (rs_target_files response) p))
            (filter (\<lambda>p. \<not> up_to_date targets st p) (rs_client_configs response))
      | _ \<Rightarrow> [])"

definition brings_in :: "rc \<Rightarrow> (bool \<times> nat) list \<Rightarrow> rc \<Rightarrow> bool" where
  "brings_in st plan st1 \<longleftrightarrow>
     rc_applied st1 = rc_applied st \<and> rc_calls st1 = rc_calls st \<and> rc_cached st1 = rc_cached st \<and>
     rc_batch st1 = rc_batch st \<and> rc_handlers st1 = rc_handlers st \<and> rc_capabilities st1 = rc_capabilities st \<and>
     rc_has_error st1 = rc_has_error st \<and> rc_next st1 = rc_next st + length plan \<and> (\<forall>q < rc_next st. rc_confs st1 q = rc_confs st q) \<and>
     map snd plan = [rc_next st..<rc_next st + length plan]"

lemma brings_inI:
  assumes "st0 = st\<lparr>rc_confs := confs, rc_next := n\<rparr>" "n = rc_next st + length plan"
    "\<forall>q < rc_next st. confs q = rc_confs st q" "map snd plan = [rc_next st..<rc_next st + length plan]"
  shows "brings_in st plan (st0\<lparr>rc_targets_version := v, rc_backend_state := b\<rparr>)"
  using assms by (simp add: brings_in_def)

lemma parseConfig_plan:
  assumes "parseConfig env response st = (res, st')" "rc_wf st"
  shows "(\<exists>e. res = Inl e \<and> st' = st) \<or>
    (\<exists>plan st1. apply_changes (toUnapply_of st (rs_client_configs response)) plan st1 = (res, st') \<and> brings_in st plan st1 \<and>
       map (\<lambda>(replaces, r). (replaces, Some (rc_confs st1 r))) plan = plan_for env response st \<and>
       (\<forall>targets. read_targets env (rs_targets response) = Inr (Some targets) \<longrightarrow>
          rc_targets_version st1 = tg_version targets \<and>
          (\<forall>p \<in> set (rs_client_configs response). map_of (tg_targets targets) p \<noteq> None)) \<and>
       (read_targets env (rs_targets response) = Inr None \<longrightarrow> st1 = st))"
proof (cases "read_targets env (rs_targets response)")
  case (Inl e)
  then show ?thesis using assms by (auto simp: parseConfig_def Let_def)
next
  case (Inr targets')
  show ?thesis
  proof (cases targets')
    case None
    then have "apply_changes (toUnapply_of st (rs_client_configs response)) [] st = (res, st')" "plan_for env response st = []"
      using assms Inr by (simp_all add: parseConfig_def toUnapply_of_def plan_for_def Let_def)
    then show ?thesis
      using Inr None by (intro disjI2 exI [of _ "[]"] exI [of _ st]) (simp add: brings_in_def)
  next
    case (Some targets)
    note rd = Inr [unfolded Some]
    show ?thesis
    proof (cases "plan_changes env targets (rs_target_files response) (rs_client_configs response) st")
      case (Inl e)
      then show ?thesis using assms rd by (auto simp: parseConfig_def Let_def)
    next
      case (Inr r)
      obtain plan st0 where r: "r = (plan, st0)" by (cases r)
      let ?st1 = "st0\<lparr>rc_targets_version := tg_version targets, rc_backend_state := tg_opaque targets\<rparr>"
      note spec = plan_changes_spec [OF Inr [unfolded r] rc_wf_refs_old [OF assms(2)]]
      have "brings_in st plan ?st1"
        by (rule brings_inI [where confs = "rc_confs st0" and n = "rc_next st + length plan"]) (use spec in blast)+
      moreover have "apply_changes (toUnapply_of st (rs_client_configs response)) plan ?st1 = (res, st')"
        using assms rd Inr r by (simp add: parseConfig_def toUnapply_of_def Let_def)
      ultimately show ?thesis
        using spec rd plan_changes_targets [OF Inr [unfolded r]]
        by (intro disjI2 exI [of _ plan] exI [of _ ?st1]) (simp add: plan_for_def)
    qed
  qed
qed

end
