(* ===== verification/RemoteConfigClient.thy ===== *)
theory RemoteConfigClient
  imports RemoteConfigLaws
begin

text \<open>
  What the client of remote configuration promises over its life: the steps of the client, the
  invariant of its state, and the theorems about a response and about capabilities.
\<close>

subsection \<open>An accepted response\<close>

lemma plan_memberD:
  assumes "map (\<lambda>(replaces, r). (replaces, Some (rc_confs st1 r))) plan = plan_for env response st" "r \<in> snd ` set plan"
  shows "\<exists>targets p. read_targets env (rs_targets response) = Inr (Some targets) \<and> p \<in> set (rs_client_configs response) \<and>
    \<not> up_to_date targets st p \<and> wanted_conf env targets (rs_target_files response) p = Some (rc_confs st1 r)"
proof -
  obtain b where "(b, r) \<in> set plan" using assms(2) by auto
  then have "(b, Some (rc_confs st1 r)) \<in> set (plan_for env response st)"
    unfolding assms(1) [symmetric] by force
  then show ?thesis by (auto simp: plan_for_def split: sum.splits option.splits) (metis)+
qed

lemma plan_memberI:
  assumes "map (\<lambda>(replaces, r). (replaces, Some (rc_confs st1 r))) plan = plan_for env response st"
    "read_targets env (rs_targets response) = Inr (Some targets)" "p \<in> set (rs_client_configs response)" "\<not> up_to_date targets st p"
  shows "\<exists>r \<in> snd ` set plan. wanted_conf env targets (rs_target_files response) p = Some (rc_confs st1 r)"
proof -
  have "wanted_conf env targets (rs_target_files response) p \<in> snd ` set (plan_for env response st)"
    using assms(2-4) by (force simp: plan_for_def)
  then show ?thesis unfolding assms(1) [symmetric] by force
qed

text \<open>The facts of an update that was carried out\<close>

definition updated :: "rc_env \<Rightarrow> rc_response \<Rightarrow> rc \<Rightarrow> (bool \<times> nat) list \<Rightarrow> string list \<Rightarrow> rc \<Rightarrow> rc \<Rightarrow> bool" where
  "updated env response st plan handled st1 st' \<longleftrightarrow>
     (rc_batch st = [] \<longrightarrow> handled = []) \<and> brings_in st plan st1 \<and> rc_wf st1 \<and>
     map (\<lambda>(replaces, r). (replaces, Some (rc_confs st1 r))) plan = plan_for env response st \<and>
     (\<exists>st3. st' = st3\<lparr>rc_cached := cached_files st3\<rparr> \<and> same_items st1 st3 \<and>
       (\<forall>q. rc_confs st3 q = rc_confs st1 q \<or> settled (rc_confs st3 q)) \<and>
       rc_calls st3 = rc_calls st @ announced_all handled st1 (toUnapply_of st (rs_client_configs response)) plan \<and>
       rc_applied st3 = record_all st1 (toUnapply_of st (rs_client_configs response)) plan (rc_applied st)) \<and>
     (\<forall>targets. read_targets env (rs_targets response) = Inr (Some targets) \<longrightarrow>
        rc_targets_version st' = tg_version targets \<and>
        (\<forall>p \<in> set (rs_client_configs response). map_of (tg_targets targets) p \<noteq> None))"

lemma rc_wf_brings_in:
  assumes "rc_wf st" "brings_in st plan st1"
    "map (\<lambda>(replaces, r). (replaces, Some (rc_confs st1 r))) plan = plan_for env response st"
  shows "rc_wf st1"
proof -
  have old: "rc_confs st1 r = rc_confs st r" if "(p, r) \<in> set (rc_applied st)" for p r
    using rc_wf_memD(2) [OF assms(1) that] assms(2) by (simp add: brings_in_def)
  have "cached_files st1 = cached_files st"
    by (rule cached_files_same) (use old assms(2) in \<open>auto simp: brings_in_def\<close>)
  moreover have "cf_apply_state (rc_confs st1 q) = UNACKNOWLEDGED \<or> settled (rc_confs st1 q)" if "q < rc_next st1" for q
  proof (cases "q < rc_next st")
    case True
    then show ?thesis using assms(1,2) by (simp add: rc_wf_def brings_in_def)
  next
    case False
    then have "q \<in> set (map snd plan)" using assms(2) that by (simp add: brings_in_def)
    then have "q \<in> snd ` set plan" by simp
    then obtain targets p where "wanted_conf env targets (rs_target_files response) p = Some (rc_confs st1 q)"
      using plan_memberD [OF assms(3)] by blast
    then show ?thesis using wanted_confD(2) by simp
  qed
  moreover have "\<forall>(p, r) \<in> set (rc_applied st). cf_path (rc_confs st1 r) = p \<and> r < rc_next st1 \<and>
        parseConfigPath p = Some (cf_product (rc_confs st1 r), cf_id (rc_confs st1 r))"
  proof safe
    fix p r assume pr: "(p, r) \<in> set (rc_applied st)"
    then show "cf_path (rc_confs st1 r) = p" "r < rc_next st1"
        "parseConfigPath p = Some (cf_product (rc_confs st1 r), cf_id (rc_confs st1 r))"
      using rc_wf_memD [OF assms(1) pr] old [OF pr] assms(2) by (simp_all add: brings_in_def)
  qed
  moreover have "rc_applied st1 = rc_applied st" "rc_cached st1 = rc_cached st" using assms(2) by (simp_all add: brings_in_def)
  ultimately show ?thesis using assms(1) unfolding rc_wf_def by simp
qed

lemma parseConfig_updated:
  assumes "parseConfig env response st = (Inr (), st')" "rc_wf st"
  shows "\<exists>plan handled st1. updated env response st plan handled st1 st'"
proof -
  obtain plan st1 where
    ch: "apply_changes (toUnapply_of st (rs_client_configs response)) plan st1 = (Inr (), st')" and
    br: "brings_in st plan st1" and
    pl: "map (\<lambda>(replaces, r). (replaces, Some (rc_confs st1 r))) plan = plan_for env response st" and
    tg: "\<forall>targets. read_targets env (rs_targets response) = Inr (Some targets) \<longrightarrow>
          rc_targets_version st1 = tg_version targets \<and>
          (\<forall>p \<in> set (rs_client_configs response). map_of (tg_targets targets) p \<noteq> None)"
    using parseConfig_plan [OF assms] by auto
  have wf1: "rc_wf st1" by (rule rc_wf_brings_in [OF assms(2) br pl])
  have "rc_cached st1 = cached_files st1" using wf1 by (simp add: rc_wf_def)
  moreover have "distinct (map snd plan)" using br unfolding brings_in_def by (metis distinct_upt)
  moreover have "r \<notin> set (toUnapply_of st (rs_client_configs response)) \<and> cf_apply_state (rc_confs st1 r) = UNACKNOWLEDGED"
    if r: "r \<in> snd ` set plan" for r
  proof -
    have "r \<in> set (map snd plan)" using r by simp
    then have "rc_next st \<le> r" using br unfolding brings_in_def by (metis atLeastLessThan_iff set_upt)
    moreover obtain targets p where "wanted_conf env targets (rs_target_files response) p = Some (rc_confs st1 r)"
      using plan_memberD [OF pl r] by blast
    ultimately show ?thesis using toUnapply_old [OF assms(2)] wanted_confD(2) by (meson leD)
  qed
  ultimately obtain handled st3 where
    st3: "rc_batch st1 = [] \<longrightarrow> handled = []" "st' = st3\<lparr>rc_cached := cached_files st3\<rparr>" "same_items st1 st3"
    "\<forall>q. rc_confs st3 q = rc_confs st1 q \<or> settled (rc_confs st3 q)"
    "rc_calls st3 = rc_calls st1 @ announced_all handled st1 (toUnapply_of st (rs_client_configs response)) plan"
    "rc_applied st3 = record_all st1 (toUnapply_of st (rs_client_configs response)) plan (rc_applied st1)"
    using apply_changes_effect [OF ch _ toUnapply_distinct [OF assms(2)]] by blast
  have "rc_batch st1 = rc_batch st" "rc_calls st1 = rc_calls st" "rc_applied st1 = rc_applied st"
    using br by (simp_all add: brings_in_def)
  moreover have "rc_targets_version st' = rc_targets_version st1" using st3(2,3) by (simp add: same_items_def)
  ultimately have "updated env response st plan handled st1 st'"
    unfolding updated_def using br pl tg wf1 st3 by auto
  then show ?thesis by blast
qed

lemma updated_facts:
  assumes "updated env response st plan handled st1 st'"
  shows "brings_in st plan st1" "rc_wf st1" "rc_applied st1 = rc_applied st" "rc_next st' = rc_next st1"
    "map (\<lambda>(replaces, r). (replaces, Some (rc_confs st1 r))) plan = plan_for env response st"
    "conf_key (rc_confs st' r) = conf_key (rc_confs st1 r)"
    "rc_applied st' = record_all st1 (toUnapply_of st (rs_client_configs response)) plan (rc_applied st)"
    "rc_confs st' q = rc_confs st1 q \<or> settled (rc_confs st' q)"
    "rc_cached st' = cached_files st'"
    "rc_calls st' = rc_calls st @ announced_all handled st1 (toUnapply_of st (rs_client_configs response)) plan"
    "rc_has_error st' = rc_has_error st"
  using assms by (auto simp: updated_def same_items_def brings_in_def cached_files_def)

lemma updated_lookup:
  assumes u: "updated env response st plan handled st1 st'" and wf: "rc_wf st" and p: "map_of (rc_applied st') p = Some r"
  shows "cf_path (rc_confs st1 r) = p \<and> r < rc_next st1 \<and> parseConfigPath p = Some (cf_product (rc_confs st1 r), cf_id (rc_confs st1 r)) \<and>
    p \<in> set (rs_client_configs response)"
proof -
  note f = updated_facts [OF u]
  consider (new) "r \<in> snd ` set plan" "cf_path (rc_confs st1 r) = p"
    | (old) "map_of (rc_applied st) p = Some r" "p \<notin> (\<lambda>r. cf_path (rc_confs st1 r)) ` set (toUnapply_of st (rs_client_configs response))"
    using record_all_lookup [of plan st1 p "toUnapply_of st (rs_client_configs response)" "rc_applied st"] p
    by (auto simp: f(7) split: if_splits)
  then show ?thesis
  proof cases
    case new
    obtain targets p' where p': "p' \<in> set (rs_client_configs response)"
        "wanted_conf env targets (rs_target_files response) p' = Some (rc_confs st1 r)"
      using plan_memberD [OF f(5) new(1)] by blast
    have "r \<in> set (map snd plan)" using new(1) by simp
    then have "r < rc_next st1" using f(1) unfolding brings_in_def by (metis atLeastLessThan_iff set_upt)
    then show ?thesis using new(2) p' wanted_confD(1,3) by metis
  next
    case old
    have r: "cf_path (rc_confs st1 r) = p" "r < rc_next st1"
        "parseConfigPath p = Some (cf_product (rc_confs st1 r), cf_id (rc_confs st1 r))"
      using rc_wfD [OF f(2), of p r] old(1) f(3) by simp_all
    have "r \<in> set (map snd (rc_applied st))" using map_of_SomeD [OF old(1)] by force
    moreover have "cf_path (rc_confs st r) = p" using rc_wfD(1) [OF wf old(1)] .
    ultimately have "p \<notin> set (rs_client_configs response) \<Longrightarrow> r \<in> set (toUnapply_of st (rs_client_configs response))"
      by (simp add: toUnapply_of_def)
    then have "p \<in> set (rs_client_configs response)" using old(2) r(1) by blast
    then show ?thesis using r by simp
  qed
qed

lemma updated_client:
  assumes u: "updated env response st plan handled st1 st'" and wf: "rc_wf st"
    and t: "read_targets env (rs_targets response) = Inr (Some targets)" and p: "p \<in> set (rs_client_configs response)"
  shows "\<exists>r meta. map_of (rc_applied st') p = Some r \<and> map_of (tg_targets targets) p = Some meta \<and>
    map_of (cf_hashes (rc_confs st' r)) ''sha256'' = map_of (mt_hashes meta) ''sha256''"
proof -
  note f = updated_facts [OF u]
  have hashes: "cf_hashes (rc_confs st' r) = cf_hashes (rc_confs st1 r)" for r
    using f(6) [of r] by (simp add: conf_key_def)
  obtain meta where meta: "map_of (tg_targets targets) p = Some meta" using u t p by (auto simp: updated_def)
  consider (new) r where "r \<in> snd ` set plan" "cf_path (rc_confs st1 r) = p" "map_of (rc_applied st') p = Some r"
    | (old) "p \<notin> (\<lambda>r. cf_path (rc_confs st1 r)) ` snd ` set plan"
        "map_of (rc_applied st') p = (if p \<in> (\<lambda>r. cf_path (rc_confs st1 r)) ` set (toUnapply_of st (rs_client_configs response))
           then None else map_of (rc_applied st) p)"
    using record_all_lookup [of plan st1 p "toUnapply_of st (rs_client_configs response)" "rc_applied st"]
    by (auto simp: f(7))
  then show ?thesis
  proof cases
    case (new r)
    obtain t' p' where w: "read_targets env (rs_targets response) = Inr (Some t')"
        "wanted_conf env t' (rs_target_files response) p' = Some (rc_confs st1 r)"
      using plan_memberD [OF f(5) new(1)] by blast
    then have "p' = p" "t' = targets" using wanted_confD(1) [OF w(2)] new(2) t by auto
    then show ?thesis using wanted_confD(4) [OF w(2)] new(3) meta hashes by auto
  next
    case old
    have "up_to_date targets st p"
    proof (rule ccontr)
      assume "\<not> ?thesis"
      then obtain r where "r \<in> snd ` set plan" "wanted_conf env targets (rs_target_files response) p = Some (rc_confs st1 r)"
        using plan_memberI [OF f(5) t p] by blast
      then show False using old(1) wanted_confD(1) by force
    qed
    then obtain r where r: "map_of (rc_applied st) p = Some r"
        "map_of (cf_hashes (rc_confs st r)) ''sha256'' = map_of (mt_hashes meta) ''sha256''"
      using meta by (auto simp: up_to_date_def split: option.splits)
    have same: "rc_confs st1 q = rc_confs st q" if "q < rc_next st" for q using f(1) that by (simp add: brings_in_def)
    have "p \<notin> (\<lambda>r. cf_path (rc_confs st1 r)) ` set (toUnapply_of st (rs_client_configs response))"
    proof
      assume "p \<in> (\<lambda>r. cf_path (rc_confs st1 r)) ` set (toUnapply_of st (rs_client_configs response))"
      then obtain q where q: "q \<in> set (toUnapply_of st (rs_client_configs response))" "cf_path (rc_confs st1 q) = p" by blast
      then have "cf_path (rc_confs st q) = p" using same [OF toUnapply_old [OF wf q(1)]] by simp
      then show False using q(1) p by (simp add: toUnapply_of_def)
    qed
    then have "map_of (rc_applied st') p = Some r" using old(2) r(1) by simp
    then show ?thesis using r(2) meta same [OF rc_wfD(2) [OF wf r(1)]] hashes by auto
  qed
qed

lemma updated_wf:
  assumes "updated env response st plan handled st1 st'" "rc_wf st"
  shows "rc_wf st'"
proof -
  note f = updated_facts [OF assms(1)]
  have keys: "cf_path (rc_confs st' r) = cf_path (rc_confs st1 r)" "cf_product (rc_confs st' r) = cf_product (rc_confs st1 r)"
      "cf_id (rc_confs st' r) = cf_id (rc_confs st1 r)" for r
    using f(6) [of r] by (simp_all add: conf_key_def)
  have d: "distinct (map fst (rc_applied st'))"
    using record_all_distinct assms(2) by (simp add: f(7) rc_wf_def)
  moreover have "\<forall>(p, r) \<in> set (rc_applied st'). cf_path (rc_confs st' r) = p \<and> r < rc_next st' \<and>
        parseConfigPath p = Some (cf_product (rc_confs st' r), cf_id (rc_confs st' r))"
    using updated_lookup [OF assms] map_of_is_SomeI [OF d] by (fastforce simp: keys f(4))
  moreover have "cf_apply_state (rc_confs st' q) = UNACKNOWLEDGED \<or> settled (rc_confs st' q)" if "q < rc_next st'" for q
    using f(8) [of q] f(2) that by (auto simp: rc_wf_def f(4))
  ultimately show ?thesis using f(9) by (simp add: rc_wf_def)
qed

lemma parseConfig_wf:
  assumes "parseConfig env response st = (res, st')" "rc_wf st"
  shows "rc_wf st'"
proof (cases res)
  case (Inr u)
  then show ?thesis using parseConfig_updated [of env response st st'] updated_wf assms by fastforce
next
  case (Inl e)
  from parseConfig_plan [OF assms] show ?thesis
  proof (elim disjE exE conjE)
    fix plan st1
    assume "apply_changes (toUnapply_of st (rs_client_configs response)) plan st1 = (res, st')" "brings_in st plan st1"
      "map (\<lambda>(replaces, r). (replaces, Some (rc_confs st1 r))) plan = plan_for env response st"
    then show ?thesis using rc_wf_brings_in [OF assms(2)] apply_changes_error Inl by blast
  qed (use assms(2) in simp)
qed

subsection \<open>The life of the client\<close>

text \<open>
  What happens to a client: an answer of the agent, a promise that settles, a late call of an
  \<open>ack\<close> callback, and the calls of the tracer.
\<close>

inductive rc_step :: "rc \<Rightarrow> rc \<Rightarrow> bool" where
  rc_answer: "rc_step st (poll_answer env statusCode answer st)"
| rc_settle: "r < rc_next st \<Longrightarrow> rc_step st (promise_settles r err st)"
| rc_late_ack: "r < rc_next st \<Longrightarrow> rc_step st (ack_callback r err st)"
| rc_set_product: "rc_step st (setProductHandler product h st)"
| rc_remove_product: "rc_step st (removeProductHandler product st)"
| rc_set_batch: "rc_step st (setBatchHandler products k run st)"
| rc_remove_batch: "rc_step st (removeBatchHandler k st)"
| rc_update_capabilities: "updateCapabilities bits value st = Inr st' \<Longrightarrow> rc_step st st'"

inductive_cases rc_stepE: "rc_step st st'"

inductive rc_reachable :: "rc \<Rightarrow> bool" where
  rc_new: "rc_reachable new_RemoteConfig"
| rc_go: "rc_reachable st \<Longrightarrow> rc_step st st' \<Longrightarrow> rc_reachable st'"

text \<open>The invariant looks at the objects, the applied ones and the files that are cached.\<close>

lemma rc_wf_cong:
  assumes "rc_applied st' = rc_applied st" "rc_confs st' = rc_confs st" "rc_next st' = rc_next st" "rc_cached st' = rc_cached st"
  shows "rc_wf st' = rc_wf st"
  using assms by (simp add: rc_wf_def cached_files_def)

lemma touches_wf:
  assumes "touches r st st'" "rc_wf st"
  shows "rc_wf st'"
proof -
  have t: "same_items st st'" "rc_applied st' = rc_applied st"
      "rc_confs st' q = rc_confs st q \<or> settled (rc_confs st' q)" for q
    using assms(1) by (auto simp: touches_def)
  have keys: "conf_key (rc_confs st' q) = conf_key (rc_confs st q)" "rc_next st' = rc_next st" "rc_cached st' = rc_cached st" for q
    using t(1) by (simp_all add: same_items_def)
  have "cached_files st' = cached_files st" by (rule cached_files_same) (simp_all add: keys t)
  moreover have "cf_apply_state (rc_confs st' q) = UNACKNOWLEDGED \<or> settled (rc_confs st' q)" if "q < rc_next st" for q
    using t(3) [of q] assms(2) that by (auto simp: rc_wf_def)
  ultimately show ?thesis
    using assms(2) by (simp add: rc_wf_def keys t(2) same_items_key [OF t(1)])
qed

text \<open>The state when an answer is read, and the ways an answer ends\<close>

definition cleared :: "rc \<Rightarrow> rc" where
  "cleared st = (if rc_has_error st then st\<lparr>rc_has_error := False, rc_error := []\<rparr> else st)"

lemma poll_answer_cases:
  obtains (ignored) "poll_answer env statusCode answer st = st" "statusCode = 404 \<or> answer = None"
  | (current) "poll_answer env statusCode answer st = cleared st"
  | (unreadable) e where "poll_answer env statusCode answer st = (cleared st)\<lparr>rc_has_error := True, rc_error := e\<rparr>"
  | (rejected) response e st' where "parseConfig env response (cleared st) = (Inl e, st')"
      "poll_answer env statusCode answer st = st'\<lparr>rc_has_error := True, rc_error := e\<rparr>"
  | (accepted) response where "parseConfig env response (cleared st) = (Inr (), poll_answer env statusCode answer st)"
proof (cases "statusCode = 404 \<or> answer = None")
  case True
  then show ?thesis using ignored by (auto simp: poll_answer_def)
next
  case False
  then obtain t where t: "answer = Some t" "statusCode \<noteq> 404" by auto
  show ?thesis
  proof (cases "t = [] \<or> t = ''{}''")
    case True
    then have "poll_answer env statusCode answer st = cleared st"
      using t by (simp only: poll_answer_def cleared_def Let_def option.case if_False if_True)
    then show ?thesis by (rule current)
  next
    case False
    then have eq: "poll_answer env statusCode answer st =
        (case re_response env t of
           Inl e \<Rightarrow> (cleared st)\<lparr>rc_has_error := True, rc_error := e\<rparr>
         | Inr response \<Rightarrow> (case parseConfig env response (cleared st) of
             (Inl e, st') \<Rightarrow> st'\<lparr>rc_has_error := True, rc_error := e\<rparr>
           | (Inr _, st') \<Rightarrow> st'))"
      using t by (simp only: poll_answer_def cleared_def Let_def option.case if_False)
    show ?thesis
    proof (cases "re_response env t")
      case (Inl e)
      then show ?thesis using unreadable eq by simp
    next
      case (Inr response)
      obtain res st' where res: "parseConfig env response (cleared st) = (res, st')" by (cases "parseConfig env response (cleared st)")
      then show ?thesis using rejected accepted eq Inr by (cases res) auto
    qed
  qed
qed

lemma cleared_sel [simp]:
  "rc_applied (cleared st) = rc_applied st" "rc_confs (cleared st) = rc_confs st" "rc_next (cleared st) = rc_next st"
  "rc_cached (cleared st) = rc_cached st" "rc_calls (cleared st) = rc_calls st" "rc_batch (cleared st) = rc_batch st"
  "rc_targets_version (cleared st) = rc_targets_version st" "\<not> rc_has_error (cleared st)"
  by (simp_all add: cleared_def)

lemma cleared_wf [simp]: "rc_wf (cleared st) = rc_wf st"
  by (rule rc_wf_cong) simp_all

lemma report_wf [simp]: "rc_wf (st\<lparr>rc_has_error := b, rc_error := e\<rparr>) = rc_wf st"
  by (rule rc_wf_cong) simp_all

lemma poll_answer_wf: "rc_wf st \<Longrightarrow> rc_wf (poll_answer env statusCode answer st)"
  by (cases rule: poll_answer_cases [of env statusCode answer st]) (auto intro: parseConfig_wf)

lemma rc_step_wf: "rc_step st st' \<Longrightarrow> rc_wf st \<Longrightarrow> rc_wf st'"
proof (induction rule: rc_step.induct)
  case (rc_answer st env statusCode answer)
  then show ?case by (rule poll_answer_wf)
next
  case (rc_settle r st err)
  show ?case by (rule touches_wf [OF touches_settle rc_settle(2)])
next
  case (rc_late_ack r st err)
  show ?case by (rule touches_wf [OF touches_ack rc_late_ack(2)])
next
  case (rc_update_capabilities bits b st st')
  from rc_update_capabilities(1) obtain c where "st' = st\<lparr>rc_capabilities := c\<rparr>"
    by (auto simp: updateCapabilities_def try_then_def split: sum.splits)
  then show ?case using rc_update_capabilities(2) by (simp add: rc_wf_def cached_files_def)
qed (auto simp: rc_wf_def cached_files_def setProductHandler_def removeProductHandler_def setBatchHandler_def removeBatchHandler_def)

lemma rc_reachable_wf: "rc_reachable st \<Longrightarrow> rc_wf st"
proof (induction rule: rc_reachable.induct)
  case rc_new
  show ?case by (simp add: rc_wf_def new_RemoteConfig_def cached_files_def)
qed (rule rc_step_wf)

lemma cleared_states [simp]: "config_states (cleared st) = config_states st"
  by (simp add: config_states_def)

text \<open>
  C32: What the client reports to the agent mirrors what is applied, whatever happened before: each path
  is applied once, by the object of that path, with the product and the id that the path names; the
  cached files are those of the applied objects, in their order; each apply state is one of the three.
\<close>

theorem remote_config_mirror:
  assumes "rc_reachable st"
  shows "distinct (map fst (rc_applied st)) \<and>
    (\<forall>(p, r) \<in> set (rc_applied st). cf_path (rc_confs st r) = p \<and>
       parseConfigPath p = Some (cf_product (rc_confs st r), cf_id (rc_confs st r))) \<and>
    map fst (rc_cached st) = map fst (rc_applied st) \<and> rc_cached st = cached_files st \<and>
    (\<forall>(ident, version, product, state, err) \<in> set (config_states st). state \<in> {UNACKNOWLEDGED, ACKNOWLEDGED, APPLY_ERROR})"
proof -
  note wf = rc_reachable_wf [OF assms]
  have cached: "rc_cached st = cached_files st" using wf by (simp add: rc_wf_def)
  have "map fst (rc_cached st) = map fst (rc_applied st)"
    unfolding cached cached_files_def map_map by (rule map_cong) (auto simp: rc_wf_memD(1) [OF wf])
  moreover have "cf_apply_state (rc_confs st r) \<in> {UNACKNOWLEDGED, ACKNOWLEDGED, APPLY_ERROR}" if "(p, r) \<in> set (rc_applied st)" for p r
    using rc_wf_memD(2) [OF wf that] wf by (simp add: rc_wf_def settled_def)
  then have "\<forall>(ident, version, product, state, err) \<in> set (config_states st). state \<in> {UNACKNOWLEDGED, ACKNOWLEDGED, APPLY_ERROR}"
    by (auto simp: config_states_def Let_def)
  moreover have "\<forall>(p, r) \<in> set (rc_applied st). cf_path (rc_confs st r) = p \<and>
       parseConfigPath p = Some (cf_product (rc_confs st r), cf_id (rc_confs st r))"
    using rc_wf_memD(1,3) [OF wf] by auto
  moreover have "rc_cached st = cached_files st" "distinct (map fst (rc_applied st))" using wf by (simp_all add: rc_wf_def)
  ultimately show ?thesis by blast
qed

subsection \<open>The calls of product handlers\<close>

definition product_call :: "rc_action \<Rightarrow> rc \<Rightarrow> rc_conf \<Rightarrow> (rc_action \<times> string \<times> jsval \<times> string) list" where
  "product_call action st c =
     (if map_of (rc_handlers st) (cf_product c) = None then [] else [(action, cf_product c, cf_file c, cf_id c)])"

text \<open>What a response calls for, by paths: first what is gone, then what is new, then what is different\<close>

definition expected_calls :: "rc_env \<Rightarrow> rc_targets \<Rightarrow> rc_response \<Rightarrow> rc \<Rightarrow> (rc_action \<times> string \<times> jsval \<times> string) list" where
  "expected_calls env targets response st =
     (let call = (\<lambda>action p. case wanted_conf env targets (rs_target_files response) p of
                    None \<Rightarrow> [] | Some c \<Rightarrow> product_call action st c);
          clients = rs_client_configs response;
          applied = (\<lambda>p. map_of (rc_applied st) p \<noteq> None)
      in concat (map (\<lambda>(p, r). product_call Unapply st (rc_confs st r)) (filter (\<lambda>(p, r). p \<notin> set clients) (rc_applied st))) @
         concat (map (call Apply) (filter (\<lambda>p. \<not> applied p) clients)) @
         concat (map (call Modify) (filter (\<lambda>p. applied p \<and> \<not> up_to_date targets st p) clients)))"

lemma announced_product_call:
  "rc_handlers st1 = rc_handlers st \<Longrightarrow> announced action [] st1 r = product_call action st (rc_confs st1 r)"
  by (simp add: announced_def product_call_def Let_def)

lemma plan_calls:
  assumes "map (\<lambda>(replaces, r). (replaces, Some (rc_confs st1 r))) plan = map (\<lambda>p. (b p, w p)) ps" "rc_handlers st1 = rc_handlers st"
  shows "concat (map (announced action [] st1) (map snd (filter (\<lambda>x. fst x = v) plan))) =
    concat (map (\<lambda>p. case w p of None \<Rightarrow> [] | Some c \<Rightarrow> product_call action st c) (filter (\<lambda>p. b p = v) ps))"
  using assms(1)
proof (induction plan arbitrary: ps)
  case (Cons x plan)
  then obtain p ps' where ps: "ps = p # ps'" by (cases ps) auto
  show ?case
    using Cons.IH [of ps'] Cons.prems announced_product_call [OF assms(2), of action]
    by (auto simp: ps split: prod.splits dest!: sym [of "Some _"])
qed simp

lemma unapply_calls:
  assumes "rc_wf st" "rc_handlers st1 = rc_handlers st" "\<And>q. q < rc_next st \<Longrightarrow> rc_confs st1 q = rc_confs st q"
  shows "concat (map (announced Unapply [] st1) (toUnapply_of st clients)) =
    concat (map (\<lambda>(p, r). product_call Unapply st (rc_confs st r)) (filter (\<lambda>(p, r). p \<notin> set clients) (rc_applied st)))"
proof -
  have "concat (map (announced Unapply [] st1) (filter (\<lambda>r. cf_path (rc_confs st r) \<notin> set clients) (map snd al))) =
      concat (map (\<lambda>(p, r). product_call Unapply st (rc_confs st r)) (filter (\<lambda>(p, r). p \<notin> set clients) al))"
    if "\<forall>(p, r) \<in> set al. cf_path (rc_confs st r) = p \<and> r < rc_next st" for al
    using that by (induction al) (auto simp: announced_product_call [OF assms(2)] assms(3))
  moreover have "\<forall>(p, r) \<in> set (rc_applied st). cf_path (rc_confs st r) = p \<and> r < rc_next st"
    using rc_wf_memD [OF assms(1)] by blast
  ultimately show ?thesis unfolding toUnapply_of_def by blast
qed

lemma response_calls:
  assumes "rc_reachable st" "rc_batch st = []" "parseConfig env response st = (Inr (), st')"
    "read_targets env (rs_targets response) = Inr (Some targets)"
  shows "rc_calls st' = rc_calls st @ expected_calls env targets response st"
proof -
  note wf = rc_reachable_wf [OF assms(1)]
  obtain plan handled st1 where u: "updated env response st plan handled st1 st'"
    using parseConfig_updated [OF assms(3) wf] by blast
  note f = updated_facts [OF u]
  have handled: "handled = []" using u assms(2) by (simp add: updated_def)
  have st1: "rc_handlers st1 = rc_handlers st" "\<And>q. q < rc_next st \<Longrightarrow> rc_confs st1 q = rc_confs st q"
    using f(1) by (simp_all add: brings_in_def)
  let ?ps = "filter (\<lambda>p. \<not> up_to_date targets st p) (rs_client_configs response)"
  have plan: "map (\<lambda>(replaces, r). (replaces, Some (rc_confs st1 r))) plan =
      map (\<lambda>p. (map_of (rc_applied st) p \<noteq> None, wanted_conf env targets (rs_target_files response) p)) ?ps"
    using f(5) assms(4) by (simp add: plan_for_def)
  have new: "filter (\<lambda>p. (map_of (rc_applied st) p \<noteq> None) = False) ?ps =
      filter (\<lambda>p. \<not> map_of (rc_applied st) p \<noteq> None) (rs_client_configs response)"
    by (auto simp: up_to_date_def intro!: filter_cong)
  have changed: "filter (\<lambda>p. (map_of (rc_applied st) p \<noteq> None) = True) ?ps =
      filter (\<lambda>p. map_of (rc_applied st) p \<noteq> None \<and> \<not> up_to_date targets st p) (rs_client_configs response)"
    by (auto intro!: filter_cong)
  have parts: "toApply_of plan = map snd (filter (\<lambda>x. fst x = False) plan)" "toModify_of plan = map snd (filter (\<lambda>x. fst x = True) plan)"
    by (simp_all add: toApply_of_def toModify_of_def case_prod_beta')
  have gone: "concat (map (announced Unapply [] st1) (toUnapply_of st (rs_client_configs response))) =
      concat (map (\<lambda>(p, r). product_call Unapply st (rc_confs st r))
        (filter (\<lambda>(p, r). p \<notin> set (rs_client_configs response)) (rc_applied st)))"
    by (rule unapply_calls [OF wf st1(1)]) (rule st1(2))
  show ?thesis
    unfolding f(10) handled announced_all_def parts plan_calls [OF plan st1(1)] new changed gone expected_calls_def Let_def
    by simp
qed


subsection \<open>A response that is rejected\<close>

lemma parseConfig_error:
  assumes "parseConfig env response st = (Inl e, st')" "rc_wf st"
  shows "rc_applied st' = rc_applied st \<and> rc_calls st' = rc_calls st \<and> rc_cached st' = rc_cached st \<and>
    config_states st' = config_states st \<and> (rc_batch st = [] \<longrightarrow> st' = st)"
  using parseConfig_plan [OF assms]
proof (elim disjE exE conjE)
  fix plan st1
  assume ch: "apply_changes (toUnapply_of st (rs_client_configs response)) plan st1 = (Inl e, st')" and br: "brings_in st plan st1"
  then have st': "st' = st1" using apply_changes_error by blast
  have "rc_batch st1 \<noteq> []"
    using ch by (auto simp: apply_changes_def Let_def split: if_splits)
  moreover have "config_states st1 = config_states st"
    using br rc_wf_memD(2) [OF assms(2)] by (auto simp: config_states_def brings_in_def Let_def)
  ultimately show ?thesis using br by (simp add: st' brings_in_def)
qed auto


subsection \<open>An example of a client\<close>

text \<open>A client with a handler for \<open>P\<close> that is told of one configuration, and of one whose file is missing\<close>

definition ex_path :: string where "ex_path = ''datadog/2/P/id/name''"

definition ex_response :: rc_response where
  "ex_response = \<lparr>rs_client_configs = [ex_path], rs_targets = Some ''e30='', rs_target_files = [(ex_path, ''e30='')]\<rparr>"

definition ex_missing :: rc_response where
  "ex_missing = \<lparr>rs_client_configs = [ex_path], rs_targets = Some ''e30='', rs_target_files = []\<rparr>"

definition ex_targets :: rc_targets where
  "ex_targets = \<lparr>tg_targets = [(ex_path, \<lparr>mt_hashes = [(''sha256'', ''00'')], mt_length = Fin 2, mt_version = Fin 1\<rparr>)],
     tg_version = Fin 7, tg_opaque = []\<rparr>"

definition ex_env :: rc_env where
  "ex_env = \<lparr>re_response = (\<lambda>t. Inr (if t = ''m'' then ex_missing else ex_response)),
     re_targets = (\<lambda>_. Inr (Some ex_targets)), re_file = (\<lambda>_. Inr JNull)\<rparr>"

definition ex_handler :: rc_handler where
  "ex_handler = \<lparr>hd_length = 3, hd_source = ''(a, b, c) => {}'', hd_run = (\<lambda>_ _ _. Returns [])\<rparr>"

definition ex_client :: rc where
  "ex_client = setProductHandler ''P'' ex_handler new_RemoteConfig"

lemma ex_client_reachable: "rc_reachable ex_client"
  unfolding ex_client_def by (rule rc_go [OF rc_new rc_set_product])

lemma ex_client_batch: "rc_batch ex_client = []"
  by (simp add: ex_client_def setProductHandler_def new_RemoteConfig_def)

lemma ex_parse: "parseConfig ex_env ex_response ex_client = (Inr (), snd (parseConfig ex_env ex_response ex_client))"
proof -
  have "fst (parseConfig ex_env ex_response ex_client) = Inr ()" by code_simp
  then show ?thesis by (metis prod.collapse)
qed

lemma ex_read: "read_targets ex_env (rs_targets ex_response) = Inr (Some ex_targets)"
  by (simp add: read_targets_def ex_env_def ex_response_def)

theorem remote_config_mirror_witness:
  "map fst (rc_cached (poll_answer ex_env 200 (Some ''r'') ex_client)) = [ex_path]"
proof -
  have "rc_reachable (poll_answer ex_env 200 (Some ''r'') ex_client)"
    by (rule rc_go [OF ex_client_reachable rc_answer])
  moreover have "map fst (rc_applied (poll_answer ex_env 200 (Some ''r'') ex_client)) = [ex_path]" by code_simp
  ultimately show ?thesis using remote_config_mirror by metis
qed



end
