(* ===== verification/RcCapabilities.thy ===== *)
theory RcCapabilities
  imports RemoteConfigClient Propagation
begin

text \<open>
  The capabilities that the client of remote configuration announces (\<open>updateCapabilities\<close> of
  \<open>remote_config/index.js\<close>): a number in base 64 that is read and written through hexadecimal digits
  is a set of bits.
\<close>

definition capability_bits :: "rc \<Rightarrow> int" where
  "capability_bits st = be_val (from_base64 (rc_capabilities st))"

lemma digits_val_append: "digits_val r (a @ b) = digits_val r a * r ^ length b + digits_val r b"
proof (induction b rule: rev_induct)
  case (snoc c b)
  then show ?case using digits_val_snoc [of r "a @ b" c] by (simp add: digits_val_snoc algebra_simps)
qed (simp add: digits_val_def)

lemma from_hex_val:
  assumes "even (length s)" "\<forall>c \<in> set s. digit_in 16 c"
  shows "be_val (from_hex s) = int (digits_val 16 s) \<and> length (from_hex s) = length s div 2"
  using assms
proof (induction s rule: from_hex.induct)
  case (1 a b s)
  have ab: "digits_val 16 [a, b] < 256"
    using 1(3) by (auto simp: digits_val_def digit_in_def split: option.splits)
  then have "uint (byte_of (int (digits_val 16 [a, b]))) = int (digits_val 16 [a, b])" by (simp add: uint_byte_of)
  moreover have "be_val (byte_of (int (digits_val 16 [a, b])) # from_hex s) =
      uint (byte_of (int (digits_val 16 [a, b]))) * 256 ^ length (from_hex s) + be_val (from_hex s)"
    using be_val_append [of "[byte_of (int (digits_val 16 [a, b]))]" "from_hex s"] by (simp add: be_val_def)
  moreover have "be_val (from_hex s) = int (digits_val 16 s)" "length (from_hex s) = length s div 2" "even (length s)"
    using 1 by auto
  moreover have "digits_val 16 (a # b # s) = digits_val 16 [a, b] * 256 ^ (length s div 2) + digits_val 16 s"
  proof -
    obtain k where "length s = 2 * k" using \<open>even (length s)\<close> by (auto elim: evenE)
    then have "(16 :: nat) ^ length s = 256 ^ (length s div 2)" by (simp add: power_mult)
    then show ?thesis using digits_val_append [of 16 "[a, b]" s] by simp
  qed
  ultimately show ?case using 1(3) by simp
qed (simp_all add: digits_val_def)

text \<open>One update: the bits are set or cleared, the others stay.\<close>

lemma new_capabilities_bits:
  assumes "from_base64 c \<noteq> []" "0 \<le> bits"
  shows "\<exists>c'. new_capabilities c bits b = Inr c' \<and> from_base64 c' \<noteq> [] \<and>
    be_val (from_base64 c') = (if b then be_val (from_base64 c) OR bits else be_val (from_base64 c) AND NOT bits)"
proof -
  let ?num = "if b then be_val (from_base64 c) OR bits else be_val (from_base64 c) AND NOT bits"
  have old: "0 \<le> be_val (from_base64 c)" using be_val_bound by blast
  then have num: "0 \<le> ?num" using assms(2) by simp
  define str where "str = show_radix 16 (nat ?num)"
  define s where "s = (if odd (length str) then CHR ''0'' # str else str)"
  have digits: "\<forall>x \<in> set s. digit_in 16 x" using show_radix_digits [of 16 "nat ?num"]
    by (auto simp: s_def str_def digit_in_def digit_val_def)
  have even: "even (length s)" "s \<noteq> []" by (auto simp: s_def str_def)
  have "digits_val 16 s = nat ?num"
    by (auto simp: s_def str_def digits_val_show digits_val_Cons digit_val_def)
  then have val: "be_val (from_hex s) = ?num" using from_hex_val [OF even(1) digits] num by simp
  have "length (from_hex s) \<noteq> 0" using from_hex_val [OF even(1) digits] even by (cases s; cases "tl s") auto
  moreover have "hex_string (from_base64 c) \<noteq> []"
    using assms(1) length_hex_string [of "from_base64 c"] by (metis length_0_conv mult_eq_0_iff zero_neq_numeral)
  then have "new_capabilities c bits b = Inr (to_base64 (from_hex s))"
    using num old by (auto simp: new_capabilities_def digits_val_hex s_def str_def Let_def)
  ultimately show ?thesis using val by simp
qed

text \<open>A sequence of updates\<close>

fun updates :: "(int \<times> bool) list \<Rightarrow> rc \<Rightarrow> js_error + rc" where
  "updates [] st = Inr st"
| "updates ((bits, b) # us) st = try_then (updateCapabilities bits b st) (updates us)"

definition last_word :: "nat \<Rightarrow> (int \<times> bool) list \<Rightarrow> bool \<Rightarrow> bool" where
  "last_word n us start = foldl (\<lambda>on (bits, b). if bit bits n then b else on) start us"

lemma updates_bits:
  assumes "\<forall>(bits, b) \<in> set us. 0 \<le> bits" "from_base64 (rc_capabilities st) \<noteq> []"
  shows "\<exists>c. updates us st = Inr (st\<lparr>rc_capabilities := c\<rparr>) \<and> from_base64 c \<noteq> [] \<and>
    (\<forall>n. bit (be_val (from_base64 c)) n = last_word n us (bit (capability_bits st) n))"
  using assms
proof (induction us arbitrary: st)
  case Nil
  then show ?case by (intro exI [of _ "rc_capabilities st"]) (simp add: last_word_def capability_bits_def)
next
  case (Cons u us)
  obtain bits b where u: "u = (bits, b)" by (cases u)
  then obtain c' where c': "new_capabilities (rc_capabilities st) bits b = Inr c'" "from_base64 c' \<noteq> []"
      "be_val (from_base64 c') = (if b then capability_bits st OR bits else capability_bits st AND NOT bits)"
    using new_capabilities_bits [of "rc_capabilities st" bits b] Cons.prems by (auto simp: capability_bits_def)
  let ?st = "st\<lparr>rc_capabilities := c'\<rparr>"
  obtain c where c: "updates us ?st = Inr (?st\<lparr>rc_capabilities := c\<rparr>)" "from_base64 c \<noteq> []"
      "\<forall>n. bit (be_val (from_base64 c)) n = last_word n us (bit (capability_bits ?st) n)"
    using Cons.IH [of ?st] Cons.prems c'(2) by auto
  have "bit (capability_bits ?st) n = (if bit bits n then b else bit (capability_bits st) n)" for n
    using c'(3) by (auto simp: capability_bits_def bit_simps)
  then show ?case
    using c c'(1) by (intro exI [of _ c]) (simp add: u updateCapabilities_def last_word_def)
qed

text \<open>
  C34: The capabilities of a new client are a set of bits that is empty at first. After any updates with
  numbers that are not negative, none of which fails, a bit is announced exactly if the last update that
  names it enabled it; nothing else of the client changes.
\<close>

theorem capabilities_are_bits:
  assumes "\<forall>(bits, b) \<in> set us. 0 \<le> bits"
  shows "\<exists>c. updates us new_RemoteConfig = Inr (new_RemoteConfig\<lparr>rc_capabilities := c\<rparr>) \<and>
    (\<forall>n. bit (be_val (from_base64 c)) n = last_word n us False)"
proof -
  have "from_base64 (rc_capabilities new_RemoteConfig) = [0]" by (simp add: new_RemoteConfig_def DEFAULT_CAPABILITY_def del: to_base64.simps)
  then show ?thesis
    using updates_bits [OF assms, of new_RemoteConfig] by (auto simp: capability_bits_def be_val_def)
qed

theorem capabilities_are_bits_witness:
  "\<exists>c. updates [(5, True), (4, False)] new_RemoteConfig = Inr (new_RemoteConfig\<lparr>rc_capabilities := c\<rparr>) \<and>
     bit (be_val (from_base64 c)) 0 \<and> \<not> bit (be_val (from_base64 c)) 2"
proof -
  have "bit (5 :: int) 0" "bit (4 :: int) 2" "\<not> bit (4 :: int) 0" by (simp_all add: bit_iff_odd)
  then show ?thesis
    using capabilities_are_bits [of "[(5, True), (4, False)]"] by (auto simp: last_word_def)
qed

end
