(* ===== verification/DogStatsD.thy ===== *)
theory DogStatsD
  imports Msgpack
begin

text \<open>
  Metrics (\<open>dogstatsd.js\<close>, \<open>histogram.js\<close>): the client that writes lines into packets, the client that
  aggregates counters, gauges and histograms in trees of tags until a flush, and the interface of the
  user. Values are finite numbers. The sketches of the vendored library and the text of a number that
  is no integer are arguments; requests and sockets are lists of what was handed to them.
\<close>

subsection \<open>Packets\<close>

record dogstatsd =
  dg_http :: bool
  dg_tagsPrefix :: string
  dg_queue :: "byte list list"
  dg_buffer :: string
  dg_offset :: nat
  dg_sent :: "(bool \<times> byte list) list" \<comment> \<open>what was given to a request (\<open>True\<close>) or to a socket\<close>

definition MAX_BUFFER_SIZE :: nat where "MAX_BUFFER_SIZE = 1024"

definition TYPE_COUNTER :: string where "TYPE_COUNTER = ''c''"
definition TYPE_GAUGE :: string where "TYPE_GAUGE = ''g''"
definition TYPE_DISTRIBUTION :: string where "TYPE_DISTRIBUTION = ''d''"
definition TYPE_HISTOGRAM :: string where "TYPE_HISTOGRAM = ''h''"

text \<open>What stays the same over the life of a client: texts, the entity and the lookup of the host\<close>

record dg_env =
  ge_str :: "jsval \<Rightarrow> string"
  ge_entityId :: string
  ge_found :: bool

text \<open>\<open>join\<close> writes nothing for \<open>null\<close> and \<open>undefined\<close>.\<close>

definition element_text :: "(jsval \<Rightarrow> string) \<Rightarrow> jsval \<Rightarrow> string" where
  "element_text str v = (if nullish v then [] else js_string str v)"

definition join_tags :: "(jsval \<Rightarrow> string) \<Rightarrow> jsval list \<Rightarrow> string" where
  "join_tags str tags = join '','' (map (element_text str) tags)"

definition new_DogStatsDClient :: "(jsval \<Rightarrow> string) \<Rightarrow> bool \<Rightarrow> jsval list \<Rightarrow> dogstatsd" where
  "new_DogStatsDClient str http tags =
     \<lparr>dg_http = http, dg_tagsPrefix = (if tags = [] then [] else ''|#'' @ join_tags str tags),
      dg_queue = [], dg_buffer = [], dg_offset = 0, dg_sent = []\<rparr>"

definition dg_enqueue :: "dogstatsd \<Rightarrow> dogstatsd" where
  "dg_enqueue c =
     (if 0 < dg_offset c then c\<lparr>dg_queue := dg_queue c @ [utf8_bytes (dg_buffer c)], dg_buffer := [], dg_offset := 0\<rparr> else c)"

definition dg_write :: "string \<Rightarrow> dogstatsd \<Rightarrow> dogstatsd" where
  "dg_write message c =
     (let offset = length (utf8_bytes message);
          c = (if MAX_BUFFER_SIZE < dg_offset c + offset then dg_enqueue c else c)
      in c\<lparr>dg_offset := dg_offset c + offset, dg_buffer := dg_buffer c @ message\<rparr>)"

definition dg_line :: "dg_env \<Rightarrow> string \<Rightarrow> string \<Rightarrow> rat \<Rightarrow> string \<Rightarrow> jsval list \<Rightarrow> string" where
  "dg_line env tagsPrefix stat v type tags =
     stat @ '':'' @ num_to_string (ge_str env) (Fin v) @ ''|'' @ type @
     (if tags \<noteq> [] then
        (if tagsPrefix \<noteq> [] then tagsPrefix @ '','' @ join_tags (ge_str env) tags else ''|#'' @ join_tags (ge_str env) tags)
      else tagsPrefix) @
     (if ge_entityId env \<noteq> [] then ''|c:'' @ ge_entityId env else []) @ [CHR 0x0A]"

definition dg_add :: "dg_env \<Rightarrow> string \<Rightarrow> rat \<Rightarrow> string \<Rightarrow> jsval list \<Rightarrow> dogstatsd \<Rightarrow> dogstatsd" where
  "dg_add env stat v type tags c = dg_write (dg_line env (dg_tagsPrefix c) stat v type tags) c"

definition dg_increment :: "dg_env \<Rightarrow> string \<Rightarrow> rat \<Rightarrow> jsval list \<Rightarrow> dogstatsd \<Rightarrow> dogstatsd" where
  "dg_increment env stat v tags = dg_add env stat v TYPE_COUNTER tags"

definition dg_decrement :: "dg_env \<Rightarrow> string \<Rightarrow> rat \<Rightarrow> jsval list \<Rightarrow> dogstatsd \<Rightarrow> dogstatsd" where
  "dg_decrement env stat v tags = dg_add env stat (- v) TYPE_COUNTER tags"

definition dg_gauge :: "dg_env \<Rightarrow> string \<Rightarrow> rat \<Rightarrow> jsval list \<Rightarrow> dogstatsd \<Rightarrow> dogstatsd" where
  "dg_gauge env stat v tags = dg_add env stat v TYPE_GAUGE tags"

definition dg_distribution :: "dg_env \<Rightarrow> string \<Rightarrow> rat \<Rightarrow> jsval list \<Rightarrow> dogstatsd \<Rightarrow> dogstatsd" where
  "dg_distribution env stat v tags = dg_add env stat v TYPE_DISTRIBUTION tags"

definition dg_histogram :: "dg_env \<Rightarrow> string \<Rightarrow> rat \<Rightarrow> jsval list \<Rightarrow> dogstatsd \<Rightarrow> dogstatsd" where
  "dg_histogram env stat v tags = dg_add env stat v TYPE_HISTOGRAM tags"

text \<open>A host that is not found loses the queue.\<close>

definition sendUdp :: "dg_env \<Rightarrow> byte list list \<Rightarrow> dogstatsd \<Rightarrow> dogstatsd" where
  "sendUdp env queue c = (if ge_found env then c\<lparr>dg_sent := dg_sent c @ map (Pair False) queue\<rparr> else c)"

definition dg_flush :: "dg_env \<Rightarrow> dogstatsd \<Rightarrow> dogstatsd" where
  "dg_flush env c =
     (let c = dg_enqueue c; queue = dg_queue c
      in if queue = [] then c
         else (let c = c\<lparr>dg_queue := []\<rparr>
               in if dg_http c then c\<lparr>dg_sent := dg_sent c @ [(True, concat queue)]\<rparr> else sendUdp env queue c))"

text \<open>The answer to a request that failed, with its status\<close>

definition http_failed :: "dg_env \<Rightarrow> byte list list \<Rightarrow> nat \<Rightarrow> dogstatsd \<Rightarrow> dogstatsd" where
  "http_failed env queue status c =
     sendUdp env queue (if status = 404 then c\<lparr>dg_http := False\<rparr> else c)"

text \<open>\<open>/[^a-z0-9_:./-]/ig\<close>\<close>

definition tag_char :: "char \<Rightarrow> bool" where
  "tag_char c \<longleftrightarrow> digit_in 36 c \<or> c \<in> set ''_:./-''"

definition client_tags :: "bool \<Rightarrow> jsobj \<Rightarrow> string list" where
  "client_tags runtimeId tags =
     concat (map (\<lambda>(key, v). case v of
         JStr s \<Rightarrow> if key \<noteq> ''runtime-id'' \<or> runtimeId
                    then [key @ '':'' @ map (\<lambda>c. if tag_char c then c else CHR ''_'') s] else []
       | _ \<Rightarrow> []) tags)"

subsection \<open>Histograms\<close>

record 'k dd_sketch =
  dk_new :: 'k
  dk_accept :: "rat \<Rightarrow> 'k \<Rightarrow> 'k"
  dk_count :: "'k \<Rightarrow> nat"
  dk_sum :: "'k \<Rightarrow> rat"
  dk_min :: "'k \<Rightarrow> rat"
  dk_max :: "'k \<Rightarrow> rat"
  dk_quantile :: "'k \<Rightarrow> rat \<Rightarrow> rat"

definition hist_min :: "'k dd_sketch \<Rightarrow> 'k \<Rightarrow> rat" where
  "hist_min ops h = (if dk_count ops h = 0 then 0 else dk_min ops h)"

definition hist_max :: "'k dd_sketch \<Rightarrow> 'k \<Rightarrow> rat" where
  "hist_max ops h = (if dk_count ops h = 0 then 0 else dk_max ops h)"

definition hist_avg :: "'k dd_sketch \<Rightarrow> 'k \<Rightarrow> rat" where
  "hist_avg ops h = (if dk_count ops h = 0 then 0 else dk_sum ops h / of_nat (dk_count ops h))"

definition hist_percentile :: "'k dd_sketch \<Rightarrow> rat \<Rightarrow> 'k \<Rightarrow> rat" where
  "hist_percentile ops p h = dk_quantile ops h (p / 100)"

subsection \<open>Trees of tags\<close>

datatype 'v node = Node (nd_touched: bool) (nd_value: 'v) (nd_nodes: "(string \<times> 'v node) list")

text \<open>
  \<open>_ensureNode\<close>, and what then happens to the node: one for a key that is no text is not kept, and
  what is written to it is lost.
\<close>

definition ensure_node :: "'v \<Rightarrow> ('v node \<Rightarrow> 'v node) \<Rightarrow> jsval \<Rightarrow> (string \<times> 'v node) list \<Rightarrow> (string \<times> 'v node) list" where
  "ensure_node v0 g key container =
     (case key of
        JStr s \<Rightarrow> AList.update s (g (case map_of container s of None \<Rightarrow> Node False v0 [] | Some n \<Rightarrow> n)) container
      | _ \<Rightarrow> container)"

primrec update_node :: "'v \<Rightarrow> ('v \<Rightarrow> 'v) \<Rightarrow> jsval list \<Rightarrow> 'v node \<Rightarrow> 'v node" where
  "update_node v0 f [] n = Node True (f (nd_value n)) (nd_nodes n)"
| "update_node v0 f (key # keys) n =
     Node (nd_touched n) (nd_value n) (ensure_node v0 (update_node v0 f keys) key (nd_nodes n))"

definition tag_list :: "jsval \<Rightarrow> jsval list" where
  "tag_list tags = (case tags of JUndef \<Rightarrow> [] | JArr xs \<Rightarrow> xs | _ \<Rightarrow> [tags])"

definition ensureTree :: "'v \<Rightarrow> ('v \<Rightarrow> 'v) \<Rightarrow> string \<Rightarrow> jsval \<Rightarrow> (string \<times> 'v node) list \<Rightarrow> (string \<times> 'v node) list" where
  "ensureTree v0 f name tags tree = ensure_node v0 (update_node v0 f (tag_list tags)) (JStr name) tree"

fun captureNode :: "string \<Rightarrow> string list \<Rightarrow> 'v node \<Rightarrow> (string \<times> string list \<times> 'v) list" where
  "captureNode name tags (Node touched v nodes) =
     (if touched then [(name, tags, v)] else []) @
     concat (map (\<lambda>(tag, next). captureNode name (tags @ [tag]) next) nodes)"

definition captureTree :: "(string \<times> 'v node) list \<Rightarrow> (string \<times> string list \<times> 'v) list" where
  "captureTree tree = concat (map (\<lambda>(name, n). captureNode name [] n) tree)"

subsection \<open>The client that aggregates\<close>

record ('c, 'k) aggregation =
  ag_client :: 'c
  ag_counters :: "(string \<times> rat node) list"
  ag_gauges :: "(string \<times> rat node) list"
  ag_histograms :: "(string \<times> 'k option node) list"

definition ag_reset :: "('c, 'k) aggregation \<Rightarrow> ('c, 'k) aggregation" where
  "ag_reset a = a\<lparr>ag_counters := [], ag_gauges := [], ag_histograms := []\<rparr>"

definition new_MetricsAggregationClient :: "'c \<Rightarrow> ('c, 'k) aggregation" where
  "new_MetricsAggregationClient c = \<lparr>ag_client = c, ag_counters = [], ag_gauges = [], ag_histograms = []\<rparr>"

definition ag_gauge :: "string \<Rightarrow> rat \<Rightarrow> jsval \<Rightarrow> ('c, 'k) aggregation \<Rightarrow> ('c, 'k) aggregation" where
  "ag_gauge name v tags a = a\<lparr>ag_gauges := ensureTree 0 (\<lambda>_. v) name tags (ag_gauges a)\<rparr>"

definition ag_boolean :: "string \<Rightarrow> bool \<Rightarrow> jsval \<Rightarrow> ('c, 'k) aggregation \<Rightarrow> ('c, 'k) aggregation" where
  "ag_boolean name b tags = ag_gauge name (if b then 1 else 0) tags"

definition ag_histogram :: "'k dd_sketch \<Rightarrow> string \<Rightarrow> rat \<Rightarrow> jsval \<Rightarrow> ('c, 'k) aggregation \<Rightarrow> ('c, 'k) aggregation" where
  "ag_histogram ops name v tags a =
     a\<lparr>ag_histograms := ensureTree None
         (\<lambda>h. Some (dk_accept ops v (case h of None \<Rightarrow> dk_new ops | Some h \<Rightarrow> h))) name tags (ag_histograms a)\<rparr>"

definition ag_count :: "string \<Rightarrow> rat \<Rightarrow> jsval \<Rightarrow> bool \<Rightarrow> ('c, 'k) aggregation \<Rightarrow> ('c, 'k) aggregation" where
  "ag_count name n tags monotonic a =
     (let (tags, monotonic) = (case tags of JBool b \<Rightarrow> (JArr [], b) | _ \<Rightarrow> (tags, monotonic))
      in if monotonic then a\<lparr>ag_counters := ensureTree 0 (\<lambda>v. v + n) name tags (ag_counters a)\<rparr>
         else a\<lparr>ag_gauges := ensureTree 0 (\<lambda>v. v + n) name tags (ag_gauges a)\<rparr>)"

definition ag_increment :: "string \<Rightarrow> rat \<Rightarrow> jsval \<Rightarrow> ('c, 'k) aggregation \<Rightarrow> ('c, 'k) aggregation" where
  "ag_increment name n tags = ag_count name n tags True"

definition ag_decrement :: "string \<Rightarrow> rat \<Rightarrow> jsval \<Rightarrow> ('c, 'k) aggregation \<Rightarrow> ('c, 'k) aggregation" where
  "ag_decrement name n tags = ag_count name (- n) tags True"

text \<open>
  The client below is anything with \<open>increment\<close>, \<open>gauge\<close>, \<open>distribution\<close> and \<open>flush\<close>, here a function
  that takes a line.
\<close>

record 'c metric_sink =
  mk_add :: "string \<Rightarrow> rat \<Rightarrow> string \<Rightarrow> jsval list \<Rightarrow> 'c \<Rightarrow> 'c"
  mk_flush :: "'c \<Rightarrow> 'c"

definition ag_distribution :: "'c metric_sink \<Rightarrow> string \<Rightarrow> rat \<Rightarrow> jsval list \<Rightarrow> ('c, 'k) aggregation \<Rightarrow> ('c, 'k) aggregation" where
  "ag_distribution sink name v tags a = a\<lparr>ag_client := mk_add sink name v TYPE_DISTRIBUTION tags (ag_client a)\<rparr>"

definition captureCounters :: "'c metric_sink \<Rightarrow> ('c, 'k) aggregation \<Rightarrow> ('c, 'k) aggregation" where
  "captureCounters sink a =
     a\<lparr>ag_client := fold (\<lambda>(name, tags, v). mk_add sink name v TYPE_COUNTER (map JStr tags))
         (captureTree (ag_counters a)) (ag_client a), ag_counters := []\<rparr>"

definition captureGauges :: "'c metric_sink \<Rightarrow> ('c, 'k) aggregation \<Rightarrow> ('c, 'k) aggregation" where
  "captureGauges sink a =
     a\<lparr>ag_client := fold (\<lambda>(name, tags, v). mk_add sink name v TYPE_GAUGE (map JStr tags))
         (captureTree (ag_gauges a)) (ag_client a), ag_gauges := []\<rparr>"

definition histogram_lines :: "'k dd_sketch \<Rightarrow> string \<Rightarrow> 'k \<Rightarrow> (string \<times> rat \<times> string) list" where
  "histogram_lines ops name h =
     [(name @ ''.min'', hist_min ops h, TYPE_GAUGE),
      (name @ ''.max'', hist_max ops h, TYPE_GAUGE),
      (name @ ''.sum'', dk_sum ops h, TYPE_COUNTER),
      (name @ ''.total'', dk_sum ops h, TYPE_COUNTER),
      (name @ ''.avg'', hist_avg ops h, TYPE_GAUGE),
      (name @ ''.count'', of_nat (dk_count ops h), TYPE_COUNTER),
      (name @ ''.median'', hist_percentile ops 50 h, TYPE_GAUGE),
      (name @ ''.95percentile'', hist_percentile ops 95 h, TYPE_GAUGE)]"

definition captureHistograms :: "'k dd_sketch \<Rightarrow> 'c metric_sink \<Rightarrow> ('c, 'k) aggregation \<Rightarrow> ('c, 'k) aggregation" where
  "captureHistograms ops sink a =
     a\<lparr>ag_client := fold (\<lambda>(name, tags, h).
           fold (\<lambda>(stat, v, type). mk_add sink stat v type (map JStr tags)) (histogram_lines ops name (the h)))
         (captureTree (ag_histograms a)) (ag_client a), ag_histograms := []\<rparr>"

definition ag_flush :: "'k dd_sketch \<Rightarrow> 'c metric_sink \<Rightarrow> ('c, 'k) aggregation \<Rightarrow> ('c, 'k) aggregation" where
  "ag_flush ops sink a =
     (let a = captureHistograms ops sink (captureGauges sink (captureCounters sink a))
      in a\<lparr>ag_client := mk_flush sink (ag_client a)\<rparr>)"

definition dogstatsd_sink :: "dg_env \<Rightarrow> dogstatsd metric_sink" where
  "dogstatsd_sink env = \<lparr>mk_add = dg_add env, mk_flush = dg_flush env\<rparr>"

subsection \<open>The interface of the user\<close>

definition tagTranslator :: "(jsval \<Rightarrow> string) \<Rightarrow> jsval \<Rightarrow> jsval list" where
  "tagTranslator str objTags =
     (case objTags of
        JArr xs \<Rightarrow> xs
      | JObj ps \<Rightarrow> map (\<lambda>(key, v). JStr (key @ '':'' @ js_string str v)) ps
      | JStr s \<Rightarrow> map (\<lambda>(i, c). JStr (show_nat i @ '':'' @ [c])) (enumerate 0 s)
      | _ \<Rightarrow> [])"

definition cm_increment :: "(jsval \<Rightarrow> string) \<Rightarrow> string \<Rightarrow> rat \<Rightarrow> jsval \<Rightarrow> ('c, 'k) aggregation \<Rightarrow> ('c, 'k) aggregation" where
  "cm_increment str stat v tags = ag_increment stat v (JArr (tagTranslator str tags))"

definition cm_decrement :: "(jsval \<Rightarrow> string) \<Rightarrow> string \<Rightarrow> rat \<Rightarrow> jsval \<Rightarrow> ('c, 'k) aggregation \<Rightarrow> ('c, 'k) aggregation" where
  "cm_decrement str stat v tags = ag_decrement stat v (JArr (tagTranslator str tags))"

definition cm_gauge :: "(jsval \<Rightarrow> string) \<Rightarrow> string \<Rightarrow> rat \<Rightarrow> jsval \<Rightarrow> ('c, 'k) aggregation \<Rightarrow> ('c, 'k) aggregation" where
  "cm_gauge str stat v tags = ag_gauge stat v (JArr (tagTranslator str tags))"

definition cm_histogram :: "'k dd_sketch \<Rightarrow> (jsval \<Rightarrow> string) \<Rightarrow> string \<Rightarrow> rat \<Rightarrow> jsval \<Rightarrow> ('c, 'k) aggregation \<Rightarrow> ('c, 'k) aggregation" where
  "cm_histogram ops str stat v tags = ag_histogram ops stat v (JArr (tagTranslator str tags))"

definition cm_distribution ::
    "'c metric_sink \<Rightarrow> (jsval \<Rightarrow> string) \<Rightarrow> string \<Rightarrow> rat \<Rightarrow> jsval \<Rightarrow> ('c, 'k) aggregation \<Rightarrow> ('c, 'k) aggregation" where
  "cm_distribution sink str stat v tags = ag_distribution sink stat v (tagTranslator str tags)"

end
