(* ===== verification/DogStatsDLaws.thy ===== *)
theory DogStatsDLaws
  imports DogStatsD
begin

text \<open>
  What metrics promise: a tree of tags is a map from names and tags to values, a flush hands over what
  was aggregated since the last one, and packets keep lines whole, in order and within the limit of the
  agent.
\<close>

subsection \<open>A tree is a map\<close>

fun node_at :: "string list \<Rightarrow> 'v node \<Rightarrow> 'v option" where
  "node_at [] n = (if nd_touched n then Some (nd_value n) else None)"
| "node_at (k # ks) n = (case map_of (nd_nodes n) k of None \<Rightarrow> None | Some m \<Rightarrow> node_at ks m)"

definition tree_at :: "(string \<times> 'v node) list \<Rightarrow> string \<Rightarrow> string list \<Rightarrow> 'v option" where
  "tree_at tree name tags = (case map_of tree name of None \<Rightarrow> None | Some n \<Rightarrow> node_at tags n)"

fun wf_node :: "'v \<Rightarrow> 'v node \<Rightarrow> bool" where
  "wf_node v0 (Node touched v nodes) \<longleftrightarrow>
     (touched \<or> v = v0) \<and> distinct (map fst nodes) \<and> (\<forall>p \<in> set nodes. wf_node v0 (snd p))"

definition wf_tree :: "'v \<Rightarrow> (string \<times> 'v node) list \<Rightarrow> bool" where
  "wf_tree v0 tree \<longleftrightarrow> distinct (map fst tree) \<and> (\<forall>n \<in> snd ` set tree. wf_node v0 n)"

text \<open>A path is known if all its keys are texts.\<close>

fun texts :: "jsval list \<Rightarrow> string list option" where
  "texts [] = Some []"
| "texts (JStr s # ks) = map_option (Cons s) (texts ks)"
| "texts (_ # ks) = None"

lemma texts_JStr [simp]: "texts (map JStr ts) = Some ts"
  by (induction ts) auto

definition child :: "'v \<Rightarrow> (string \<times> 'v node) list \<Rightarrow> string \<Rightarrow> 'v node" where
  "child v0 nodes s = (case map_of nodes s of None \<Rightarrow> Node False v0 [] | Some n \<Rightarrow> n)"

lemma ensure_node_JStr: "ensure_node v0 g (JStr s) nodes = AList.update s (g (child v0 nodes s)) nodes"
  by (simp add: ensure_node_def child_def)

lemma ensure_node_other: "\<forall>s. key \<noteq> JStr s \<Longrightarrow> ensure_node v0 g key nodes = nodes"
  by (cases key) (simp_all add: ensure_node_def)

lemma child_wf: "\<forall>n \<in> snd ` set nodes. wf_node v0 n \<Longrightarrow> wf_node v0 (child v0 nodes s)"
  by (auto simp: child_def split: option.split dest!: map_of_SomeD)

lemma node_at_child: "node_at ts (child v0 nodes s) = (case map_of nodes s of None \<Rightarrow> None | Some n \<Rightarrow> node_at ts n)"
  by (cases ts) (auto simp: child_def split: option.split)

lemma wf_update_list:
  assumes "distinct (map fst nodes)" "\<forall>n \<in> snd ` set nodes. wf_node v0 n" "wf_node v0 m"
  shows "distinct (map fst (AList.update s m nodes))" "\<forall>n \<in> snd ` set (AList.update s m nodes). wf_node v0 n"
  using assms set_update_cases by (auto simp: distinct_update dest!: set_update_cases)

lemma wf_node_sel: "wf_node v0 n \<longleftrightarrow>
    (nd_touched n \<or> nd_value n = v0) \<and> distinct (map fst (nd_nodes n)) \<and> (\<forall>m \<in> snd ` set (nd_nodes n). wf_node v0 m)"
  by (cases n) auto

declare wf_node.simps [simp del]

lemma wf_NodeI:
  "t \<or> v = v0 \<Longrightarrow> distinct (map fst ns) \<Longrightarrow> \<forall>m \<in> snd ` set ns. wf_node v0 m \<Longrightarrow> wf_node v0 (Node t v ns)"
  by (simp add: wf_node_sel [of v0 "Node t v ns"])

lemma wf_nodeD:
  assumes "wf_node v0 n"
  shows "nd_touched n \<or> nd_value n = v0" "distinct (map fst (nd_nodes n))" "\<forall>m \<in> snd ` set (nd_nodes n). wf_node v0 m"
  using assms unfolding wf_node_sel [of v0 n] by simp_all

lemma update_node_wf: "wf_node v0 n \<Longrightarrow> wf_node v0 (update_node v0 f keys n)"
proof (induction keys arbitrary: n)
  case Nil
  then show ?case using wf_nodeD [OF Nil] by (simp add: wf_NodeI)
next
  case (Cons key keys)
  note n = wf_nodeD [OF Cons.prems]
  show ?case
  proof (cases "\<exists>s. key = JStr s")
    case True
    then obtain s where "key = JStr s" by blast
    then show ?thesis
      using n(1) wf_update_list [OF n(2,3) Cons.IH [OF child_wf [OF n(3)]]] by (simp add: ensure_node_JStr wf_NodeI)
  next
    case False
    then show ?thesis using Cons.prems by (simp add: ensure_node_other)
  qed
qed

lemma update_node_at:
  "wf_node v0 n \<Longrightarrow> node_at path (update_node v0 f keys n) =
     (if texts keys = Some path then Some (f (case node_at path n of None \<Rightarrow> v0 | Some v \<Rightarrow> v)) else node_at path n)"
proof (induction keys arbitrary: n path)
  case Nil
  then show ?case using wf_nodeD(1) [OF Nil] by (cases path) auto
next
  case (Cons key keys)
  note wf = wf_nodeD(3) [OF Cons.prems]
  show ?case
  proof (cases "\<exists>s. key = JStr s")
    case True
    then obtain s where s: "key = JStr s" by blast
    show ?thesis
    proof (cases path)
      case Nil
      then show ?thesis by (auto simp: s)
    next
      case (Cons p ps)
      have IH: "node_at ps (update_node v0 f keys (child v0 (nd_nodes n) s)) =
          (if texts keys = Some ps then Some (f (case node_at ps (child v0 (nd_nodes n) s) of None \<Rightarrow> v0 | Some v \<Rightarrow> v))
           else node_at ps (child v0 (nd_nodes n) s))"
        by (rule Cons.IH [OF child_wf [OF wf]])
      show ?thesis
        by (cases "p = s") (auto simp: Cons s ensure_node_JStr IH node_at_child split: option.split)
    qed
  next
    case False
    then have "texts (key # keys) = None" by (cases key) auto
    then show ?thesis using False by (cases path) (auto simp: ensure_node_other)
  qed
qed

lemma ensureTree_at:
  assumes "wf_tree v0 tree"
  shows "wf_tree v0 (ensureTree v0 f name tags tree)"
    "tree_at (ensureTree v0 f name tags tree) nm ts =
      (if nm = name \<and> texts (tag_list tags) = Some ts
       then Some (f (case tree_at tree nm ts of None \<Rightarrow> v0 | Some v \<Rightarrow> v)) else tree_at tree nm ts)"
proof -
  have wf: "\<forall>m \<in> snd ` set tree. wf_node v0 m" "distinct (map fst tree)" using assms by (auto simp: wf_tree_def)
  note c = child_wf [OF wf(1), of name]
  show "wf_tree v0 (ensureTree v0 f name tags tree)"
    using wf_update_list [OF wf(2,1) update_node_wf [OF c]] by (simp add: wf_tree_def ensureTree_def ensure_node_JStr)
  show "tree_at (ensureTree v0 f name tags tree) nm ts =
      (if nm = name \<and> texts (tag_list tags) = Some ts
       then Some (f (case tree_at tree nm ts of None \<Rightarrow> v0 | Some v \<Rightarrow> v)) else tree_at tree nm ts)"
    using update_node_at [OF c, of ts f "tag_list tags"] node_at_child [of ts v0 tree name]
    by (cases "nm = name") (auto simp: tree_at_def ensureTree_def ensure_node_JStr)
qed

text \<open>What is captured is the map, each of its entries once.\<close>

definition entry_key :: "string \<times> string list \<times> 'v \<Rightarrow> string \<times> string list" where
  "entry_key e = (fst e, fst (snd e))"

lemma captureNode_prefix: "e \<in> set (captureNode name tags n) \<Longrightarrow> fst e = name \<and> (\<exists>ts. fst (snd e) = tags @ ts)"
proof (induction name tags n arbitrary: e rule: captureNode.induct)
  case (1 name tags touched v nodes)
  from "1.prems" consider (here) "e = (name, tags, v)"
    | (below) tag n where "(tag, n) \<in> set nodes" "e \<in> set (captureNode name (tags @ [tag]) n)"
    by (auto split: if_splits)
  then show ?case
  proof cases
    case below
    then show ?thesis using "1.IH" [of "(tag, n)" tag n e] by auto
  qed simp
qed

lemma captureNode_set:
  "wf_node v0 n \<Longrightarrow> (nm, ts', v) \<in> set (captureNode name tags n) \<longleftrightarrow>
     nm = name \<and> (\<exists>ts. ts' = tags @ ts \<and> node_at ts n = Some v)"
proof (induction name tags n arbitrary: v rule: captureNode.induct)
  case (1 name tags touched w nodes)
  have d: "distinct (map fst nodes)" and wf: "\<And>tag n. (tag, n) \<in> set nodes \<Longrightarrow> wf_node v0 n"
    using "1.prems" by (auto simp: wf_node.simps)
  have IH: "(nm, ts', v) \<in> set (captureNode name (tags @ [tag]) n) \<longleftrightarrow>
      nm = name \<and> (\<exists>ts. ts' = tags @ tag # ts \<and> node_at ts n = Some v)" if "(tag, n) \<in> set nodes" for tag n
    using "1.IH" [of "(tag, n)" tag n v] that wf [OF that] by simp
  have at: "node_at (tag # ts) (Node touched w nodes) = Some v \<longleftrightarrow> (\<exists>n. (tag, n) \<in> set nodes \<and> node_at ts n = Some v)" for tag ts
    by (auto split: option.split simp flip: map_of_eq_Some_iff [OF d])
  have "(\<exists>x \<in> set nodes. (nm, ts', v) \<in> set (case x of (tag, n) \<Rightarrow> captureNode name (tags @ [tag]) n)) \<longleftrightarrow>
      (\<exists>tag n. (tag, n) \<in> set nodes \<and> (nm, ts', v) \<in> set (captureNode name (tags @ [tag]) n))"
    by auto
  also have "\<dots> \<longleftrightarrow> nm = name \<and> (\<exists>tag ts. ts' = tags @ tag # ts \<and> node_at (tag # ts) (Node touched w nodes) = Some v)"
    using IH at by metis
  finally have below: "(\<exists>x \<in> set nodes. (nm, ts', v) \<in> set (case x of (tag, n) \<Rightarrow> captureNode name (tags @ [tag]) n)) \<longleftrightarrow>
      nm = name \<and> (\<exists>tag ts. ts' = tags @ tag # ts \<and> node_at (tag # ts) (Node touched w nodes) = Some v)" .
  have all: "(\<exists>ts. ts' = tags @ ts \<and> node_at ts (Node touched w nodes) = Some v) \<longleftrightarrow>
      (ts' = tags \<and> touched \<and> v = w) \<or> (\<exists>tag ts. ts' = tags @ tag # ts \<and> node_at (tag # ts) (Node touched w nodes) = Some v)"
    (is "?L \<longleftrightarrow> ?R")
  proof
    assume ?L
    then obtain ts where "ts' = tags @ ts" "node_at ts (Node touched w nodes) = Some v" by blast
    then show ?R by (cases ts) (auto split: if_splits)
  next
    assume ?R
    then show ?L
    proof
      assume "ts' = tags \<and> touched \<and> v = w"
      then show ?L by (intro exI [of _ "[]"]) simp
    qed blast
  qed
  have "(nm, ts', v) \<in> set (captureNode name tags (Node touched w nodes)) \<longleftrightarrow>
      (nm = name \<and> ts' = tags \<and> touched \<and> v = w) \<or>
      (\<exists>x \<in> set nodes. (nm, ts', v) \<in> set (case x of (tag, n) \<Rightarrow> captureNode name (tags @ [tag]) n))"
    by auto
  then show ?case unfolding below all by blast
qed

lemma distinct_concat_keyed:
  assumes "distinct (map fst ns)" "\<And>p. p \<in> set ns \<Longrightarrow> distinct (map f (g p))"
    "\<And>p e. p \<in> set ns \<Longrightarrow> e \<in> set (g p) \<Longrightarrow> h (f e) = fst p"
  shows "distinct (map f (concat (map g ns)))"
  using assms
proof (induction ns)
  case (Cons p ns)
  have "f e \<noteq> f e'" if "e \<in> set (g p)" "q \<in> set ns" "e' \<in> set (g q)" for e q e'
  proof
    assume "f e = f e'"
    then have "fst p = fst q" using Cons.prems(3) [of p e] Cons.prems(3) [of q e'] that by simp
    then show False using Cons.prems(1) that(2) by auto
  qed
  then have "f ` set (g p) \<inter> f ` set (concat (map g ns)) = {}" by auto
  then show ?case using Cons by simp
qed simp

lemma captureNode_distinct: "wf_node v0 n \<Longrightarrow> distinct (map entry_key (captureNode name tags n))"
proof (induction name tags n rule: captureNode.induct)
  case (1 name tags touched v nodes)
  let ?g = "\<lambda>(tag, n). captureNode name (tags @ [tag]) n"
  have d: "distinct (map fst nodes)" and wf: "\<And>tag n. (tag, n) \<in> set nodes \<Longrightarrow> wf_node v0 n"
    using "1.prems" by (auto simp: wf_node.simps)
  have below: "\<exists>ts. fst (snd e) = tags @ fst p # ts" if "e \<in> set (?g p)" for e p
    using captureNode_prefix [of e name "tags @ [fst p]" "snd p"] that by (cases p) simp
  have "distinct (map entry_key (concat (map ?g nodes)))"
  proof (rule distinct_concat_keyed [OF d, where h = "\<lambda>k. snd k ! length tags"])
    fix p assume p: "p \<in> set nodes"
    obtain tag n where pq: "p = (tag, n)" by (cases p)
    then show "distinct (map entry_key (?g p))"
      using "1.IH" [of "(tag, n)" tag n] wf [of tag n] p by simp
    fix e assume "e \<in> set (?g p)"
    then show "snd (entry_key e) ! length tags = fst p" using below [of e p] by (auto simp: entry_key_def nth_append)
  qed
  moreover have "(name, tags) \<notin> entry_key ` set (concat (map ?g nodes))"
  proof
    assume "(name, tags) \<in> entry_key ` set (concat (map ?g nodes))"
    then obtain e where e: "(name, tags) = entry_key e" "e \<in> set (concat (map ?g nodes))" by (rule imageE)
    from e(2) obtain p where "e \<in> set (?g p)" by auto
    moreover have "snd (entry_key e) = tags" using e(1) by (metis snd_conv)
    ultimately have "e \<in> set (?g p)" "snd (entry_key e) = tags" by simp_all
    then show False using below [of e p] by (simp add: entry_key_def)
  qed
  ultimately show ?case by (simp add: entry_key_def [of "(name, tags, v)"])
qed

lemma captureTree_map:
  assumes "wf_tree v0 tree"
  shows "distinct (map entry_key (captureTree tree))"
    "(nm, ts, v) \<in> set (captureTree tree) \<longleftrightarrow> tree_at tree nm ts = Some v"
proof -
  have d: "distinct (map fst tree)" and wf: "\<And>name n. (name, n) \<in> set tree \<Longrightarrow> wf_node v0 n"
    using assms by (auto simp: wf_tree_def)
  show "distinct (map entry_key (captureTree tree))"
    unfolding captureTree_def
  proof (rule distinct_concat_keyed [OF d, where h = fst])
    fix p assume p: "p \<in> set tree"
    obtain name n where "p = (name, n)" by (cases p)
    then show "distinct (map entry_key (case p of (name, n) \<Rightarrow> captureNode name [] n))"
      using captureNode_distinct [OF wf, of name n] p by simp
    fix e assume "e \<in> set (case p of (name, n) \<Rightarrow> captureNode name [] n)"
    then show "fst (entry_key e) = fst p"
      using captureNode_prefix [of e "fst p" "[]" "snd p"] by (cases p) (simp add: entry_key_def)
  qed
  have "(nm, ts, v) \<in> set (captureTree tree) \<longleftrightarrow>
      (\<exists>name n. (name, n) \<in> set tree \<and> (nm, ts, v) \<in> set (captureNode name [] n))"
    by (auto simp: captureTree_def)
  also have "\<dots> \<longleftrightarrow> (\<exists>n. (nm, n) \<in> set tree \<and> node_at ts n = Some v)"
    using captureNode_set [OF wf, of _ _ nm ts v _ "[]"] by (metis append_Nil)
  also have "\<dots> \<longleftrightarrow> tree_at tree nm ts = Some v"
    by (auto simp: tree_at_def split: option.split simp flip: map_of_eq_Some_iff [OF d])
  finally show "(nm, ts, v) \<in> set (captureTree tree) \<longleftrightarrow> tree_at tree nm ts = Some v" .
qed

end
