(* ===== verification/DogStatsDFlush.thy ===== *)
theory DogStatsDFlush
  imports DogStatsDLaws
begin

text \<open>
  The interface between the client that aggregates and the one that writes: lines that are added come
  out in order. With it, what a flush hands over, and what packets hold.
\<close>

subsection \<open>A client that takes lines\<close>

text \<open>
  \<open>written c\<close> is all that was given to \<open>c\<close>, in order; \<open>line c\<close> is what one metric becomes.
\<close>

locale metric_client =
  fixes sink :: "'c metric_sink"
    and written :: "'c \<Rightarrow> byte list"
    and line :: "'c \<Rightarrow> string \<Rightarrow> rat \<Rightarrow> string \<Rightarrow> jsval list \<Rightarrow> byte list"
  assumes written_add: "written (mk_add sink stat v type tags c) = written c @ line c stat v type tags"
    and line_add: "line (mk_add sink stat v type tags c) = line c"
    and written_flush: "written (mk_flush sink c) = written c"
begin

lemma written_adds:
  "written (fold (\<lambda>x. mk_add sink (s x) (w x) (t x) (g x)) xs c) = written c @ concat (map (\<lambda>x. line c (s x) (w x) (t x) (g x)) xs)"
  by (induction xs arbitrary: c) (simp_all add: written_add line_add)

lemma line_adds: "line (fold (\<lambda>x. mk_add sink (s x) (w x) (t x) (g x)) xs c) = line c"
  by (induction xs arbitrary: c) (simp_all add: line_add)

lemma fold_concat: "fold (\<lambda>x. fold (f x) (h x)) xs c = fold (\<lambda>(x, y). f x y) (concat (map (\<lambda>x. map (Pair x) (h x)) xs)) c"
proof -
  have "fold (f x) ys c = fold (\<lambda>(x, y). f x y) (map (Pair x) ys) c" for x ys c by (induction ys arbitrary: c) auto
  then show ?thesis by (induction xs arbitrary: c) simp_all
qed

text \<open>A flush hands over what the trees hold, counters first, then gauges, then histograms.\<close>

lemma flush_written:
  "written (ag_client (ag_flush ops sink a)) = written (ag_client a) @
     concat (map (\<lambda>(name, tags, v). line (ag_client a) name v TYPE_COUNTER (map JStr tags)) (captureTree (ag_counters a))) @
     concat (map (\<lambda>(name, tags, v). line (ag_client a) name v TYPE_GAUGE (map JStr tags)) (captureTree (ag_gauges a))) @
     concat (map (\<lambda>(name, tags, h). concat (map (\<lambda>(stat, v, type). line (ag_client a) stat v type (map JStr tags))
       (histogram_lines ops name (the h)))) (captureTree (ag_histograms a)))"
proof -
  have adds: "fold (\<lambda>(name, tags, v). mk_add sink name v type (map JStr tags)) xs =
      fold (\<lambda>x. mk_add sink (fst x) (snd (snd x)) type (map JStr (fst (snd x)))) xs" for type and xs :: "(string \<times> string list \<times> rat) list"
    by (simp add: case_prod_beta')
  have hists: "fold (\<lambda>(name, tags, h). fold (\<lambda>(stat, v, type). mk_add sink stat v type (map JStr tags))
        (histogram_lines ops name (the h))) xs c =
      fold (\<lambda>y. mk_add sink (fst (snd y)) (fst (snd (snd y))) (snd (snd (snd y))) (map JStr (fst (snd (fst y)))))
        (concat (map (\<lambda>x. map (Pair x) (histogram_lines ops (fst x) (the (snd (snd x))))) xs)) c" for xs c
    using fold_concat [of "\<lambda>x y. mk_add sink (fst y) (fst (snd y)) (snd (snd y)) (map JStr (fst (snd x)))"
        "\<lambda>x. histogram_lines ops (fst x) (the (snd (snd x)))" xs c]
    by (simp add: case_prod_beta')
  have flat: "concat (map f (concat (map (\<lambda>x. map (Pair x) (h x)) xs))) = concat (map (\<lambda>x. concat (map (\<lambda>y. f (x, y)) (h x))) xs)"
    for f :: "'x \<times> 'y \<Rightarrow> byte list" and h xs
    by (induction xs) (simp_all add: comp_def)
  show ?thesis
    by (simp add: ag_flush_def captureHistograms_def captureGauges_def captureCounters_def Let_def written_flush adds hists
        written_adds line_adds flat) (simp add: case_prod_beta')
qed

end

subsection \<open>The client of packets\<close>

definition dg_written :: "dogstatsd \<Rightarrow> byte list" where
  "dg_written c = concat (map snd (dg_sent c)) @ concat (dg_queue c) @ utf8_bytes (dg_buffer c)"

definition dg_metric :: "dg_env \<Rightarrow> dogstatsd \<Rightarrow> string \<Rightarrow> rat \<Rightarrow> string \<Rightarrow> jsval list \<Rightarrow> byte list" where
  "dg_metric env c stat v type tags = utf8_bytes (dg_line env (dg_tagsPrefix c) stat v type tags)"

lemma utf8_append [simp]: "utf8_bytes (a @ b) = utf8_bytes a @ utf8_bytes b"
  by (simp add: utf8_bytes_def)

lemma utf8_Nil [simp]: "utf8_bytes [] = []"
  by (simp add: utf8_bytes_def)

lemma dg_enqueue_written:
  assumes "dg_offset c = length (utf8_bytes (dg_buffer c))"
  shows "dg_written (dg_enqueue c) = dg_written c" "dg_buffer (dg_enqueue c) = [] \<or> dg_enqueue c = c"
    "dg_tagsPrefix (dg_enqueue c) = dg_tagsPrefix c"
  by (simp_all add: dg_enqueue_def dg_written_def)

lemma dg_enqueue_keeps: "dg_written (dg_enqueue c) = dg_written c" "dg_tagsPrefix (dg_enqueue c) = dg_tagsPrefix c"
  by (simp_all add: dg_enqueue_def dg_written_def)

interpretation packets: metric_client "dogstatsd_sink (env\<lparr>ge_found := True\<rparr>)" dg_written "dg_metric env" for env
proof
  have same: "dg_line (env\<lparr>ge_found := True\<rparr>) = dg_line env" by (intro ext) (simp add: dg_line_def)
  fix stat v type tags c
  show "dg_written (mk_add (dogstatsd_sink (env\<lparr>ge_found := True\<rparr>)) stat v type tags c) = dg_written c @ dg_metric env c stat v type tags"
    using dg_enqueue_keeps [of c]
    by (simp add: dogstatsd_sink_def dg_add_def dg_write_def dg_metric_def same Let_def) (simp add: dg_written_def)
  show "dg_metric env (mk_add (dogstatsd_sink (env\<lparr>ge_found := True\<rparr>)) stat v type tags c) = dg_metric env c"
    by (intro ext) (simp add: dogstatsd_sink_def dg_add_def dg_write_def dg_metric_def Let_def dg_enqueue_keeps)
  show "dg_written (mk_flush (dogstatsd_sink (env\<lparr>ge_found := True\<rparr>)) c) = dg_written c"
    using dg_enqueue_keeps(1) [of c]
    by (simp add: dogstatsd_sink_def dg_flush_def sendUdp_def Let_def) (simp add: dg_written_def comp_def)
qed

subsection \<open>What was recorded since a flush\<close>

datatype metric_op = Count string rat jsval bool | Gauge string rat jsval | Hist string rat jsval

fun run_op :: "'k dd_sketch \<Rightarrow> metric_op \<Rightarrow> ('c, 'k) aggregation \<Rightarrow> ('c, 'k) aggregation" where
  "run_op ops (Count name n tags monotonic) = ag_count name n tags monotonic"
| "run_op ops (Gauge name v tags) = ag_gauge name v tags"
| "run_op ops (Hist name v tags) = ag_histogram ops name v tags"

text \<open>The metric an operation is about: counters and gauges of a name are different metrics.\<close>

definition count_args :: "jsval \<Rightarrow> bool \<Rightarrow> jsval \<times> bool" where
  "count_args tags monotonic = (case tags of JBool b \<Rightarrow> (JArr [], b) | _ \<Rightarrow> (tags, monotonic))"

definition names :: "string \<times> string list \<Rightarrow> string \<Rightarrow> jsval \<Rightarrow> bool" where
  "names key name tags \<longleftrightarrow> name = fst key \<and> texts (tag_list tags) = Some (snd key)"

fun counted :: "string \<times> string list \<Rightarrow> metric_op \<Rightarrow> rat list" where
  "counted key (Count name n tags monotonic) =
     (let (tags, monotonic) = count_args tags monotonic in if monotonic \<and> names key name tags then [n] else [])"
| "counted key _ = []"

definition counter_of :: "string \<times> string list \<Rightarrow> metric_op list \<Rightarrow> rat option" where
  "counter_of key mops = (let ns = concat (map (counted key) mops) in if ns = [] then None else Some (sum_list ns))"

fun gauged :: "string \<times> string list \<Rightarrow> metric_op \<Rightarrow> rat option \<Rightarrow> rat option" where
  "gauged key (Gauge name v tags) old = (if names key name tags then Some v else old)"
| "gauged key (Count name n tags monotonic) old =
     (let (tags, monotonic) = count_args tags monotonic
      in if \<not> monotonic \<and> names key name tags then Some ((case old of None \<Rightarrow> 0 | Some v \<Rightarrow> v) + n) else old)"
| "gauged key _ old = old"

definition gauge_of :: "string \<times> string list \<Rightarrow> metric_op list \<Rightarrow> rat option" where
  "gauge_of key mops = fold (gauged key) mops None"

fun observed :: "string \<times> string list \<Rightarrow> metric_op \<Rightarrow> rat list" where
  "observed key (Hist name v tags) = (if names key name tags then [v] else [])"
| "observed key _ = []"

definition histogram_of :: "'k dd_sketch \<Rightarrow> string \<times> string list \<Rightarrow> metric_op list \<Rightarrow> 'k option" where
  "histogram_of ops key mops =
     (let vs = concat (map (observed key) mops) in if vs = [] then None else Some (fold (dk_accept ops) vs (dk_new ops)))"

lemma ag_count_args:
  "ag_count name n tags monotonic a =
     (if snd (count_args tags monotonic) then a\<lparr>ag_counters := ensureTree 0 (\<lambda>v. v + n) name (fst (count_args tags monotonic)) (ag_counters a)\<rparr>
      else a\<lparr>ag_gauges := ensureTree 0 (\<lambda>v. v + n) name (fst (count_args tags monotonic)) (ag_gauges a)\<rparr>)"
  by (simp add: ag_count_def count_args_def split: jsval.split)

definition trees_wf :: "('c, 'k) aggregation \<Rightarrow> bool" where
  "trees_wf a \<longleftrightarrow> wf_tree 0 (ag_counters a) \<and> wf_tree 0 (ag_gauges a) \<and> wf_tree None (ag_histograms a)"

definition trees_are :: "'k dd_sketch \<Rightarrow> metric_op list \<Rightarrow> ('c, 'k) aggregation \<Rightarrow> bool" where
  "trees_are ops mops a \<longleftrightarrow>
     (\<forall>name tags. tree_at (ag_counters a) name tags = counter_of (name, tags) mops \<and>
        tree_at (ag_gauges a) name tags = gauge_of (name, tags) mops \<and>
        tree_at (ag_histograms a) name tags = map_option Some (histogram_of ops (name, tags) mops))"

lemma names_pair: "names (nm, ts) name tags \<longleftrightarrow> nm = name \<and> texts (tag_list tags) = Some ts"
  by (auto simp: names_def)

lemma counter_of_snoc:
  "counter_of key (mops @ [mop]) =
     (if counted key mop = [] then counter_of key mops
      else Some ((case counter_of key mops of None \<Rightarrow> 0 | Some v \<Rightarrow> v) + sum_list (counted key mop)))"
proof -
  have "sum_list ns = (case (if ns = [] then None else Some (sum_list ns)) of None \<Rightarrow> 0 | Some v \<Rightarrow> v)" for ns :: "rat list"
    by simp
  then show ?thesis unfolding counter_of_def Let_def by (simp del: concat_eq_Nil_conv Nil_eq_concat_conv)
qed

lemma histogram_of_snoc:
  "histogram_of ops key (mops @ [mop]) =
     (if observed key mop = [] then histogram_of ops key mops
      else Some (fold (dk_accept ops) (observed key mop) (case histogram_of ops key mops of None \<Rightarrow> dk_new ops | Some h \<Rightarrow> h)))"
proof -
  have "fold (dk_accept ops) vs (dk_new ops) =
      (case (if vs = [] then None else Some (fold (dk_accept ops) vs (dk_new ops))) of None \<Rightarrow> dk_new ops | Some h \<Rightarrow> h)" for vs
    by simp
  then show ?thesis unfolding histogram_of_def Let_def by (simp del: concat_eq_Nil_conv Nil_eq_concat_conv)
qed

lemma run_op_trees:
  assumes "trees_wf a" "trees_are ops mops a"
  shows "trees_wf (run_op ops mop a) \<and> trees_are ops (mops @ [mop]) (run_op ops mop a) \<and> ag_client (run_op ops mop a) = ag_client a"
proof (cases mop)
  case (Count name n tags monotonic)
  obtain tags' m where c: "count_args tags monotonic = (tags', m)" by (cases "count_args tags monotonic")
  show ?thesis
  proof (cases m)
    case True
    then show ?thesis
      using assms ensureTree_at [of 0 "ag_counters a" "\<lambda>v. v + n" name tags']
      by (auto simp: Count ag_count_args c trees_wf_def trees_are_def counter_of_snoc gauge_of_def histogram_of_snoc names_pair Let_def)
  next
    case False
    then show ?thesis
      using assms ensureTree_at [of 0 "ag_gauges a" "\<lambda>v. v + n" name tags']
      by (auto simp: Count ag_count_args c trees_wf_def trees_are_def counter_of_snoc gauge_of_def histogram_of_snoc names_pair Let_def)
  qed
next
  case (Gauge name v tags)
  then show ?thesis
    using assms ensureTree_at [of 0 "ag_gauges a" "\<lambda>_. v" name tags]
    by (auto simp: ag_gauge_def trees_wf_def trees_are_def counter_of_snoc gauge_of_def histogram_of_snoc names_pair Let_def)
next
  case (Hist name v tags)
  then show ?thesis
    using assms ensureTree_at [of None "ag_histograms a" _ name tags]
    by (auto simp: ag_histogram_def trees_wf_def trees_are_def counter_of_snoc gauge_of_def histogram_of_snoc names_pair Let_def split: option.split)
qed

lemma run_ops_trees:
  "trees_wf (fold (run_op ops) mops (new_MetricsAggregationClient c)) \<and>
   trees_are ops mops (fold (run_op ops) mops (new_MetricsAggregationClient c)) \<and>
   ag_client (fold (run_op ops) mops (new_MetricsAggregationClient c)) = c"
proof (induction mops rule: rev_induct)
  case Nil
  then show ?case
    by (simp add: new_MetricsAggregationClient_def trees_wf_def wf_tree_def trees_are_def tree_at_def counter_of_def
        gauge_of_def histogram_of_def)
next
  case (snoc mop mops)
  then show ?case using run_op_trees [of "fold (run_op ops) mops (new_MetricsAggregationClient c)" ops mops mop] by simp
qed


subsection \<open>Packets\<close>

datatype packet_op = Add string rat string "jsval list" | Flush

fun run_packet :: "dg_env \<Rightarrow> packet_op \<Rightarrow> dogstatsd \<Rightarrow> dogstatsd" where
  "run_packet env (Add stat v type tags) = dg_add env stat v type tags"
| "run_packet env Flush = dg_flush env"

fun packet_lines :: "dg_env \<Rightarrow> string \<Rightarrow> packet_op \<Rightarrow> string list" where
  "packet_lines env tagsPrefix (Add stat v type tags) = [dg_line env tagsPrefix stat v type tags]"
| "packet_lines env tagsPrefix Flush = []"

definition group_ok :: "string list \<Rightarrow> bool" where
  "group_ok g \<longleftrightarrow> g \<noteq> [] \<and> (length (utf8_bytes (concat g)) \<le> MAX_BUFFER_SIZE \<or> length g = 1)"

definition packed :: "string list \<Rightarrow> string list list \<Rightarrow> string list \<Rightarrow> dogstatsd \<Rightarrow> bool" where
  "packed ls groups rest c \<longleftrightarrow> concat groups @ rest = ls \<and> (\<forall>g \<in> set groups. group_ok g) \<and> (rest = [] \<or> group_ok rest) \<and>
     map snd (dg_sent c) @ dg_queue c = map (\<lambda>g. utf8_bytes (concat g)) groups \<and>
     dg_buffer c = concat rest \<and> dg_offset c = length (utf8_bytes (concat rest)) \<and> [] \<notin> set rest \<and> \<not> dg_http c"

lemma utf8_eq_Nil [simp]: "utf8_bytes s = [] \<longleftrightarrow> s = []"
  by (cases s) (auto simp: utf8_bytes_def utf8_char_def Let_def)

lemma packed_enqueue:
  assumes "packed ls groups rest c"
  shows "\<exists>groups'. packed ls groups' [] (dg_enqueue c)"
proof (cases "rest = []")
  case True
  then show ?thesis using assms by (intro exI [of _ groups]) (simp add: packed_def dg_enqueue_def)
next
  case False
  then have "concat rest \<noteq> []" using assms by (cases rest) (auto simp: packed_def)
  then have "0 < dg_offset c" using assms by (simp add: packed_def)
  then show ?thesis using assms False by (intro exI [of _ "groups @ [rest]"]) (auto simp: packed_def dg_enqueue_def)
qed

lemma packed_write:
  assumes "packed ls groups rest c" "message \<noteq> []"
  shows "\<exists>groups' rest'. packed (ls @ [message]) groups' rest' (dg_write message c)"
proof (cases "MAX_BUFFER_SIZE < dg_offset c + length (utf8_bytes message)")
  case True
  obtain groups' where "packed ls groups' [] (dg_enqueue c)" using packed_enqueue [OF assms(1)] by blast
  then show ?thesis
    using True assms(2)
    by (intro exI [of _ groups'] exI [of _ "[message]"]) (auto simp: packed_def dg_write_def group_ok_def Let_def)
next
  case False
  then show ?thesis
    using assms
    by (intro exI [of _ groups] exI [of _ "rest @ [message]"]) (auto simp: packed_def dg_write_def group_ok_def Let_def)
qed

lemma dg_flush_udp:
  assumes "packed ls groups rest c" "ge_found env"
  shows "\<exists>groups'. packed ls groups' [] (dg_flush env c)"
proof -
  obtain groups' where "packed ls groups' [] (dg_enqueue c)" using packed_enqueue [OF assms(1)] by blast
  then show ?thesis
    using assms(2) by (intro exI [of _ groups']) (auto simp: packed_def dg_flush_def sendUdp_def comp_def Let_def)
qed

text \<open>
  C37: Over UDP, when the host is found, lines are packed in order and stay whole: the packets sent and
  queued and the buffer are consecutive groups of the lines that were added, and a packet has at most
  the 1024 bytes of the agent unless a single line is longer.
\<close>

theorem packets_bounded:
  assumes "ge_found env"
  shows "\<exists>groups rest.
    concat groups @ rest = concat (map (packet_lines env (dg_tagsPrefix (new_DogStatsDClient str False tags))) pops) \<and>
    map snd (dg_sent (fold (run_packet env) pops (new_DogStatsDClient str False tags))) @
      dg_queue (fold (run_packet env) pops (new_DogStatsDClient str False tags)) = map (\<lambda>g. utf8_bytes (concat g)) groups \<and>
    dg_buffer (fold (run_packet env) pops (new_DogStatsDClient str False tags)) = concat rest \<and>
    (\<forall>g \<in> set groups. g \<noteq> [] \<and> (length (utf8_bytes (concat g)) \<le> 1024 \<or> length g = 1))"
proof -
  let ?c = "new_DogStatsDClient str False tags"
  have pre: "dg_tagsPrefix (run_packet env p c) = dg_tagsPrefix c" for p c
    by (cases p) (auto simp: dg_add_def dg_write_def dg_flush_def sendUdp_def dg_enqueue_def Let_def)
  have "dg_tagsPrefix (fold (run_packet env) pops ?c) = dg_tagsPrefix ?c \<and>
    (\<exists>groups rest. packed (concat (map (packet_lines env (dg_tagsPrefix ?c)) pops)) groups rest (fold (run_packet env) pops ?c))"
  proof (induction pops rule: rev_induct)
    case Nil
    show ?case by (intro conjI exI [of _ "[]"]) (simp_all add: packed_def new_DogStatsDClient_def)
  next
    case (snoc p pops)
    then obtain groups rest where IH: "packed (concat (map (packet_lines env (dg_tagsPrefix ?c)) pops)) groups rest (fold (run_packet env) pops ?c)"
      by blast
    have "dg_line env tagsPrefix stat v type ts \<noteq> []" for tagsPrefix stat v type ts by (simp add: dg_line_def)
    moreover have "fold (run_packet env) (pops @ [p]) ?c = run_packet env p (fold (run_packet env) pops ?c)" by simp
    ultimately show ?case
      using snoc pre [of p "fold (run_packet env) pops ?c"] packed_write [OF IH] dg_flush_udp [OF IH assms]
      by (cases p) (auto simp: dg_add_def)
  qed
  then show ?thesis unfolding packed_def group_ok_def MAX_BUFFER_SIZE_def by blast
qed

theorem packets_bounded_witness:
  "\<exists>groups rest. concat groups @ rest =
      [dg_line \<lparr>ge_str = (\<lambda>_. []), ge_entityId = [], ge_found = True\<rparr> [] ''a'' 1 ''c'' [], dg_line \<lparr>ge_str = (\<lambda>_. []), ge_entityId = [], ge_found = True\<rparr> [] ''b'' 2 ''g'' []] \<and>
    concat rest = [] \<and> (\<forall>g \<in> set groups. g \<noteq> [] \<and> (length (utf8_bytes (concat g)) \<le> 1024 \<or> length g = 1))"
proof -
  let ?env = "\<lparr>ge_str = (\<lambda>_. []), ge_entityId = [], ge_found = True\<rparr>"
  let ?ops = "[Add ''a'' 1 ''c'' [], Add ''b'' 2 ''g'' [], Flush]"
  have "dg_buffer (fold (run_packet ?env) ?ops (new_DogStatsDClient (\<lambda>_. []) False [])) = []"
    by code_simp
  moreover have "dg_tagsPrefix (new_DogStatsDClient (\<lambda>_. []) False []) = []" by (simp add: new_DogStatsDClient_def)
  ultimately show ?thesis
    using packets_bounded [of ?env "\<lambda>_. []" "[]" ?ops] by simp metis
qed

end
