(* ===== verification/SpanStats.thy ===== *)
theory SpanStats
  imports SpanLife TagsProcessors
begin

text \<open>
  Statistics of spans (\<open>span_stats.js\<close>): formatted spans that are measured are aggregated by the end of
  their bucket of time and by a text of their attributes, and drained at intervals. The sketches of
  the vendored library are an argument. Process tags, host and versions of the payload are constant
  and left out of it; what the two exporters receive is a list.
\<close>

record 'k span_sketch =
  ss_new :: 'k
  ss_accept :: "jsnum \<Rightarrow> 'k \<Rightarrow> 'k"
  ss_count :: "'k \<Rightarrow> nat"
  ss_sum :: "'k \<Rightarrow> jsnum"
  ss_proto :: "'k \<Rightarrow> byte list"

subsection \<open>The key of an aggregate\<close>

definition HTTP_METHOD :: string where "HTTP_METHOD = ''http.method''"
definition HTTP_STATUS_CODE :: string where "HTTP_STATUS_CODE = ''http.status_code''"
definition HTTP_ROUTE :: string where "HTTP_ROUTE = ''http.route''"
definition HTTP_ENDPOINT :: string where "HTTP_ENDPOINT = ''http.endpoint''"
definition SPAN_KIND :: string where "SPAN_KIND = ''span.kind''"
definition GRPC_STATUS_CODE :: string where "GRPC_STATUS_CODE = ''grpc.status.code''"

definition GRPC_STATUS_NAMES :: "string list" where
  "GRPC_STATUS_NAMES =
     [''OK'', ''CANCELLED'', ''UNKNOWN'', ''INVALID_ARGUMENT'', ''DEADLINE_EXCEEDED'',
      ''NOT_FOUND'', ''ALREADY_EXISTS'', ''PERMISSION_DENIED'', ''RESOURCE_EXHAUSTED'',
      ''FAILED_PRECONDITION'', ''ABORTED'', ''OUT_OF_RANGE'', ''UNIMPLEMENTED'',
      ''INTERNAL'', ''UNAVAILABLE'', ''DATA_LOSS'', ''UNAUTHENTICATED'']"

definition GRPC_STATUS_CODE_MAP :: "(string \<times> string) list" where
  "GRPC_STATUS_CODE_MAP = map (\<lambda>(i, name). (name, show_nat i)) (enumerate 0 GRPC_STATUS_NAMES)"

text \<open>\<open>toUpperCase\<close>, as far as a status name can come of it\<close>

definition upper_text :: "string \<Rightarrow> string" where
  "upper_text s = concat (map (\<lambda>c. let n = (of_char c :: nat)
     in if 97 \<le> n \<and> n \<le> 122 then [char_of (n - 32)] else if n = 223 then ''SS'' else [c]) s)"

text \<open>\<open>a ?? b\<close> over the properties of two objects\<close>

definition meta_val :: "formatted_span \<Rightarrow> string \<Rightarrow> jsval" where
  "meta_val f k = (case map_of (f_meta f) k of None \<Rightarrow> JUndef | Some s \<Rightarrow> JStr s)"

fun first_defined :: "jsval list \<Rightarrow> jsval" where
  "first_defined [] = JUndef"
| "first_defined [v] = v"
| "first_defined (v # w # vs) = (if nullish v then first_defined (w # vs) else v)"

definition rpcStatusCode :: "(jsval \<Rightarrow> string) \<Rightarrow> formatted_span \<Rightarrow> string" where
  "rpcStatusCode str f =
     (let grpcCode = first_defined
            [meta_val f GRPC_STATUS_CODE, getp (f_metrics f) GRPC_STATUS_CODE,
             meta_val f ''rpc.grpc.status_code'', getp (f_metrics f) ''rpc.grpc.status_code'',
             meta_val f ''rpc.response.status_code'', getp (f_metrics f) ''rpc.response.status_code'']
      in case grpcCode of
           JNum n \<Rightarrow> num_to_string str n
         | _ \<Rightarrow>
             if truthy grpcCode then
               (case map_of GRPC_STATUS_CODE_MAP (upper_text (js_string str grpcCode)) of
                  Some numeric \<Rightarrow> numeric
                | None \<Rightarrow>
                    (let n = to_number grpcCode in if is_int_num n \<and> \<not> num_neg n then num_to_string str n else []))
             else [])"

record agg_key =
  ak_name :: string
  ak_service :: string
  ak_resource :: string
  ak_type :: string
  ak_statusCode :: jsval
  ak_synthetics :: bool
  ak_method :: string
  ak_endpoint :: string
  ak_srvSrc :: string
  ak_spanKind :: string
  ak_rpcStatusCode :: string
  ak_isTraceRoot :: "bool option"

definition or_text :: "string option \<Rightarrow> string \<Rightarrow> string" where
  "or_text s d = (case s of None \<Rightarrow> d | Some t \<Rightarrow> if t = [] then d else t)"

definition new_SpanAggKey :: "(jsval \<Rightarrow> string) \<Rightarrow> formatted_span \<Rightarrow> agg_key" where
  "new_SpanAggKey str f =
     (let meta = map_of (f_meta f)
      in \<lparr>ak_name = or_text (Some (f_name f)) DEFAULT_SPAN_NAME,
          ak_service = or_text (f_service f) DEFAULT_SERVICE_NAME,
          ak_resource = f_resource f,
          ak_type = or_text (f_type f) [],
          ak_statusCode = js_or (meta_val f HTTP_STATUS_CODE) (JNum (Fin 0)),
          ak_synthetics = (meta ORIGIN_KEY = Some ''synthetics''),
          ak_method = or_text (meta HTTP_METHOD) [],
          ak_endpoint = or_text (meta HTTP_ROUTE) (or_text (meta HTTP_ENDPOINT) []),
          ak_srvSrc = or_text (meta SVC_SRC_KEY) [],
          ak_spanKind = or_text (meta SPAN_KIND) [],
          ak_rpcStatusCode = rpcStatusCode str f,
          ak_isTraceRoot = None\<rparr>)"

definition key_texts :: "(jsval \<Rightarrow> string) \<Rightarrow> agg_key \<Rightarrow> string list" where
  "key_texts str k =
     [ak_name k, ak_service k, ak_resource k, ak_type k, js_string str (ak_statusCode k), bool_to_string (ak_synthetics k),
      ak_method k, ak_endpoint k, ak_srvSrc k, ak_spanKind k, ak_rpcStatusCode k]"

definition key_toString :: "(jsval \<Rightarrow> string) \<Rightarrow> agg_key \<Rightarrow> string" where
  "key_toString str k = join '','' (key_texts str k)"

subsection \<open>Aggregates\<close>

record 'k agg_stats =
  as_key :: agg_key
  as_hits :: nat
  as_topLevelHits :: nat
  as_topLevelOk :: 'k
  as_topLevelError :: 'k
  as_nonTopLevelOk :: 'k
  as_nonTopLevelError :: 'k

definition new_SpanAggStats :: "'k span_sketch \<Rightarrow> agg_key \<Rightarrow> 'k agg_stats" where
  "new_SpanAggStats ops k =
     \<lparr>as_key = k, as_hits = 0, as_topLevelHits = 0, as_topLevelOk = ss_new ops, as_topLevelError = ss_new ops,
      as_nonTopLevelOk = ss_new ops, as_nonTopLevelError = ss_new ops\<rparr>"

definition is_top_level :: "formatted_span \<Rightarrow> bool" where
  "is_top_level f = truthy (getp (f_metrics f) TOP_LEVEL_KEY)"

definition stats_record :: "'k span_sketch \<Rightarrow> formatted_span \<Rightarrow> 'k agg_stats \<Rightarrow> 'k agg_stats" where
  "stats_record ops f s =
     (let durationNs = f_duration f;
          s = s\<lparr>as_hits := as_hits s + 1\<rparr>;
          s = (if is_top_level f then s\<lparr>as_topLevelHits := as_topLevelHits s + 1\<rparr> else s)
      in if f_error f \<noteq> 0 then
           (if is_top_level f then s\<lparr>as_topLevelError := ss_accept ops durationNs (as_topLevelError s)\<rparr>
            else s\<lparr>as_nonTopLevelError := ss_accept ops durationNs (as_nonTopLevelError s)\<rparr>)
         else
           (if is_top_level f then s\<lparr>as_topLevelOk := ss_accept ops durationNs (as_topLevelOk s)\<rparr>
            else s\<lparr>as_nonTopLevelOk := ss_accept ops durationNs (as_nonTopLevelOk s)\<rparr>))"

definition num_add :: "jsnum \<Rightarrow> jsnum \<Rightarrow> jsnum" where
  "num_add a b = (case (a, b) of
      (Fin x, Fin y) \<Rightarrow> Fin (x + y)
    | (NaN, _) \<Rightarrow> NaN
    | (_, NaN) \<Rightarrow> NaN
    | (Fin _, _) \<Rightarrow> b
    | (_, Fin _) \<Rightarrow> a
    | _ \<Rightarrow> if a = b then a else NaN)"

record stats_row =
  sr_key :: agg_key
  sr_Hits :: nat
  sr_TopLevelHits :: nat
  sr_Errors :: nat
  sr_Duration :: jsnum
  sr_OkSummary :: "byte list"
  sr_ErrorSummary :: "byte list"

definition stats_toJSON :: "'k span_sketch \<Rightarrow> 'k agg_stats \<Rightarrow> stats_row list" where
  "stats_toJSON ops s =
     (if 0 < as_topLevelHits s then
        [\<lparr>sr_key = as_key s, sr_Hits = as_topLevelHits s, sr_TopLevelHits = as_topLevelHits s,
          sr_Errors = ss_count ops (as_topLevelError s),
          sr_Duration = num_add (ss_sum ops (as_topLevelOk s)) (ss_sum ops (as_topLevelError s)),
          sr_OkSummary = ss_proto ops (as_topLevelOk s), sr_ErrorSummary = ss_proto ops (as_topLevelError s)\<rparr>]
      else []) @
     (let nonTopLevelHits = int (as_hits s) - int (as_topLevelHits s)
      in if 0 < nonTopLevelHits then
           [\<lparr>sr_key = as_key s, sr_Hits = nat nonTopLevelHits, sr_TopLevelHits = 0,
             sr_Errors = ss_count ops (as_nonTopLevelError s),
             sr_Duration = num_add (ss_sum ops (as_nonTopLevelOk s)) (ss_sum ops (as_nonTopLevelError s)),
             sr_OkSummary = ss_proto ops (as_nonTopLevelOk s), sr_ErrorSummary = ss_proto ops (as_nonTopLevelError s)\<rparr>]
         else [])"

subsection \<open>Buckets\<close>

type_synonym 'k span_buckets = "(string \<times> 'k agg_stats) list"

definition ZERO_ID :: ident where
  "ZERO_ID = fst (createIdentifier [] \<lparr>batch = 0, data = []\<rparr> (Some ''0'') 16)"

definition span_key :: "(jsval \<Rightarrow> string) \<Rightarrow> bool \<Rightarrow> formatted_span \<Rightarrow> string \<times> agg_key" where
  "span_key str includeTraceRoot f =
     (let aggKey = new_SpanAggKey str f;
          baseKey = key_toString str aggKey;
          root = equals (f_parent_id f) ZERO_ID
      in if includeTraceRoot then (baseKey @ '','' @ bool_to_string root, aggKey\<lparr>ak_isTraceRoot := Some root\<rparr>)
         else (baseKey, aggKey))"

text \<open>\<open>forSpan\<close> returns the object of a key, which is then changed in place.\<close>

definition forSpan ::
    "'k span_sketch \<Rightarrow> (jsval \<Rightarrow> string) \<Rightarrow> bool \<Rightarrow> formatted_span \<Rightarrow> ('k agg_stats \<Rightarrow> 'k agg_stats) \<Rightarrow>
     'k span_buckets \<Rightarrow> 'k span_buckets" where
  "forSpan ops str includeTraceRoot f g b =
     (let (key, aggKey) = span_key str includeTraceRoot f
      in AList.update key (g (case map_of b key of None \<Rightarrow> new_SpanAggStats ops aggKey | Some s \<Rightarrow> s)) b)"

definition stats_forTime :: "jsnum \<Rightarrow> ('k span_buckets \<Rightarrow> 'k span_buckets) \<Rightarrow> (jsnum \<times> 'k span_buckets) list \<Rightarrow> (jsnum \<times> 'k span_buckets) list" where
  "stats_forTime t g bs = AList.update t (g (case map_of bs t of None \<Rightarrow> [] | Some b \<Rightarrow> b)) bs"

subsection \<open>The processor\<close>

record 'k stats_processor =
  sp_enabled :: bool
  sp_otlp :: bool
  sp_bucketSizeNs :: rat
  sp_buckets :: "(jsnum \<times> 'k span_buckets) list"
  sp_sequence :: nat
  sp_exported :: "(nat \<times> (jsnum \<times> rat \<times> stats_row list) list) list" \<comment> \<open>sequence and buckets\<close>
  sp_otlp_exported :: "(jsnum \<times> 'k span_buckets) list list"

definition new_SpanStatsProcessor :: "bool \<Rightarrow> rat \<Rightarrow> bool \<Rightarrow> rat option \<Rightarrow> 'k stats_processor" where
  "new_SpanStatsProcessor enabled interval otlp flushIntervalMs =
     (let intervalMs = (if otlp then (case flushIntervalMs of None \<Rightarrow> 10000 | Some ms \<Rightarrow> ms) else interval * 1000)
      in \<lparr>sp_enabled = enabled, sp_otlp = otlp, sp_bucketSizeNs = intervalMs * 1000000, sp_buckets = [], sp_sequence = 0,
          sp_exported = [], sp_otlp_exported = []\<rparr>)"

text \<open>\<open>end - (end % size)\<close>; the remainder is cut towards zero.\<close>

definition js_mod :: "rat \<Rightarrow> rat \<Rightarrow> rat" where
  "js_mod x y = x - y * of_int (if 0 \<le> x / y then \<lfloor>x / y\<rfloor> else \<lceil>x / y\<rceil>)"

definition stats_bucketTime :: "rat \<Rightarrow> formatted_span \<Rightarrow> jsnum" where
  "stats_bucketTime bucketSizeNs f =
     (case f_duration f of
        Fin d \<Rightarrow> (let spanEndNs = of_int (f_start f) + d
                  in if bucketSizeNs = 0 then NaN else Fin (spanEndNs - js_mod spanEndNs bucketSizeNs))
      | _ \<Rightarrow> NaN)"

definition is_measured :: "formatted_span \<Rightarrow> bool" where
  "is_measured f \<longleftrightarrow> truthy (getp (f_metrics f) TOP_LEVEL_KEY) \<or> truthy (getp (f_metrics f) MEASURED)"

definition onSpanFinished :: "'k span_sketch \<Rightarrow> (jsval \<Rightarrow> string) \<Rightarrow> formatted_span \<Rightarrow> 'k stats_processor \<Rightarrow> 'k stats_processor" where
  "onSpanFinished ops str f p =
     (if \<not> sp_enabled p \<and> \<not> sp_otlp p then p
      else if \<not> is_measured f then p
      else p\<lparr>sp_buckets := stats_forTime (stats_bucketTime (sp_bucketSizeNs p) f)
               (forSpan ops str (sp_otlp p) f (stats_record ops f)) (sp_buckets p)\<rparr>)"

definition toV06Payload :: "'k span_sketch \<Rightarrow> rat \<Rightarrow> (jsnum \<times> 'k span_buckets) list \<Rightarrow> (jsnum \<times> rat \<times> stats_row list) list" where
  "toV06Payload ops bucketSizeNs drained =
     map (\<lambda>(timeNs, bucket). (timeNs, bucketSizeNs, concat (map (\<lambda>(_, s). stats_toJSON ops s) bucket))) drained"

definition stats_onInterval :: "'k span_sketch \<Rightarrow> 'k stats_processor \<Rightarrow> 'k stats_processor" where
  "stats_onInterval ops p =
     (let drained = sp_buckets p; p = p\<lparr>sp_buckets := []\<rparr>
      in if sp_enabled p \<and> \<not> sp_otlp p then
           p\<lparr>sp_sequence := sp_sequence p + 1,
             sp_exported := sp_exported p @ [(sp_sequence p + 1, toV06Payload ops (sp_bucketSizeNs p) drained)]\<rparr>
         else if sp_otlp p \<and> drained \<noteq> [] then p\<lparr>sp_otlp_exported := sp_otlp_exported p @ [drained]\<rparr>
         else p)"

end
