(* ===== verification/SpanStatsLaws.thy ===== *)
theory SpanStatsLaws
  imports SpanStats
begin

text \<open>
  What the statistics of spans promise: buckets group the measured spans since the last interval by
  time and key text; what is sent counts each of them once; key texts tell spans apart as long as no
  attribute has a comma.
\<close>

subsection \<open>Buckets group spans\<close>

definition recorded_in :: "(jsval \<Rightarrow> string) \<Rightarrow> bool \<Rightarrow> rat \<Rightarrow> jsnum \<Rightarrow> string \<Rightarrow> formatted_span \<Rightarrow> bool" where
  "recorded_in str tr width t key f \<longleftrightarrow> is_measured f \<and> stats_bucketTime width f = t \<and> fst (span_key str tr f) = key"

text \<open>The aggregate of spans that share a key: the attributes are those of the first.\<close>

definition aggregate :: "'k span_sketch \<Rightarrow> (jsval \<Rightarrow> string) \<Rightarrow> bool \<Rightarrow> formatted_span list \<Rightarrow> 'k agg_stats option" where
  "aggregate ops str tr fs =
     (case fs of [] \<Rightarrow> None
      | f # _ \<Rightarrow> Some (fold (stats_record ops) fs (new_SpanAggStats ops (snd (span_key str tr f)))))"

lemma aggregate_snoc:
  "aggregate ops str tr (fs @ [f]) =
     Some (stats_record ops f (case aggregate ops str tr fs of
       None \<Rightarrow> new_SpanAggStats ops (snd (span_key str tr f)) | Some s \<Rightarrow> s))"
  by (cases fs) (simp_all add: aggregate_def)

definition bucket_at :: "(jsnum \<times> 'k span_buckets) list \<Rightarrow> jsnum \<Rightarrow> string \<Rightarrow> 'k agg_stats option" where
  "bucket_at bs t key = (case map_of bs t of None \<Rightarrow> None | Some b \<Rightarrow> map_of b key)"

definition buckets_wf :: "(jsnum \<times> 'k span_buckets) list \<Rightarrow> bool" where
  "buckets_wf bs \<longleftrightarrow> distinct (map fst bs) \<and> (\<forall>b \<in> snd ` set bs. distinct (map fst b) \<and> b \<noteq> [])"

definition stats_grouped ::
    "'k span_sketch \<Rightarrow> (jsval \<Rightarrow> string) \<Rightarrow> formatted_span list \<Rightarrow> 'k stats_processor \<Rightarrow> bool" where
  "stats_grouped ops str fs p \<longleftrightarrow> buckets_wf (sp_buckets p) \<and>
     (\<forall>t key. bucket_at (sp_buckets p) t key =
        aggregate ops str (sp_otlp p) (filter (recorded_in str (sp_otlp p) (sp_bucketSizeNs p) t key) fs))"

lemma forSpan_at:
  "map_of (forSpan ops str tr f g b) key =
     (if key = fst (span_key str tr f)
      then Some (g (case map_of b key of None \<Rightarrow> new_SpanAggStats ops (snd (span_key str tr f)) | Some s \<Rightarrow> s))
      else map_of b key)"
  by (cases "span_key str tr f") (simp add: forSpan_def map_of_obj_set split: option.split)

lemma forSpan_wf:
  assumes "distinct (map fst b)"
  shows "distinct (map fst (forSpan ops str tr f g b)) \<and> forSpan ops str tr f g b \<noteq> []"
proof -
  have "map_of (forSpan ops str tr f g b) (fst (span_key str tr f)) \<noteq> None" by (simp add: forSpan_at)
  then have "forSpan ops str tr f g b \<noteq> []" by auto
  then show ?thesis using assms by (simp add: forSpan_def distinct_update split: prod.split)
qed

lemma stats_forTime_at:
  "bucket_at (stats_forTime t (forSpan ops str tr f g) bs) t' key =
     (if t' = t \<and> key = fst (span_key str tr f)
      then Some (g (case bucket_at bs t' key of None \<Rightarrow> new_SpanAggStats ops (snd (span_key str tr f)) | Some s \<Rightarrow> s))
      else bucket_at bs t' key)"
  by (auto simp: bucket_at_def stats_forTime_def map_of_obj_set forSpan_at split: option.split)

lemma stats_forTime_wf:
  assumes "buckets_wf bs"
  shows "buckets_wf (stats_forTime t (forSpan ops str tr f g) bs)"
proof -
  let ?b = "forSpan ops str tr f g (case map_of bs t of None \<Rightarrow> [] | Some b \<Rightarrow> b)"
  have "distinct (map fst (case map_of bs t of None \<Rightarrow> [] | Some b \<Rightarrow> b))"
    using assms by (auto simp: buckets_wf_def split: option.split dest!: map_of_SomeD)
  note b = forSpan_wf [OF this, of ops str tr f g]
  have "distinct (map fst b') \<and> b' \<noteq> []" if "b' \<in> snd ` set (AList.update t ?b bs)" for b'
  proof -
    from that obtain x where "b' = snd x" "x \<in> set (AList.update t ?b bs)" by (rule imageE)
    then show ?thesis using set_update_cases [of x t ?b bs] b assms by (auto simp: buckets_wf_def)
  qed
  then show ?thesis using assms by (simp add: buckets_wf_def stats_forTime_def distinct_update)
qed

lemma onSpanFinished_keeps:
  "sp_enabled (onSpanFinished ops str f p) = sp_enabled p" "sp_otlp (onSpanFinished ops str f p) = sp_otlp p"
  "sp_bucketSizeNs (onSpanFinished ops str f p) = sp_bucketSizeNs p"
  "sp_sequence (onSpanFinished ops str f p) = sp_sequence p" "sp_exported (onSpanFinished ops str f p) = sp_exported p"
  "sp_otlp_exported (onSpanFinished ops str f p) = sp_otlp_exported p"
  by (simp_all add: onSpanFinished_def)

lemma onSpanFinished_grouped:
  assumes "stats_grouped ops str fs p" "sp_enabled p \<or> sp_otlp p"
  shows "stats_grouped ops str (fs @ [f]) (onSpanFinished ops str f p)"
proof (cases "is_measured f")
  case True
  have wf: "buckets_wf (sp_buckets p)" using assms(1) by (simp add: stats_grouped_def)
  have new: "sp_buckets (onSpanFinished ops str f p) = stats_forTime (stats_bucketTime (sp_bucketSizeNs p) f)
               (forSpan ops str (sp_otlp p) f (stats_record ops f)) (sp_buckets p)"
    using True assms(2) by (auto simp: onSpanFinished_def)
  have "bucket_at (sp_buckets (onSpanFinished ops str f p)) t key =
      aggregate ops str (sp_otlp p) (filter (recorded_in str (sp_otlp p) (sp_bucketSizeNs p) t key) (fs @ [f]))" for t key
    using assms(1) True
    by (auto simp: new stats_forTime_at recorded_in_def aggregate_snoc stats_grouped_def)
  then show ?thesis using stats_forTime_wf [OF wf] new by (simp add: stats_grouped_def onSpanFinished_keeps)
next
  case False
  then have "onSpanFinished ops str f p = p" "\<not> recorded_in str tr width t key f" for tr width t key
    by (simp_all add: onSpanFinished_def recorded_in_def)
  then show ?thesis using assms(1) by (simp add: stats_grouped_def)
qed

lemma stats_grouped_run:
  assumes "sp_buckets p = []" "sp_enabled p \<or> sp_otlp p"
  shows "stats_grouped ops str fs (fold (onSpanFinished ops str) fs p) \<and>
    sp_enabled (fold (onSpanFinished ops str) fs p) = sp_enabled p \<and> sp_otlp (fold (onSpanFinished ops str) fs p) = sp_otlp p \<and>
    sp_bucketSizeNs (fold (onSpanFinished ops str) fs p) = sp_bucketSizeNs p \<and>
    sp_sequence (fold (onSpanFinished ops str) fs p) = sp_sequence p \<and> sp_exported (fold (onSpanFinished ops str) fs p) = sp_exported p"
proof (induction fs rule: rev_induct)
  case Nil
  show ?case using assms(1) by (simp add: stats_grouped_def buckets_wf_def bucket_at_def aggregate_def)
next
  case (snoc f fs)
  then show ?case using onSpanFinished_grouped [of ops str fs _ f] assms(2) by (simp add: onSpanFinished_keeps)
qed

subsection \<open>Key texts\<close>

lemma key_texts_join:
  assumes "\<forall>s \<in> set (key_texts str j). CHR '','' \<notin> set s" "\<forall>s \<in> set (key_texts str k). CHR '','' \<notin> set s"
  shows "key_toString str j = key_toString str k \<longleftrightarrow> key_texts str j = key_texts str k"
proof
  assume "key_toString str j = key_toString str k"
  then have "split_on (CHR '','') (join [CHR '',''] (key_texts str j)) = split_on (CHR '','') (join [CHR '',''] (key_texts str k))"
    by (simp add: key_toString_def)
  moreover have "key_texts str x \<noteq> []" for x by (simp add: key_texts_def)
  ultimately show "key_texts str j = key_texts str k"
    by (metis assms split_on_join)
qed (simp add: key_toString_def)

subsection \<open>Conservation\<close>

text \<open>Counting over the aggregates of a bucket\<close>

lemma record_hits:
  "as_hits (stats_record ops f s) = as_hits s + 1"
  "as_topLevelHits (stats_record ops f s) = as_topLevelHits s + (if is_top_level f then 1 else 0)"
  by (simp_all add: stats_record_def Let_def)

lemma aggregate_hits:
  assumes "aggregate ops str tr fs = Some s"
  shows "as_hits s = length fs" "as_topLevelHits s = length (filter is_top_level fs)"
proof -
  have "as_hits (fold (stats_record ops) fs s0) = as_hits s0 + length fs \<and>
      as_topLevelHits (fold (stats_record ops) fs s0) = as_topLevelHits s0 + length (filter is_top_level fs)" for s0
    by (induction fs arbitrary: s0) (auto simp: record_hits)
  then show "as_hits s = length fs" "as_topLevelHits s = length (filter is_top_level fs)"
    using assms by (auto simp: aggregate_def new_SpanAggStats_def split: list.splits)
qed

lemma toJSON_hits:
  assumes "as_topLevelHits s \<le> as_hits s"
  shows "sum_list (map sr_Hits (stats_toJSON ops s)) = as_hits s"
    "sum_list (map sr_TopLevelHits (stats_toJSON ops s)) = as_topLevelHits s"
  using assms by (auto simp: stats_toJSON_def Let_def)

text \<open>Grouping a list by a function and counting the groups counts the list.\<close>

lemma sum_groups:
  assumes "distinct ks" "\<forall>f \<in> set fs. P f \<longrightarrow> h f \<in> set ks"
  shows "(\<Sum>k \<leftarrow> ks. length (filter (\<lambda>f. P f \<and> h f = k) fs)) = length (filter P fs)"
  using assms
proof (induction fs)
  case (Cons f fs)
  have "(\<Sum>k \<leftarrow> ks. if P f \<and> h f = k then 1 else 0) = (if P f then 1 else (0 :: nat))"
    using Cons.prems by (simp flip: sum.distinct_set_conv_list)
  moreover have "length (filter (\<lambda>f. P f \<and> h f = k) (f # fs)) =
      (if P f \<and> h f = k then 1 else 0) + length (filter (\<lambda>f. P f \<and> h f = k) fs)" for k
    by simp
  ultimately show ?case using Cons by (simp add: sum_list_addf)
qed simp

lemma grouped_hits:
  assumes g: "stats_grouped ops str fs p" and b: "(t, b) \<in> set (sp_buckets p)"
  shows "(\<Sum>(k, s) \<leftarrow> b. as_hits s) = length (filter (\<lambda>f. is_measured f \<and> stats_bucketTime (sp_bucketSizeNs p) f = t) fs)"
    "(\<Sum>(k, s) \<leftarrow> b. as_topLevelHits s) = length (filter (\<lambda>f. (is_measured f \<and> stats_bucketTime (sp_bucketSizeNs p) f = t) \<and> is_top_level f) fs)"
    "\<forall>(k, s) \<in> set b. as_topLevelHits s \<le> as_hits s"
proof -
  let ?P = "\<lambda>f. is_measured f \<and> stats_bucketTime (sp_bucketSizeNs p) f = t"
  let ?h = "\<lambda>f. fst (span_key str (sp_otlp p) f)"
  have wf: "distinct (map fst (sp_buckets p))" "distinct (map fst b)" using g b by (auto simp: stats_grouped_def buckets_wf_def)
  have at: "bucket_at (sp_buckets p) t k = map_of b k" for k
    using map_of_is_SomeI [OF wf(1) b] by (simp add: bucket_at_def)
  have agg: "aggregate ops str (sp_otlp p) (filter (\<lambda>f. ?P f \<and> ?h f = k) fs) = map_of b k" for k
  proof -
    have "filter (recorded_in str (sp_otlp p) (sp_bucketSizeNs p) t k) fs = filter (\<lambda>f. ?P f \<and> ?h f = k) fs"
      by (rule filter_cong) (auto simp: recorded_in_def)
    then show ?thesis using g at [of k] by (simp add: stats_grouped_def)
  qed
  have hits: "as_hits s = length (filter (\<lambda>f. ?P f \<and> ?h f = k) fs)"
      "as_topLevelHits s = length (filter (\<lambda>f. (?P f \<and> is_top_level f) \<and> ?h f = k) fs)" if "(k, s) \<in> set b" for k s
  proof -
    have "map_of b k = Some s" using that wf(2) by simp
    note h = aggregate_hits [OF trans [OF agg this]]
    show "as_hits s = length (filter (\<lambda>f. ?P f \<and> ?h f = k) fs)" by (rule h(1))
    show "as_topLevelHits s = length (filter (\<lambda>f. (?P f \<and> is_top_level f) \<and> ?h f = k) fs)"
      unfolding h(2) filter_filter by (rule arg_cong [where f = length], rule filter_cong) auto
  qed
  have keys: "\<forall>f \<in> set fs. ?P f \<longrightarrow> ?h f \<in> set (map fst b)"
  proof (intro ballI impI)
    fix f assume f: "f \<in> set fs" "?P f"
    then have "f \<in> set (filter (\<lambda>f'. ?P f' \<and> ?h f' = ?h f) fs)" by simp
    then have "filter (\<lambda>f'. ?P f' \<and> ?h f' = ?h f) fs \<noteq> []" by (metis empty_iff empty_set)
    then have "map_of b (?h f) \<noteq> None" unfolding agg [symmetric] by (auto simp: aggregate_def split: list.split)
    then show "?h f \<in> set (map fst b)" by (simp add: map_of_eq_None_iff)
  qed
  have "(\<Sum>(k, s) \<leftarrow> b. as_hits s) = (\<Sum>k \<leftarrow> map fst b. length (filter (\<lambda>f. ?P f \<and> ?h f = k) fs))"
    unfolding map_map by (rule arg_cong [where f = sum_list], rule map_cong) (auto simp: hits(1))
  then show "(\<Sum>(k, s) \<leftarrow> b. as_hits s) = length (filter ?P fs)" using sum_groups [OF wf(2) keys] by simp
  have "(\<Sum>(k, s) \<leftarrow> b. as_topLevelHits s) = (\<Sum>k \<leftarrow> map fst b. length (filter (\<lambda>f. (?P f \<and> is_top_level f) \<and> ?h f = k) fs))"
    unfolding map_map by (rule arg_cong [where f = sum_list], rule map_cong) (auto simp: hits(2))
  then show "(\<Sum>(k, s) \<leftarrow> b. as_topLevelHits s) = length (filter (\<lambda>f. ?P f \<and> is_top_level f) fs)"
    using sum_groups [OF wf(2), of fs "\<lambda>f. ?P f \<and> is_top_level f" ?h] keys by simp
  show "\<forall>(k, s) \<in> set b. as_topLevelHits s \<le> as_hits s"
  proof safe
    fix k s assume ks: "(k, s) \<in> set b"
    have "filter (\<lambda>f. (?P f \<and> is_top_level f) \<and> ?h f = k) fs = filter is_top_level (filter (\<lambda>f. ?P f \<and> ?h f = k) fs)"
      unfolding filter_filter by (rule filter_cong) auto
    then show "as_topLevelHits s \<le> as_hits s" unfolding hits [OF ks] by (simp only: length_filter_le)
  qed
qed

lemma payload_hits:
  assumes g: "stats_grouped ops str fs p"
  shows "(\<Sum>(t, w, rows) \<leftarrow> toV06Payload ops w0 (sp_buckets p). \<Sum>r \<leftarrow> rows. sr_Hits r) = length (filter is_measured fs)"
    "(\<Sum>(t, w, rows) \<leftarrow> toV06Payload ops w0 (sp_buckets p). \<Sum>r \<leftarrow> rows. sr_TopLevelHits r) =
       length (filter (\<lambda>f. is_measured f \<and> is_top_level f) fs)"
proof -
  let ?bs = "sp_buckets p" and ?time = "stats_bucketTime (sp_bucketSizeNs p)"
  have rows: "(\<Sum>r \<leftarrow> concat (map (\<lambda>(_, s). stats_toJSON ops s) b). h r) = (\<Sum>(k, s) \<leftarrow> b. \<Sum>r \<leftarrow> stats_toJSON ops s. h r)"
    for h :: "stats_row \<Rightarrow> nat" and b :: "(string \<times> 'a agg_stats) list"
    by (induction b) auto
  have wf: "distinct (map fst ?bs)" using g by (simp add: stats_grouped_def buckets_wf_def)
  have keys: "\<forall>f \<in> set fs. is_measured f \<longrightarrow> ?time f \<in> set (map fst ?bs)"
  proof (intro ballI impI)
    fix f assume f: "f \<in> set fs" "is_measured f"
    let ?k = "fst (span_key str (sp_otlp p) f)"
    have "f \<in> set (filter (recorded_in str (sp_otlp p) (sp_bucketSizeNs p) (?time f) ?k) fs)"
      using f by (simp add: recorded_in_def)
    then have "filter (recorded_in str (sp_otlp p) (sp_bucketSizeNs p) (?time f) ?k) fs \<noteq> []" by (metis empty_iff empty_set)
    then have "bucket_at ?bs (?time f) ?k \<noteq> None" using g by (auto simp: stats_grouped_def aggregate_def split: list.split)
    then have "map_of ?bs (?time f) \<noteq> None" by (cases "map_of ?bs (?time f)") (auto simp: bucket_at_def)
    then show "?time f \<in> set (map fst ?bs)" by (simp add: map_of_eq_None_iff)
  qed
  have hits: "(\<Sum>r \<leftarrow> concat (map (\<lambda>(_, s). stats_toJSON ops s) b). sr_Hits r) = length (filter (\<lambda>f. is_measured f \<and> ?time f = t) fs)"
      "(\<Sum>r \<leftarrow> concat (map (\<lambda>(_, s). stats_toJSON ops s) b). sr_TopLevelHits r) =
         length (filter (\<lambda>f. (is_measured f \<and> is_top_level f) \<and> ?time f = t) fs)"
    if tb: "(t, b) \<in> set ?bs" for t b
  proof -
    note gh = grouped_hits [OF g tb]
    have "(\<Sum>(k, s) \<leftarrow> b. \<Sum>r \<leftarrow> stats_toJSON ops s. sr_Hits r) = (\<Sum>(k, s) \<leftarrow> b. as_hits s)"
        "(\<Sum>(k, s) \<leftarrow> b. \<Sum>r \<leftarrow> stats_toJSON ops s. sr_TopLevelHits r) = (\<Sum>(k, s) \<leftarrow> b. as_topLevelHits s)"
      using gh(3) by (auto simp: toJSON_hits intro!: arg_cong [where f = sum_list] map_cong)
    then show "(\<Sum>r \<leftarrow> concat (map (\<lambda>(_, s). stats_toJSON ops s) b). sr_Hits r) = length (filter (\<lambda>f. is_measured f \<and> ?time f = t) fs)"
      unfolding rows using gh(1) by simp
    have "filter (\<lambda>f. (is_measured f \<and> ?time f = t) \<and> is_top_level f) fs = filter (\<lambda>f. (is_measured f \<and> is_top_level f) \<and> ?time f = t) fs"
      by (rule filter_cong) auto
    then show "(\<Sum>r \<leftarrow> concat (map (\<lambda>(_, s). stats_toJSON ops s) b). sr_TopLevelHits r) =
         length (filter (\<lambda>f. (is_measured f \<and> is_top_level f) \<and> ?time f = t) fs)"
      unfolding rows using gh(2) \<open>(\<Sum>(k, s) \<leftarrow> b. \<Sum>r \<leftarrow> stats_toJSON ops s. sr_TopLevelHits r) = _\<close> by simp
  qed
  have "(\<Sum>(t, w, rows) \<leftarrow> toV06Payload ops w0 ?bs. \<Sum>r \<leftarrow> rows. sr_Hits r) =
      (\<Sum>t \<leftarrow> map fst ?bs. length (filter (\<lambda>f. is_measured f \<and> ?time f = t) fs))"
    unfolding toV06Payload_def map_map by (rule arg_cong [where f = sum_list], rule map_cong) (auto simp: hits(1))
  then show "(\<Sum>(t, w, rows) \<leftarrow> toV06Payload ops w0 ?bs. \<Sum>r \<leftarrow> rows. sr_Hits r) = length (filter is_measured fs)"
    using sum_groups [OF wf keys] by simp
  have "(\<Sum>(t, w, rows) \<leftarrow> toV06Payload ops w0 ?bs. \<Sum>r \<leftarrow> rows. sr_TopLevelHits r) =
      (\<Sum>t \<leftarrow> map fst ?bs. length (filter (\<lambda>f. (is_measured f \<and> is_top_level f) \<and> ?time f = t) fs))"
    unfolding toV06Payload_def map_map by (rule arg_cong [where f = sum_list], rule map_cong) (auto simp: hits(2))
  then show "(\<Sum>(t, w, rows) \<leftarrow> toV06Payload ops w0 ?bs. \<Sum>r \<leftarrow> rows. sr_TopLevelHits r) =
       length (filter (\<lambda>f. is_measured f \<and> is_top_level f) fs)"
    using sum_groups [OF wf, of fs "\<lambda>f. is_measured f \<and> is_top_level f" ?time] keys by simp
qed

subsection \<open>The theorems\<close>

definition comma_free :: "(jsval \<Rightarrow> string) \<Rightarrow> formatted_span \<Rightarrow> bool" where
  "comma_free str f \<longleftrightarrow> (\<forall>s \<in> set (key_texts str (new_SpanAggKey str f)). CHR '','' \<notin> set s)"


text \<open>
  C39: No measured span is lost or counted twice, commas or not: at an interval one payload goes out, with
  the next sequence number, in which the hits of all rows sum up to the number of measured spans since
  the last interval, and the top-level hits to the number of top-level ones. The buckets are empty then.
\<close>

theorem stats_conserved:
  assumes "sp_enabled p" "\<not> sp_otlp p" "sp_buckets p = []" "q = stats_onInterval ops (fold (onSpanFinished ops str) fs p)"
  shows "\<exists>payload. sp_exported q = sp_exported p @ [(sp_sequence p + 1, payload)] \<and> sp_buckets q = [] \<and>
    (\<Sum>(time, width, rows) \<leftarrow> payload. \<Sum>r \<leftarrow> rows. sr_Hits r) = length (filter is_measured fs) \<and>
    (\<Sum>(time, width, rows) \<leftarrow> payload. \<Sum>r \<leftarrow> rows. sr_TopLevelHits r) = length (filter is_top_level fs)"
proof -
  let ?p = "fold (onSpanFinished ops str) fs p"
  have run: "stats_grouped ops str fs ?p" "sp_enabled ?p" "\<not> sp_otlp ?p" "sp_sequence ?p = sp_sequence p" "sp_exported ?p = sp_exported p"
    using stats_grouped_run [of p ops str fs] assms(1-3) by simp_all
  have "filter (\<lambda>f. is_measured f \<and> is_top_level f) fs = filter is_top_level fs"
    by (rule filter_cong) (auto simp: is_measured_def is_top_level_def)
  then show ?thesis
    using run payload_hits [OF run(1), of "sp_bucketSizeNs ?p"] assms(4)
    by (intro exI [of _ "toV06Payload ops (sp_bucketSizeNs ?p) (sp_buckets ?p)"]) (simp add: stats_onInterval_def Let_def)
qed

subsection \<open>An example\<close>

definition ex_span :: "string \<Rightarrow> string \<Rightarrow> formatted_span" where
  "ex_span service resource =
     \<lparr>f_trace_id = zeroId, f_span_id = None, f_parent_id = zeroId, f_name = ''n'', f_resource = resource,
      f_service = Some service, f_type = None, f_error = 0, f_meta = [], f_meta_struct = JUndef,
      f_metrics = [(TOP_LEVEL_KEY, JNum (Fin 1))], f_start = 5, f_duration = Fin 2, f_span_events = None\<rparr>"

definition list_sketch :: "jsnum list span_sketch" where
  "list_sketch = \<lparr>ss_new = [], ss_accept = (\<lambda>x xs. xs @ [x]), ss_count = length, ss_sum = (\<lambda>_. Fin 0), ss_proto = (\<lambda>_. [])\<rparr>"

definition ex_stats :: "jsnum list stats_processor" where
  "ex_stats = new_SpanStatsProcessor True 10 False None"

lemma ex_stats_fresh: "sp_enabled ex_stats" "\<not> sp_otlp ex_stats" "sp_buckets ex_stats = []"
  by (simp_all add: ex_stats_def new_SpanStatsProcessor_def)

text \<open>With a comma in an attribute, spans of different services share an aggregate.\<close>

lemma comma_collision:
  "key_toString str (new_SpanAggKey str (ex_span ''a,b'' ''c'')) = key_toString str (new_SpanAggKey str (ex_span ''a'' ''b,c''))"
  "new_SpanAggKey str (ex_span ''a,b'' ''c'') \<noteq> new_SpanAggKey str (ex_span ''a'' ''b,c'')"
  by (simp_all add: key_toString_def key_texts_def new_SpanAggKey_def ex_span_def or_text_def meta_val_def rpcStatusCode_def Let_def)


theorem stats_conserved_witness:
  "\<exists>payload. sp_exported (stats_onInterval list_sketch (fold (onSpanFinished list_sketch (\<lambda>_. [])) [ex_span ''a,b'' ''c'', ex_span ''a'' ''b,c''] ex_stats)) = [(1, payload)] \<and>
     (\<Sum>(time, width, rows) \<leftarrow> payload. \<Sum>r \<leftarrow> rows. sr_Hits r) = 2"
proof -
  have "length (filter is_measured [ex_span ''a,b'' ''c'', ex_span ''a'' ''b,c'']) = 2" by code_simp
  moreover have "sp_exported ex_stats = []" "sp_sequence ex_stats = 0" by (simp_all add: ex_stats_def new_SpanStatsProcessor_def)
  ultimately show ?thesis
    using stats_conserved [OF ex_stats_fresh refl, of list_sketch "\<lambda>_. []" "[ex_span ''a,b'' ''c'', ex_span ''a'' ''b,c'']"] by auto
qed

end
