(* ===== verification/SpanStatsEncoder.thy ===== *)
theory SpanStatsEncoder
  imports SpanStatsLaws AgentWire
begin

text \<open>
  The encoder of span statistics (\<open>encode/span-stats.js\<close>) and what it shares with the encoder of traces:
  \<open>encode\<close> is a template method over \<open>_encode\<close>. The locale \<open>encoder_template\<close> is its contract, with an
  interpretation for each of the two classes.
\<close>

subsection \<open>The template method\<close>

definition encode_with :: "('t \<Rightarrow> unit enc) \<Rightarrow> 't \<Rightarrow> bool enc" where
  "encode_with body t e =
     (case body t (e\<lparr>e_count := e_count e + 1\<rparr>) of
        Returns _ e' \<Rightarrow>
          Returns (e_limit e' < length (ck_used (e_bytes e')) \<or> e_limit e' < length (ck_used (e_strings e'))) e'
      | Throws er e' \<Rightarrow> if er = OverflowError then seq enc_reset (ret False) e' else Throws er e'
      | Runs_on \<Rightarrow> Runs_on)"

lemma encode_is_template: "encode str = encode_with (encode_trace str)"
  by (intro ext) (simp add: encode_def encode_with_def)

locale encoder_template =
  fixes body :: "'t \<Rightarrow> unit enc"
    and sent :: "'t \<Rightarrow> mp list"
    and good :: "'t \<Rightarrow> bool"
  assumes body_sends: "good t \<Longrightarrow> sends (body t) () (sent t)"
begin

text \<open>What is encoded joins the queue; over the cap the queue is dropped; no other error but that of a long string.\<close>

lemma encode_cases:
  assumes "good t" "enc_ok e" "wires vs (out e)"
  obtains (joined) e' where "encode_with body t e = Returns (over_limit e') e'" "enc_ok e'" "wires (vs @ sent t) (out e')"
      "e_count e' = e_count e + 1"
    | (dropped) e' where "encode_with body t e = Returns False e'" "queued e' []"
    | (too_long) e' where "encode_with body t e = Throws RangeError e'"
proof -
  let ?e = "e\<lparr>e_count := e_count e + 1\<rparr>"
  have ok: "enc_ok ?e" "out ?e = out e" using assms(2) by (simp_all add: enc_ok_def out_def)
  obtain bs where bs: "writes_out (body t) () bs" "length bs \<le> MAX_SIZE \<longrightarrow> wires (sent t) bs"
    using body_sends [OF assms(1)] unfolding sends_def by blast
  from bs(1) ok(1) show ?thesis
  proof (cases rule: writes_out_cases)
    case (returns e')
    then have "length bs \<le> MAX_SIZE" using enc_ok_max [of e'] by simp
    then have "wires (vs @ sent t) (out e')" using returns(2) bs(2) ok(2) assms(3) wires_append by simp
    then show ?thesis
      using returns by (intro joined [of e']) (simp_all add: encode_with_def over_limit_def same_setup_def)
  next
    case (throws er e')
    then obtain e2 where "enc_reset e' = Returns () e2" "queued e2 []"
      using enc_reset_ok [of e'] by auto
    then show ?thesis using throws(1,2) dropped [of e2] too_long [of e']
      by (auto simp: encode_with_def cap_error_def OverflowError_def seq_def bind_def ret_def)
  qed
qed

end

interpretation traces: encoder_template "trace_writer str native" "\<lambda>t. [trace_mp str native t]" "trace_ok str native" for str native
  by unfold_locales (rule sends_trace)

subsection \<open>Statistics\<close>

definition stats_truncate :: "string \<Rightarrow> nat \<Rightarrow> string \<Rightarrow> string" where
  "stats_truncate s maxLength ending = (if s = [] then s else if maxLength < length s then take maxLength s @ ending else s)"

text \<open>What the writers of integers take of a number\<close>

definition int_part :: "jsnum \<Rightarrow> int" where
  "int_part n = (case n of Fin r \<Rightarrow> (if 0 \<le> r then \<lfloor>r\<rfloor> else \<lceil>r\<rceil>) | _ \<Rightarrow> 0)"

record stats_payload =
  py_Hostname :: string
  py_Env :: "string option"
  py_Version :: string
  py_Stats :: "(jsnum \<times> rat \<times> stats_row list) list"
  py_Lang :: string
  py_TracerVersion :: string
  py_RuntimeID :: "string option"
  py_Sequence :: nat
  py_ProcessTags :: "string option"

definition opt_text :: "string option \<Rightarrow> string" where
  "opt_text s = (case s of None \<Rightarrow> [] | Some t \<Rightarrow> t)"

text \<open>A key and its value, then the rest\<close>

definition field :: "string \<Rightarrow> unit enc \<Rightarrow> unit enc \<Rightarrow> unit enc" where
  "field key g rest = seq (encodeString key) (seq g rest)"

definition encodeStat :: "stats_row \<Rightarrow> unit enc" where
  "encodeStat stat =
     (let k = sr_key stat
      in seq (chunked (writeMapPrefix 17))
           (field ''Service'' (encodeString (stats_truncate (or_text (Some (ak_service k)) DEFAULT_SERVICE_NAME) MAX_SERVICE_LENGTH []))
           (field ''Name'' (encodeString (stats_truncate (or_text (Some (ak_name k)) DEFAULT_SPAN_NAME) MAX_NAME_LENGTH []))
           (field ''Resource'' (encodeString (stats_truncate (ak_resource k) MAX_RESOURCE_NAME_LENGTH ''...''))
           (field ''HTTPStatusCode'' (chunked (writeInteger (int_part (to_number (ak_statusCode k)))))
           (field ''Type'' (encodeString (stats_truncate (ak_type k) MAX_TYPE_LENGTH []))
           (field ''Hits'' (chunked (writeLong (int (sr_Hits stat))))
           (field ''Errors'' (chunked (writeLong (int (sr_Errors stat))))
           (field ''Duration'' (chunked (writeLong (int_part (sr_Duration stat))))
           (field ''OkSummary'' (chunked (writeBin (sr_OkSummary stat)))
           (field ''ErrorSummary'' (chunked (writeBin (sr_ErrorSummary stat)))
           (field ''Synthetics'' (chunked (writeBoolean (ak_synthetics k)))
           (field ''TopLevelHits'' (chunked (writeLong (int (sr_TopLevelHits stat))))
           (field ''HTTPMethod'' (encodeString (ak_method k))
           (field ''HTTPEndpoint'' (encodeString (ak_endpoint k))
           (field ''srv_src'' (encodeString (ak_srvSrc k))
           (field ''SpanKind'' (encodeString (ak_spanKind k))
           (field ''GRPCStatusCode'' (encodeString (ak_rpcStatusCode k))
             (ret ())))))))))))))))))))"

fun encode_each :: "('a \<Rightarrow> unit enc) \<Rightarrow> 'a list \<Rightarrow> unit enc" where
  "encode_each f [] = ret ()"
| "encode_each f (x # xs) = seq (f x) (encode_each f xs)"

definition encodeBucket :: "jsnum \<times> rat \<times> stats_row list \<Rightarrow> unit enc" where
  "encodeBucket bk =
     (let (start, duration, stats) = bk
      in seq (chunked (writeMapPrefix 3))
           (field ''Start'' (chunked (writeLong (int_part start)))
           (field ''Duration'' (chunked (writeLong (int_part (Fin duration))))
           (field ''Stats'' (seq (chunked (writeArrayPrefix (length stats))) (encode_each encodeStat stats))
             (ret ())))))"

definition encode_stats_body :: "stats_payload \<Rightarrow> unit enc" where
  "encode_stats_body stats =
     (let tags = (case py_ProcessTags stats of None \<Rightarrow> [] | Some t \<Rightarrow> t)
      in seq (chunked (writeMapPrefix (if tags \<noteq> [] then 9 else 8)))
           (field ''Hostname'' (encodeString (py_Hostname stats))
           (field ''Env'' (encodeString (opt_text (py_Env stats)))
           (field ''Version'' (encodeString (py_Version stats))
           (field ''Stats'' (seq (chunked (writeArrayPrefix (length (py_Stats stats)))) (encode_each encodeBucket (py_Stats stats)))
           (field ''Lang'' (encodeString (py_Lang stats))
           (field ''TracerVersion'' (encodeString (py_TracerVersion stats))
           (field ''RuntimeID'' (encodeString (opt_text (py_RuntimeID stats)))
           (field ''Sequence'' (chunked (writeLong (int (py_Sequence stats))))
             (if tags \<noteq> [] then field ''ProcessTags'' (encodeString tags) (ret ()) else ret ()))))))))))"

definition stats_encode :: "stats_payload \<Rightarrow> bool enc" where
  "stats_encode = encode_with encode_stats_body"

definition stats_makePayload :: "byte list enc" where
  "stats_makePayload e = seq enc_reset (ret (ck_used (e_bytes e))) e"

subsection \<open>What is sent\<close>

definition stat_mp :: "stats_row \<Rightarrow> mp" where
  "stat_mp stat =
     (let k = sr_key stat
      in MMap
          [(MStr ''Service'', MStr (stats_truncate (or_text (Some (ak_service k)) DEFAULT_SERVICE_NAME) MAX_SERVICE_LENGTH [])),
           (MStr ''Name'', MStr (stats_truncate (or_text (Some (ak_name k)) DEFAULT_SPAN_NAME) MAX_NAME_LENGTH [])),
           (MStr ''Resource'', MStr (stats_truncate (ak_resource k) MAX_RESOURCE_NAME_LENGTH ''...'')),
           (MStr ''HTTPStatusCode'', MInt (int_part (to_number (ak_statusCode k)) mod 2 ^ 32)),
           (MStr ''Type'', MStr (stats_truncate (ak_type k) MAX_TYPE_LENGTH [])),
           (MStr ''Hits'', MInt (int (sr_Hits stat) mod 2 ^ 64)),
           (MStr ''Errors'', MInt (int (sr_Errors stat) mod 2 ^ 64)),
           (MStr ''Duration'', MInt (int_part (sr_Duration stat) mod 2 ^ 64)),
           (MStr ''OkSummary'', MBin (sr_OkSummary stat)),
           (MStr ''ErrorSummary'', MBin (sr_ErrorSummary stat)),
           (MStr ''Synthetics'', MBool (ak_synthetics k)),
           (MStr ''TopLevelHits'', MInt (int (sr_TopLevelHits stat) mod 2 ^ 64)),
           (MStr ''HTTPMethod'', MStr (ak_method k)),
           (MStr ''HTTPEndpoint'', MStr (ak_endpoint k)),
           (MStr ''srv_src'', MStr (ak_srvSrc k)),
           (MStr ''SpanKind'', MStr (ak_spanKind k)),
           (MStr ''GRPCStatusCode'', MStr (ak_rpcStatusCode k))])"

definition bucket_mp :: "jsnum \<times> rat \<times> stats_row list \<Rightarrow> mp" where
  "bucket_mp bk =
     (let (start, duration, stats) = bk
      in MMap
          [(MStr ''Start'', MInt (int_part start mod 2 ^ 64)),
           (MStr ''Duration'', MInt (int_part (Fin duration) mod 2 ^ 64)),
           (MStr ''Stats'', MArr (map stat_mp stats))])"

definition payload_mp :: "stats_payload \<Rightarrow> mp" where
  "payload_mp stats =
     MMap ([(MStr ''Hostname'', MStr (py_Hostname stats)),
            (MStr ''Env'', MStr (opt_text (py_Env stats))),
            (MStr ''Version'', MStr (py_Version stats)),
            (MStr ''Stats'', MArr (map bucket_mp (py_Stats stats))),
            (MStr ''Lang'', MStr (py_Lang stats)),
            (MStr ''TracerVersion'', MStr (py_TracerVersion stats)),
            (MStr ''RuntimeID'', MStr (opt_text (py_RuntimeID stats))),
            (MStr ''Sequence'', MInt (int (py_Sequence stats) mod 2 ^ 64))] @
           (if opt_text (py_ProcessTags stats) \<noteq> [] then [(MStr ''ProcessTags'', MStr (opt_text (py_ProcessTags stats)))] else []))"

text \<open>Times and durations are not negative.\<close>

definition payload_ok :: "stats_payload \<Rightarrow> bool" where
  "payload_ok stats \<longleftrightarrow>
     (\<forall>(start, duration, rows) \<in> set (py_Stats stats).
        0 \<le> int_part start \<and> 0 \<le> duration \<and> (\<forall>r \<in> set rows. 0 \<le> int_part (sr_Duration r)))"

lemma sends_long: "0 \<le> v \<Longrightarrow> sends (chunked (writeLong v)) () [MInt (v mod 2 ^ 64)]"
proof (rule sends_chunked)
  assume v: "0 \<le> v"
  show "writes (writeLong v) (0xCF # be_bytes 8 v)"
    using high_low [OF v] by (simp add: writeLong_def writes_put)
  have "be_bytes 8 (v mod 2 ^ 64) = be_bytes 8 v" by (rule be_bytes_cong) simp
  then show "wire (MInt (v mod 2 ^ 64)) (0xCF # be_bytes 8 v)" using w_u64 [of "v mod 2 ^ 64"] by simp
qed

lemma sends_word: "sends (chunked (writeInteger v)) () [MInt (v mod 2 ^ 32)]"
proof (rule sends_chunked)
  show "writes (writeInteger v) (0xCE # be_bytes 4 v)" by (simp add: writeInteger_def shifted4_be writes_put)
  have "be_bytes 4 (v mod 2 ^ 32) = be_bytes 4 v" by (rule be_bytes_cong) simp
  then show "wire (MInt (v mod 2 ^ 32)) (0xCE # be_bytes 4 v)" using w_u32 [of "v mod 2 ^ 32"] by simp
qed

lemma sends_bin: "sends (chunked (writeBin bs)) () [MBin bs]"
  by (rule sends_chunked [OF writes_bin wire_bin])

lemma sends_field: "sends g () [v] \<Longrightarrow> sends rest () (flat kvs) \<Longrightarrow> sends (field key g rest) () (flat ((MStr key, v) # kvs))"
  using sends_seq [of g "[v]" rest "()" "flat kvs"] sends_keyed [of "seq g rest" "()" "v # flat kvs" key] by (simp add: field_def)

lemma sends_no_field: "sends (ret ()) () (flat [])"
  using sends_ret by simp

lemma sends_map_of: "sends rest () (flat kvs) \<Longrightarrow> n = length kvs \<Longrightarrow> sends (seq (chunked (writeMapPrefix n)) rest) () [MMap kvs]"
proof -
  assume r: "sends rest () (flat kvs)" "n = length kvs"
  have "sends (seq (emit (0xDF # be_bytes 4 (int n))) rest) () [MMap kvs]"
  proof (rule sends_prefixed [OF r(1)])
    fix bs assume "wires (flat kvs) bs" "length bs \<le> MAX_SIZE"
    then show "wires [MMap kvs] ((0xDF # be_bytes 4 (int n)) @ bs)"
      using wires_one [OF wire_map [of kvs bs]] r(2) by (simp del: be_bytes.simps)
  qed
  then show ?thesis by (simp add: emit_def writeMapPrefix_def shifted4_be del: be_bytes.simps)
qed

lemma sends_each: "(\<And>x. x \<in> set xs \<Longrightarrow> sends (f x) () [g x]) \<Longrightarrow> sends (encode_each f xs) () (map g xs)"
proof (induction xs)
  case Nil
  then show ?case by (simp add: sends_ret)
next
  case (Cons x xs)
  then show ?case using sends_seq [of "f x" "[g x]" "encode_each f xs" "()" "map g xs"] by simp
qed

lemma sends_array_of:
  assumes "\<And>x. x \<in> set xs \<Longrightarrow> sends (f x) () [g x]"
  shows "sends (seq (chunked (writeArrayPrefix (length xs))) (encode_each f xs)) () [MArr (map g xs)]"
proof -
  have "sends (seq (emit (0xDD # be_bytes 4 (int (length xs)))) (encode_each f xs)) () [MArr (map g xs)]"
  proof (rule sends_prefixed [OF sends_each])
    fix bs assume "wires (map g xs) bs" "length bs \<le> MAX_SIZE"
    then show "wires [MArr (map g xs)] ((0xDD # be_bytes 4 (int (length xs))) @ bs)"
      using wires_one [OF wire_array [of "map g xs" bs]] by (simp del: be_bytes.simps)
  qed (rule assms)
  then show ?thesis by (simp add: emit_def writeArrayPrefix_def shifted4_be del: be_bytes.simps)
qed

lemmas stats_rules = sends_field sends_no_field sends_string sends_word sends_long sends_bin sends_boolean

lemma sends_stat: "0 \<le> int_part (sr_Duration stat) \<Longrightarrow> sends (encodeStat stat) () [stat_mp stat]"
  unfolding encodeStat_def stat_mp_def Let_def
  by (intro sends_map_of stats_rules) simp_all

lemma sends_bucket:
  assumes "0 \<le> int_part start" "0 \<le> duration" "\<forall>r \<in> set rows. 0 \<le> int_part (sr_Duration r)"
  shows "sends (encodeBucket (start, duration, rows)) () [bucket_mp (start, duration, rows)]"
proof -
  have "0 \<le> int_part (Fin duration)" using assms(2) by (simp add: int_part_def)
  then show ?thesis
    unfolding encodeBucket_def bucket_mp_def Let_def prod.case
    by (intro sends_map_of stats_rules sends_array_of sends_stat) (use assms in auto)
qed

lemma sends_stats:
  assumes "payload_ok stats"
  shows "sends (encode_stats_body stats) () [payload_mp stats]"
proof -
  have buckets: "sends (encodeBucket b) () [bucket_mp b]" if "b \<in> set (py_Stats stats)" for b
    using assms that sends_bucket by (cases b) (fastforce simp: payload_ok_def)
  show ?thesis
    unfolding encode_stats_body_def payload_mp_def Let_def opt_text_def [symmetric]
    by (cases "opt_text (py_ProcessTags stats) \<noteq> []")
      (simp_all only: if_True if_False simp_thms append.simps, (intro sends_map_of sends_field sends_no_field sends_string sends_long sends_array_of buckets; simp)+)
qed

interpretation stats: encoder_template encode_stats_body "\<lambda>p. [payload_mp p]" payload_ok
  by unfold_locales (rule sends_stats)

text \<open>
  C40: What the encoder of statistics sends is read back: after encoding a payload on a fresh encoder the
  bytes are one map with every field, bucket and row, the integers as 64-bit numbers, the names within
  their limits; unless the cap was exceeded, and then the queue is empty, or a text has four gigabytes.
\<close>

theorem stats_payload_roundtrip:
  assumes "payload_ok stats"
  shows "\<exists>e0. new_AgentEncoder limit native = Returns () e0 \<and>
    (case stats_encode stats e0 of
       Returns _ e1 \<Rightarrow>
         (e_count e1 = 1 \<longrightarrow> (\<exists>payload e2. stats_makePayload e1 = Returns payload e2 \<and> e_count e2 = 0 \<and>
            mp_decode payload = Some (payload_mp stats))) \<and> (e_count e1 \<noteq> 1 \<longrightarrow> out e1 = [])
     | Throws er _ \<Rightarrow> er = RangeError
     | Runs_on \<Rightarrow> False)"
proof -
  obtain e0 where e0: "new_AgentEncoder limit native = Returns () e0" "queued e0 []" using new_encoder_queued by blast
  then have ok: "enc_ok e0" "wires [] (out e0)" "e_count e0 = 0" by (simp_all add: queued_def)
  from assms ok(1,2) show ?thesis
  proof (cases rule: stats.encode_cases)
    case (joined e1)
    then have "wire (payload_mp stats) (out e1)" by (auto elim: wires.cases)
    then have "mp_decode (out e1) = Some (payload_mp stats)" by (rule mp_decode_wire)
    moreover obtain e2 where "enc_reset e1 = Returns () e2" "queued e2 []" using enc_reset_ok joined(2) by blast
    ultimately have "stats_makePayload e1 = Returns (out e1) e2 \<and> e_count e2 = 0 \<and> mp_decode (out e1) = Some (payload_mp stats)"
      by (simp add: stats_makePayload_def seq_def bind_def ret_def out_def queued_def)
    then show ?thesis using joined e0(1) ok(3) by (auto simp: stats_encode_def)
  next
    case (dropped e1)
    then have "out e1 = []" by (auto simp: queued_def elim: wires.cases)
    then show ?thesis using dropped e0(1) by (auto simp: stats_encode_def queued_def)
  next
    case (too_long e1)
    then show ?thesis using e0(1) by (simp add: stats_encode_def)
  qed
qed

text \<open>The payload of the processor, with what is constant\<close>

definition stats_payload_of :: "string \<Rightarrow> string option \<Rightarrow> nat \<times> (jsnum \<times> rat \<times> stats_row list) list \<Rightarrow> stats_payload" where
  "stats_payload_of hostname env exported =
     \<lparr>py_Hostname = hostname, py_Env = env, py_Version = ''1'', py_Stats = snd exported, py_Lang = ''javascript'',
      py_TracerVersion = ''6'', py_RuntimeID = None, py_Sequence = fst exported, py_ProcessTags = None\<rparr>"

definition ex_payload :: stats_payload where
  "ex_payload = stats_payload_of ''h'' None (last (sp_exported
     (stats_onInterval list_sketch (fold (onSpanFinished list_sketch (\<lambda>_. [])) [ex_span ''a'' ''r'', ex_span ''b'' ''r''] ex_stats))))"

theorem stats_payload_roundtrip_witness:
  "\<exists>e0. new_AgentEncoder 8388608 True = Returns () e0 \<and>
    (case stats_encode ex_payload e0 of
       Returns _ e1 \<Rightarrow>
         (e_count e1 = 1 \<longrightarrow> (\<exists>payload e2. stats_makePayload e1 = Returns payload e2 \<and> e_count e2 = 0 \<and>
            mp_decode payload = Some (payload_mp ex_payload))) \<and> (e_count e1 \<noteq> 1 \<longrightarrow> out e1 = [])
     | Throws er _ \<Rightarrow> er = RangeError
     | Runs_on \<Rightarrow> False)"
proof -
  have "payload_ok ex_payload" by code_simp
  then show ?thesis by (rule stats_payload_roundtrip)
qed

end
