(* ===== verification/EvidenceRedaction.thy ===== *)
theory EvidenceRedaction
  imports JsValues
begin

text \<open>
  Redaction of the evidence of vulnerabilities
  (\<open>appsec/iast/vulnerabilities-formatter\<close>: \<open>evidence-redaction/range-utils.js\<close>,
  \<open>evidence-redaction/sensitive-handler.js\<close>, \<open>index.js\<close>). Tainted ranges of a text come from sources;
  sensitive ranges are found by analyzers. The report is a list of parts, in which the sensitive ones
  are left out or replaced by patterns. Analyzers and the two patterns for names and values are
  arguments. The loop over the text may stand still at ranges without length, so it has fuel.
\<close>

subsection \<open>Ranges\<close>

record text_range =
  r_start :: int
  r_end :: int

definition rng :: "int \<Rightarrow> int \<Rightarrow> text_range" where
  "rng a b = \<lparr>r_start = a, r_end = b\<rparr>"

definition range_contains :: "text_range \<Rightarrow> text_range \<Rightarrow> bool" where
  "range_contains rangeContainer rangeContained =
     (if r_start rangeContained < r_start rangeContainer then False else r_end rangeContained \<le> r_end rangeContainer)"

definition intersects :: "text_range \<Rightarrow> text_range \<Rightarrow> bool" where
  "intersects rangeA rangeB \<longleftrightarrow> r_start rangeB < r_end rangeA \<and> r_start rangeA < r_end rangeB"

definition range_remove :: "text_range \<Rightarrow> text_range \<Rightarrow> text_range list" where
  "range_remove rg rangeToRemove =
     (if \<not> intersects rg rangeToRemove then [rg]
      else if range_contains rangeToRemove rg then []
      else (if r_start rg < r_start rangeToRemove
            then [rng (r_start rg) (r_start rg + (r_start rangeToRemove - r_start rg))] else []) @
           (if r_end rangeToRemove < r_end rg
            then [rng (r_end rangeToRemove) (r_end rangeToRemove + (r_end rg - r_end rangeToRemove))] else []))"

subsection \<open>Parts of a text\<close>

definition clamp :: "int \<Rightarrow> string \<Rightarrow> nat" where
  "clamp i s = nat (min (max i 0) (int (length s)))"

text \<open>\<open>substring(a, b)\<close> orders its arguments, \<open>slice(a, b)\<close> counts negative ones from the end.\<close>

definition js_substring :: "string \<Rightarrow> int \<Rightarrow> int \<Rightarrow> string" where
  "js_substring s a b =
     (let x = clamp a s; y = clamp b s in take (max x y - min x y) (drop (min x y) s))"

definition slice_index :: "int \<Rightarrow> string \<Rightarrow> nat" where
  "slice_index i s = (if i < 0 then clamp (int (length s) + i) s else clamp i s)"

definition js_slice :: "string \<Rightarrow> int \<Rightarrow> int \<Rightarrow> string" where
  "js_slice s a b = take (slice_index b s - slice_index a s) (drop (slice_index a s) s)"

text \<open>\<open>indexOf\<close> and \<open>includes\<close> of a text\<close>

fun text_index :: "string \<Rightarrow> string \<Rightarrow> nat \<Rightarrow> int" where
  "text_index part [] i = (if part = [] then int i else -1)"
| "text_index part (c # s) i = (if take (length part) (c # s) = part then int i else text_index part s (i + 1))"

definition indexOf :: "string \<Rightarrow> string \<Rightarrow> int" where
  "indexOf s part = text_index part s 0"

definition text_includes :: "string \<Rightarrow> string \<Rightarrow> bool" where
  "text_includes s part \<longleftrightarrow> indexOf s part \<noteq> -1"

subsection \<open>Sources and parts\<close>

record iast_source =
  so_origin :: string
  so_name :: string
  so_value :: "string option"
  so_redacted :: bool
  so_pattern :: string

definition source_value :: "iast_source \<Rightarrow> string" where
  "source_value s = (case so_value s of None \<Rightarrow> [] | Some v \<Rightarrow> v)"

datatype part = Value string "nat option" | Redacted | Pattern nat string

definition REDACTED_SOURCE_BUFFER :: string where
  "REDACTED_SOURCE_BUFFER = ''abcdefghijklmnopqrstuvwxyzABCDEFGHIJKLMNOPQRSTUVWXYZ0123456789''"

definition MAX_EVIDENCE_LENGTH :: nat where "MAX_EVIDENCE_LENGTH = 32768"

text \<open>\<open>''.padEnd(n, REDACTED_SOURCE_BUFFER)\<close>\<close>

definition pad_pattern :: "nat \<Rightarrow> string" where
  "pad_pattern n = map (\<lambda>i. REDACTED_SOURCE_BUFFER ! (i mod length REDACTED_SOURCE_BUFFER)) [0..<n]"

record redaction_env =
  rv_name :: "string \<Rightarrow> bool"
  rv_value :: "string \<Rightarrow> bool"

definition isSensibleSource :: "redaction_env \<Rightarrow> iast_source \<Rightarrow> bool" where
  "isSensibleSource env s \<longleftrightarrow> rv_name env (so_name s) \<or> rv_value env (source_value s)"

definition redact_source :: "iast_source \<Rightarrow> iast_source" where
  "redact_source s = s\<lparr>so_pattern := pad_pattern (length (source_value s)), so_redacted := True\<rparr>"

subsection \<open>The loop over the text\<close>

text \<open>
  \<open>nextTainted\<close> and \<open>nextSensitive\<close> are the heads of the lists. (When \<open>nextSensitive\<close> is \<open>null\<close>
  nothing takes from the queue any more.)
\<close>

record redaction =
  rd_parts :: "part list"
  rd_redacted :: "nat list"
  rd_context :: "(nat \<times> text_range list) list"
  rd_sources :: "iast_source list"
  rd_start :: int
  rd_index :: nat
  rd_source :: "nat option"
  rd_tainted :: "text_range list"
  rd_sensitive :: "text_range list"

definition source_at :: "nat list \<Rightarrow> nat \<Rightarrow> nat option" where
  "source_at sourcesIndexes k = (if k < length sourcesIndexes then Some (sourcesIndexes ! k) else None)"

definition writeValuePart :: "string \<Rightarrow> nat option \<Rightarrow> part list \<Rightarrow> part list" where
  "writeValuePart v source parts = (if v \<noteq> [] then parts @ [Value v source] else parts)"

definition push_context :: "nat \<Rightarrow> text_range \<Rightarrow> (nat \<times> text_range list) list \<Rightarrow> (nat \<times> text_range list) list" where
  "push_context k rg m = AList.update k ((case map_of m k of None \<Rightarrow> [] | Some rs \<Rightarrow> rs) @ [rg]) m"

definition mark_source :: "nat \<Rightarrow> redaction \<Rightarrow> redaction" where
  "mark_source k st =
     st\<lparr>rd_redacted := rd_redacted st @ [k], rd_sources := (rd_sources st)[k := redact_source (rd_sources st ! k)]\<rparr>"

definition redactSource :: "nat option \<Rightarrow> int \<Rightarrow> int \<Rightarrow> redaction \<Rightarrow> redaction" where
  "redactSource sourceIndex start end' st =
     (case sourceIndex of
        None \<Rightarrow> st
      | Some k \<Rightarrow>
          (let st = (if \<not> so_redacted (rd_sources st ! k) then mark_source k st else st)
           in st\<lparr>rd_context := push_context k (rng start end') (rd_context st)\<rparr>))"

text \<open>The parts of a tainted range whose source is redacted but is not sensible itself\<close>

definition context_step :: "nat \<Rightarrow> string \<Rightarrow> string \<Rightarrow> text_range \<Rightarrow> part list \<times> string \<times> int \<Rightarrow> part list \<times> string \<times> int" where
  "context_step sourceIndex sourceVal placeholder c =
     (\<lambda>(parts, v, offset).
        let (parts, v, offset) =
              (if 0 < r_start c then
                 (parts @ [Value (js_substring v 0 (r_start c - offset)) (Some sourceIndex)],
                  js_substring v (r_start c - offset) (int (length v)), r_start c)
               else (parts, v, offset));
            sensitive = js_substring v (r_start c - offset) (r_end c - offset);
            index = indexOf sourceVal sensitive;
            pattern = (if index = -1 then js_substring placeholder (r_start c) (r_end c)
                       else js_substring placeholder index (index + int (length sensitive)))
        in (parts @ [Pattern sourceIndex pattern], js_slice v (int (length pattern)) (int (length v)),
            offset + int (length pattern)))"

definition writeRedactedTainted :: "nat \<Rightarrow> string \<Rightarrow> iast_source \<Rightarrow> text_range list \<Rightarrow> bool \<Rightarrow> part list \<Rightarrow> part list" where
  "writeRedactedTainted sourceIndex partValue source context sensible parts =
     (let placeholder = (if text_includes (source_value source) partValue then so_pattern source
                         else replicate (length partValue) (CHR ''*''))
      in if sensible then parts @ [Pattern sourceIndex placeholder]
         else (let (parts, v, offset) =
                     fold (context_step sourceIndex (source_value source) placeholder) (rev (remdups (rev context))) (parts, partValue, 0)
               in if v \<noteq> [] then parts @ [Value v (Some sourceIndex)] else parts))"

text \<open>The sensitive ranges inside a tainted one\<close>

fun consume_contained :: "text_range \<Rightarrow> nat option \<Rightarrow> text_range list \<Rightarrow> redaction \<Rightarrow> text_range list \<times> redaction" where
  "consume_contained t sourceIndex [] st = ([], st)"
| "consume_contained t sourceIndex (s # ss) st =
     (if range_contains t s then
        consume_contained t sourceIndex ss
          (let redactionStart = r_start s - r_start t; redactionEnd = r_end s - r_start t
           in if redactionStart = redactionEnd then st\<lparr>rd_parts := rd_parts st @ [Redacted]\<rparr>
              else redactSource sourceIndex redactionStart redactionEnd st)
      else (s # ss, st))"

definition consume_overlapping :: "text_range \<Rightarrow> nat option \<Rightarrow> text_range list \<Rightarrow> redaction \<Rightarrow> text_range list \<times> redaction" where
  "consume_overlapping t sourceIndex sensitive st =
     (case sensitive of
        s # ss \<Rightarrow>
          if intersects s t then
            ((case range_remove s t of [] \<Rightarrow> [] | e # _ \<Rightarrow> e # ss),
             redactSource sourceIndex (r_start s - r_start t) (r_end s - r_start t) st)
          else (sensitive, st)
      | [] \<Rightarrow> (sensitive, st))"

definition redact_sensible :: "redaction_env \<Rightarrow> nat option \<Rightarrow> redaction \<Rightarrow> redaction" where
  "redact_sensible env sourceIndex st =
     (case sourceIndex of
        Some k \<Rightarrow>
          if isSensibleSource env (rd_sources st ! k) \<and> \<not> so_redacted (rd_sources st ! k) then mark_source k st else st
      | None \<Rightarrow> st)"

definition write_tainted :: "redaction_env \<Rightarrow> string \<Rightarrow> nat option \<Rightarrow> text_range \<Rightarrow> int \<Rightarrow> redaction \<Rightarrow> redaction" where
  "write_tainted env txt sourceIndex t i st =
     (let clear = js_slice txt (r_start t) (min (r_end t) (int (length txt)))
      in case sourceIndex of
           Some k \<Rightarrow>
             if k \<in> set (rd_redacted st) then
               st\<lparr>rd_parts := writeRedactedTainted k (js_slice txt i (i + (r_end t - r_start t))) (rd_sources st ! k)
                      (case map_of (rd_context st) k of None \<Rightarrow> [] | Some c \<Rightarrow> c)
                      (isSensibleSource env (rd_sources st ! k)) (rd_parts st),
                  rd_context := AList.update k [] (rd_context st)\<rparr>
             else st\<lparr>rd_parts := writeValuePart clear (Some k) (rd_parts st)\<rparr>
         | None \<Rightarrow> st\<lparr>rd_parts := writeValuePart clear None (rd_parts st)\<rparr>)"

definition tainted_step :: "redaction_env \<Rightarrow> string \<Rightarrow> nat list \<Rightarrow> text_range \<Rightarrow> int \<Rightarrow> redaction \<Rightarrow> redaction \<times> int" where
  "tainted_step env txt sourcesIndexes t i st =
     (let st = st\<lparr>rd_parts := writeValuePart (js_slice txt (rd_start st) i) (rd_source st) (rd_parts st)\<rparr>;
          sourceIndex = source_at sourcesIndexes (rd_index st);
          (sensitive, st) = consume_contained t sourceIndex (rd_sensitive st) st;
          (sensitive, st) = consume_overlapping t sourceIndex sensitive st;
          st = write_tainted env txt sourceIndex t i (redact_sensible env sourceIndex st);
          start = i + (r_end t - r_start t)
      in (st\<lparr>rd_start := start, rd_tainted := tl (rd_tainted st), rd_index := rd_index st + 1, rd_source := None,
             rd_sensitive := sensitive\<rparr>, start - 1))"

definition sensitive_step :: "string \<Rightarrow> nat list \<Rightarrow> text_range \<Rightarrow> int \<Rightarrow> redaction \<Rightarrow> redaction \<times> int" where
  "sensitive_step txt sourcesIndexes s i st =
     (let st = st\<lparr>rd_parts := writeValuePart (js_slice txt (rd_start st) i) (rd_source st) (rd_parts st)\<rparr>;
          queue = tl (rd_sensitive st);
          (s, queue, st) =
            (case rd_tainted st of
               t # _ \<Rightarrow>
                 if intersects s t then
                   (let sourceIndex = source_at sourcesIndexes (rd_index st);
                        st = redactSource sourceIndex (r_start s - r_start t) (r_end s - r_start t) (st\<lparr>rd_source := sourceIndex\<rparr>);
                        (s, queue) = fold (\<lambda>e (s, queue). if r_start e = i then (e, queue) else (s, e # queue)) (range_remove s t) (s, queue)
                    in (s, queue, st))
                 else (s, queue, st)
             | [] \<Rightarrow> (s, queue, st));
          len = r_end s - r_start s;
          start = i + len
      in (st\<lparr>rd_parts := rd_parts st @ [Redacted], rd_start := start, rd_sensitive := queue\<rparr>, start - 1))"

definition redaction_step :: "redaction_env \<Rightarrow> string \<Rightarrow> nat list \<Rightarrow> int \<Rightarrow> redaction \<Rightarrow> redaction \<times> int" where
  "redaction_step env txt sourcesIndexes i st =
     (case rd_tainted st of
        t # _ \<Rightarrow>
          if r_start t = i then tainted_step env txt sourcesIndexes t i st
          else (case rd_sensitive st of
                  s # _ \<Rightarrow> if r_start s = i then sensitive_step txt sourcesIndexes s i st else (st, i)
                | [] \<Rightarrow> (st, i))
      | [] \<Rightarrow>
          (case rd_sensitive st of
             s # _ \<Rightarrow> if r_start s = i then sensitive_step txt sourcesIndexes s i st else (st, i)
           | [] \<Rightarrow> (st, i)))"

fun redaction_loop :: "nat \<Rightarrow> redaction_env \<Rightarrow> string \<Rightarrow> nat list \<Rightarrow> int \<Rightarrow> redaction \<Rightarrow> redaction option" where
  "redaction_loop fuel env txt sourcesIndexes i st =
     (if int (length txt) \<le> i then Some st
      else case fuel of
             0 \<Rightarrow> None
           | Suc n \<Rightarrow> (let (st, i) = redaction_step env txt sourcesIndexes i st in redaction_loop n env txt sourcesIndexes (i + 1) st))"

declare redaction_loop.simps [simp del]

definition toRedactedJson ::
    "redaction_env \<Rightarrow> string \<Rightarrow> text_range list \<Rightarrow> text_range list \<Rightarrow> nat list \<Rightarrow> iast_source list \<Rightarrow>
     (part list \<times> nat list \<times> iast_source list) option" where
  "toRedactedJson env txt ranges sensitive sourcesIndexes sources =
     map_option
       (\<lambda>st. ((if rd_start st < int (length txt) then writeValuePart (js_slice txt (rd_start st) (int (length txt))) None (rd_parts st)
               else rd_parts st), rd_redacted st, rd_sources st))
       (redaction_loop (length txt + length ranges + 2 * length sensitive) env txt sourcesIndexes 0
          \<lparr>rd_parts = [], rd_redacted = [], rd_context = [], rd_sources = sources, rd_start = 0, rd_index = 0, rd_source = None,
           rd_tainted = ranges, rd_sensitive = sensitive\<rparr>)"

subsection \<open>Analyzers\<close>

text \<open>
  What a pattern with the flag \<open>g\<close> keeps: where the next search starts. \<open>m s i\<close> is the end of the first
  match of \<open>s\<close> from \<open>i\<close> on. \<open>isSensibleValue\<close> starts at 0, the analyzer of passwords where the last
  search ended.
\<close>

definition regexp_test :: "(string \<Rightarrow> nat \<Rightarrow> nat option) \<Rightarrow> string \<Rightarrow> nat \<Rightarrow> bool \<times> nat" where
  "regexp_test m s lastIndex =
     (case (if lastIndex \<le> length s then m s lastIndex else None) of None \<Rightarrow> (False, 0) | Some e \<Rightarrow> (True, e))"

definition isSensibleValue :: "(string \<Rightarrow> nat \<Rightarrow> nat option) \<Rightarrow> string \<Rightarrow> nat \<Rightarrow> bool \<times> nat" where
  "isSensibleValue valuePattern v lastIndex = regexp_test valuePattern v 0"

definition hardcoded_password_ranges :: "(string \<Rightarrow> nat \<Rightarrow> nat option) \<Rightarrow> string \<Rightarrow> nat \<Rightarrow> text_range list \<times> nat" where
  "hardcoded_password_ranges valuePattern v lastIndex =
     (let (found, lastIndex) = regexp_test valuePattern v lastIndex
      in (if found then [rng 0 (int (length v))] else [], lastIndex))"

text \<open>What is not tainted is sensitive. (There is at least one range.)\<close>

fun gaps :: "int \<Rightarrow> text_range list \<Rightarrow> text_range list" where
  "gaps len [] = []"
| "gaps len (r # rs) =
     (let end' = (case rs of [] \<Rightarrow> len | next # _ \<Rightarrow> if r_start next = 0 then len else r_start next)
      in (if r_end r < end' then [rng (r_end r) end'] else []) @ gaps len rs)"

definition tainted_range_based :: "string \<Rightarrow> text_range list \<Rightarrow> text_range list" where
  "tainted_range_based v ranges =
     (if 0 < r_start (hd ranges) then [rng 0 (r_start (hd ranges))] else []) @ gaps (int (length v)) ranges"

subsection \<open>The report\<close>

text \<open>The analyzer of a type of vulnerability takes the text and its tainted ranges.\<close>

record vulnerability =
  vu_analyzer :: "(string \<Rightarrow> text_range list option \<Rightarrow> text_range list) option"
  vu_value :: string
  vu_ranges :: "(text_range \<times> iast_source) list option"

definition evidence_ranges :: "vulnerability \<Rightarrow> text_range list option" where
  "evidence_ranges v = map_option (map fst) (vu_ranges v)"

datatype evidence_out = Plain string | Parts "part list"

definition oversized_source :: "nat \<Rightarrow> nat list \<times> iast_source list \<Rightarrow> nat list \<times> iast_source list" where
  "oversized_source k = (\<lambda>(redactedSources, sources).
     (if k \<in> set redactedSources then redactedSources else redactedSources @ [k],
      if k < length sources \<and> \<not> so_redacted (sources ! k) then sources[k := redact_source (sources ! k)] else sources))"

text \<open>\<open>None\<close> when the loop stands still, \<open>Some None\<close> for \<open>null\<close>\<close>

definition scrubEvidence ::
    "redaction_env \<Rightarrow> vulnerability \<Rightarrow> nat list \<Rightarrow> iast_source list \<Rightarrow>
     (part list \<times> nat list \<times> iast_source list) option option" where
  "scrubEvidence env v sourcesIndexes sources =
     (case vu_analyzer v of
        None \<Rightarrow> Some None
      | Some analyzer \<Rightarrow>
          if MAX_EVIDENCE_LENGTH < length (vu_value v) then
            (let (redactedSources, sources) = fold oversized_source sourcesIndexes ([], sources)
             in Some (Some ([Redacted], redactedSources, sources)))
          else
            (let sensitiveRanges = analyzer (vu_value v) (evidence_ranges v)
             in if vu_ranges v \<noteq> None \<or> sensitiveRanges \<noteq> [] then
                  map_option Some (toRedactedJson env (vu_value v) (case evidence_ranges v of None \<Rightarrow> [] | Some rs \<Rightarrow> rs)
                    sensitiveRanges sourcesIndexes sources)
                else Some None))"

fun unredacted_parts :: "string \<Rightarrow> nat list \<Rightarrow> nat \<Rightarrow> int \<Rightarrow> text_range list \<Rightarrow> part list" where
  "unredacted_parts txt sourcesIndexes j fromIndex [] =
     (if fromIndex < int (length txt) then [Value (js_slice txt fromIndex (int (length txt))) None] else [])"
| "unredacted_parts txt sourcesIndexes j fromIndex (r # rs) =
     (if fromIndex < r_start r then [Value (js_slice txt fromIndex (r_start r)) None] else []) @
     [Value (js_slice txt (r_start r) (r_end r)) (source_at sourcesIndexes j)] @
     unredacted_parts txt sourcesIndexes (j + 1) (r_end r) rs"

definition getUnredactedValueParts :: "vulnerability \<Rightarrow> nat list \<Rightarrow> evidence_out" where
  "getUnredactedValueParts v sourcesIndexes =
     (case evidence_ranges v of
        None \<Rightarrow> Plain (vu_value v)
      | Some rs \<Rightarrow> Parts (unredacted_parts (vu_value v) sourcesIndexes 0 0 rs))"

definition delete_value :: "nat \<Rightarrow> iast_source list \<Rightarrow> iast_source list" where
  "delete_value k sources = sources[k := (sources ! k)\<lparr>so_value := None\<rparr>]"

definition getRedactedValueParts ::
    "redaction_env \<Rightarrow> vulnerability \<Rightarrow> nat list \<Rightarrow> iast_source list \<Rightarrow> (evidence_out \<times> iast_source list) option" where
  "getRedactedValueParts env v sourcesIndexes sources =
     (case scrubEvidence env v sourcesIndexes sources of
        None \<Rightarrow> None
      | Some (Some (parts, redactedSources, sources)) \<Rightarrow> Some (Parts parts, fold delete_value redactedSources sources)
      | Some None \<Rightarrow> Some (getUnredactedValueParts v sourcesIndexes, sources))"

definition formatEvidence ::
    "redaction_env \<Rightarrow> bool \<Rightarrow> vulnerability \<Rightarrow> nat list \<Rightarrow> iast_source list \<Rightarrow> (evidence_out \<times> iast_source list) option" where
  "formatEvidence env redact v sourcesIndexes sources =
     (if redact then getRedactedValueParts env v sourcesIndexes sources
      else Some (getUnredactedValueParts v sourcesIndexes, sources))"

definition extractSources :: "vulnerability \<Rightarrow> iast_source list" where
  "extractSources v = (case vu_ranges v of None \<Rightarrow> [] | Some rs \<Rightarrow> map snd rs)"

definition same_source :: "iast_source \<Rightarrow> iast_source \<Rightarrow> bool" where
  "same_source s existing \<longleftrightarrow>
     so_origin existing = so_origin s \<and> so_name existing = so_name s \<and> so_value existing = so_value s"

fun find_source :: "iast_source \<Rightarrow> iast_source list \<Rightarrow> nat" where
  "find_source s [] = 0"
| "find_source s (e # es) = (if same_source s e then 0 else Suc (find_source s es))"

fun add_sources :: "iast_source list \<Rightarrow> iast_source list \<Rightarrow> nat list \<times> iast_source list" where
  "add_sources [] sources = ([], sources)"
| "add_sources (s # ss) sources =
     (let k = find_source s sources;
          sources = (if k = length sources then sources @ [s] else sources);
          (ks, sources) = add_sources ss sources
      in (k # ks, sources))"

fun report_loop ::
    "redaction_env \<Rightarrow> bool \<Rightarrow> vulnerability list \<Rightarrow> iast_source list \<Rightarrow> (evidence_out list \<times> iast_source list) option" where
  "report_loop env redact [] sources = Some ([], sources)"
| "report_loop env redact (v # vs) sources =
     (let (sourcesIndexes, sources) = add_sources (extractSources v) sources
      in case formatEvidence env redact v sourcesIndexes sources of
           None \<Rightarrow> None
         | Some (out, sources) \<Rightarrow>
             (case report_loop env redact vs sources of
                None \<Rightarrow> None
              | Some (outs, sources) \<Rightarrow> Some (out # outs, sources)))"

definition report_toJson :: "redaction_env \<Rightarrow> bool \<Rightarrow> vulnerability list \<Rightarrow> (evidence_out list \<times> iast_source list) option" where
  "report_toJson env redact vs = report_loop env redact vs []"

end
