(* ===== verification/EvidenceRedactionLaws.thy ===== *)
theory EvidenceRedactionLaws
  imports EvidenceRedaction
begin

text \<open>
  What the redaction of evidence promises: the parts of a report show the text in order, without any
  sensitive position, and hide nothing but sensitive positions and the ranges of sensible sources.
\<close>

subsection \<open>Segments\<close>

definition seg :: "string \<Rightarrow> int \<Rightarrow> int \<Rightarrow> string" where
  "seg s a b = take (nat (b - a)) (drop (nat a) s)"

lemma js_slice_seg: "0 \<le> a \<Longrightarrow> a \<le> b \<Longrightarrow> b \<le> int (length s) \<Longrightarrow> js_slice s a b = seg s a b"
  by (simp add: js_slice_def slice_index_def clamp_def seg_def nat_diff_distrib)

lemma js_slice_to_end: "0 \<le> a \<Longrightarrow> js_slice s a (int (length s)) = drop (nat a) s"
  by (cases "a \<le> int (length s)") (simp_all add: js_slice_def slice_index_def clamp_def min_def)

lemma js_substring_from: "a \<le> 0 \<Longrightarrow> 0 \<le> b \<Longrightarrow> js_substring s a b = take (nat b) s"
  by (simp add: js_substring_def clamp_def Let_def min_def max_def)

lemma js_substring_to_end: "0 \<le> a \<Longrightarrow> js_substring s a (int (length s)) = drop (nat a) s"
  by (cases "nat a \<le> length s") (auto simp: js_substring_def clamp_def Let_def min_def max_def nat_le_iff)

lemma length_js_substring:
  "a \<le> b \<Longrightarrow> 0 \<le> b \<Longrightarrow> int (length (js_substring s a b)) = min b (int (length s)) - min (max a 0) (int (length s))"
  by (auto simp: js_substring_def clamp_def Let_def min_def max_def)

lemma length_seg: "0 \<le> a \<Longrightarrow> a \<le> b \<Longrightarrow> b \<le> int (length s) \<Longrightarrow> int (length (seg s a b)) = b - a"
  by (simp add: seg_def)

lemma seg_seg: "0 \<le> a \<Longrightarrow> 0 \<le> i \<Longrightarrow> i \<le> j \<Longrightarrow> a + j \<le> b \<Longrightarrow> seg (seg s a b) i j = seg s (a + i) (a + j)"
  by (simp add: seg_def drop_take nat_add_distrib add.commute min_def nat_le_iff flip: nat_diff_distrib')

subsection \<open>Searching in a text\<close>

lemma text_index_found: "text_index p s i \<noteq> -1 \<Longrightarrow> int i \<le> text_index p s i \<and> text_index p s i + int (length p) \<le> int i + int (length s)"
proof (induction s arbitrary: i)
  case (Cons c s)
  show ?case
  proof (cases "take (length p) (c # s) = p")
    case True
    then have "length p \<le> length (c # s)" by (metis length_take min.cobounded1)
    then show ?thesis using True by simp
  next
    case False
    then show ?thesis using Cons.IH [of "i + 1"] Cons.prems by auto
  qed
qed (auto split: if_splits)

lemma text_index_occurs: "text_index p (u @ p @ w) i \<noteq> -1"
proof (induction u arbitrary: i)
  case Nil
  show ?case
  proof (cases "p @ w")
    case (Cons c s)
    then have "take (length p) (c # s) = p" by (metis append_eq_conv_conj)
    then show ?thesis using Cons by simp
  qed simp
qed auto

lemma indexOf_found: "indexOf s p \<noteq> -1 \<Longrightarrow> 0 \<le> indexOf s p \<and> indexOf s p + int (length p) \<le> int (length s)"
  using text_index_found [of p s 0] by (simp add: indexOf_def)

lemma text_index_split: "text_index p s i \<noteq> -1 \<Longrightarrow> \<exists>u w. s = u @ p @ w"
proof (induction s arbitrary: i)
  case (Cons c s)
  show ?case
  proof (cases "take (length p) (c # s) = p")
    case True
    then show ?thesis by (metis append_Nil append_take_drop_id)
  next
    case False
    then obtain u w where "s = u @ p @ w" using Cons.IH [of "i + 1"] Cons.prems by auto
    then show ?thesis by (metis append_Cons)
  qed
qed (auto split: if_splits)

lemma indexOf_within: "text_includes s q \<Longrightarrow> q = u @ p @ w \<Longrightarrow> indexOf s p \<noteq> -1"
proof -
  assume a: "text_includes s q" "q = u @ p @ w"
  then obtain u' w' where "s = u' @ q @ w'" using text_index_split unfolding text_includes_def indexOf_def by blast
  then have "s = (u' @ u) @ p @ (w @ w')" using a(2) by simp
  then show ?thesis using text_index_occurs unfolding indexOf_def by metis
qed

lemma seg_occurs: "\<exists>u w. s = u @ seg s a b @ w"
  unfolding seg_def by (metis append_take_drop_id)

subsection \<open>What parts show\<close>

text \<open>
  The parts are the text from \<open>i\<close> to \<open>j\<close>: those with a value show it and have no position in \<open>sens\<close>,
  the others stand for positions in \<open>hid\<close>.
\<close>

fun shows_only :: "string \<Rightarrow> (int \<Rightarrow> bool) \<Rightarrow> (int \<Rightarrow> bool) \<Rightarrow> int \<Rightarrow> part list \<Rightarrow> int \<Rightarrow> bool" where
  "shows_only txt sens hid i [] j \<longleftrightarrow> i = j"
| "shows_only txt sens hid i (x # xs) j \<longleftrightarrow>
     (\<exists>k. i \<le> k \<and> k \<le> int (length txt) \<and>
        (case x of
           Value v source \<Rightarrow> v = seg txt i k \<and> (\<forall>p. i \<le> p \<and> p < k \<longrightarrow> \<not> sens p)
         | _ \<Rightarrow> (\<forall>p. i \<le> p \<and> p < k \<longrightarrow> hid p)) \<and>
        shows_only txt sens hid k xs j)"

lemma shows_only_append:
  "shows_only txt sens hid i (xs @ ys) j \<longleftrightarrow> (\<exists>k. shows_only txt sens hid i xs k \<and> shows_only txt sens hid k ys j)"
  by (induction xs arbitrary: i) auto

lemma shows_only_le: "shows_only txt sens hid i xs j \<Longrightarrow> i \<le> j"
  by (induction xs arbitrary: i) force+

lemma shows_value:
  assumes "shows_only txt sens hid i xs a" "0 \<le> a" "a \<le> b" "b \<le> int (length txt)" "\<And>p. a \<le> p \<Longrightarrow> p < b \<Longrightarrow> \<not> sens p"
  shows "shows_only txt sens hid i (xs @ [Value (seg txt a b) s]) b"
  using assms by (auto simp: shows_only_append)

lemma shows_hidden:
  assumes "shows_only txt sens hid i xs a" "a \<le> b" "b \<le> int (length txt)" "\<And>p. a \<le> p \<Longrightarrow> p < b \<Longrightarrow> hid p"
  shows "shows_only txt sens hid i (xs @ [Redacted]) b" "shows_only txt sens hid i (xs @ [Pattern n pat]) b"
  using assms by (auto simp: shows_only_append)

lemma shows_writeValuePart:
  assumes "shows_only txt sens hid i xs a" "0 \<le> a" "a \<le> b" "b \<le> int (length txt)" "\<And>p. a \<le> p \<Longrightarrow> p < b \<Longrightarrow> \<not> sens p"
  shows "shows_only txt sens hid i (writeValuePart (js_slice txt a b) s xs) b"
proof (cases "a = b")
  case True
  then show ?thesis using assms by (simp add: writeValuePart_def js_slice_seg seg_def)
next
  case False
  then have "seg txt a b \<noteq> []" using assms length_seg [of a b "txt"] by auto
  then show ?thesis using assms shows_value by (simp add: writeValuePart_def js_slice_seg)
qed

subsection \<open>Parts of a tainted range\<close>

definition inside :: "text_range \<Rightarrow> int \<Rightarrow> bool" where
  "inside r p \<longleftrightarrow> r_start r \<le> p \<and> p < r_end r"

text \<open>The placeholder is long enough for what is looked up in the value of the source.\<close>

definition placeholder_ok :: "string \<Rightarrow> string \<Rightarrow> string \<Rightarrow> bool" where
  "placeholder_ok placeholder sv pt \<longleftrightarrow>
     length placeholder = (if text_includes sv pt then length sv else length pt) \<and> (text_includes sv pt \<or> length sv \<le> length pt)"

text \<open>Ranges relative to a part of length \<open>n\<close>, in order from \<open>b\<close> on; the first may begin before the part.\<close>

fun cuts :: "int \<Rightarrow> int \<Rightarrow> text_range list \<Rightarrow> bool" where
  "cuts b n [] \<longleftrightarrow> True"
| "cuts b n (c # cs) \<longleftrightarrow> (r_start c \<le> 0 \<and> b = 0 \<or> b \<le> r_start c) \<and> max (r_start c) 0 < r_end c \<and> r_start c < n \<and>
     cuts (min (r_end c) n) n cs"

lemma cuts_start: "cuts b n cs \<Longrightarrow> 0 < b \<Longrightarrow> c \<in> set cs \<Longrightarrow> b \<le> r_start c"
  by (induction cs arbitrary: b) force+

lemma cuts_later: "cuts b n (c # cs) \<Longrightarrow> 0 < n \<Longrightarrow> d \<in> set cs \<Longrightarrow> min (r_end c) n \<le> r_start d"
  by (rule cuts_start [of _ n cs]) auto

lemma cuts_distinct: "cuts b n cs \<Longrightarrow> 0 < n \<Longrightarrow> distinct cs"
proof (induction cs arbitrary: b)
  case (Cons c cs)
  then show ?case using cuts_later [of b n c cs c] by auto
qed simp

lemma pattern_length:
  assumes ok: "placeholder_ok placeholder sv pt" and ab: "0 \<le> max a 0" "max a 0 < e" "a < int (length pt)"
    and sensitive: "sensitive = seg pt (max a 0) (min e (int (length pt)))"
  shows "length (if indexOf sv sensitive = -1 then js_substring placeholder a e
      else js_substring placeholder (indexOf sv sensitive) (indexOf sv sensitive + int (length sensitive))) = length sensitive"
proof -
  have len: "int (length sensitive) = min e (int (length pt)) - max a 0"
    unfolding sensitive using ab by (intro length_seg) auto
  obtain u w where "pt = u @ sensitive @ w" unfolding sensitive using seg_occurs by blast
  then have found: "text_includes sv pt \<Longrightarrow> indexOf sv sensitive \<noteq> -1" by (rule indexOf_within [rotated])
  show ?thesis
  proof (cases "indexOf sv sensitive = -1")
    case True
    then have "length placeholder = length pt" using found ok by (auto simp: placeholder_ok_def)
    then have "int (length (js_substring placeholder a e)) = int (length sensitive)"
      using len ab by (subst length_js_substring) auto
    then show ?thesis using True by simp
  next
    case False
    then have ix: "0 \<le> indexOf sv sensitive" "indexOf sv sensitive + int (length sensitive) \<le> int (length placeholder)"
      using indexOf_found [OF False] ok by (auto simp: placeholder_ok_def split: if_splits)
    then have "int (length (js_substring placeholder (indexOf sv sensitive) (indexOf sv sensitive + int (length sensitive)))) =
        int (length sensitive)"
      by (subst length_js_substring) auto
    then show ?thesis using False by simp
  qed
qed

lemma take_beyond: "min m (length xs) = min n (length xs) \<Longrightarrow> take m xs = take n xs"
  by (metis min_def take_all_iff le_cases nle_le)

lemma context_step_cut:
  assumes n: "n = int (length pt)" "0 < n" and b: "0 \<le> b" "b \<le> n" and cut: "cuts b n (c # cs)" and ok: "placeholder_ok placeholder sv pt"
  shows "\<exists>pat. context_step k sv placeholder c (parts, drop (nat b) pt, b) =
    (parts @ (if 0 < r_start c then [Value (seg pt b (r_start c)) (Some k)] else []) @ [Pattern k pat],
     drop (nat (min (r_end c) n)) pt, min (r_end c) n)"
proof -
  define a where "a = max (r_start c) 0"
  let ?e = "min (r_end c) n"
  have a: "a < r_end c" "b \<le> a" "a < n" "0 \<le> a" using cut b n(2) by (auto simp: a_def)
  have bc: "\<not> 0 < r_start c \<Longrightarrow> b = 0 \<and> a = 0" using cut b by (auto simp: a_def)
  define w where "w = (if 0 < r_start c then js_substring (drop (nat b) pt) (r_start c - b) (int (length (drop (nat b) pt))) else drop (nat b) pt)"
  have w: "w = drop (nat a) pt"
    using a b bc js_substring_to_end [of "r_start c - b" "drop (nat b) pt"]
    by (auto simp: w_def a_def simp del: length_drop simp flip: nat_add_distrib)
  have clear: "js_substring (drop (nat b) pt) 0 (r_start c - b) = seg pt b (r_start c)" if "0 < r_start c"
    using a that by (simp add: js_substring_from seg_def a_def)
  let ?s = "js_substring w (r_start c - a) (r_end c - a)"
  have s: "?s = seg pt a ?e"
  proof -
    have "r_start c - a \<le> 0" "0 \<le> r_end c - a" using a(1) by (simp_all add: a_def)
    then have "?s = take (nat (r_end c - a)) (drop (nat a) pt)" unfolding w by (rule js_substring_from)
    also have "\<dots> = seg pt a ?e" unfolding seg_def using a n by (intro take_beyond) (auto simp: min_def nat_le_iff)
    finally show ?thesis .
  qed
  let ?p = "if indexOf sv ?s = -1 then js_substring placeholder (r_start c) (r_end c)
      else js_substring placeholder (indexOf sv ?s) (indexOf sv ?s + int (length ?s))"
  have p: "length ?p = length ?s"
    using a n s cut by (intro pattern_length [OF ok]) (auto simp flip: a_def)
  have len: "int (length ?s) = ?e - a" unfolding s using a n by (intro length_seg) auto
  have e: "a + int (length ?p) = ?e" using p len by simp
  then have "length ?p + nat a = nat ?e" using a(4) by linarith
  moreover have "js_slice w (int (length ?p)) (int (length w)) = drop (length ?p + nat a) pt"
    by (subst js_slice_to_end) (simp_all only: w drop_drop nat_int of_nat_0_le_iff)
  ultimately have "js_slice w (int (length ?p)) (int (length w)) = drop (nat ?e) pt" by (simp only:)
  moreover have "context_step k sv placeholder c (parts, drop (nat b) pt, b) =
    (parts @ (if 0 < r_start c then [Value (seg pt b (r_start c)) (Some k)] else []) @ [Pattern k ?p],
     js_slice w (int (length ?p)) (int (length w)), a + int (length ?p))"
    using clear bc by (simp add: context_step_def w_def a_def Let_def)
  ultimately show ?thesis using e by metis
qed

lemma context_fold:
  assumes n: "n = int (length pt)" "0 < n" and pt: "pt = seg txt t0 (t0 + n)" "0 \<le> t0" "t0 + n \<le> int (length txt)"
    and ok: "placeholder_ok placeholder sv pt" and hid: "\<And>p. sens p \<Longrightarrow> hid p"
  shows "cuts b n cs \<Longrightarrow> 0 \<le> b \<Longrightarrow> b \<le> n \<Longrightarrow> shows_only txt sens hid i parts (t0 + b) \<Longrightarrow>
    \<forall>q. b \<le> q \<and> q < n \<longrightarrow> (sens (t0 + q) \<longleftrightarrow> (\<exists>c \<in> set cs. inside c q)) \<Longrightarrow>
    \<exists>parts' b'. fold (context_step k sv placeholder) cs (parts, drop (nat b) pt, b) = (parts', drop (nat b') pt, b') \<and>
      shows_only txt sens hid i parts' (t0 + b') \<and> 0 \<le> b' \<and> b' \<le> n \<and> (\<forall>q. b' \<le> q \<and> q < n \<longrightarrow> \<not> sens (t0 + q))"
proof (induction cs arbitrary: parts b)
  case Nil
  then show ?case by auto
next
  case (Cons c cs)
  let ?e = "min (r_end c) n"
  obtain pat where step: "context_step k sv placeholder c (parts, drop (nat b) pt, b) =
      (parts @ (if 0 < r_start c then [Value (seg pt b (r_start c)) (Some k)] else []) @ [Pattern k pat], drop (nat ?e) pt, ?e)"
    using context_step_cut [OF n Cons.prems(2,3,1) ok] by blast
  have later: "\<And>d. d \<in> set cs \<Longrightarrow> ?e \<le> r_start d" using cuts_later [OF Cons.prems(1) n(2)] by blast
  have c: "r_start c \<le> 0 \<and> b = 0 \<or> b \<le> r_start c" "max (r_start c) 0 < r_end c" "r_start c < n" "cuts ?e n cs"
    using Cons.prems(1) by simp_all
  have clear: "\<not> sens (t0 + q)" if "b \<le> q" "q < r_start c" for q
    using Cons.prems(5) c(2,3) later that by (fastforce simp: inside_def)
  have hidden: "hid p" if "t0 + max (r_start c) b \<le> p" "p < t0 + ?e" for p
  proof (rule hid)
    have "b \<le> p - t0" "p - t0 < n" "inside c (p - t0)" using that c by (auto simp: inside_def)
    then show "sens p" using Cons.prems(5) [rule_format, of "p - t0"] by auto
  qed
  have "shows_only txt sens hid i (parts @ (if 0 < r_start c then [Value (seg pt b (r_start c)) (Some k)] else []) @ [Pattern k pat]) (t0 + ?e)"
  proof (cases "0 < r_start c")
    case True
    then have "seg pt b (r_start c) = seg txt (t0 + b) (t0 + r_start c)"
      unfolding pt(1) using c pt Cons.prems(2) by (intro seg_seg) auto
    moreover have "shows_only txt sens hid i (parts @ [Value (seg txt (t0 + b) (t0 + r_start c)) (Some k)]) (t0 + r_start c)"
    proof (rule shows_value [OF Cons.prems(4)])
      show "\<not> sens p" if "t0 + b \<le> p" "p < t0 + r_start c" for p using clear [of "p - t0"] that by simp
    qed (use True c pt Cons.prems(2) in auto)
    ultimately show ?thesis
      using True shows_hidden(2) [of "txt" sens hid i "parts @ [Value (seg pt b (r_start c)) (Some k)]" "t0 + r_start c" "t0 + ?e" k pat]
        hidden c pt by (auto simp: max_def)
  next
    case False
    then have "b = 0" using c Cons.prems(2) by auto
    then show ?thesis
      using False shows_hidden(2) [OF Cons.prems(4), of "t0 + ?e" k pat] hidden c pt n(2) by (auto simp: max_def)
  qed
  moreover have "\<forall>q. ?e \<le> q \<and> q < n \<longrightarrow> (sens (t0 + q) \<longleftrightarrow> (\<exists>d \<in> set cs. inside d q))"
    using Cons.prems(5) c by (auto simp: inside_def)
  ultimately show ?case
    using Cons.IH [OF c(4)] c n step by (auto simp: min_def split: if_splits)
qed

lemma writeRedactedTainted_shows:
  assumes n: "n = r_end t - r_start t" "0 < n" "0 \<le> r_start t" "r_end t \<le> int (length txt)"
    and parts: "shows_only txt sens hid i parts (r_start t)" and hid: "\<And>p. sens p \<Longrightarrow> hid p"
    and value_ok: "text_includes (source_value src) (seg txt (r_start t) (r_end t)) \<or> length (source_value src) \<le> nat n"
    and pattern: "length (so_pattern src) = length (source_value src)"
    and sensible: "sensible \<Longrightarrow> \<forall>p. inside t p \<longrightarrow> hid p"
    and ctx: "\<not> sensible \<Longrightarrow> cuts 0 n c \<and> (\<forall>q. 0 \<le> q \<and> q < n \<longrightarrow> (sens (r_start t + q) \<longleftrightarrow> (\<exists>x \<in> set c. inside x q)))"
  shows "shows_only txt sens hid i (writeRedactedTainted k (seg txt (r_start t) (r_end t)) src c sensible parts) (r_end t)"
proof (cases sensible)
  case True
  then show ?thesis
    using shows_hidden(2) [OF parts, of "r_end t" k] sensible n by (auto simp: writeRedactedTainted_def inside_def Let_def)
next
  case False
  define pt where "pt = seg txt (r_start t) (r_end t)"
  have len: "n = int (length pt)" unfolding pt_def using n by (subst length_seg) auto
  define placeholder where
    "placeholder = (if text_includes (source_value src) pt then so_pattern src else replicate (length pt) (CHR ''*''))"
  have ok: "placeholder_ok placeholder (source_value src) pt"
    using value_ok pattern len by (auto simp: placeholder_ok_def placeholder_def simp flip: pt_def)
  have dist: "rev (remdups (rev c)) = c"
    using cuts_distinct ctx False n(2) by (metis distinct_rev distinct_remdups_id rev_rev_ident)
  have pt: "pt = seg txt (r_start t) (r_start t + n)" using n by (simp add: pt_def)
  obtain parts' b' where run: "fold (context_step k (source_value src) placeholder) c (parts, pt, 0) = (parts', drop (nat b') pt, b')"
      "shows_only txt sens hid i parts' (r_start t + b')" "0 \<le> b'" "b' \<le> n" "\<And>q. b' \<le> q \<Longrightarrow> q < n \<Longrightarrow> \<not> sens (r_start t + q)"
    using context_fold [where sens = sens and hid = hid, OF len n(2) pt n(3) _ ok hid, of 0 c i parts k] ctx False parts n
    by auto
  have "drop (nat b') pt = seg txt (r_start t + b') (r_end t)"
    using run(3,4) n by (simp add: pt_def seg_def drop_take nat_add_distrib add.commute nat_diff_distrib algebra_simps)
  moreover have "shows_only txt sens hid i (parts' @ [Value (seg txt (r_start t + b') (r_end t)) (Some k)]) (r_end t)"
  proof (rule shows_value [OF run(2)])
    show "\<not> sens p" if "r_start t + b' \<le> p" "p < r_end t" for p using run(5) [of "p - r_start t"] that n by simp
  qed (use run n in auto)
  moreover have "b' = n" if "drop (nat b') pt = []" using that run(3,4) len by auto
  ultimately show ?thesis
    using False run(1,2) n(1) by (auto simp: writeRedactedTainted_def dist Let_def simp flip: pt_def placeholder_def)
qed

subsection \<open>Sources\<close>

definition ctx_of :: "redaction \<Rightarrow> nat \<Rightarrow> text_range list" where
  "ctx_of st k = (case map_of (rd_context st) k of None \<Rightarrow> [] | Some c \<Rightarrow> c)"

text \<open>Exactly the sources that are listed were redacted.\<close>

definition sources_rel :: "iast_source list \<Rightarrow> nat list \<Rightarrow> iast_source list \<Rightarrow> bool" where
  "sources_rel sources0 redacted sources \<longleftrightarrow> length sources = length sources0 \<and> (\<forall>k < length sources0.
     sources ! k = (if k \<in> set redacted then redact_source (sources0 ! k) else sources0 ! k))"

lemma source_value_redact [simp]: "source_value (redact_source s) = source_value s"
  "isSensibleSource env (redact_source s) = isSensibleSource env s" "so_redacted (redact_source s)"
  "length (so_pattern (redact_source s)) = length (source_value s)"
  by (simp_all add: redact_source_def source_value_def isSensibleSource_def pad_pattern_def)

lemma sources_rel_at:
  assumes "sources_rel sources0 redacted sources" "k < length sources0"
  shows "isSensibleSource env (sources ! k) = isSensibleSource env (sources0 ! k)" "source_value (sources ! k) = source_value (sources0 ! k)"
    "so_redacted (sources ! k) \<longleftrightarrow> k \<in> set redacted \<or> so_redacted (sources0 ! k)"
    "k \<in> set redacted \<Longrightarrow> length (so_pattern (sources ! k)) = length (source_value (sources0 ! k))"
  using assms by (auto simp: sources_rel_def)

text \<open>The effect of redaction on the state: ranges are noted for one source, which is marked.\<close>

definition marks :: "iast_source list \<Rightarrow> nat \<Rightarrow> text_range list \<Rightarrow> redaction \<Rightarrow> redaction \<Rightarrow> bool" where
  "marks sources0 k cs st st' \<longleftrightarrow>
     rd_parts st' = rd_parts st \<and> rd_start st' = rd_start st \<and> rd_index st' = rd_index st \<and> rd_tainted st' = rd_tainted st \<and>
     rd_sensitive st' = rd_sensitive st \<and>
     (\<forall>j. ctx_of st' j = ctx_of st j @ (if j = k then cs else [])) \<and>
     sources_rel sources0 (rd_redacted st') (rd_sources st') \<and>
     set (rd_redacted st) \<subseteq> set (rd_redacted st') \<and> (cs \<noteq> [] \<longrightarrow> k \<in> set (rd_redacted st'))"

lemma marks_refl: "sources_rel sources0 (rd_redacted st) (rd_sources st) \<Longrightarrow> marks sources0 k [] st st"
  by (simp add: marks_def)

lemma marks_trans: "marks sources0 k cs st st' \<Longrightarrow> marks sources0 k ds st' st'' \<Longrightarrow> marks sources0 k (cs @ ds) st st''"
  by (auto simp: marks_def)

lemma marks_rel: "marks sources0 k cs st st' \<Longrightarrow> sources_rel sources0 (rd_redacted st') (rd_sources st')"
  by (simp add: marks_def)

lemma mark_source_marks:
  assumes "sources_rel sources0 (rd_redacted st) (rd_sources st)" "k < length sources0" "\<not> so_redacted (rd_sources st ! k)"
  shows "marks sources0 k [] st (mark_source k st)" "k \<in> set (rd_redacted (mark_source k st))"
  using assms by (auto simp: marks_def mark_source_def sources_rel_def ctx_of_def nth_list_update split: if_splits)

lemma ctx_of_push: "ctx_of (st\<lparr>rd_context := push_context k r (rd_context st)\<rparr>) j = ctx_of st j @ (if j = k then [r] else [])"
  by (auto simp: ctx_of_def push_context_def update_conv' split: option.splits)

lemma redactSource_marks:
  assumes rel: "sources_rel sources0 (rd_redacted st) (rd_sources st)" and k: "k < length sources0" "\<not> so_redacted (sources0 ! k)"
  shows "marks sources0 k [rng a b] st (redactSource (Some k) a b st)"
proof -
  define st1 where "st1 = (if \<not> so_redacted (rd_sources st ! k) then mark_source k st else st)"
  have m: "marks sources0 k [] st st1" "k \<in> set (rd_redacted st1)"
    using mark_source_marks [OF rel k(1)] marks_refl [OF rel] sources_rel_at(3) [OF rel k(1)] k(2) by (auto simp: st1_def)
  have "marks sources0 k [rng a b] st1 (st1\<lparr>rd_context := push_context k (rng a b) (rd_context st1)\<rparr>)"
    using m(2) marks_rel [OF m(1)] by (simp add: marks_def ctx_of_push)
  then show ?thesis using marks_trans [OF m(1)] by (simp add: redactSource_def st1_def Let_def)
qed

subsection \<open>Sensitive ranges in a tainted one\<close>

fun chain :: "int \<Rightarrow> int \<Rightarrow> text_range list \<Rightarrow> bool" where
  "chain lo hi [] \<longleftrightarrow> True"
| "chain lo hi (r # rs) \<longleftrightarrow> lo \<le> r_start r \<and> r_start r < r_end r \<and> r_end r \<le> hi \<and> chain (r_end r) hi rs"

lemma chain_lower: "chain lo hi rs \<Longrightarrow> lo' \<le> lo \<Longrightarrow> chain lo' hi rs"
  by (cases rs) auto

lemma chain_start: "chain lo hi rs \<Longrightarrow> r \<in> set rs \<Longrightarrow> lo \<le> r_start r"
  by (induction rs arbitrary: lo) force+

lemma chain_nonempty: "chain lo hi rs \<Longrightarrow> r \<in> set rs \<Longrightarrow> r_start r < r_end r \<and> r_end r \<le> hi"
  by (induction rs arbitrary: lo) auto

definition covered :: "text_range list \<Rightarrow> int \<Rightarrow> bool" where
  "covered rs p \<longleftrightarrow> (\<exists>r \<in> set rs. inside r p)"

lemma covered_simps [simp]: "covered [] p \<longleftrightarrow> False" "covered (r # rs) p \<longleftrightarrow> inside r p \<or> covered rs p"
  by (auto simp: covered_def)

lemma covered_chain: "chain lo hi rs \<Longrightarrow> covered rs p \<Longrightarrow> lo \<le> p \<and> p < hi"
  using chain_start chain_nonempty by (fastforce simp: covered_def inside_def)

definition shift :: "text_range \<Rightarrow> text_range \<Rightarrow> text_range" where
  "shift t s = rng (r_start s - r_start t) (r_end s - r_start t)"

lemma shift_simps [simp]: "r_start (shift t s) = r_start s - r_start t" "r_end (shift t s) = r_end s - r_start t"
  "r_start (rng a b) = a" "r_end (rng a b) = b"
  by (simp_all add: shift_def rng_def)

text \<open>The ranges that overlap a tainted one, and what remains behind it\<close>

fun split_ranges :: "text_range \<Rightarrow> text_range list \<Rightarrow> text_range list \<times> text_range list" where
  "split_ranges t [] = ([], [])"
| "split_ranges t (s # ss) =
     (if range_contains t s then (s # fst (split_ranges t ss), snd (split_ranges t ss))
      else if intersects s t then ([s], rng (r_end t) (r_end s) # ss) else ([], s # ss))"

lemma split_cuts:
  "chain (r_start t + b) hi ss \<Longrightarrow> 0 \<le> b \<Longrightarrow> n = r_end t - r_start t \<Longrightarrow>
   cuts (min b n) n (map (shift t) (fst (split_ranges t ss)))"
proof (induction ss arbitrary: b)
  case (Cons s ss)
  then show ?case using Cons.IH [of "r_end s - r_start t"]
    by (auto simp: range_contains_def intersects_def min_def split: if_splits)
qed simp

lemma split_chain:
  "chain lo hi ss \<Longrightarrow> r_start t \<le> lo \<Longrightarrow> chain (r_end t) hi (snd (split_ranges t ss))"
proof (induction ss arbitrary: lo)
  case (Cons s ss)
  then show ?case using Cons.IH [of "r_end s"] by (auto simp: range_contains_def intersects_def split: if_splits)
qed simp

lemma split_covered:
  assumes "chain lo hi ss" "r_start t \<le> lo"
  shows "p < r_end t \<Longrightarrow> covered (fst (split_ranges t ss)) p \<longleftrightarrow> covered ss p"
    and "r_end t \<le> p \<Longrightarrow> covered (snd (split_ranges t ss)) p \<longleftrightarrow> covered ss p"
proof -
  have "(p < r_end t \<longrightarrow> (covered (fst (split_ranges t ss)) p \<longleftrightarrow> covered ss p)) \<and>
      (r_end t \<le> p \<longrightarrow> (covered (snd (split_ranges t ss)) p \<longleftrightarrow> covered ss p))"
    using assms
  proof (induction ss arbitrary: lo)
    case (Cons s ss)
    then have IH: "(p < r_end t \<longrightarrow> (covered (fst (split_ranges t ss)) p \<longleftrightarrow> covered ss p)) \<and>
      (r_end t \<le> p \<longrightarrow> (covered (snd (split_ranges t ss)) p \<longleftrightarrow> covered ss p))" by (intro Cons.IH [of "r_end s"]) auto
    have tail: "covered ss p \<Longrightarrow> r_end s \<le> p" using Cons.prems covered_chain [of "r_end s" hi ss p] by auto
    show ?case
      using Cons.prems IH tail by (auto simp: range_contains_def intersects_def inside_def split: if_splits)
  qed simp
  then show "p < r_end t \<Longrightarrow> covered (fst (split_ranges t ss)) p \<longleftrightarrow> covered ss p"
    "r_end t \<le> p \<Longrightarrow> covered (snd (split_ranges t ss)) p \<longleftrightarrow> covered ss p" by auto
qed

lemma consume_split:
  assumes "chain lo hi ss" "r_start t \<le> lo" "sources_rel sources0 (rd_redacted st) (rd_sources st)"
    and k: "k < length sources0" "\<not> so_redacted (sources0 ! k)"
  shows "\<exists>Q st1 st2. consume_contained t (Some k) ss st = (Q, st1) \<and>
    consume_overlapping t (Some k) Q st1 = (snd (split_ranges t ss), st2) \<and>
    marks sources0 k (map (shift t) (fst (split_ranges t ss))) st st2"
  using assms(1-3)
proof (induction ss arbitrary: lo st)
  case Nil
  then show ?case by (simp add: consume_overlapping_def marks_refl)
next
  case (Cons s ss)
  let ?r = "redactSource (Some k) (r_start s - r_start t) (r_end s - r_start t)"
  have r: "marks sources0 k [shift t s] st (?r st)" unfolding shift_def by (rule redactSource_marks [OF Cons.prems(3) k])
  show ?case
  proof (cases "range_contains t s")
    case True
    obtain Q st1 st2 where IH: "consume_contained t (Some k) ss (?r st) = (Q, st1)"
        "consume_overlapping t (Some k) Q st1 = (snd (split_ranges t ss), st2)"
        "marks sources0 k (map (shift t) (fst (split_ranges t ss))) (?r st) st2"
      using Cons.IH [of "r_end s" "?r st"] Cons.prems marks_rel [OF r] by auto
    then show ?thesis using True Cons.prems(1) marks_trans [OF r IH(3)] by (simp add: Let_def)
  next
    case False
    then show ?thesis using r Cons.prems marks_refl [OF Cons.prems(3)]
      by (auto simp: consume_overlapping_def range_remove_def intersects_def range_contains_def rng_def split: if_splits)
  qed
qed

lemma redact_sensible_marks:
  assumes "sources_rel sources0 (rd_redacted st) (rd_sources st)" "k < length sources0" "\<not> so_redacted (sources0 ! k)"
  shows "marks sources0 k [] st (redact_sensible env (Some k) st)"
    "isSensibleSource env (sources0 ! k) \<Longrightarrow> k \<in> set (rd_redacted (redact_sensible env (Some k) st))"
  using assms mark_source_marks [of sources0 st k] marks_refl [of sources0 st k] sources_rel_at [of sources0 "rd_redacted st" "rd_sources st" k]
  by (auto simp: redact_sensible_def)

subsection \<open>The invariant of the loop\<close>

text \<open>Ranges are in order and within the text, and a value of a source has its part of the text in it, or is not longer.\<close>

definition evidence_ok :: "string \<Rightarrow> text_range list \<Rightarrow> text_range list \<Rightarrow> nat list \<Rightarrow> iast_source list \<Rightarrow> bool" where
  "evidence_ok txt ranges sensitive idx sources0 \<longleftrightarrow>
     chain 0 (int (length txt)) ranges \<and> chain 0 (int (length txt)) sensitive \<and> length idx = length ranges \<and>
     (\<forall>j < length ranges. idx ! j < length sources0 \<and> \<not> so_redacted (sources0 ! (idx ! j)) \<and>
        (let v = source_value (sources0 ! (idx ! j)); pt = seg txt (r_start (ranges ! j)) (r_end (ranges ! j))
         in text_includes v pt \<or> length v \<le> length pt))"

definition may_hide :: "redaction_env \<Rightarrow> text_range list \<Rightarrow> text_range list \<Rightarrow> nat list \<Rightarrow> iast_source list \<Rightarrow> int \<Rightarrow> bool" where
  "may_hide env ranges sensitive idx sources0 p \<longleftrightarrow> covered sensitive p \<or>
     (\<exists>j < length ranges. inside (ranges ! j) p \<and> isSensibleSource env (sources0 ! (idx ! j)))"

text \<open>
  \<open>c\<close> are the ranges noted for the next tainted range: a sensitive range that began before it, and then
  the loop is at its start, and the first \<open>b\<close> positions are sensitive.
\<close>

definition queue_ok :: "string \<Rightarrow> text_range list \<Rightarrow> nat list \<Rightarrow> int \<Rightarrow> redaction \<Rightarrow> text_range list \<Rightarrow> int \<Rightarrow> bool" where
  "queue_ok txt sensitive idx i st c b \<longleftrightarrow>
     (\<forall>k. ctx_of st k = (if rd_tainted st \<noteq> [] \<and> k = idx ! rd_index st then c else [])) \<and>
     (c = [] \<and> b = 0 \<or>
      rd_tainted st \<noteq> [] \<and> i = r_start (hd (rd_tainted st)) \<and> idx ! rd_index st \<in> set (rd_redacted st) \<and>
      (\<exists>a e. c = [rng a e] \<and> a < 0 \<and> 0 < e \<and> b = min e (r_end (hd (rd_tainted st)) - i))) \<and>
     chain (i + b) (int (length txt)) (rd_sensitive st) \<and>
     (\<forall>p. i \<le> p \<longrightarrow> (covered sensitive p \<longleftrightarrow> covered (rd_sensitive st) p \<or> p < i + b))"

definition loop_inv ::
    "redaction_env \<Rightarrow> string \<Rightarrow> text_range list \<Rightarrow> text_range list \<Rightarrow> nat list \<Rightarrow> iast_source list \<Rightarrow> int \<Rightarrow> redaction \<Rightarrow> bool" where
  "loop_inv env txt ranges sensitive idx sources0 i st \<longleftrightarrow>
     shows_only txt (covered sensitive) (may_hide env ranges sensitive idx sources0) 0 (rd_parts st) (rd_start st) \<and>
     0 \<le> rd_start st \<and> rd_start st \<le> i \<and> i \<le> int (length txt) \<and> (\<forall>p. rd_start st \<le> p \<and> p < i \<longrightarrow> \<not> covered sensitive p) \<and>
     rd_index st \<le> length ranges \<and> rd_tainted st = drop (rd_index st) ranges \<and> chain i (int (length txt)) (rd_tainted st) \<and>
     sources_rel sources0 (rd_redacted st) (rd_sources st) \<and>
     (\<forall>j < rd_index st. \<forall>p. inside (ranges ! j) p \<and> (covered sensitive p \<or> isSensibleSource env (sources0 ! (idx ! j))) \<longrightarrow>
        idx ! j \<in> set (rd_redacted st)) \<and>
     (\<exists>c b. queue_ok txt sensitive idx i st c b)"

lemma loop_invI:
  assumes "rd_start st = i" "0 \<le> i" "i \<le> int (length txt)"
    and "shows_only txt (covered sensitive) (may_hide env ranges sensitive idx sources0) 0 (rd_parts st) i"
    and "rd_index st \<le> length ranges" "rd_tainted st = drop (rd_index st) ranges" "chain i (int (length txt)) (rd_tainted st)"
    and "sources_rel sources0 (rd_redacted st) (rd_sources st)" "queue_ok txt sensitive idx i st c b"
    and "\<And>j p. j < rd_index st \<Longrightarrow> inside (ranges ! j) p \<Longrightarrow>
      covered sensitive p \<or> isSensibleSource env (sources0 ! (idx ! j)) \<Longrightarrow> idx ! j \<in> set (rd_redacted st)"
  shows "loop_inv env txt ranges sensitive idx sources0 i st"
  using assms unfolding loop_inv_def by auto

lemma loop_inv_pending:
  assumes "loop_inv env txt ranges sensitive idx sources0 i st"
  shows "shows_only txt (covered sensitive) (may_hide env ranges sensitive idx sources0) 0
    (writeValuePart (js_slice txt (rd_start st) i) s (rd_parts st)) i"
  using assms by (intro shows_writeValuePart) (auto simp: loop_inv_def)

lemma loop_inv_skip:
  assumes inv: "loop_inv env txt ranges sensitive idx sources0 i st" and i: "i < int (length txt)"
    and t: "rd_tainted st = [] \<or> r_start (hd (rd_tainted st)) \<noteq> i" and s: "rd_sensitive st = [] \<or> r_start (hd (rd_sensitive st)) \<noteq> i"
  shows "loop_inv env txt ranges sensitive idx sources0 (i + 1) st"
proof -
  obtain c b where q: "queue_ok txt sensitive idx i st c b" using inv by (auto simp: loop_inv_def)
  then have b: "c = [] \<and> b = 0" using t by (auto simp: queue_ok_def)
  have beyond: "chain (i + 1) (int (length txt)) rs" if "chain i (int (length txt)) rs" "rs = [] \<or> r_start (hd rs) \<noteq> i" for rs
    using that by (cases rs) auto
  have Q: "chain (i + 1) (int (length txt)) (rd_sensitive st)" using q b s by (intro beyond) (auto simp: queue_ok_def)
  then have "\<not> covered (rd_sensitive st) i" using covered_chain by fastforce
  then have "\<not> covered sensitive i" using q b by (auto simp: queue_ok_def)
  moreover have "queue_ok txt sensitive idx (i + 1) st c b" using q b Q by (auto simp: queue_ok_def)
  moreover have "chain (i + 1) (int (length txt)) (rd_tainted st)" using inv t by (intro beyond) (auto simp: loop_inv_def)
  moreover have "\<not> covered sensitive p" if "rd_start st \<le> p" "p < i + 1" for p
    using that calculation(1) inv by (cases "p = i") (auto simp: loop_inv_def)
  ultimately show ?thesis using inv i unfolding loop_inv_def by auto
qed

lemma evidence_source:
  assumes "evidence_ok txt ranges sensitive idx sources0" "j < length ranges"
  shows "source_at idx j = Some (idx ! j)" "idx ! j < length sources0" "\<not> so_redacted (sources0 ! (idx ! j))"
  using assms by (auto simp: evidence_ok_def source_at_def)

lemma loop_inv_next:
  assumes inv: "loop_inv env txt ranges sensitive idx sources0 i st" and t: "rd_tainted st = t # ts"
  shows "rd_index st < length ranges" "t = ranges ! rd_index st" "ts = drop (Suc (rd_index st)) ranges"
    "i \<le> r_start t" "r_start t < r_end t" "r_end t \<le> int (length txt)" "chain (r_end t) (int (length txt)) ts"
proof -
  have "rd_tainted st = drop (rd_index st) ranges" "chain i (int (length txt)) (rd_tainted st)"
    using inv unfolding loop_inv_def by blast+
  then have d: "drop (rd_index st) ranges = t # ts" "chain i (int (length txt)) (t # ts)" using t by simp_all
  show l: "rd_index st < length ranges" using d(1) by (metis drop_all leI list.distinct(1))
  show "t = ranges ! rd_index st" "ts = drop (Suc (rd_index st)) ranges" using d(1) Cons_nth_drop_Suc [OF l] by auto
  show "i \<le> r_start t" "r_start t < r_end t" "r_end t \<le> int (length txt)" "chain (r_end t) (int (length txt)) ts" using d(2) by auto
qed

lemma sensitive_step_plain:
  assumes "rd_sensitive st = s # ss" "rd_tainted st = [] \<or> \<not> intersects s (hd (rd_tainted st))"
  shows "sensitive_step txt idx s i st =
    (st\<lparr>rd_parts := writeValuePart (js_slice txt (rd_start st) i) (rd_source st) (rd_parts st) @ [Redacted],
       rd_start := i + (r_end s - r_start s), rd_sensitive := ss\<rparr>, i + (r_end s - r_start s) - 1)"
  using assms by (cases "rd_tainted st") (auto simp: sensitive_step_def Let_def)

lemma loop_inv_sensitive_plain:
  assumes inv: "loop_inv env txt ranges sensitive idx sources0 i st"
    and t: "rd_tainted st = [] \<or> r_start (hd (rd_tainted st)) \<noteq> i" and s: "rd_sensitive st = s # ss" "r_start s = i"
    and apart: "rd_tainted st = [] \<or> \<not> intersects s (hd (rd_tainted st))" and step: "sensitive_step txt idx s i st = (st', i')"
  shows "loop_inv env txt ranges sensitive idx sources0 (i' + 1) st'" "i \<le> i'"
proof -
  obtain c b where q: "queue_ok txt sensitive idx i st c b" using inv by (auto simp: loop_inv_def)
  then have b: "c = [] \<and> b = 0" using t by (auto simp: queue_ok_def)
  have Q: "i < r_end s" "r_end s \<le> int (length txt)" "chain (r_end s) (int (length txt)) ss" using q s b by (auto simp: queue_ok_def)
  have cov: "covered sensitive p \<longleftrightarrow> inside s p \<or> covered ss p" if "i \<le> p" for p using q s b that by (auto simp: queue_ok_def)
  have st': "st' = st\<lparr>rd_parts := writeValuePart (js_slice txt (rd_start st) i) (rd_source st) (rd_parts st) @ [Redacted],
      rd_start := r_end s, rd_sensitive := ss\<rparr>" and i': "i' + 1 = r_end s"
    using step s(2) by (simp_all add: sensitive_step_plain [OF s(1) apart])
  have "shows_only txt (covered sensitive) (may_hide env ranges sensitive idx sources0) 0 (rd_parts st') (r_end s)"
    unfolding st' using Q cov s(2)
    by simp (rule shows_hidden(1) [OF loop_inv_pending [OF inv]], auto simp: may_hide_def inside_def)
  moreover have "chain (r_end s) (int (length txt)) (rd_tainted st)"
  proof (cases "rd_tainted st")
    case (Cons t ts)
    then show ?thesis using loop_inv_next [OF inv Cons] apart s(2) by (auto simp: intersects_def)
  qed simp
  moreover have "queue_ok txt sensitive idx (r_end s) st' [] 0"
    unfolding queue_ok_def
  proof (intro conjI allI impI)
    show "covered sensitive p \<longleftrightarrow> covered (rd_sensitive st') p \<or> p < r_end s + 0" if "r_end s \<le> p" for p
      using cov [of p] that Q(1) by (auto simp: st' inside_def)
  qed (use q b Q in \<open>auto simp: queue_ok_def st' ctx_of_def\<close>)
  ultimately show "loop_inv env txt ranges sensitive idx sources0 (i' + 1) st'"
    using inv Q unfolding i' loop_inv_def by (auto simp: st')
  show "i \<le> i'" using i' Q by simp
qed

lemma sensitive_step_across:
  assumes "rd_sensitive st = s # ss" "rd_tainted st = t # ts" "r_start s = i" "i < r_start t" "r_start t < r_end s" "r_start t < r_end t"
    and "source_at idx (rd_index st) = Some k"
  shows "sensitive_step txt idx s i st =
    (let st1 = redactSource (Some k) (i - r_start t) (r_end s - r_start t)
           (st\<lparr>rd_parts := writeValuePart (js_slice txt (rd_start st) i) (rd_source st) (rd_parts st), rd_source := Some k\<rparr>)
     in (st1\<lparr>rd_parts := rd_parts st1 @ [Redacted], rd_start := r_start t,
             rd_sensitive := (if r_end t < r_end s then [rng (r_end t) (r_end s)] else []) @ ss\<rparr>, r_start t - 1))"
  using assms by (simp add: sensitive_step_def range_remove_def intersects_def range_contains_def Let_def)

lemma loop_inv_sensitive_across:
  assumes ev: "evidence_ok txt ranges sensitive idx sources0" and inv: "loop_inv env txt ranges sensitive idx sources0 i st"
    and t: "rd_tainted st = t # ts" "r_start t \<noteq> i" and s: "rd_sensitive st = s # ss" "r_start s = i"
    and across: "r_start t < r_end s" and step: "sensitive_step txt idx s i st = (st', i')"
  shows "loop_inv env txt ranges sensitive idx sources0 (i' + 1) st'" "i \<le> i'"
proof -
  let ?k = "idx ! rd_index st"
  note n = loop_inv_next [OF inv t(1)]
  note k = evidence_source [OF ev n(1)]
  have it: "i < r_start t" using n(4) t(2) by simp
  obtain c b where q: "queue_ok txt sensitive idx i st c b" using inv by (auto simp: loop_inv_def)
  then have b: "c = [] \<and> b = 0" using t by (auto simp: queue_ok_def)
  have Q: "i < r_end s" "r_end s \<le> int (length txt)" "chain (r_end s) (int (length txt)) ss" using q s b by (auto simp: queue_ok_def)
  have cov: "covered sensitive p \<longleftrightarrow> inside s p \<or> covered ss p" if "i \<le> p" for p using q s b that by (auto simp: queue_ok_def)
  define st0 where "st0 = st\<lparr>rd_parts := writeValuePart (js_slice txt (rd_start st) i) (rd_source st) (rd_parts st), rd_source := Some ?k\<rparr>"
  define st1 where "st1 = redactSource (Some ?k) (i - r_start t) (r_end s - r_start t) st0"
  have m: "marks sources0 ?k [rng (i - r_start t) (r_end s - r_start t)] st0 st1"
    unfolding st1_def using inv k by (intro redactSource_marks) (auto simp: loop_inv_def st0_def)
  have st': "st' = st1\<lparr>rd_parts := rd_parts st1 @ [Redacted], rd_start := r_start t,
      rd_sensitive := (if r_end t < r_end s then [rng (r_end t) (r_end s)] else []) @ ss\<rparr>" and i': "i' + 1 = r_start t"
    using step sensitive_step_across [OF s(1) t(1) s(2) it across n(5) k(1), of "txt"] by (simp_all add: st1_def st0_def Let_def)
  have fields: "rd_parts st1 = rd_parts st0" "rd_index st1 = rd_index st" "rd_tainted st1 = rd_tainted st"
      "set (rd_redacted st) \<subseteq> set (rd_redacted st1)" "?k \<in> set (rd_redacted st1)"
    and rel: "sources_rel sources0 (rd_redacted st1) (rd_sources st1)"
    and ctx: "\<And>j. ctx_of st1 j = (if j = ?k then [rng (i - r_start t) (r_end s - r_start t)] else [])"
    using m q b by (auto simp: marks_def st0_def queue_ok_def ctx_of_def)
  have "shows_only txt (covered sensitive) (may_hide env ranges sensitive idx sources0) 0 (rd_parts st') (r_start t)"
    unfolding st' using Q cov s(2) it n across
    by (simp add: fields(1) st0_def) (rule shows_hidden(1) [OF loop_inv_pending [OF inv]], auto simp: may_hide_def inside_def)
  moreover have "queue_ok txt sensitive idx (r_start t) st' [rng (i - r_start t) (r_end s - r_start t)] (min (r_end s - r_start t) (r_end t - r_start t))"
    unfolding queue_ok_def
  proof (intro conjI allI impI disjI2)
    show "chain (r_start t + min (r_end s - r_start t) (r_end t - r_start t)) (int (length txt)) (rd_sensitive st')"
      using Q by (auto simp: st' min_def intro: chain_lower)
    show "covered sensitive p \<longleftrightarrow> covered (rd_sensitive st') p \<or> p < r_start t + min (r_end s - r_start t) (r_end t - r_start t)"
      if "r_start t \<le> p" for p
      using cov [of p] that it s(2) by (auto simp: st' inside_def min_def)
    show "\<exists>a e. [rng (i - r_start t) (r_end s - r_start t)] = [rng a e] \<and> a < 0 \<and> 0 < e \<and>
        min (r_end s - r_start t) (r_end t - r_start t) = min e (r_end (hd (rd_tainted st')) - r_start t)"
      using it across fields(3) t(1) by (intro exI [of _ "i - r_start t"] exI [of _ "r_end s - r_start t"]) (simp add: st')
  qed (use ctx fields t(1) in \<open>simp_all add: st' ctx_of_def\<close>)
  moreover have "rd_tainted st' = drop (rd_index st') ranges" "rd_index st' = rd_index st"
    using fields inv by (simp_all add: st' loop_inv_def)
  moreover have "idx ! j \<in> set (rd_redacted st')"
    if "j < rd_index st'" "inside (ranges ! j) p" "covered sensitive p \<or> isSensibleSource env (sources0 ! (idx ! j))" for j p
    using inv that fields by (auto simp: st' loop_inv_def)
  moreover have "sources_rel sources0 (rd_redacted st') (rd_sources st')" "rd_start st' = r_start t" using rel by (simp_all add: st')
  moreover have "rd_tainted st' = t # ts" using fields t(1) by (simp add: st')
  then have "chain (r_start t) (int (length txt)) (rd_tainted st')" using n(5-7) by simp
  moreover have "0 \<le> r_start t" using it inv by (simp add: loop_inv_def)
  ultimately show "loop_inv env txt ranges sensitive idx sources0 (i' + 1) st'"
    unfolding i' using n by (intro loop_invI) auto
  show "i \<le> i'" using i' it by simp
qed

lemma inside_shift: "inside (shift t s) q \<longleftrightarrow> inside s (r_start t + q)"
  by (auto simp: inside_def)

text \<open>The ranges noted for a tainted range, when the loop has passed the sensitive ones\<close>

lemma tainted_context:
  assumes q: "queue_ok txt sensitive idx i st c b" and t: "rd_tainted st = t # ts" "r_start t = i" "i < r_end t"
    and n: "n = r_end t - i" and D: "D = map (shift t) (fst (split_ranges t (rd_sensitive st)))"
  shows "0 \<le> b" "b \<le> n" "cuts 0 n (c @ D)" "c \<noteq> [] \<Longrightarrow> idx ! rd_index st \<in> set (rd_redacted st)"
    and "\<forall>x. 0 \<le> x \<and> x < n \<longrightarrow> (covered sensitive (i + x) \<longleftrightarrow> (\<exists>d \<in> set (c @ D). inside d x))"
proof -
  have c: "c = [] \<and> b = 0 \<or> (\<exists>a e. c = [rng a e] \<and> a < 0 \<and> 0 < e \<and> b = min e n)"
    and ch: "chain (r_start t + b) (int (length txt)) (rd_sensitive st)"
    and cov: "\<And>p. i \<le> p \<Longrightarrow> covered sensitive p \<longleftrightarrow> covered (rd_sensitive st) p \<or> p < i + b"
    using q t n by (auto simp: queue_ok_def)
  show b: "0 \<le> b" "b \<le> n" using c n t by auto
  show "c \<noteq> [] \<Longrightarrow> idx ! rd_index st \<in> set (rd_redacted st)" using q by (auto simp: queue_ok_def)
  have "cuts (min b n) n D" unfolding D using split_cuts [OF ch b(1)] n t(2) by simp
  then show "cuts 0 n (c @ D)" using c b n t by (auto simp: min_absorb1)
  show "\<forall>x. 0 \<le> x \<and> x < n \<longrightarrow> (covered sensitive (i + x) \<longleftrightarrow> (\<exists>d \<in> set (c @ D). inside d x))"
  proof (intro allI impI)
    fix x assume x: "0 \<le> x \<and> x < n"
    have "covered (rd_sensitive st) (i + x) \<longleftrightarrow> (\<exists>d \<in> set D. inside d x)"
      using split_covered(1) [OF ch, of t "i + x"] x b n t(2) by (simp add: D covered_def inside_shift)
    moreover have "x < b \<longleftrightarrow> (\<exists>d \<in> set c. inside d x)" using c x by (auto simp: inside_def)
    ultimately show "covered sensitive (i + x) \<longleftrightarrow> (\<exists>d \<in> set (c @ D). inside d x)" using cov [of "i + x"] x by auto
  qed
qed

lemma write_tainted_shows:
  assumes ev: "evidence_ok txt ranges sensitive idx sources0" and j: "j < length ranges" "t = ranges ! j" "k = idx ! j"
    and t: "0 \<le> r_start t" "r_start t < r_end t" "r_end t \<le> int (length txt)"
    and rel: "sources_rel sources0 (rd_redacted st) (rd_sources st)"
    and parts: "shows_only txt (covered sensitive) (may_hide env ranges sensitive idx sources0) 0 (rd_parts st) (r_start t)"
    and marked: "ctx_of st k \<noteq> [] \<or> isSensibleSource env (sources0 ! k) \<Longrightarrow> k \<in> set (rd_redacted st)"
    and cut: "cuts 0 (r_end t - r_start t) (ctx_of st k)"
    and cov: "\<forall>x. 0 \<le> x \<and> x < r_end t - r_start t \<longrightarrow> (covered sensitive (r_start t + x) \<longleftrightarrow> (\<exists>d \<in> set (ctx_of st k). inside d x))"
  shows "shows_only txt (covered sensitive) (may_hide env ranges sensitive idx sources0) 0
      (rd_parts (write_tainted env txt (Some k) t (r_start t) st)) (r_end t)"
proof (cases "k \<in> set (rd_redacted st)")
  case True
  let ?src = "rd_sources st ! k"
  have k: "k < length sources0" using evidence_source [OF ev j(1)] j(3) by simp
  note src = sources_rel_at [OF rel k]
  have "text_includes (source_value ?src) (seg txt (r_start t) (r_end t)) \<or> length (source_value ?src) \<le> nat (r_end t - r_start t)"
  proof -
    have "length (seg txt (r_start t) (r_end t)) = nat (r_end t - r_start t)"
      using length_seg [of "r_start t" "r_end t" "txt"] t by linarith
    moreover have "text_includes (source_value (sources0 ! k)) (seg txt (r_start t) (r_end t)) \<or>
        length (source_value (sources0 ! k)) \<le> length (seg txt (r_start t) (r_end t))"
      using ev j(1) unfolding j(2,3) evidence_ok_def Let_def by blast
    ultimately show ?thesis unfolding src(2) by simp
  qed
  moreover have "isSensibleSource env ?src \<Longrightarrow> \<forall>p. inside t p \<longrightarrow> may_hide env ranges sensitive idx sources0 p"
    using j(1) unfolding src(1) unfolding j(2,3) may_hide_def by blast
  ultimately have "shows_only txt (covered sensitive) (may_hide env ranges sensitive idx sources0) 0
      (writeRedactedTainted k (seg txt (r_start t) (r_end t)) ?src (ctx_of st k) (isSensibleSource env ?src) (rd_parts st)) (r_end t)"
    using t cut cov src(2,4) True
    by (intro writeRedactedTainted_shows [OF refl _ t(1) t(3) parts]) (auto simp: may_hide_def)
  then show ?thesis using True t by (simp add: write_tainted_def ctx_of_def js_slice_seg)
next
  case False
  then have "ctx_of st k = []" using marked by auto
  then have "\<not> covered sensitive p" if "r_start t \<le> p" "p < r_end t" for p
    using cov [rule_format, of "p - r_start t"] that by simp
  then have "shows_only txt (covered sensitive) (may_hide env ranges sensitive idx sources0) 0
      (writeValuePart (js_slice txt (r_start t) (r_end t)) (Some k) (rd_parts st)) (r_end t)"
    using t by (intro shows_writeValuePart [OF parts]) auto
  then show ?thesis using False t by (simp add: write_tainted_def min_absorb1)
qed

lemma write_tainted_fields:
  "rd_redacted (write_tainted env txt si t i st) = rd_redacted st" "rd_sources (write_tainted env txt si t i st) = rd_sources st"
  "rd_index (write_tainted env txt si t i st) = rd_index st" "rd_tainted (write_tainted env txt si t i st) = rd_tainted st"
  "ctx_of (write_tainted env txt (Some k) t i st) j = (if j = k \<and> k \<in> set (rd_redacted st) then [] else ctx_of st j)"
  by (auto simp: write_tainted_def ctx_of_def update_conv' Let_def split: option.splits)

lemma loop_inv_tainted:
  assumes ev: "evidence_ok txt ranges sensitive idx sources0" and inv: "loop_inv env txt ranges sensitive idx sources0 i st"
    and t: "rd_tainted st = t # ts" "r_start t = i" and step: "tainted_step env txt idx t i st = (st', i')"
  shows "loop_inv env txt ranges sensitive idx sources0 (i' + 1) st'" "i \<le> i'"
proof -
  define k where "k = idx ! rd_index st"
  note n = loop_inv_next [OF inv t(1)]
  note k = evidence_source [OF ev n(1), folded k_def]
  obtain c b where q: "queue_ok txt sensitive idx i st c b" using inv by (auto simp: loop_inv_def)
  define D where "D = map (shift t) (fst (split_ranges t (rd_sensitive st)))"
  note ctx = tainted_context [OF q t _ refl D_def, folded k_def]
  have ch: "chain (i + b) (int (length txt)) (rd_sensitive st)" using q by (simp add: queue_ok_def)
  define st0 where "st0 = st\<lparr>rd_parts := writeValuePart (js_slice txt (rd_start st) i) (rd_source st) (rd_parts st)\<rparr>"
  have rel0: "sources_rel sources0 (rd_redacted st0) (rd_sources st0)" using inv by (simp add: loop_inv_def st0_def)
  have ib: "r_start t \<le> i + b" using ctx(1) n t(2) by simp
  obtain Q st1 st2 where run: "consume_contained t (Some k) (rd_sensitive st) st0 = (Q, st1)"
      "consume_overlapping t (Some k) Q st1 = (snd (split_ranges t (rd_sensitive st)), st2)" "marks sources0 k D st0 st2"
    using consume_split [OF ch ib rel0 k(2,3)] unfolding D_def by blast
  define st3 where "st3 = redact_sensible env (Some k) st2"
  have m: "marks sources0 k (D @ []) st0 st3" and sensible: "isSensibleSource env (sources0 ! k) \<Longrightarrow> k \<in> set (rd_redacted st3)"
    unfolding st3_def using redact_sensible_marks [OF marks_rel [OF run(3)] k(2,3), of env] marks_trans [OF run(3)] by blast+
  define st4 where "st4 = write_tainted env txt (Some k) t i st3"
  have st': "st' = st4\<lparr>rd_start := r_end t, rd_tainted := tl (rd_tainted st4), rd_index := rd_index st4 + 1, rd_source := None,
      rd_sensitive := snd (split_ranges t (rd_sensitive st))\<rparr>" and i': "i' + 1 = r_end t"
    using step k(1) run(1,2) t(2) by (auto simp: tainted_step_def st4_def st3_def st0_def k_def Let_def split: prod.splits)
  have ctx3: "ctx_of st3 j = (if j = k then c @ D else [])" for j
    using m q t(1) by (auto simp: marks_def queue_ok_def k_def ctx_of_def st0_def)
  have sub: "set (rd_redacted st) \<subseteq> set (rd_redacted st3)" "rd_index st3 = rd_index st" "rd_tainted st3 = t # ts" "rd_parts st3 = rd_parts st0"
    "D \<noteq> [] \<Longrightarrow> k \<in> set (rd_redacted st3)"
    using m t(1) by (auto simp: marks_def st0_def)
  have marked: "c @ D \<noteq> [] \<Longrightarrow> k \<in> set (rd_redacted st3)" using sub(1,5) ctx(4) n t(2) by auto
  have "shows_only txt (covered sensitive) (may_hide env ranges sensitive idx sources0) 0 (rd_parts st4) (r_end t)"
    unfolding st4_def t(2) [symmetric]
  proof (rule write_tainted_shows [OF ev n(1,2) k_def])
    show "shows_only txt (covered sensitive) (may_hide env ranges sensitive idx sources0) 0 (rd_parts st3) (r_start t)"
      using loop_inv_pending [OF inv] sub(4) t(2) by (simp add: st0_def)
    show "0 \<le> r_start t" using inv t(2) by (simp add: loop_inv_def)
    show "sources_rel sources0 (rd_redacted st3) (rd_sources st3)" by (rule marks_rel [OF m])
    show "ctx_of st3 k \<noteq> [] \<or> isSensibleSource env (sources0 ! k) \<Longrightarrow> k \<in> set (rd_redacted st3)"
      using marked sensible by (auto simp: ctx3)
    show "cuts 0 (r_end t - r_start t) (ctx_of st3 k)" using ctx(3) n t(2) by (simp add: ctx3)
    show "\<forall>x. 0 \<le> x \<and> x < r_end t - r_start t \<longrightarrow>
        (covered sensitive (r_start t + x) \<longleftrightarrow> (\<exists>d \<in> set (ctx_of st3 k). inside d x))"
      using ctx(5) n(5) unfolding ctx3 t(2) by simp
  qed (rule n(5,6))+
  moreover have "queue_ok txt sensitive idx (r_end t) st' [] 0"
  proof -
    have "ctx_of st' j = []" for j using write_tainted_fields(5) marked ctx3 by (auto simp: st' st4_def ctx_of_def [of "_\<lparr>rd_start := _\<rparr>"] ctx_of_def)
    then show ?thesis
      using q ctx(1,2) n t(2) split_chain [OF ch ib] split_covered(2) [OF ch ib] by (auto simp: queue_ok_def st')
  qed
  moreover have st'_fields: "rd_start st' = r_end t" "rd_index st' = Suc (rd_index st)" "rd_tainted st' = ts" "rd_parts st' = rd_parts st4"
      "rd_redacted st' = rd_redacted st3" "rd_sources st' = rd_sources st3"
    using sub by (simp_all add: st' st4_def write_tainted_fields)
  moreover have "idx ! j \<in> set (rd_redacted st3)"
    if "j < Suc (rd_index st)" "inside (ranges ! j) p" "covered sensitive p \<or> isSensibleSource env (sources0 ! (idx ! j))" for j p
  proof (cases "j = rd_index st")
    case True
    have "covered sensitive p \<Longrightarrow> c @ D \<noteq> []" using ctx(5) [rule_format, of "p - i"] that(2) True n t(2) by (auto simp: inside_def)
    then show ?thesis using True marked sensible that(3) by (auto simp: k_def)
  next
    case False
    then have "j < rd_index st" using that(1) by simp
    then have "idx ! j \<in> set (rd_redacted st)" using inv that(2,3) unfolding loop_inv_def by blast
    then show ?thesis using sub(1) by blast
  qed
  moreover have "0 \<le> r_end t" using inv n by (simp add: loop_inv_def)
  ultimately show "loop_inv env txt ranges sensitive idx sources0 (i' + 1) st'"
    unfolding i' using n marks_rel [OF m] by (intro loop_invI) auto
  show "i \<le> i'" using i' n t(2) by simp
qed

end
