(* ===== verification/EvidenceReport.thy ===== *)
theory EvidenceReport
  imports EvidenceRedactionLaws
begin

text \<open>
  The loop of the redaction ends with its invariant; the report of several vulnerabilities, which share
  a list of sources, reveals nothing that is sensitive. Two places where the code falls short: texts
  that differ from the value of their source, and the state that a pattern keeps.
\<close>

subsection \<open>One evidence\<close>

lemma redaction_step_inv:
  assumes ev: "evidence_ok txt ranges sensitive idx sources0" and inv: "loop_inv env txt ranges sensitive idx sources0 i st"
    and i: "i < int (length txt)" and step: "redaction_step env txt idx i st = (st', i')"
  shows "loop_inv env txt ranges sensitive idx sources0 (i' + 1) st' \<and> i \<le> i'"
proof (cases "rd_tainted st \<noteq> [] \<and> r_start (hd (rd_tainted st)) = i")
  case True
  then obtain t ts where "rd_tainted st = t # ts" "r_start t = i" by (cases "rd_tainted st") auto
  then show ?thesis using loop_inv_tainted [OF ev inv] step by (simp add: redaction_step_def)
next
  case no_tainted: False
  show ?thesis
  proof (cases "rd_sensitive st \<noteq> [] \<and> r_start (hd (rd_sensitive st)) = i")
    case True
    then obtain s ss where s: "rd_sensitive st = s # ss" "r_start s = i" by (cases "rd_sensitive st") auto
    then have step': "sensitive_step txt idx s i st = (st', i')"
      using step no_tainted by (cases "rd_tainted st") (auto simp: redaction_step_def)
    show ?thesis
    proof (cases "rd_tainted st = [] \<or> \<not> intersects s (hd (rd_tainted st))")
      case True
      then show ?thesis using loop_inv_sensitive_plain [OF inv _ s True step'] no_tainted by auto
    next
      case False
      then obtain t ts where t: "rd_tainted st = t # ts" "intersects s t" by (cases "rd_tainted st") auto
      then show ?thesis using loop_inv_sensitive_across [OF ev inv t(1) _ s _ step'] no_tainted by (auto simp: intersects_def)
    qed
  next
    case False
    then have "st' = st" "i' = i"
      using step no_tainted by (cases "rd_tainted st"; cases "rd_sensitive st"; auto simp: redaction_step_def)+
    then show ?thesis using loop_inv_skip [OF inv i] no_tainted False by auto
  qed
qed

lemma redaction_loop_inv:
  assumes ev: "evidence_ok txt ranges sensitive idx sources0"
  shows "loop_inv env txt ranges sensitive idx sources0 i st \<Longrightarrow> nat (int (length txt) - i) \<le> fuel \<Longrightarrow>
    \<exists>st'. redaction_loop fuel env txt idx i st = Some st' \<and> loop_inv env txt ranges sensitive idx sources0 (int (length txt)) st'"
proof (induction fuel arbitrary: i st)
  case 0
  then have "i = int (length txt)" by (simp add: loop_inv_def)
  then show ?case using 0 by (simp add: redaction_loop.simps)
next
  case (Suc fuel)
  show ?case
  proof (cases "int (length txt) \<le> i")
    case True
    then have "i = int (length txt)" using Suc.prems by (simp add: loop_inv_def)
    then show ?thesis using Suc.prems by (simp add: redaction_loop.simps)
  next
    case False
    obtain st' i' where step: "redaction_step env txt idx i st = (st', i')" by fastforce
    then have "loop_inv env txt ranges sensitive idx sources0 (i' + 1) st'" "i \<le> i'"
      using redaction_step_inv [OF ev Suc.prems(1)] False by auto
    then show ?thesis using Suc.IH [of "i' + 1" st'] Suc.prems(2) False step by (auto simp: redaction_loop.simps [of "Suc fuel"])
  qed
qed

lemma redacted_json:
  assumes ev: "evidence_ok txt ranges sensitive idx sources0"
  shows "\<exists>parts redacted sources. toRedactedJson env txt ranges sensitive idx sources0 = Some (parts, redacted, sources) \<and>
    shows_only txt (covered sensitive) (may_hide env ranges sensitive idx sources0) 0 parts (int (length txt)) \<and>
    sources_rel sources0 redacted sources \<and>
    (\<forall>j < length ranges. \<forall>p. inside (ranges ! j) p \<and> (covered sensitive p \<or> isSensibleSource env (sources0 ! (idx ! j))) \<longrightarrow>
       idx ! j \<in> set redacted)"
proof -
  let ?n = "int (length txt)"
  define st0 where "st0 = \<lparr>rd_parts = [], rd_redacted = [], rd_context = [], rd_sources = sources0, rd_start = 0, rd_index = 0,
     rd_source = None, rd_tainted = ranges, rd_sensitive = sensitive\<rparr>"
  have "queue_ok txt sensitive idx 0 st0 [] 0"
    using ev covered_chain [of 0 ?n sensitive] by (auto simp: queue_ok_def st0_def ctx_of_def evidence_ok_def)
  then have "loop_inv env txt ranges sensitive idx sources0 0 st0"
    using ev by (intro loop_invI) (auto simp: st0_def sources_rel_def evidence_ok_def)
  then obtain st where st: "redaction_loop (length txt + length ranges + 2 * length sensitive) env txt idx 0 st0 = Some st"
      and inv: "loop_inv env txt ranges sensitive idx sources0 ?n st"
    using redaction_loop_inv [OF ev] by (metis (no_types, lifting) add.assoc diff_zero le_add1 nat_int)
  have "rd_tainted st = []" using inv by (cases "rd_tainted st") (auto simp: loop_inv_def)
  then have all: "rd_index st = length ranges" using inv by (simp add: loop_inv_def)
  define parts where "parts = (if rd_start st < ?n then writeValuePart (js_slice txt (rd_start st) ?n) None (rd_parts st) else rd_parts st)"
  have "shows_only txt (covered sensitive) (may_hide env ranges sensitive idx sources0) 0 parts ?n"
    using loop_inv_pending [OF inv] inv by (auto simp: parts_def loop_inv_def)
  moreover have "toRedactedJson env txt ranges sensitive idx sources0 = Some (parts, rd_redacted st, rd_sources st)"
    using st by (simp add: toRedactedJson_def st0_def parts_def)
  moreover have "sources_rel sources0 (rd_redacted st) (rd_sources st)" using inv by (simp add: loop_inv_def)
  moreover have "\<forall>j < length ranges. \<forall>p. inside (ranges ! j) p \<and> (covered sensitive p \<or> isSensibleSource env (sources0 ! (idx ! j))) \<longrightarrow>
       idx ! j \<in> set (rd_redacted st)"
    using inv unfolding loop_inv_def all by blast
  ultimately show ?thesis by blast
qed

subsection \<open>Sources of a report\<close>

text \<open>A source of the report has lost its value exactly if it is marked.\<close>

definition deleted_marked :: "iast_source list \<Rightarrow> bool" where
  "deleted_marked sources \<longleftrightarrow> (\<forall>s \<in> set sources. so_redacted s \<longleftrightarrow> so_value s = None)"

definition no_sensible :: "redaction_env \<Rightarrow> iast_source list \<Rightarrow> bool" where
  "no_sensible env sources \<longleftrightarrow> (\<forall>s \<in> set sources. so_value s \<noteq> None \<longrightarrow> \<not> isSensibleSource env s)"

lemma find_source_bound: "find_source s es \<le> length es \<and> (find_source s es < length es \<longrightarrow> same_source s (es ! find_source s es))"
  by (induction es) auto

lemma add_sources_spec:
  assumes "\<forall>s \<in> set ss. \<not> so_redacted s \<and> so_value s \<noteq> None" "deleted_marked sources" "add_sources ss sources = (ks, sources')"
  shows "length ks = length ss \<and> (\<exists>ext. sources' = sources @ ext) \<and> deleted_marked sources' \<and>
    (\<forall>i < length sources'. i < length sources \<or> i \<in> set ks) \<and>
    (\<forall>j < length ss. ks ! j < length sources' \<and> same_source (ss ! j) (sources' ! (ks ! j)))"
  using assms
proof (induction ss arbitrary: sources ks)
  case Nil
  then show ?case by auto
next
  case (Cons s ss)
  define k where "k = find_source s sources"
  define mid where "mid = (if k = length sources then sources @ [s] else sources)"
  obtain ks' where rest: "add_sources ss mid = (ks', sources')" and ks: "ks = k # ks'"
    using Cons.prems(3) by (auto simp: k_def [symmetric] mid_def [symmetric] Let_def split: prod.splits)
  have "deleted_marked mid" using Cons.prems(1,2) by (auto simp: mid_def deleted_marked_def)
  then have IH: "length ks' = length ss \<and> (\<exists>ext. sources' = mid @ ext) \<and> deleted_marked sources' \<and>
      (\<forall>i < length sources'. i < length mid \<or> i \<in> set ks') \<and>
      (\<forall>j < length ss. ks' ! j < length sources' \<and> same_source (ss ! j) (sources' ! (ks' ! j)))"
    using Cons.IH [OF _ _ rest] Cons.prems(1) by simp
  have at: "k < length mid" "same_source s (mid ! k)"
    using find_source_bound [of s sources] by (auto simp: k_def mid_def same_source_def)
  then have "k < length sources'" "same_source s (sources' ! k)" using IH by (auto simp: nth_append)
  moreover have "\<exists>ext. sources' = sources @ ext" using IH by (auto simp: mid_def split: if_splits)
  moreover have "i < length sources \<or> i \<in> set ks" if "i < length sources'" for i
    using IH that by (auto simp: mid_def ks split: if_splits)
  ultimately show ?case using IH by (auto simp: ks nth_Cons split: nat.splits)
qed

lemma fold_oversized:
  assumes "\<forall>k \<in> set ks. k < length sources0 \<and> \<not> so_redacted (sources0 ! k)" "sources_rel sources0 redacted sources"
  shows "\<exists>redacted' sources'. fold oversized_source ks (redacted, sources) = (redacted', sources') \<and>
    sources_rel sources0 redacted' sources' \<and> set redacted' = set redacted \<union> set ks"
  using assms
proof (induction ks arbitrary: redacted sources)
  case (Cons k ks)
  obtain r2 s2 where step: "oversized_source k (redacted, sources) = (r2, s2)" by fastforce
  then have "sources_rel sources0 r2 s2" "set r2 = insert k (set redacted)"
    using Cons.prems sources_rel_at(3) [OF Cons.prems(2), of k]
    by (auto simp: oversized_source_def sources_rel_def nth_list_update split: if_splits)
  then show ?case using Cons.IH [of r2 s2] Cons.prems(1) step by auto
qed simp

lemma fold_delete:
  "length (fold delete_value ks sources) = length sources"
  "i < length sources \<Longrightarrow> fold delete_value ks sources ! i = (if i \<in> set ks then (sources ! i)\<lparr>so_value := None\<rparr> else sources ! i)"
proof (induction ks arbitrary: sources)
  case (Cons k ks)
  {
    case 1
    show ?case using Cons.IH(1) by (simp add: delete_value_def)
  next
    case 2
    then show ?case using Cons.IH(2) [of "delete_value k sources"] by (cases "k = i") (simp_all add: delete_value_def)
  }
qed simp_all

text \<open>After redaction marked sources are without value, and with what was used no sensible one has a value.\<close>

lemma sources_after:
  assumes "sources_rel sources0 redacted sources" "deleted_marked sources0"
    and "\<And>i. i < length sources0 \<Longrightarrow> i \<notin> set redacted \<Longrightarrow> so_value (sources0 ! i) \<noteq> None \<Longrightarrow> \<not> isSensibleSource env (sources0 ! i)"
  shows "deleted_marked (fold delete_value redacted sources)" "no_sensible env (fold delete_value redacted sources)"
proof -
  have each: "fold delete_value redacted sources ! i =
      (if i \<in> set redacted then (redact_source (sources0 ! i))\<lparr>so_value := None\<rparr> else sources0 ! i)" if "i < length sources0" for i
    using assms(1) that by (auto simp: sources_rel_def fold_delete(2))
  show "deleted_marked (fold delete_value redacted sources)"
    unfolding deleted_marked_def
  proof
    fix s assume "s \<in> set (fold delete_value redacted sources)"
    then obtain i where i: "i < length sources0" "s = fold delete_value redacted sources ! i"
      using assms(1) by (auto simp: in_set_conv_nth fold_delete(1) sources_rel_def)
    then show "so_redacted s \<longleftrightarrow> so_value s = None" using each [OF i(1)] assms(2) by (auto simp: deleted_marked_def redact_source_def)
  qed
  show "no_sensible env (fold delete_value redacted sources)"
    unfolding no_sensible_def
  proof
    fix s assume "s \<in> set (fold delete_value redacted sources)"
    then obtain i where i: "i < length sources0" "s = fold delete_value redacted sources ! i"
      using assms(1) by (auto simp: in_set_conv_nth fold_delete(1) sources_rel_def)
    then show "so_value s \<noteq> None \<longrightarrow> \<not> isSensibleSource env s" using each [OF i(1)] assms(3) [OF i(1)] by auto
  qed
qed

subsection \<open>The report\<close>

definition tainted_pairs :: "vulnerability \<Rightarrow> (text_range \<times> iast_source) list" where
  "tainted_pairs v = (case vu_ranges v of None \<Rightarrow> [] | Some rs \<Rightarrow> rs)"

definition vu_sensitive :: "vulnerability \<Rightarrow> text_range list" where
  "vu_sensitive v = (case vu_analyzer v of None \<Rightarrow> [] | Some analyzer \<Rightarrow> analyzer (vu_value v) (evidence_ranges v))"

text \<open>
  There is an analyzer; ranges are in order, apart and within the text; sources are new, and the value of
  a source has its part of the text in it or is not longer than it.
\<close>

definition vulnerability_ok :: "vulnerability \<Rightarrow> bool" where
  "vulnerability_ok v \<longleftrightarrow> vu_analyzer v \<noteq> None \<and>
     chain 0 (int (length (vu_value v))) (map fst (tainted_pairs v)) \<and> chain 0 (int (length (vu_value v))) (vu_sensitive v) \<and>
     (\<forall>(r, s) \<in> set (tainted_pairs v). \<not> so_redacted s \<and> so_value s \<noteq> None \<and>
        (let pt = seg (vu_value v) (r_start r) (r_end r)
         in text_includes (source_value s) pt \<or> length (source_value s) \<le> length pt))"

definition reveals_nothing :: "redaction_env \<Rightarrow> vulnerability \<Rightarrow> evidence_out \<Rightarrow> bool" where
  "reveals_nothing env v out \<longleftrightarrow>
     (if MAX_EVIDENCE_LENGTH < length (vu_value v) then out = Parts [Redacted]
      else if vu_ranges v = None \<and> vu_sensitive v = [] then out = Plain (vu_value v)
      else \<exists>parts. out = Parts parts \<and>
        shows_only (vu_value v) (covered (vu_sensitive v))
          (\<lambda>p. covered (vu_sensitive v) p \<or> (\<exists>(r, s) \<in> set (tainted_pairs v). inside r p \<and> isSensibleSource env s))
          0 parts (int (length (vu_value v))))"

lemma same_source_facts:
  "same_source s e \<Longrightarrow> source_value e = source_value s \<and> isSensibleSource env e = isSensibleSource env s \<and> so_value e = so_value s"
  by (simp add: same_source_def source_value_def isSensibleSource_def)

lemma tainted_pairs_facts: "extractSources v = map snd (tainted_pairs v)"
  "(case evidence_ranges v of None \<Rightarrow> [] | Some rs \<Rightarrow> rs) = map fst (tainted_pairs v)" "vu_ranges v = None \<Longrightarrow> tainted_pairs v = []"
  by (auto simp: extractSources_def tainted_pairs_def evidence_ranges_def split: option.splits)

lemma report_evidence:
  assumes ok: "vulnerability_ok v" and del: "deleted_marked sources" and add: "add_sources (extractSources v) sources = (ks, sources1)"
  shows "evidence_ok (vu_value v) (map fst (tainted_pairs v)) (vu_sensitive v) ks sources1"
    and "may_hide env (map fst (tainted_pairs v)) (vu_sensitive v) ks sources1 =
      (\<lambda>p. covered (vu_sensitive v) p \<or> (\<exists>(r, s) \<in> set (tainted_pairs v). inside r p \<and> isSensibleSource env s))"
    and "\<forall>k \<in> set ks. k < length sources1 \<and> \<not> so_redacted (sources1 ! k)"
    and "\<forall>i < length sources1. i < length sources \<or> i \<in> set ks" "\<exists>ext. sources1 = sources @ ext" "deleted_marked sources1"
proof -
  let ?ps = "tainted_pairs v"
  have fresh: "\<forall>s \<in> set (extractSources v). \<not> so_redacted s \<and> so_value s \<noteq> None"
    using ok by (auto simp: vulnerability_ok_def tainted_pairs_facts)
  from add_sources_spec [OF this del add]
  have spec: "length ks = length ?ps" "deleted_marked sources1" "\<forall>i < length sources1. i < length sources \<or> i \<in> set ks"
      "\<And>j. j < length ?ps \<Longrightarrow> ks ! j < length sources1 \<and> same_source (snd (?ps ! j)) (sources1 ! (ks ! j))"
      "\<exists>ext. sources1 = sources @ ext"
    by (simp_all add: tainted_pairs_facts)
  then show "\<forall>i < length sources1. i < length sources \<or> i \<in> set ks" "\<exists>ext. sources1 = sources @ ext" "deleted_marked sources1"
    by blast+
  have pair: "\<not> so_redacted (sources1 ! (ks ! j)) \<and>
      (let x = source_value (sources1 ! (ks ! j)); pt = seg (vu_value v) (r_start (fst (?ps ! j))) (r_end (fst (?ps ! j)))
       in text_includes x pt \<or> length x \<le> length pt)" if "j < length ?ps" for j
  proof -
    have "?ps ! j \<in> set ?ps" using that by simp
    then have v: "so_value (snd (?ps ! j)) \<noteq> None"
      "let x = source_value (snd (?ps ! j)); pt = seg (vu_value v) (r_start (fst (?ps ! j))) (r_end (fst (?ps ! j)))
       in text_includes x pt \<or> length x \<le> length pt"
      using ok by (fastforce simp: vulnerability_ok_def Let_def)+
    have "sources1 ! (ks ! j) \<in> set sources1" using spec(4) [OF that] by simp
    then show ?thesis
      using v spec(2) same_source_facts [of "snd (?ps ! j)" "sources1 ! (ks ! j)"] spec(4) [OF that] by (auto simp: deleted_marked_def)
  qed
  then show "evidence_ok (vu_value v) (map fst ?ps) (vu_sensitive v) ks sources1"
    using ok spec(1,4) by (simp add: evidence_ok_def vulnerability_ok_def)
  show "\<forall>k \<in> set ks. k < length sources1 \<and> \<not> so_redacted (sources1 ! k)"
    using spec(1,4) pair by (auto simp: in_set_conv_nth)
  show "may_hide env (map fst ?ps) (vu_sensitive v) ks sources1 =
      (\<lambda>p. covered (vu_sensitive v) p \<or> (\<exists>(r, s) \<in> set ?ps. inside r p \<and> isSensibleSource env s))"
  proof
    fix p
    have "(\<exists>j < length ?ps. inside (fst (?ps ! j)) p \<and> isSensibleSource env (sources1 ! (ks ! j))) \<longleftrightarrow>
        (\<exists>j < length ?ps. inside (fst (?ps ! j)) p \<and> isSensibleSource env (snd (?ps ! j)))"
      using spec(4) same_source_facts by blast
    also have "\<dots> \<longleftrightarrow> (\<exists>(r, s) \<in> set ?ps. inside r p \<and> isSensibleSource env s)"
      by (force simp: in_set_conv_nth)
    finally show "may_hide env (map fst ?ps) (vu_sensitive v) ks sources1 p \<longleftrightarrow>
        covered (vu_sensitive v) p \<or> (\<exists>(r, s) \<in> set ?ps. inside r p \<and> isSensibleSource env s)"
      by (simp add: may_hide_def cong: conj_cong)
  qed
qed

lemma formatEvidence_ok:
  assumes ok: "vulnerability_ok v" and del: "deleted_marked sources" and sens: "no_sensible env sources"
    and add: "add_sources (extractSources v) sources = (ks, sources1)"
  shows "\<exists>out sources2. formatEvidence env True v ks sources1 = Some (out, sources2) \<and> reveals_nothing env v out \<and>
    deleted_marked sources2 \<and> no_sensible env sources2"
proof -
  obtain analyzer where a: "vu_analyzer v = Some analyzer" "vu_sensitive v = analyzer (vu_value v) (evidence_ranges v)"
    using ok by (auto simp: vulnerability_ok_def vu_sensitive_def)
  note ev = report_evidence [OF ok del add]
  have old: "\<not> isSensibleSource env (sources1 ! i)" if "i < length sources" "so_value (sources1 ! i) \<noteq> None" for i
    using ev(5) sens that by (auto simp: no_sensible_def nth_append)
  consider (large) "MAX_EVIDENCE_LENGTH < length (vu_value v)"
    | (plain) "length (vu_value v) \<le> MAX_EVIDENCE_LENGTH" "vu_ranges v = None \<and> vu_sensitive v = []"
    | (loop) "length (vu_value v) \<le> MAX_EVIDENCE_LENGTH" "\<not> (vu_ranges v = None \<and> vu_sensitive v = [])" by linarith
  then show ?thesis
  proof cases
    case large
    obtain red srcs where f: "fold oversized_source ks ([], sources1) = (red, srcs)" "sources_rel sources1 red srcs" "set red = set ks"
      using fold_oversized [OF ev(3), of "[]" sources1] by (auto simp: sources_rel_def)
    have "deleted_marked (fold delete_value red srcs)" "no_sensible env (fold delete_value red srcs)"
      using sources_after [OF f(2) ev(6)] old ev(4) f(3) by blast+
    then show ?thesis
      using large f(1) a(1) by (simp add: formatEvidence_def getRedactedValueParts_def scrubEvidence_def reveals_nothing_def)
  next
    case plain
    then have none: "evidence_ranges v = None" "extractSources v = []" by (simp_all add: evidence_ranges_def extractSources_def)
    then have "sources1 = sources" using add by simp
    then show ?thesis
      using plain a none del sens
      by (auto simp: formatEvidence_def getRedactedValueParts_def scrubEvidence_def reveals_nothing_def getUnredactedValueParts_def)
  next
    case loop
    obtain parts red srcs where r:
        "toRedactedJson env (vu_value v) (map fst (tainted_pairs v)) (vu_sensitive v) ks sources1 = Some (parts, red, srcs)"
        "shows_only (vu_value v) (covered (vu_sensitive v)) (may_hide env (map fst (tainted_pairs v)) (vu_sensitive v) ks sources1)
           0 parts (int (length (vu_value v)))"
        "sources_rel sources1 red srcs"
        "\<forall>j < length (map fst (tainted_pairs v)). \<forall>p. inside (map fst (tainted_pairs v) ! j) p \<and>
           (covered (vu_sensitive v) p \<or> isSensibleSource env (sources1 ! (ks ! j))) \<longrightarrow> ks ! j \<in> set red"
      using redacted_json [OF ev(1), of env] by blast
    have used: "\<not> isSensibleSource env (sources1 ! k)" if kk: "k \<in> set ks" "k \<notin> set red" for k
    proof -
      have "length ks = length (map fst (tainted_pairs v))" using ev(1) unfolding evidence_ok_def by blast
      moreover obtain j where "j < length ks" "k = ks ! j" using kk(1) by (auto simp: in_set_conv_nth)
      ultimately have j: "j < length (map fst (tainted_pairs v))" "k = ks ! j" by simp_all
      then have "inside (map fst (tainted_pairs v) ! j) (r_start (map fst (tainted_pairs v) ! j))"
        using ev(1) chain_nonempty nth_mem [OF j(1)] by (auto simp: inside_def evidence_ok_def)
      then show ?thesis using r(4) j kk(2) by blast
    qed
    have "deleted_marked (fold delete_value red srcs)" "no_sensible env (fold delete_value red srcs)"
      using sources_after [OF r(3) ev(6)] old used ev(4) by blast+
    moreover have "scrubEvidence env v ks sources1 = Some (Some (parts, red, srcs))"
      using loop a r(1) by (auto simp: scrubEvidence_def tainted_pairs_facts(2))
    ultimately show ?thesis
      using loop r(2) ev(2) by (auto simp: formatEvidence_def getRedactedValueParts_def reveals_nothing_def)
  qed
qed

lemma report_loop_ok:
  "\<forall>v \<in> set vs. vulnerability_ok v \<Longrightarrow> deleted_marked sources \<Longrightarrow> no_sensible env sources \<Longrightarrow>
   \<exists>outs sources'. report_loop env True vs sources = Some (outs, sources') \<and> list_all2 (reveals_nothing env) vs outs \<and>
     deleted_marked sources' \<and> no_sensible env sources'"
proof (induction vs arbitrary: sources)
  case (Cons v vs)
  obtain ks sources1 where add: "add_sources (extractSources v) sources = (ks, sources1)" by fastforce
  obtain out sources2 where f: "formatEvidence env True v ks sources1 = Some (out, sources2)" "reveals_nothing env v out"
      "deleted_marked sources2" "no_sensible env sources2"
    using formatEvidence_ok [OF _ Cons.prems(2,3) add] Cons.prems(1) by auto
  then show ?case using Cons.IH [of sources2] Cons.prems(1) add by auto
qed simp


subsection \<open>An analyzer\<close>

text \<open>The analyzer for injected code marks what is not tainted, in order.\<close>

lemma gaps_spec:
  "chain lo len rs \<Longrightarrow> 0 \<le> lo \<Longrightarrow> rs \<noteq> [] \<Longrightarrow> chain (r_end (hd rs)) len (gaps len rs) \<and>
     (covered (gaps len rs) p \<longleftrightarrow> r_end (hd rs) \<le> p \<and> p < len \<and> \<not> covered rs p)"
proof (induction rs arbitrary: lo)
  case (Cons r rs)
  then have r: "lo \<le> r_start r" "r_start r < r_end r" "r_end r \<le> len" "chain (r_end r) len rs" by simp_all
  show ?case
  proof (cases rs)
    case Nil
    then show ?thesis using r by (auto simp: inside_def)
  next
    case (Cons s ss)
    then have IH: "chain (r_end s) len (gaps len rs)" "covered (gaps len rs) p \<longleftrightarrow> r_end s \<le> p \<and> p < len \<and> \<not> covered rs p"
      using Cons.IH [OF r(4)] Cons.prems(2) r by auto
    have s: "r_end r \<le> r_start s" "r_start s < r_end s" "r_end s \<le> len" "0 < r_start s" "chain (r_end s) len ss"
      using r Cons Cons.prems(2) by auto
    have later: "covered ss p \<Longrightarrow> r_end s \<le> p" using covered_chain [OF s(5)] by blast
    have "gaps len (r # rs) = (if r_end r < r_start s then [rng (r_end r) (r_start s)] else []) @ gaps len rs"
      using Cons s(4) by (simp del: gaps.simps add: gaps.simps(2) [of len r] Let_def)
    then show ?thesis using IH s r(1,2) later Cons by (auto simp: inside_def intro: chain_lower simp del: gaps.simps)
  qed
qed simp

lemma tainted_range_based_spec:
  assumes "chain 0 (int (length txt)) rs" "rs \<noteq> []"
  shows "chain 0 (int (length txt)) (tainted_range_based txt rs)"
    and "covered (tainted_range_based txt rs) p \<longleftrightarrow> 0 \<le> p \<and> p < int (length txt) \<and> \<not> covered rs p"
proof -
  obtain r rs' where rs: "rs = r # rs'" using assms(2) by (cases rs) auto
  have r: "0 \<le> r_start r" "r_start r < r_end r" "r_end r \<le> int (length txt)" "chain (r_end r) (int (length txt)) rs'"
    using assms(1) rs by simp_all
  have later: "covered rs' p \<Longrightarrow> r_end r \<le> p" using covered_chain [OF r(4)] by blast
  note g = gaps_spec [OF assms(1) _ assms(2), of p, simplified]
  show "chain 0 (int (length txt)) (tainted_range_based txt rs)"
    using g r rs by (auto simp: tainted_range_based_def intro: chain_lower simp del: gaps.simps)
  show "covered (tainted_range_based txt rs) p \<longleftrightarrow> 0 \<le> p \<and> p < int (length txt) \<and> \<not> covered rs p"
    using g r rs later by (auto simp: tainted_range_based_def inside_def simp del: gaps.simps)
qed

subsection \<open>Where the code falls short\<close>

text \<open>
  When the source is longer than its part of the text, and does not have it in its value, the place of
  the sensitive text in the value is taken as a place in a placeholder that is as long as the part: the
  pattern is empty and the sensitive text follows in clear.
\<close>

lemma changed_text_leaks:
  "map_option fst (toRedactedJson \<lparr>rv_name = (\<lambda>_. False), rv_value = (\<lambda>_. False)\<rparr> ''Xsecret'' [rng 0 7] [rng 1 7] [0]
     [\<lparr>so_origin = [], so_name = [], so_value = Some ''another secret'', so_redacted = False, so_pattern = []\<rparr>]) =
   Some [Value ''X'' (Some 0), Pattern 0 [], Value ''secret'' (Some 0)]"
  by code_simp

text \<open>
  The analyzer of passwords continues where the pattern stopped: it does not find a password it has just
  found.
\<close>

lemma second_password_missed:
  assumes "m v 0 = Some e" "e \<le> length v" "m v e = None"
  shows "hardcoded_password_ranges m v 0 = ([rng 0 (int (length v))], e)" "fst (hardcoded_password_ranges m v e) = []"
    "fst (isSensibleValue m v e)"
  using assms by (simp_all add: hardcoded_password_ranges_def regexp_test_def isSensibleValue_def)

subsection \<open>An example\<close>

definition ex_env :: redaction_env where
  "ex_env = \<lparr>rv_name = (\<lambda>s. s = ''pw''), rv_value = (\<lambda>_. False)\<rparr>"

definition ex_vulnerability :: vulnerability where
  "ex_vulnerability = \<lparr>vu_analyzer = Some (\<lambda>_ _. [rng 2 4, rng 5 8]), vu_value = ''a bcd ef ghi'',
     vu_ranges = Some
       [(rng 3 6, \<lparr>so_origin = ''q'', so_name = ''x'', so_value = Some ''cd '', so_redacted = False, so_pattern = []\<rparr>),
        (rng 9 12, \<lparr>so_origin = ''q'', so_name = ''pw'', so_value = Some ''ghi'', so_redacted = False, so_pattern = []\<rparr>)]\<rparr>"


end
